(* ===== verification/Lvisor_Prelude.thy ===== *)
theory Lvisor_Prelude
  imports Main "HOL-Library.Word" "HOL-Library.Multiset"
begin

unbundle bit_operations_syntax

text \<open>
  Shared vocabulary of the development: the C integer types as words, the way a run of
  the program can stop (\<open>panic\<close>, \<open>BUG_ON\<close>), sequencing of fallible steps, and the generic
  facts on words and lists the component theories use.

  The lemma collections: \<open>word_nat_simps\<close> moves comparisons and sums of words to natural
  numbers, \<open>stop_simps\<close> unfolds the sequencing of fallible steps.
\<close>

named_theorems word_nat_simps \<open>reading word comparisons and arithmetic as naturals\<close>
named_theorems stop_simps \<open>unfolding of fallible steps\<close>

section \<open>C integer types\<close>

type_synonym u8 = "8 word"
type_synonym u16 = "16 word"
type_synonym u32 = "32 word"
type_synonym u64 = "64 word"

text \<open>\<open>BIT_32\<close> and \<open>BIT_64\<close> of include/io/const.h.\<close>

definition BIT_32 :: "nat \<Rightarrow> u32" where
  "BIT_32 nr = push_bit nr 1"

definition BIT_64 :: "nat \<Rightarrow> u64" where
  "BIT_64 nr = push_bit nr 1"

section \<open>Stopping\<close>

text \<open>
  \<open>panic\<close> and \<open>BUG_ON\<close> (include/sys/bug.h) never return: they print and halt the machine.
  A step that can stop returns \<open>Inl\<close> of the reason or \<open>Inr\<close> of its result.
\<close>

datatype stop = PANIC string | BUG

definition and_then :: "stop + 'a \<Rightarrow> ('a \<Rightarrow> stop + 'b) \<Rightarrow> stop + 'b" where
  "and_then r f = (case r of Inl e \<Rightarrow> Inl e | Inr x \<Rightarrow> f x)"

definition BUG_ON :: "bool \<Rightarrow> stop + unit" where
  "BUG_ON c = (if c then Inl BUG else Inr ())"

definition panic_if :: "bool \<Rightarrow> string \<Rightarrow> stop + unit" where
  "panic_if c msg = (if c then Inl (PANIC msg) else Inr ())"

fun run_steps :: "('s \<Rightarrow> stop + 's) list \<Rightarrow> 's \<Rightarrow> stop + 's" where
  "run_steps [] s = Inr s"
| "run_steps (f # fs) s = and_then (f s) (run_steps fs)"

lemma and_then_Inr [stop_simps, simp]: "and_then (Inr x) f = f x"
  by (simp add: and_then_def)

lemma and_then_Inl [stop_simps, simp]: "and_then (Inl e) f = Inl e"
  by (simp add: and_then_def)

lemma and_then_eq_Inr [stop_simps]:
  "and_then r f = Inr y \<longleftrightarrow> (\<exists>x. r = Inr x \<and> f x = Inr y)"
  by (cases r) auto

lemma BUG_ON_eq_Inr [stop_simps, simp]: "BUG_ON c = Inr u \<longleftrightarrow> \<not> c"
  by (simp add: BUG_ON_def)

lemma panic_if_eq_Inr [stop_simps, simp]: "panic_if c msg = Inr u \<longleftrightarrow> \<not> c"
  by (simp add: panic_if_def)

lemma run_steps_append: "run_steps (fs @ gs) s = and_then (run_steps fs s) (run_steps gs)"
proof (induction fs arbitrary: s)
  case (Cons f fs)
  then show ?case by (cases "f s") simp_all
qed simp

lemma run_steps_inv:
  assumes "\<And>f s s'. f \<in> set fs \<Longrightarrow> P s \<Longrightarrow> f s = Inr s' \<Longrightarrow> P s'"
    and "P s" and "run_steps fs s = Inr s'"
  shows "P s'"
  using assms
proof (induction fs arbitrary: s)
  case (Cons f fs)
  then obtain s1 where "f s = Inr s1" "run_steps fs s1 = Inr s'"
    by (auto simp: and_then_eq_Inr)
  with Cons show ?case by (metis list.set_intros)
qed simp

text \<open>\<open>returning P f\<close>: the step returns wherever \<open>P\<close> holds, and keeps \<open>P\<close>.\<close>

definition returning :: "('s \<Rightarrow> bool) \<Rightarrow> ('s \<Rightarrow> stop + 's) \<Rightarrow> bool" where
  "returning P f \<longleftrightarrow> (\<forall>s. P s \<longrightarrow> (\<exists>s'. f s = Inr s' \<and> P s'))"

lemma returning_run_steps: "list_all (returning P) fs \<Longrightarrow> returning P (run_steps fs)"
  unfolding returning_def
proof (induction fs)
  case (Cons f fs)
  show ?case
  proof (intro allI impI)
    fix s assume "P s"
    then obtain s1 where s1: "f s = Inr s1" "P s1" using Cons.prems by auto
    then obtain s2 where "run_steps fs s1 = Inr s2" "P s2" using Cons by auto
    with s1 show "\<exists>s'. run_steps (f # fs) s = Inr s' \<and> P s'" by simp
  qed
qed simp

section \<open>Words\<close>

lemmas [word_nat_simps] = word_less_nat_alt word_le_nat_alt unat_word_ariths

lemma unat_lt_pow: "unat (w :: 'a::len word) < 2 ^ LENGTH('a)"
  by simp

lemma unat_lt_64: "unat (w :: u64) < 2 ^ 64"
  using unat_lt_pow[of w] by simp

lemma bit_push_bit_1: "bit (push_bit k 1 :: 'a::len word) n \<longleftrightarrow> n = k \<and> k < LENGTH('a)"
  by (auto simp: bit_simps)

lemma bit_BIT_64: "bit (BIT_64 k) n \<longleftrightarrow> n = k \<and> k < 64"
  using bit_push_bit_1[of k n, where 'a = 64] by (simp add: BIT_64_def)

lemma bit_BIT_32: "bit (BIT_32 k) n \<longleftrightarrow> n = k \<and> k < 32"
  using bit_push_bit_1[of k n, where 'a = 32] by (simp add: BIT_32_def)

lemma word_eq_bits: "(a :: 'a::len word) = b \<longleftrightarrow> (\<forall>n<LENGTH('a). bit a n \<longleftrightarrow> bit b n)"
  by (auto intro: bit_word_eqI)

lemma and_BIT_64 [simp]: "k < 64 \<Longrightarrow> x AND BIT_64 k = 0 \<longleftrightarrow> \<not> bit x k"
  by (auto simp: word_eq_bits bit_and_iff bit_BIT_64)

lemma and_BIT_32 [simp]: "k < 32 \<Longrightarrow> x AND BIT_32 k = 0 \<longleftrightarrow> \<not> bit x k"
  by (auto simp: word_eq_bits bit_and_iff bit_BIT_32)

lemma word_nonzero_bit: "(w :: 'a::len word) \<noteq> 0 \<longleftrightarrow> (\<exists>i. bit w i)"
  by (auto simp: word_eq_bits dest: bit_imp_le_length)

text \<open>Masking with \<open>2 ^ n - 1\<close> is the remainder.\<close>

lemma unat_and_mask: "unat (w AND mask n :: 'a::len word) = unat w mod 2 ^ n"
  by (metis take_bit_eq_mask unsigned_take_bit_eq take_bit_eq_mod)

lemma unat_shift_right: "unat (drop_bit n (w :: 'a::len word)) = unat w div 2 ^ n"
  by (simp only: unat_drop_bit_eq) (simp only: drop_bit_eq_div)

lemma unat_add_no_wrap:
  fixes a b :: "'a::len word"
  assumes "a \<le> a + b"
  shows "unat (a + b) = unat a + unat b"
  using assms by (simp add: unat_plus_simple)

section \<open>Lists\<close>

lemma find_append:
  "List.find P (xs @ ys) = (case List.find P xs of None \<Rightarrow> List.find P ys | Some x \<Rightarrow> Some x)"
  by (induction xs) auto

definition swap_nth :: "'a list \<Rightarrow> nat \<Rightarrow> nat \<Rightarrow> 'a list" where
  "swap_nth xs i j = xs[i := xs ! j, j := xs ! i]"

lemma length_swap_nth [simp]: "length (swap_nth xs i j) = length xs"
  by (simp add: swap_nth_def)

lemma nth_swap_nth:
  "i < length xs \<Longrightarrow> j < length xs \<Longrightarrow>
   swap_nth xs i j ! k = (if k = j then xs ! i else if k = i then xs ! j else xs ! k)"
  by (auto simp: swap_nth_def nth_list_update)

lemma mset_swap_nth [simp]:
  "i < length xs \<Longrightarrow> j < length xs \<Longrightarrow> mset (swap_nth xs i j) = mset xs"
  by (simp add: swap_nth_def mset_swap)

end
