(* ===== verification/Find_Bit.thy ===== *)
theory Find_Bit
  imports Lvisor_Prelude
begin

text \<open>
  Bit operations on arrays of \<open>unsigned long\<close>: include/asm/bitops.h, include/sys/bitmap.h
  and lib/find_bit.c. A bitmap is the list of its 64-bit words. \<open>bm_test\<close> reads a bit of
  the bitmap the way \<open>constant_test_bit\<close> does; the searches are proved equal to a linear
  scan with \<open>bm_test\<close>. Bit numbers are \<open>nat\<close>: a bitmap of fewer than \<open>2 ^ 64 - 64\<close> bits
  never makes \<open>start + BITS_PER_LONG\<close> wrap.
\<close>

section \<open>Words\<close>

text \<open>\<open>BITS_PER_LONG\<close> is 64.\<close>

definition BITMAP_FIRST_WORD_MASK :: "nat \<Rightarrow> u64" where
  "BITMAP_FIRST_WORD_MASK start = push_bit (start mod 64) (- 1)"

definition BITMAP_LAST_WORD_MASK :: "nat \<Rightarrow> u64" where
  "BITMAP_LAST_WORD_MASK nbits = drop_bit ((64 - nbits mod 64) mod 64) (- 1)"

text \<open>
  \<open>bsf\<close> and \<open>bsr\<close> leave their destination undefined on 0; every caller tests for 0
  first. The value 64 stands for that undefined result.
\<close>

definition ffs_word :: "u64 \<Rightarrow> nat" where
  "ffs_word w = (case List.find (bit w) [0..<64] of Some i \<Rightarrow> i | None \<Rightarrow> 64)"

definition ffz_word :: "u64 \<Rightarrow> nat" where
  "ffz_word w = ffs_word (NOT w)"

definition fls_word :: "u64 \<Rightarrow> nat" where
  "fls_word w = (case List.find (bit w) (rev [0..<64]) of Some i \<Rightarrow> i | None \<Rightarrow> 64)"

section \<open>Single bits of a bitmap\<close>

definition bm_test :: "u64 list \<Rightarrow> nat \<Rightarrow> bool" where
  "bm_test addr nr = (push_bit (nr mod 64) 1 AND addr ! (nr div 64) \<noteq> 0)"

definition set_bit_bm :: "nat \<Rightarrow> u64 list \<Rightarrow> u64 list" where
  "set_bit_bm nr addr = addr[nr div 64 := set_bit (nr mod 64) (addr ! (nr div 64))]"

definition clear_bit_bm :: "nat \<Rightarrow> u64 list \<Rightarrow> u64 list" where
  "clear_bit_bm nr addr = addr[nr div 64 := unset_bit (nr mod 64) (addr ! (nr div 64))]"

section \<open>Searches\<close>

function find_next_loop :: "u64 list \<Rightarrow> nat \<Rightarrow> u64 \<Rightarrow> nat \<Rightarrow> u64 \<Rightarrow> nat" where
  "find_next_loop addr nbits invert start tmp =
     (if tmp = 0 then
        (if nbits \<le> start + 64 then nbits
         else find_next_loop addr nbits invert (start + 64) (addr ! ((start + 64) div 64) XOR invert))
      else min (start + ffs_word tmp) nbits)"
  by pat_completeness auto
termination
  by (relation "measure (\<lambda>(addr, nbits, invert, start, tmp). nbits - start)") auto

definition find_next_bit_inv :: "u64 list \<Rightarrow> nat \<Rightarrow> nat \<Rightarrow> u64 \<Rightarrow> nat" where
  "find_next_bit_inv addr nbits start invert =
     (if nbits \<le> start then nbits
      else find_next_loop addr nbits invert (start - start mod 64)
             ((addr ! (start div 64) XOR invert) AND BITMAP_FIRST_WORD_MASK start))"

definition find_next_bit :: "u64 list \<Rightarrow> nat \<Rightarrow> nat \<Rightarrow> nat" where
  "find_next_bit addr sz offset = find_next_bit_inv addr sz offset 0"

definition find_next_zero_bit :: "u64 list \<Rightarrow> nat \<Rightarrow> nat \<Rightarrow> nat" where
  "find_next_zero_bit addr sz offset = find_next_bit_inv addr sz offset (NOT 0)"

function find_first_loop :: "u64 list \<Rightarrow> nat \<Rightarrow> nat \<Rightarrow> nat" where
  "find_first_loop addr sz idx =
     (if idx * 64 < sz then
        (if addr ! idx \<noteq> 0 then min (idx * 64 + ffs_word (addr ! idx)) sz
         else find_first_loop addr sz (idx + 1))
      else sz)"
  by pat_completeness auto
termination
  by (relation "measure (\<lambda>(addr, sz, idx). sz - idx)") auto

definition find_first_bit :: "u64 list \<Rightarrow> nat \<Rightarrow> nat" where
  "find_first_bit addr sz = find_first_loop addr sz 0"

function find_first_zero_loop :: "u64 list \<Rightarrow> nat \<Rightarrow> nat \<Rightarrow> nat" where
  "find_first_zero_loop addr sz idx =
     (if idx * 64 < sz then
        (if addr ! idx \<noteq> NOT 0 then min (idx * 64 + ffz_word (addr ! idx)) sz
         else find_first_zero_loop addr sz (idx + 1))
      else sz)"
  by pat_completeness auto
termination
  by (relation "measure (\<lambda>(addr, sz, idx). sz - idx)") auto

definition find_first_zero_bit :: "u64 list \<Rightarrow> nat \<Rightarrow> nat" where
  "find_first_zero_bit addr sz = find_first_zero_loop addr sz 0"

fun find_last_loop :: "u64 list \<Rightarrow> nat \<Rightarrow> nat \<Rightarrow> u64 \<Rightarrow> nat" where
  "find_last_loop addr sz 0 val =
     (let v = val AND addr ! 0 in if v \<noteq> 0 then 0 * 64 + fls_word v else sz)"
| "find_last_loop addr sz (Suc idx) val =
     (let v = val AND addr ! Suc idx
      in if v \<noteq> 0 then Suc idx * 64 + fls_word v else find_last_loop addr sz idx (NOT 0))"

definition find_last_bit :: "u64 list \<Rightarrow> nat \<Rightarrow> nat" where
  "find_last_bit addr sz =
     (if sz \<noteq> 0 then find_last_loop addr sz ((sz - 1) div 64) (BITMAP_LAST_WORD_MASK sz)
      else sz)"

text \<open>
  The \<open>for_each_set_bit\<close> and \<open>for_each_clear_bit\<close> macros: the bits handed to a body that
  leaves the bitmap alone, in order. A loop that never ends has the value \<open>None\<close>.
\<close>

partial_function (option) for_each_bit_from :: "(nat \<Rightarrow> nat) \<Rightarrow> nat \<Rightarrow> nat \<Rightarrow> nat list option" where
  "for_each_bit_from nxt sz b =
     (if b < sz then Option.bind (for_each_bit_from nxt sz (nxt (b + 1))) (\<lambda>bs. Some (b # bs))
      else Some [])"

definition for_each_set_bit :: "u64 list \<Rightarrow> nat \<Rightarrow> nat list option" where
  "for_each_set_bit addr sz =
     for_each_bit_from (find_next_bit addr sz) sz (find_first_bit addr sz)"

definition for_each_clear_bit :: "u64 list \<Rightarrow> nat \<Rightarrow> nat list option" where
  "for_each_clear_bit addr sz =
     for_each_bit_from (find_next_zero_bit addr sz) sz (find_first_zero_bit addr sz)"

declare find_next_loop.simps [simp del] find_first_loop.simps [simp del]
  find_first_zero_loop.simps [simp del]

section \<open>Reference: a linear scan\<close>

definition next_such :: "(nat \<Rightarrow> bool) \<Rightarrow> nat \<Rightarrow> nat \<Rightarrow> nat" where
  "next_such P start n = (case List.find P [start..<n] of Some i \<Rightarrow> i | None \<Rightarrow> n)"

definition last_such :: "(nat \<Rightarrow> bool) \<Rightarrow> nat \<Rightarrow> nat \<Rightarrow> nat" where
  "last_such P n d = (case List.find P (rev [0..<n]) of Some i \<Rightarrow> i | None \<Rightarrow> d)"

lemma next_suchI:
  assumes "start \<le> r" "r < n" "P r" "\<And>i. start \<le> i \<Longrightarrow> i < r \<Longrightarrow> \<not> P i"
  shows "next_such P start n = r"
proof -
  have "List.find P [start..<n] = Some r"
    unfolding find_Some_iff using assms by (auto intro!: exI[of _ "r - start"])
  then show ?thesis by (simp add: next_such_def)
qed

lemma next_such_none:
  assumes "\<And>i. start \<le> i \<Longrightarrow> i < n \<Longrightarrow> \<not> P i"
  shows "next_such P start n = n"
proof -
  have "List.find P [start..<n] = None"
    unfolding find_None_iff using assms by auto
  then show ?thesis by (simp add: next_such_def)
qed

lemma next_such_skip:
  assumes "\<And>i. start \<le> i \<Longrightarrow> i < start' \<Longrightarrow> \<not> P i" "start \<le> start'"
  shows "next_such P start n = next_such P start' n"
proof (cases "start' < n")
  case True
  then have "[start..<n] = [start..<start'] @ [start'..<n]"
    using assms(2) by (metis le_add_diff_inverse less_imp_le upt_add_eq_append)
  moreover have "List.find P [start..<start'] = None"
    unfolding find_None_iff using assms(1) by auto
  ultimately show ?thesis
    by (simp add: next_such_def find_append)
next
  case False
  with assms have "next_such P start n = n" by (intro next_such_none) auto
  moreover from False have "next_such P start' n = n" by (intro next_such_none) auto
  ultimately show ?thesis by simp
qed

lemma next_such_cases:
  obtains (none) "next_such P s n = n" "\<And>i. s \<le> i \<Longrightarrow> i < n \<Longrightarrow> \<not> P i"
  | (hit) "s \<le> next_such P s n" "next_such P s n < n" "P (next_such P s n)"
      "\<And>i. s \<le> i \<Longrightarrow> i < next_such P s n \<Longrightarrow> \<not> P i"
proof (cases "List.find P [s..<n]")
  case None
  then have "next_such P s n = n" by (simp add: next_such_def)
  with None show ?thesis using none by (auto simp: find_None_iff)
next
  case (Some r)
  then obtain k where k: "k < n - s" "P (s + k)" "r = s + k" "\<forall>j<k. \<not> P (s + j)"
    unfolding find_Some_iff by auto
  have "next_such P s n = r" using Some by (simp add: next_such_def)
  moreover have "\<not> P i" if "s \<le> i" "i < r" for i
    using k(3,4) that by (metis add_less_imp_less_left le_add_diff_inverse)
  ultimately show ?thesis using hit k by auto
qed

lemma next_such_least: "s \<le> i \<Longrightarrow> i < n \<Longrightarrow> P i \<Longrightarrow> next_such P s n \<le> i"
  by (cases rule: next_such_cases[of P s n]) (auto simp: not_le[symmetric])

lemma for_each_next_such:
  assumes "\<And>s. nxt s = next_such P s n"
  shows "for_each_bit_from nxt n (next_such P s n) = Some (filter P [s..<n])"
proof (induction "n - s" arbitrary: s rule: less_induct)
  case less
  show ?case
  proof (cases rule: next_such_cases[of P s n])
    case none
    then have "filter P [s..<n] = []" by (auto simp: filter_empty_conv)
    with none show ?thesis by (simp add: for_each_bit_from.simps)
  next
    case hit
    let ?r = "next_such P s n"
    have "[s..<n] = [s..<?r] @ ?r # [?r + 1..<n]"
      using hit(1,2) by (metis Suc_eq_plus1 le_Suc_ex less_imp_le_nat upt_add_eq_append upt_conv_Cons)
    moreover have "filter P [s..<?r] = []" using hit(4) by (auto simp: filter_empty_conv)
    ultimately have "filter P [s..<n] = ?r # filter P [?r + 1..<n]"
      using hit(3) by simp
    moreover have "for_each_bit_from nxt n (next_such P (?r + 1) n) = Some (filter P [?r + 1..<n])"
      using hit(1,2) by (intro less) auto
    ultimately show ?thesis
      using hit(2) assms by (simp add: for_each_bit_from.simps[of nxt n ?r])
  qed
qed

lemma for_each_scan:
  assumes "\<And>s. nxt s = next_such P s n" and "b = next_such P 0 n"
  shows "for_each_bit_from nxt n b = Some (filter P [0..<n])"
  using for_each_next_such[OF assms(1), of 0] assms(2) by simp

lemma last_suchI:
  assumes "r < n" "P r" "\<And>i. r < i \<Longrightarrow> i < n \<Longrightarrow> \<not> P i"
  shows "last_such P n d = r"
proof -
  have "List.find P (rev [0..<n]) = Some r"
    unfolding find_Some_iff
  proof (intro exI[of _ "n - Suc r"] conjI allI impI)
    show "n - Suc r < length (rev [0..<n])" using assms(1) by simp
    show "P (rev [0..<n] ! (n - Suc r))" and "r = rev [0..<n] ! (n - Suc r)"
      using assms(1,2) by (simp_all add: rev_nth)
    fix j assume "j < n - Suc r"
    then show "\<not> P (rev [0..<n] ! j)" using assms(3)[of "n - Suc j"] by (simp add: rev_nth)
  qed
  then show ?thesis by (simp add: last_such_def)
qed

lemma last_such_skip:
  assumes "m \<le> n" "\<And>i. m \<le> i \<Longrightarrow> i < n \<Longrightarrow> \<not> P i"
  shows "last_such P n d = last_such P m d"
proof -
  have "rev [0..<n] = rev [m..<n] @ rev [0..<m]"
    using assms(1) by (metis le_add_diff_inverse rev_append upt_add_eq_append zero_le)
  moreover have "List.find P (rev [m..<n]) = None"
    unfolding find_None_iff using assms(2) by auto
  ultimately show ?thesis by (simp add: last_such_def find_append)
qed

lemma last_such_0 [simp]: "last_such P 0 d = d"
  by (simp add: last_such_def)

section \<open>Word searches\<close>

lemma bm_test_bit: "bm_test addr nr = bit (addr ! (nr div 64)) (nr mod 64)"
  by (simp add: bm_test_def bit_iff_and_push_bit_not_eq_0 and.commute)

lemma u64_eq_0_iff: "(w :: u64) = 0 \<longleftrightarrow> (\<forall>i < 64. \<not> bit w i)"
  by (auto intro: bit_word_eqI)

lemma ffs_word_nonzero:
  assumes "w \<noteq> 0"
  shows "ffs_word w < 64" "bit w (ffs_word w)" "i < ffs_word w \<Longrightarrow> \<not> bit w i"
proof -
  have "List.find (bit w) [0..<64] \<noteq> None"
    unfolding find_None_iff using assms by (auto simp: u64_eq_0_iff)
  then obtain k where k: "List.find (bit w) [0..<64] = Some k" by auto
  then have "ffs_word w = k" by (simp add: ffs_word_def)
  moreover from k have "k < 64" "bit w k" "\<forall>j<k. \<not> bit w j"
    unfolding find_Some_iff by auto
  ultimately show "ffs_word w < 64" "bit w (ffs_word w)" "i < ffs_word w \<Longrightarrow> \<not> bit w i"
    by auto
qed

lemma fls_word_nonzero:
  assumes "w \<noteq> 0"
  shows "fls_word w < 64" "bit w (fls_word w)" "fls_word w < i \<Longrightarrow> i < 64 \<Longrightarrow> \<not> bit w i"
proof -
  have "List.find (bit w) (rev [0..<64]) \<noteq> None"
    unfolding find_None_iff using assms by (auto simp: u64_eq_0_iff)
  then obtain k where k: "List.find (bit w) (rev [0..<64]) = Some k" by auto
  then obtain j where j: "j < 64" "bit w k" "k = 63 - j" "\<forall>l<j. \<not> bit w (63 - l)"
    unfolding find_Some_iff by (auto simp: rev_nth)
  have f: "fls_word w = k" using k by (simp add: fls_word_def)
  show "fls_word w < 64" "bit w (fls_word w)" using j f by auto
  assume "fls_word w < i" "i < 64"
  then have "63 - i < j" "63 - (63 - i) = i" using j f by auto
  then show "\<not> bit w i" using j(4) by metis
qed

lemma bit_first_mask: "j < 64 \<Longrightarrow> bit (BITMAP_FIRST_WORD_MASK start) j \<longleftrightarrow> start mod 64 \<le> j"
  by (simp add: BITMAP_FIRST_WORD_MASK_def bit_not_iff bit_mask_iff not_less)

lemma bit_last_mask:
  "0 < n \<Longrightarrow> j < 64 \<Longrightarrow> bit (BITMAP_LAST_WORD_MASK n) j \<longleftrightarrow> j \<le> (n - 1) mod 64"
proof -
  assume n: "0 < n" and j: "j < 64"
  define r where "r = (64 - n mod 64) mod 64"
  have r: "r < 64" by (simp add: r_def)
  have "(n - 1) mod 64 = 63 - r"
    using n mod_Suc[of "n - 1" 64] mod_less_divisor[of 64 "n - 1"]
    by (auto simp: r_def split: if_splits)
  moreover have "bit (BITMAP_LAST_WORD_MASK n) j \<longleftrightarrow> j < 64 - r"
    using j by (simp add: BITMAP_LAST_WORD_MASK_def bit_mask_iff flip: r_def)
  ultimately show ?thesis using r by auto
qed

section \<open>The searches are linear scans\<close>

lemma div_mod_64_word:
  fixes start :: nat
  assumes "start mod 64 = 0" "j < 64"
  shows "(start + j) div 64 = start div 64" "(start + j) mod 64 = j"
  using assms by (simp_all add: div_add1_eq mod_add_eq[symmetric])

lemma find_next_loop_scan:
  assumes "start mod 64 = 0" "start < nbits" "start \<le> s0" "s0 < start + 64"
    and "\<And>j. j < 64 \<Longrightarrow> bit tmp j \<longleftrightarrow> s0 \<le> start + j \<and> P (start + j)"
    and "\<And>i. P i \<longleftrightarrow> bit (addr ! (i div 64) XOR invert) (i mod 64)"
  shows "find_next_loop addr nbits invert start tmp = next_such P s0 nbits"
  using assms
proof (induction addr nbits invert start tmp arbitrary: s0 rule: find_next_loop.induct)
  case (1 addr nbits invert start tmp)
  note unfold = find_next_loop.simps[of addr nbits invert start tmp]
  show ?case
  proof (cases "tmp = 0")
    case zero: True
    have none: "\<not> P i" if "s0 \<le> i" "i < start + 64" for i
      using "1.prems"(3) "1.prems"(5)[of "i - start"] that zero by simp
    show ?thesis
    proof (cases "nbits \<le> start + 64")
      case True
      then have "next_such P s0 nbits = nbits" by (intro next_such_none none) auto
      with True zero show ?thesis by (subst unfold) simp
    next
      case False
      let ?s = "start + 64"
      have m: "?s mod 64 = 0" using "1.prems"(1) by simp
      have "bit (addr ! (?s div 64) XOR invert) j \<longleftrightarrow> ?s \<le> ?s + j \<and> P (?s + j)"
        if "j < 64" for j
        using "1.prems"(6)[of "?s + j"] div_mod_64_word[OF m that] by simp
      then have "find_next_loop addr nbits invert ?s (addr ! (?s div 64) XOR invert)
          = next_such P ?s nbits"
        using False zero m "1.prems"(6) by (intro "1.IH") auto
      moreover have "next_such P s0 nbits = next_such P ?s nbits"
        using none "1.prems"(4) by (intro next_such_skip) auto
      ultimately show ?thesis using False zero by (subst unfold) simp
    qed
  next
    case False
    let ?k = "ffs_word tmp"
    note k = ffs_word_nonzero[OF False]
    have hit: "s0 \<le> start + ?k" "P (start + ?k)" using k "1.prems"(5) by auto
    have miss: "\<not> P i" if "s0 \<le> i" "i < start + ?k" for i
      using k(1) k(3)[of "i - start"] "1.prems"(3) "1.prems"(5)[of "i - start"] that by simp
    have "next_such P s0 nbits = min (start + ?k) nbits"
    proof (cases "start + ?k < nbits")
      case True
      then show ?thesis using hit miss by (auto intro!: next_suchI)
    next
      case False
      then show ?thesis using miss by (auto intro!: next_such_none)
    qed
    with False show ?thesis by (subst unfold) simp
  qed
qed

lemma find_next_bit_inv_scan:
  assumes "\<And>i. P i \<longleftrightarrow> bit (addr ! (i div 64) XOR invert) (i mod 64)"
  shows "find_next_bit_inv addr nbits start invert = next_such P start nbits"
proof (cases "nbits \<le> start")
  case True
  then show ?thesis by (simp add: find_next_bit_inv_def next_such_def)
next
  case False
  let ?b = "start - start mod 64"
  have b: "?b mod 64 = 0" "?b div 64 = start div 64" "?b \<le> start" "start < ?b + 64"
    by (simp_all add: minus_mod_eq_mult_div)
  have "bit ((addr ! (start div 64) XOR invert) AND BITMAP_FIRST_WORD_MASK start) j
      \<longleftrightarrow> start \<le> ?b + j \<and> P (?b + j)" if "j < 64" for j
  proof -
    have "start \<le> ?b + j \<longleftrightarrow> start mod 64 \<le> j"
      using mod_less_eq_dividend[of start 64] by linarith
    then show ?thesis
      using div_mod_64_word[OF b(1) that] assms[of "?b + j"] b(2) bit_first_mask[OF that, of start]
      by (auto simp: bit_and_iff)
  qed
  then show ?thesis
    using False b assms
    by (simp add: find_next_bit_inv_def) (intro find_next_loop_scan, auto)
qed

lemma find_first_loop_scan:
  "find_first_loop addr sz idx = next_such (bm_test addr) (idx * 64) sz"
proof (induction addr sz idx rule: find_first_loop.induct)
  case (1 addr sz idx)
  note unfold = find_first_loop.simps[of addr sz idx]
  have P: "bm_test addr (idx * 64 + j) = bit (addr ! idx) j" if "j < 64" for j
    using that by (simp add: bm_test_bit)
  consider "sz \<le> idx * 64" | "idx * 64 < sz" "addr ! idx = 0" | "idx * 64 < sz" "addr ! idx \<noteq> 0"
    by linarith
  then show ?case
  proof cases
    case 1
    then show ?thesis by (simp add: unfold next_such_def)
  next
    case 2
    have "\<not> bm_test addr i" if "idx * 64 \<le> i" "i < (idx + 1) * 64" for i
      using P[of "i - idx * 64"] that 2 by simp
    then have "next_such (bm_test addr) (idx * 64) sz = next_such (bm_test addr) ((idx + 1) * 64) sz"
      by (intro next_such_skip) auto
    with 2 "1.IH" show ?thesis by (simp add: unfold)
  next
    case 3
    note k = ffs_word_nonzero[OF 3(2)]
    have miss: "\<not> bm_test addr i" if "idx * 64 \<le> i" "i < idx * 64 + ffs_word (addr ! idx)" for i
      using P[of "i - idx * 64"] that k(1) k(3)[of "i - idx * 64"] by simp
    have "next_such (bm_test addr) (idx * 64) sz = min (idx * 64 + ffs_word (addr ! idx)) sz"
      using miss P[OF k(1)] k(2)
      by (cases "idx * 64 + ffs_word (addr ! idx) < sz")
        (auto intro!: next_suchI next_such_none)
    with 3 show ?thesis by (simp add: unfold)
  qed
qed

lemma find_first_zero_loop_eq:
  "find_first_zero_loop addr sz idx = find_first_loop (map (\<lambda>w. NOT w) addr) sz idx"
  if "sz \<le> 64 * length addr"
  using that
proof (induction addr sz idx rule: find_first_zero_loop.induct)
  case (1 addr sz idx)
  have "idx * 64 < sz \<Longrightarrow> idx < length addr" using "1.prems" by linarith
  moreover have "w \<noteq> NOT 0 \<longleftrightarrow> NOT w \<noteq> 0" for w :: u64
    by (metis bit.double_compl)
  ultimately show ?case
    using "1.IH" "1.prems"
    by (simp add: find_first_zero_loop.simps[of addr sz idx]
        find_first_loop.simps[of "map (\<lambda>w. NOT w) addr" sz idx] ffz_word_def)
qed

lemma find_last_word:
  assumes "\<And>j. j < 64 \<Longrightarrow> bit val j \<longleftrightarrow> idx * 64 + j < tp"
    and "idx * 64 < tp" "tp \<le> idx * 64 + 64"
  shows "last_such (bm_test addr) tp d =
     (if val AND addr ! idx \<noteq> 0 then idx * 64 + fls_word (val AND addr ! idx)
      else last_such (bm_test addr) (idx * 64) d)"
proof -
  let ?v = "val AND addr ! idx"
  have P: "bit ?v j \<longleftrightarrow> idx * 64 + j < tp \<and> bm_test addr (idx * 64 + j)" if "j < 64" for j
    using that assms(1)[OF that] by (simp add: bm_test_bit bit_and_iff)
  show ?thesis
  proof (cases "?v = 0")
    case True
    have "\<not> bm_test addr i" if "idx * 64 \<le> i" "i < tp" for i
      using P[of "i - idx * 64"] that assms(3) True by simp
    with True show ?thesis using assms(2) last_such_skip[of "idx * 64" tp] by simp
  next
    case False
    note k = fls_word_nonzero[OF False]
    have "\<not> bm_test addr i" if "idx * 64 + fls_word ?v < i" "i < tp" for i
      using P[of "i - idx * 64"] k(3)[of "i - idx * 64"] that assms(3) by simp
    then have "last_such (bm_test addr) tp d = idx * 64 + fls_word ?v"
      using P[OF k(1)] k(2) by (intro last_suchI) auto
    with False show ?thesis by simp
  qed
qed

lemma find_last_loop_scan:
  assumes "\<And>j. j < 64 \<Longrightarrow> bit val j \<longleftrightarrow> idx * 64 + j < tp"
    and "idx * 64 < tp" "tp \<le> idx * 64 + 64"
  shows "find_last_loop addr n idx val = last_such (bm_test addr) tp n"
  using assms
proof (induction addr n idx val arbitrary: tp rule: find_last_loop.induct)
  case (1 addr sz val)
  then show ?case using find_last_word[of val 0 tp addr sz] by (simp add: Let_def)
next
  case (2 addr sz idx val)
  have IH: "find_last_loop addr sz idx (NOT 0) = last_such (bm_test addr) (Suc idx * 64) sz"
    if "val AND addr ! Suc idx = 0"
    using that by (intro "2.IH") auto
  show ?case
    using find_last_word[OF "2.prems", of addr sz] IH by (simp add: Let_def)
qed

lemma find_last_bit_scan: "find_last_bit addr sz = last_such (bm_test addr) sz sz"
proof (cases "sz = 0")
  case False
  let ?i = "(sz - 1) div 64"
  have sz: "sz = ?i * 64 + (sz - 1) mod 64 + 1" using False by simp
  have "bit (BITMAP_LAST_WORD_MASK sz) j \<longleftrightarrow> ?i * 64 + j < sz" if "j < 64" for j
    using bit_last_mask[of sz j] that False sz by linarith
  moreover have "?i * 64 < sz" "sz \<le> ?i * 64 + 64"
    using sz mod_less_divisor[of 64 "sz - 1"] by linarith+
  ultimately show ?thesis
    using False by (simp add: find_last_bit_def find_last_loop_scan)
qed (simp add: find_last_bit_def)

lemma find_next_bit_scan: "find_next_bit addr n s = next_such (bm_test addr) s n"
  unfolding find_next_bit_def by (rule find_next_bit_inv_scan) (simp add: bm_test_bit)

lemma find_next_zero_bit_scan:
  "find_next_zero_bit addr n s = next_such (\<lambda>i. \<not> bm_test addr i) s n"
  unfolding find_next_zero_bit_def
  by (rule find_next_bit_inv_scan) (simp add: bm_test_bit bit_not_iff)

lemma find_first_bit_scan: "find_first_bit addr n = next_such (bm_test addr) 0 n"
  by (simp add: find_first_bit_def find_first_loop_scan)

lemma next_such_cong:
  assumes "\<And>i. s \<le> i \<Longrightarrow> i < n \<Longrightarrow> P i = Q i"
  shows "next_such P s n = next_such Q s n"
proof -
  have "List.find P [s..<n] = List.find Q [s..<n]"
    by (rule find_cong) (use assms in auto)
  then show ?thesis by (simp add: next_such_def)
qed

lemma find_first_zero_bit_scan:
  "n \<le> 64 * length addr \<Longrightarrow> find_first_zero_bit addr n = next_such (\<lambda>i. \<not> bm_test addr i) 0 n"
  by (simp add: find_first_zero_bit_def find_first_zero_loop_eq find_first_loop_scan)
    (rule next_such_cong, simp add: bm_test_bit bit_not_iff)

section \<open>The interface of a bit search\<close>

text \<open>
  What a client of lib/find_bit.c relies on: the first and the next bit with a given value
  are those a linear scan finds. The set-bit and the clear-bit searches both provide it.
\<close>

locale bit_search =
  fixes valid :: "'b \<Rightarrow> nat \<Rightarrow> bool"
    and test :: "'b \<Rightarrow> nat \<Rightarrow> bool"
    and nxt :: "'b \<Rightarrow> nat \<Rightarrow> nat \<Rightarrow> nat"
    and fst_bit :: "'b \<Rightarrow> nat \<Rightarrow> nat"
  assumes nxt_scan: "valid b n \<Longrightarrow> nxt b n s = next_such (test b) s n"
    and fst_scan: "valid b n \<Longrightarrow> fst_bit b n = next_such (test b) 0 n"
begin

lemma nxt_hit: "valid b n \<Longrightarrow> s \<le> i \<Longrightarrow> i < n \<Longrightarrow> test b i \<Longrightarrow> nxt b n s \<le> i"
  using next_such_least by (simp add: nxt_scan)

lemma for_each_visits:
  "valid b n \<Longrightarrow> for_each_bit_from (nxt b n) n (fst_bit b n) = Some (filter (test b) [0..<n])"
  by (rule for_each_scan) (simp_all add: nxt_scan fst_scan)

end

interpretation set_bits: bit_search "\<lambda>addr n. n \<le> 64 * length addr" bm_test find_next_bit find_first_bit
  by unfold_locales (simp_all add: find_next_bit_scan find_first_bit_scan)

interpretation clear_bits: bit_search "\<lambda>addr n. n \<le> 64 * length addr" "\<lambda>addr i. \<not> bm_test addr i"
    find_next_zero_bit find_first_zero_bit
  by unfold_locales (simp_all add: find_next_zero_bit_scan find_first_zero_bit_scan)

section \<open>Single bits\<close>

lemma bm_test_set_bit:
  "nr < 64 * length addr \<Longrightarrow> bm_test (set_bit_bm nr addr) i \<longleftrightarrow> i = nr \<or> bm_test addr i"
  by (auto simp: bm_test_bit set_bit_bm_def nth_list_update bit_set_bit_iff)
    (metis div_mult_mod_eq)+

lemma bm_test_clear_bit:
  "nr < 64 * length addr \<Longrightarrow> bm_test (clear_bit_bm nr addr) i \<longleftrightarrow> i \<noteq> nr \<and> bm_test addr i"
  by (auto simp: bm_test_bit clear_bit_bm_def nth_list_update bit_unset_bit_iff)
    (metis div_mult_mod_eq)+

lemma length_set_bit_bm [simp]: "length (set_bit_bm nr addr) = length addr"
  by (simp add: set_bit_bm_def)

lemma length_clear_bit_bm [simp]: "length (clear_bit_bm nr addr) = length addr"
  by (simp add: clear_bit_bm_def)

section \<open>Properties\<close>

text \<open>C37: every search of lib/find_bit.c returns what a linear scan over the bits returns: the least
  (or for \<open>find_last_bit\<close> the greatest) position with the wanted value, and the size when there is
  none.\<close>

theorem searches_are_scans:
  assumes "n \<le> 64 * length addr"
  shows "find_next_bit addr n s = next_such (bm_test addr) s n \<and>
    find_next_zero_bit addr n s = next_such (\<lambda>i. \<not> bm_test addr i) s n \<and>
    find_first_bit addr n = next_such (bm_test addr) 0 n \<and>
    find_first_zero_bit addr n = next_such (\<lambda>i. \<not> bm_test addr i) 0 n \<and>
    find_last_bit addr n = last_such (bm_test addr) n n"
  using assms set_bits.nxt_scan set_bits.fst_scan clear_bits.nxt_scan clear_bits.fst_scan find_last_bit_scan by simp

theorem searches_are_scans_witness:
  "find_next_bit [0x10, 3] 128 5 = 64 \<and> find_first_zero_bit [0xf, 3] 128 = 4"
  using searches_are_scans[of 128 "[0x10, 3]" 5] searches_are_scans[of 128 "[0xf, 3]" 0]
  by (simp add: next_such_def bm_test_def upt_rec)

text \<open>The iteration macros terminate and hand the body exactly the set (or clear) bits below
  the size, in increasing order, once each.\<close>

theorem for_each_bit_visits:
  assumes "n \<le> 64 * length addr"
  shows "for_each_set_bit addr n = Some (filter (bm_test addr) [0..<n]) \<and>
    for_each_clear_bit addr n = Some (filter (\<lambda>i. \<not> bm_test addr i) [0..<n])"
  using set_bits.for_each_visits[of n addr] clear_bits.for_each_visits[of n addr] assms
  by (simp add: for_each_set_bit_def for_each_clear_bit_def)

theorem for_each_bit_visits_witness: "for_each_set_bit [0x15] 6 = Some [0, 2, 4]"
  using for_each_bit_visits[of 6 "[0x15]"] by (simp add: bm_test_def upt_rec)

end
