(* ===== verification/Memory.thy ===== *)
theory Memory
  imports Lvisor_Prelude
begin

unbundle bit_operations_syntax

text \<open>
  Byte memory of the machine, little-endian access to it, and the \<open>mem\<close> routines of
  lib/string.c. A store into memory is a new memory; addresses wrap at \<open>2 ^ 64\<close>.
  \<open>read_bytes\<close> and \<open>write_bytes\<close> are the reference the routines are compared with:
  \<open>memcpy\<close> needs its destination not to start inside its source, \<open>memmove\<close> chooses the
  direction so that it never needs that.
\<close>

section \<open>Bytes\<close>

type_synonym mem = "u64 \<Rightarrow> u8"

definition read_bytes :: "mem \<Rightarrow> u64 \<Rightarrow> nat \<Rightarrow> u8 list" where
  "read_bytes m a n = map (\<lambda>i. m (a + of_nat i)) [0..<n]"

definition write_bytes :: "mem \<Rightarrow> u64 \<Rightarrow> u8 list \<Rightarrow> mem" where
  "write_bytes m a bs = (\<lambda>x. if unat (x - a) < length bs then bs ! unat (x - a) else m x)"

lemma length_read_bytes [simp]: "length (read_bytes m a n) = n"
  by (simp add: read_bytes_def)

lemma nth_read_bytes [simp]: "i < n \<Longrightarrow> read_bytes m a n ! i = m (a + of_nat i)"
  by (simp add: read_bytes_def)

lemma read_bytes_0 [simp]: "read_bytes m a 0 = []"
  by (simp add: read_bytes_def)

lemma read_bytes_Suc: "read_bytes m a (Suc n) = m a # read_bytes m (a + 1) n"
  by (rule nth_equalityI) (auto simp: nth_Cons ac_simps split: nat.split)

lemma read_bytes_snoc: "read_bytes m a (Suc n) = read_bytes m a n @ [m (a + of_nat n)]"
  by (simp add: read_bytes_def)

lemma read_bytes_add: "read_bytes m a (n + k) = read_bytes m a n @ read_bytes m (a + of_nat n) k"
  by (induction k) (simp_all add: read_bytes_snoc ac_simps)

lemma read_bytes_cong: "(\<And>i. i < n \<Longrightarrow> m (a + of_nat i) = m' (a + of_nat i)) \<Longrightarrow> read_bytes m a n = read_bytes m' a n"
  by (simp add: read_bytes_def)

lemma write_bytes_Nil [simp]: "write_bytes m a [] = m"
  by (simp add: write_bytes_def)

lemma unat_offset [simp]: "i < 2 ^ 64 \<Longrightarrow> unat (of_nat i :: u64) = i"
  by (simp add: unat_of_nat)

lemma read_write_same:
  "length bs \<le> 2 ^ 64 \<Longrightarrow> read_bytes (write_bytes m a bs) a (length bs) = bs"
  by (rule nth_equalityI) (simp_all add: write_bytes_def)

text \<open>\<open>apart a n b k\<close>: the \<open>n\<close> bytes at \<open>a\<close> and the \<open>k\<close> bytes at \<open>b\<close> do not meet.\<close>

definition apart :: "u64 \<Rightarrow> nat \<Rightarrow> u64 \<Rightarrow> nat \<Rightarrow> bool" where
  "apart a n b k \<longleftrightarrow> n \<le> unat (b - a) \<and> k \<le> unat (a - b) \<or> n = 0 \<or> k = 0"

lemma apart_sym: "apart a n b k \<longleftrightarrow> apart b k a n"
  by (auto simp: apart_def)

lemma apart_offset:
  assumes "apart a n b k" "i < k"
  shows "n \<le> unat (b + of_nat i - a)"
proof (cases "n = 0")
  case False
  with assms have na: "n \<le> unat (b - a)" and kb: "k \<le> unat (a - b)" by (auto simp: apart_def)
  have ne: "a \<noteq> b" using kb assms(2) by auto
  have "unat (b - a) + unat (a - b) = 2 ^ 64"
    using ne unat_lt_64[of a] unat_lt_64[of b] by (auto simp: unat_sub_if' word_unat_eq_iff simp del: unsigned_less)
  then have "unat (b - a) + i < 2 ^ 64" using kb assms(2) by linarith
  moreover have "unat (of_nat i :: u64) = i" using calculation by simp
  ultimately have "unat (b - a + of_nat i) = unat (b - a) + i"
    by (simp add: unat_word_ariths)
  then show ?thesis using na by (simp add: algebra_simps)
qed simp

lemma apart_ranges:
  assumes "unat a + n \<le> unat b" "unat b + k \<le> 2 ^ 64"
  shows "apart a n b k"
  using assms by (auto simp: apart_def unat_sub_if')

lemma write_bytes_other: "length bs \<le> unat (x - a) \<Longrightarrow> write_bytes m a bs x = m x"
  by (simp add: write_bytes_def)

lemma read_write_apart:
  "apart a (length bs) b k \<Longrightarrow> read_bytes (write_bytes m a bs) b k = read_bytes m b k"
  by (rule read_bytes_cong) (simp add: write_bytes_other apart_offset)

lemma write_bytes_Cons:
  assumes "length bs < 2 ^ 64"
  shows "write_bytes m a (b # bs) = write_bytes (m(a := b)) (a + 1) bs"
proof
  fix x
  have s: "x - (a + 1) = (x - a) - 1" by simp
  show "write_bytes m a (b # bs) x = write_bytes (m(a := b)) (a + 1) bs x"
  proof (cases "x = a")
    case True
    have "unat (- 1 :: u64) = 2 ^ 64 - 1"
      by (simp add: unsigned_minus_1_eq_mask mask_eq_exp_minus_1)
    then show ?thesis using True assms by (simp add: write_bytes_def)
  next
    case False
    then have nz: "x - a \<noteq> 0" by simp
    then have u: "unat (x - (a + 1)) = unat (x - a) - 1" unfolding s by (rule unat_minus_one)
    moreover have "0 < unat (x - a)" using nz by (simp add: unat_gt_0)
    ultimately show ?thesis using False
      by (auto simp: write_bytes_def nth_Cons' simp del: unat_eq_zero)
  qed
qed

lemma write_bytes_snoc:
  assumes "length bs < 2 ^ 64"
  shows "write_bytes m a (bs @ [b]) = write_bytes (m(a + of_nat (length bs) := b)) a bs"
proof
  fix x
  have "x = a + of_nat (length bs) \<longleftrightarrow> unat (x - a) = length bs"
    using assms by (metis add_diff_cancel_left' diff_add_cancel add.commute unat_offset word_nchotomy word_unat_eq_iff)
  then show "write_bytes m a (bs @ [b]) x = write_bytes (m(a + of_nat (length bs) := b)) a bs x"
    using assms by (auto simp: write_bytes_def nth_append)
qed

section \<open>Little-endian values\<close>

fun le_word :: "u8 list \<Rightarrow> 'a::len word" where
  "le_word [] = 0"
| "le_word (b # bs) = ucast b OR push_bit 8 (le_word bs)"

fun le_bytes :: "nat \<Rightarrow> 'a::len word \<Rightarrow> u8 list" where
  "le_bytes 0 w = []"
| "le_bytes (Suc n) w = ucast w # le_bytes n (drop_bit 8 w)"

lemma length_le_bytes [simp]: "length (le_bytes n w) = n"
  by (induction n w rule: le_bytes.induct) simp_all

lemma bit_le_word:
  "bit (le_word bs :: 'a::len word) i \<longleftrightarrow>
   i < LENGTH('a) \<and> i div 8 < length bs \<and> bit (bs ! (i div 8)) (i mod 8)"
proof (induction bs arbitrary: i)
  case (Cons b bs)
  show ?case
  proof (cases "i < 8")
    case True
    then show ?thesis by (auto simp: bit_simps)
  next
    case False
    have "i div 8 = Suc ((i - 8) div 8)" "i mod 8 = (i - 8) mod 8"
      using False by (simp_all add: le_div_geq le_mod_geq)
    then show ?thesis using False Cons[of "i - 8"] bit_imp_le_length[of b i]
      by (auto simp: bit_simps)
  qed
qed simp

lemma nth_le_bytes: "i < n \<Longrightarrow> le_bytes n w ! i = ucast (drop_bit (8 * i) w)"
proof (induction n w arbitrary: i rule: le_bytes.induct)
  case (2 n w)
  then show ?case by (cases i) (simp_all add: drop_bit_drop_bit ac_simps)
qed simp

lemma le_word_bytes:
  assumes "LENGTH('a::len) \<le> 8 * n"
  shows "(le_word (le_bytes n w) :: 'a word) = w"
proof (rule bit_word_eqI)
  fix i assume i: "i < LENGTH('a)"
  then have "i div 8 < n" using assms by auto
  moreover have "8 * (i div 8) + i mod 8 = i" by simp
  ultimately show "bit (le_word (le_bytes n w) :: 'a word) i = bit w i"
    using i by (simp add: bit_le_word nth_le_bytes bit_simps)
qed

lemma le_bytes_word:
  assumes "8 * length bs \<le> LENGTH('a::len)"
  shows "le_bytes (length bs) (le_word bs :: 'a word) = bs"
proof (rule nth_equalityI)
  fix i assume "i < length (le_bytes (length bs) (le_word bs :: 'a word))"
  then have i: "i < length bs" by simp
  show "le_bytes (length bs) (le_word bs :: 'a word) ! i = bs ! i"
  proof (rule bit_word_eqI)
    fix k assume k: "k < LENGTH(8)"
    then have "(8 * i + k) div 8 = i" "(8 * i + k) mod 8 = k" by auto
    moreover have "8 * i + k < LENGTH('a)" using i k assms by (simp add: less_le_trans[of _ "8 * Suc i"])
    ultimately show "bit (le_bytes (length bs) (le_word bs :: 'a word) ! i) k = bit (bs ! i) k"
      using i k by (simp add: nth_le_bytes bit_simps bit_le_word)
  qed
qed simp

definition read32 :: "mem \<Rightarrow> u64 \<Rightarrow> u32" where
  "read32 m a = le_word (read_bytes m a 4)"

definition read64 :: "mem \<Rightarrow> u64 \<Rightarrow> u64" where
  "read64 m a = le_word (read_bytes m a 8)"

definition write32 :: "mem \<Rightarrow> u64 \<Rightarrow> u32 \<Rightarrow> mem" where
  "write32 m a v = write_bytes m a (le_bytes 4 v)"

definition write64 :: "mem \<Rightarrow> u64 \<Rightarrow> u64 \<Rightarrow> mem" where
  "write64 m a v = write_bytes m a (le_bytes 8 v)"

lemma read32_write32_same [simp]: "read32 (write32 m a v) a = v"
  using read_write_same[of "le_bytes 4 v" m a]
  by (simp add: read32_def write32_def le_word_bytes del: le_bytes.simps)

lemma read64_write64_same [simp]: "read64 (write64 m a v) a = v"
  using read_write_same[of "le_bytes 8 v" m a]
  by (simp add: read64_def write64_def le_word_bytes del: le_bytes.simps)

lemma read64_write64_apart: "apart a 8 b 8 \<Longrightarrow> read64 (write64 m a v) b = read64 m b"
  by (simp add: read64_def write64_def read_write_apart)

lemma read32_write32_apart: "apart a 4 b 4 \<Longrightarrow> read32 (write32 m a v) b = read32 m b"
  by (simp add: read32_def write32_def read_write_apart)

section \<open>The mem routines of lib/string.c\<close>

text \<open>Counts are natural numbers: the loops count a \<open>size_t\<close> down to zero.\<close>

fun memcpy_loop :: "mem \<Rightarrow> u64 \<Rightarrow> u64 \<Rightarrow> nat \<Rightarrow> mem" where
  "memcpy_loop m tmp s 0 = m"
| "memcpy_loop m tmp s (Suc cnt) = memcpy_loop (m(tmp := m s)) (tmp + 1) (s + 1) cnt"

definition memcpy :: "mem \<Rightarrow> u64 \<Rightarrow> u64 \<Rightarrow> u64 \<Rightarrow> mem" where
  "memcpy m dest src cnt = memcpy_loop m dest src (unat cnt)"

fun memmove_down :: "mem \<Rightarrow> u64 \<Rightarrow> u64 \<Rightarrow> nat \<Rightarrow> mem" where
  "memmove_down m tmp s 0 = m"
| "memmove_down m tmp s (Suc cnt) = memmove_down (m(tmp - 1 := m (s - 1))) (tmp - 1) (s - 1) cnt"

definition memmove :: "mem \<Rightarrow> u64 \<Rightarrow> u64 \<Rightarrow> u64 \<Rightarrow> mem" where
  "memmove m dest src cnt =
     (if dest \<le> src then memcpy_loop m dest src (unat cnt)
      else memmove_down m (dest + cnt) (src + cnt) (unat cnt))"

fun memset_loop :: "mem \<Rightarrow> u64 \<Rightarrow> u8 \<Rightarrow> nat \<Rightarrow> mem" where
  "memset_loop m xs c 0 = m"
| "memset_loop m xs c (Suc cnt) = memset_loop (m(xs := c)) (xs + 1) c cnt"

definition memset :: "mem \<Rightarrow> u64 \<Rightarrow> u32 \<Rightarrow> u64 \<Rightarrow> mem" where
  "memset m s c cnt = memset_loop m s (ucast c) (unat cnt)"

definition memzero_explicit :: "mem \<Rightarrow> u64 \<Rightarrow> u64 \<Rightarrow> mem" where
  "memzero_explicit m s cnt = memset m s 0 cnt"

text \<open>\<open>rep stosq\<close> with the direction flag clear.\<close>

fun memset64 :: "mem \<Rightarrow> u64 \<Rightarrow> u64 \<Rightarrow> nat \<Rightarrow> mem" where
  "memset64 m s v 0 = m"
| "memset64 m s v (Suc n) = memset64 (write64 m s v) (s + 8) v n"

fun memcmp_loop :: "mem \<Rightarrow> u64 \<Rightarrow> u64 \<Rightarrow> nat \<Rightarrow> int" where
  "memcmp_loop m su1 su2 0 = 0"
| "memcmp_loop m su1 su2 (Suc cnt) =
     (let res = int (unat (m su1)) - int (unat (m su2))
      in if res \<noteq> 0 then res else memcmp_loop m (su1 + 1) (su2 + 1) cnt)"

definition memcmp :: "mem \<Rightarrow> u64 \<Rightarrow> u64 \<Rightarrow> u64 \<Rightarrow> int" where
  "memcmp m cs ct cnt = memcmp_loop m cs ct (unat cnt)"

function memfind64_loop :: "mem \<Rightarrow> u64 \<Rightarrow> u64 \<Rightarrow> nat \<Rightarrow> nat \<Rightarrow> nat" where
  "memfind64_loop m s v n i =
     (if i < n \<and> read64 m (s + 8 * of_nat i) \<noteq> v then memfind64_loop m s v n (i + 1) else i)"
  by pat_completeness auto
termination by (relation "measure (\<lambda>(m, s, v, n, i). n - i)") auto

declare memfind64_loop.simps [simp del]

definition memfind64 :: "mem \<Rightarrow> u64 \<Rightarrow> u64 \<Rightarrow> u64 \<Rightarrow> nat" where
  "memfind64 m s v n = memfind64_loop m s v (unat n) 0"

section \<open>Correctness of the mem routines\<close>

lemma read_bytes_upd_other:
  "(\<And>i. i < n \<Longrightarrow> a + of_nat i \<noteq> x) \<Longrightarrow> read_bytes (m(x := b)) a n = read_bytes m a n"
  by (rule read_bytes_cong) auto

text \<open>
  Copying upwards is right unless the destination starts strictly inside the source, copying
  downwards is right unless the source starts strictly inside the destination.
\<close>

lemma memcpy_loop_write:
  "n < 2 ^ 64 \<Longrightarrow> d = s \<or> n \<le> unat (d - s) \<Longrightarrow> memcpy_loop m d s n = write_bytes m d (read_bytes m s n)"
proof (induction m d s n rule: memcpy_loop.induct)
  case (2 m d s n)
  have "read_bytes (m(d := m s)) (s + 1) n = read_bytes m (s + 1) n"
  proof (rule read_bytes_upd_other)
    fix i assume i: "i < n"
    show "s + 1 + of_nat i \<noteq> d"
    proof
      assume "s + 1 + of_nat i = d"
      then have "d - s = of_nat (Suc i)" by auto
      moreover from this have "unat (d - s) = Suc i" using i 2(2) unat_offset[of "Suc i"] by simp
      ultimately show False using 2(2,3) i by auto
    qed
  qed
  with 2 show ?case by (auto simp: read_bytes_Suc write_bytes_Cons simp del: fun_upd_apply simp flip: fun_upd_def)
qed simp

lemma memmove_down_write:
  "n < 2 ^ 64 \<Longrightarrow> d = s \<or> n \<le> unat (s - d) \<Longrightarrow>
   memmove_down m (d + of_nat n) (s + of_nat n) n = write_bytes m d (read_bytes m s n)"
proof (induction n arbitrary: m)
  case (Suc n)
  let ?m = "m(d + of_nat n := m (s + of_nat n))"
  have "read_bytes ?m s n = read_bytes m s n"
  proof (rule read_bytes_upd_other)
    fix i assume i: "i < n"
    show "s + of_nat i \<noteq> d + of_nat n"
    proof
      assume eq: "s + of_nat i = d + of_nat n"
      then have "s - d = of_nat n - of_nat i" by (simp add: algebra_simps)
      then have e: "s - d = of_nat (n - i)" using i by (simp add: of_nat_diff)
      then have "unat (s - d) = n - i" using i Suc.prems(1) unat_offset[of "n - i"] by simp
      then show False using Suc.prems i by auto
    qed
  qed
  then have "memmove_down m (d + of_nat (Suc n)) (s + of_nat (Suc n)) (Suc n)
      = write_bytes ?m d (read_bytes m s n)"
    using Suc.IH[of ?m] Suc.prems by (auto simp flip: fun_upd_def)
  then show ?case using Suc.prems by (simp add: read_bytes_snoc write_bytes_snoc)
qed simp

lemma memset_loop_write:
  "n < 2 ^ 64 \<Longrightarrow> memset_loop m a c n = write_bytes m a (replicate n c)"
  by (induction m a c n rule: memset_loop.induct) (simp_all add: write_bytes_Cons)

lemma memmove_write:
  assumes "unat dest + unat cnt \<le> 2 ^ 64" "unat src + unat cnt \<le> 2 ^ 64"
  shows "memmove m dest src cnt = write_bytes m dest (read_bytes m src (unat cnt))"
proof (cases "dest \<le> src")
  case True
  then have "dest = src \<or> unat cnt \<le> unat (dest - src)"
    using assms by (cases "dest = src") (auto simp: word_le_nat_alt unat_sub_if' word_unat_eq_iff)
  then show ?thesis using True unat_lt_64[of cnt] by (simp add: memmove_def memcpy_loop_write)
next
  case False
  have "dest = src \<or> unat cnt \<le> unat (src - dest)"
    using False assms by (auto simp: word_le_nat_alt unat_sub_if')
  then show ?thesis using False memmove_down_write[of "unat cnt" dest src m] unat_lt_64[of cnt]
    by (simp add: memmove_def)
qed

lemma memcpy_write:
  assumes "apart src (unat cnt) dest (unat cnt)"
  shows "memcpy m dest src cnt = write_bytes m dest (read_bytes m src (unat cnt))"
  using assms unat_lt_64[of cnt]
  by (auto simp: memcpy_def apart_def intro!: memcpy_loop_write)

text \<open>The sign of \<open>memcmp\<close> is the lexicographic order of the two areas; zero is equality.\<close>

lemma memcmp_loop_eq: "memcmp_loop m a b n = 0 \<longleftrightarrow> read_bytes m a n = read_bytes m b n"
  by (induction m a b n rule: memcmp_loop.induct) (auto simp: read_bytes_Suc Let_def word_uint_eq_iff)

lemma memcmp_loop_first_difference:
  "memcmp_loop m a b n \<noteq> 0 \<Longrightarrow>
   \<exists>k<n. read_bytes m a k = read_bytes m b k \<and> m (a + of_nat k) \<noteq> m (b + of_nat k) \<and>
      memcmp_loop m a b n = int (unat (m (a + of_nat k))) - int (unat (m (b + of_nat k)))"
proof (induction m a b n rule: memcmp_loop.induct)
  case (2 m a b n)
  show ?case
  proof (cases "m a = m b")
    case False
    then show ?thesis by (intro exI[of _ 0]) (auto simp: Let_def word_uint_eq_iff)
  next
    case True
    then obtain k where "k < n" "read_bytes m (a + 1) k = read_bytes m (b + 1) k"
      "m (a + 1 + of_nat k) \<noteq> m (b + 1 + of_nat k)"
      "memcmp_loop m (a + 1) (b + 1) n = int (unat (m (a + 1 + of_nat k))) - int (unat (m (b + 1 + of_nat k)))"
      using 2 by auto
    then show ?thesis using True by (intro exI[of _ "Suc k"]) (auto simp: read_bytes_Suc ac_simps)
  qed
qed simp

lemma memfind64_loop_least:
  "i \<le> n \<Longrightarrow> memfind64_loop m s v n i \<le> n \<and> i \<le> memfind64_loop m s v n i \<and>
   (\<forall>j. i \<le> j \<longrightarrow> j < memfind64_loop m s v n i \<longrightarrow> read64 m (s + 8 * of_nat j) \<noteq> v) \<and>
   (memfind64_loop m s v n i < n \<longrightarrow> read64 m (s + 8 * of_nat (memfind64_loop m s v n i)) = v)"
proof (induction m s v n i rule: memfind64_loop.induct)
  case (1 m s v n i)
  show ?case
  proof (cases "i < n \<and> read64 m (s + 8 * of_nat i) \<noteq> v")
    case True
    then have "memfind64_loop m s v n i = memfind64_loop m s v n (i + 1)"
      by (subst memfind64_loop.simps) simp
    moreover have "j = i \<or> i + 1 \<le> j" if "i \<le> j" for j using that by auto
    moreover note 1(1)[OF True]
    ultimately show ?thesis using True by (metis Suc_eq_plus1 Suc_leI Suc_leD)
  next
    case False
    then have "memfind64_loop m s v n i = i" by (subst memfind64_loop.simps) auto
    then show ?thesis using False 1(2) by auto
  qed
qed

section \<open>Properties\<close>

text \<open>\<open>memmove\<close> copies correctly however the two areas overlap: afterwards the destination
  holds what the source held before, and every other byte is unchanged.\<close>

theorem memmove_copies:
  assumes "unat dest + unat cnt \<le> 2 ^ 64" "unat src + unat cnt \<le> 2 ^ 64"
  shows "read_bytes (memmove m dest src cnt) dest (unat cnt) = read_bytes m src (unat cnt) \<and>
    (\<forall>x. unat cnt \<le> unat (x - dest) \<longrightarrow> memmove m dest src cnt x = m x)"
  using memmove_write[OF assms, of m] read_write_same[of "read_bytes m src (unat cnt)" m dest] unat_lt_64[of cnt]
  by (simp add: write_bytes_other)

theorem memmove_copies_witness:
  "read_bytes (memmove (\<lambda>x. ucast x) 0x1002 0x1000 4) 0x1002 4 = [0, 1, 2, 3]"
  using memmove_copies[of "0x1002" 4 "0x1000" "\<lambda>x. ucast x"]
  by (simp add: read_bytes_def upt_rec)

text \<open>\<open>memcmp\<close> returns 0 exactly for equal areas, and otherwise the difference, as unsigned
  bytes, at the first position where they differ.\<close>

theorem memcmp_compares:
  "(memcmp m a b cnt = 0 \<longleftrightarrow> read_bytes m a (unat cnt) = read_bytes m b (unat cnt)) \<and>
   (memcmp m a b cnt \<noteq> 0 \<longrightarrow>
     (\<exists>k<unat cnt. read_bytes m a k = read_bytes m b k \<and>
        memcmp m a b cnt = int (unat (m (a + of_nat k))) - int (unat (m (b + of_nat k)))))"
  using memcmp_loop_eq[of m a b "unat cnt"] memcmp_loop_first_difference[of m a b "unat cnt"] by (auto simp: memcmp_def)

theorem memcmp_compares_witness: "memcmp (\<lambda>_. 7) 1 2 3 = 0"
  using memcmp_compares[of "\<lambda>_. 7" 1 2 3] by (simp add: read_bytes_def)

end
