(* ===== verification/Sort.thy ===== *)
theory Sort
  imports Memory
begin

unbundle bit_operations_syntax

text \<open>
  lib/sort.c: the in-place heapsort. The C routine works on untyped memory through byte
  offsets scaled by the element size and calls back into \<open>cmp_func\<close> and \<open>swap_func\<close>; so
  does \<open>sort_mem\<close>, over any memory type \<open>'m\<close>. The loops are partial functions: with
  \<open>size = 0\<close> the C loops never end, and the model's value is then \<open>None\<close>.
  \<open>hsort\<close> is the same heapsort on a list of elements with unscaled indices. The locale
  \<open>sort_memory\<close> states what the two callbacks promise; under it \<open>sort_mem\<close> terminates
  and computes \<open>hsort\<close>. The locale \<open>comparator\<close> states what a comparison promises; under
  it \<open>hsort\<close> yields a sorted permutation.
\<close>

section \<open>The routine\<close>

text \<open>
  Offsets are \<open>int\<close>, as in the C code; \<open>size\<close> is a \<open>size_t\<close>, so every sum and comparison
  that mixes the two is done on 64-bit unsigned words and, when stored, cut back to
  \<open>int\<close> by \<open>c_int\<close>. A callback gets the byte offsets of its two elements.
\<close>

definition c_int :: "u64 \<Rightarrow> int" where
  "c_int x = sint (ucast x :: u32)"

partial_function (option) sift_mem ::
  "('m \<Rightarrow> int \<Rightarrow> int \<Rightarrow> int) \<Rightarrow> ('m \<Rightarrow> int \<Rightarrow> int \<Rightarrow> 'm) \<Rightarrow> u64 \<Rightarrow> int \<Rightarrow> int \<Rightarrow> 'm \<Rightarrow> 'm option" where
  "sift_mem cmp swap sz n r m =
     (if word_of_int (r * 2) + sz < word_of_int n then
        let c = c_int (word_of_int (r * 2) + sz);
            c = (if word_of_int c < word_of_int n - sz \<and> cmp m c (c + uint sz) < 0
                 then c_int (word_of_int c + sz) else c)
        in if cmp m r c \<ge> 0 then Some m
           else sift_mem cmp swap sz n c (swap m r c)
      else Some m)"

partial_function (option) heapify_mem ::
  "('m \<Rightarrow> int \<Rightarrow> int \<Rightarrow> int) \<Rightarrow> ('m \<Rightarrow> int \<Rightarrow> int \<Rightarrow> 'm) \<Rightarrow> u64 \<Rightarrow> int \<Rightarrow> int \<Rightarrow> 'm \<Rightarrow> 'm option" where
  "heapify_mem cmp swap sz n i m =
     (if i \<ge> 0 then
        Option.bind (sift_mem cmp swap sz n i m) (heapify_mem cmp swap sz n (c_int (word_of_int i - sz)))
      else Some m)"

partial_function (option) extract_mem ::
  "('m \<Rightarrow> int \<Rightarrow> int \<Rightarrow> int) \<Rightarrow> ('m \<Rightarrow> int \<Rightarrow> int \<Rightarrow> 'm) \<Rightarrow> u64 \<Rightarrow> int \<Rightarrow> 'm \<Rightarrow> 'm option" where
  "extract_mem cmp swap sz i m =
     (if i > 0 then
        Option.bind (sift_mem cmp swap sz i 0 (swap m 0 i))
          (extract_mem cmp swap sz (c_int (word_of_int i - sz)))
      else Some m)"

definition sort_mem ::
  "('m \<Rightarrow> int \<Rightarrow> int \<Rightarrow> int) \<Rightarrow> ('m \<Rightarrow> int \<Rightarrow> int \<Rightarrow> 'm) \<Rightarrow> u64 \<Rightarrow> u64 \<Rightarrow> 'm \<Rightarrow> 'm option" where
  "sort_mem cmp swap num sz m =
     (let i = c_int ((num div 2 - 1) * sz);
          n = c_int (num * sz)
      in Option.bind (heapify_mem cmp swap sz n i m)
           (extract_mem cmp swap sz (c_int (word_of_int n - sz))))"

text \<open>Whatever every swap keeps, \<open>sort\<close> keeps.\<close>

lemma sift_mem_invariant:
  assumes "sift_mem cmp swap sz n r m = Some m'" "\<forall>m i j. Q m \<longrightarrow> Q (swap m i j)" "Q m"
  shows "Q m'"
proof -
  have "(\<forall>m i j. Q m \<longrightarrow> Q (swap m i j)) \<longrightarrow> Q m \<longrightarrow> Q m'"
    by (rule sift_mem.raw_induct[where P = "\<lambda>cmp swap sz n r m m'. (\<forall>m i j. Q m \<longrightarrow> Q (swap m i j)) \<longrightarrow> Q m \<longrightarrow> Q m'",
          OF _ assms(1)]) (auto simp: Let_def split: if_splits)
  with assms(2,3) show ?thesis by blast
qed

lemma heapify_mem_invariant:
  assumes "heapify_mem cmp swap sz n i m = Some m'" "\<forall>m i j. Q m \<longrightarrow> Q (swap m i j)" "Q m"
  shows "Q m'"
proof -
  have "(\<forall>m i j. Q m \<longrightarrow> Q (swap m i j)) \<longrightarrow> Q m \<longrightarrow> Q m'"
    by (rule heapify_mem.raw_induct[where P = "\<lambda>cmp swap sz n i m m'. (\<forall>m i j. Q m \<longrightarrow> Q (swap m i j)) \<longrightarrow> Q m \<longrightarrow> Q m'",
          OF _ assms(1)]) (auto simp: bind_eq_Some_conv dest: sift_mem_invariant[where Q = Q] split: if_splits)
  with assms(2,3) show ?thesis by blast
qed

lemma extract_mem_invariant:
  assumes "extract_mem cmp swap sz i m = Some m'" "\<forall>m i j. Q m \<longrightarrow> Q (swap m i j)" "Q m"
  shows "Q m'"
proof -
  have "(\<forall>m i j. Q m \<longrightarrow> Q (swap m i j)) \<longrightarrow> Q m \<longrightarrow> Q m'"
    by (rule extract_mem.raw_induct[where P = "\<lambda>cmp swap sz i m m'. (\<forall>m i j. Q m \<longrightarrow> Q (swap m i j)) \<longrightarrow> Q m \<longrightarrow> Q m'",
          OF _ assms(1)]) (auto simp: bind_eq_Some_conv dest: sift_mem_invariant[where Q = Q] split: if_splits)
  with assms(2,3) show ?thesis by blast
qed

lemma sort_mem_invariant:
  assumes "sort_mem cmp swap num sz m = Some m'" "\<And>m i j. Q m \<Longrightarrow> Q (swap m i j)" "Q m"
  shows "Q m'"
  using assms heapify_mem_invariant[where Q = Q and swap = swap] extract_mem_invariant[where Q = Q and swap = swap]
  unfolding sort_mem_def Let_def bind_eq_Some_conv by blast

text \<open>In range the mixed arithmetic is the one on integers.\<close>

lemma c_int_word_of_int:
  assumes "- (2 ^ 31) \<le> x" "x < 2 ^ 31"
  shows "c_int (word_of_int x) = x"
proof -
  have "ucast (word_of_int x :: u64) = (word_of_int x :: u32)"
    by (rule bit_word_eqI) (simp add: bit_simps)
  then show ?thesis using assms
    by (simp add: c_int_def sint_sbintrunc' signed_take_bit_int_eq_self)
qed

lemma c_int_small: "- (2 ^ 30) \<le> x \<Longrightarrow> x \<le> 2 ^ 30 \<Longrightarrow> c_int (word_of_int x) = x"
  by (rule c_int_word_of_int) simp_all

lemma word_of_int_less_int:
  "0 \<le> a \<Longrightarrow> a < 2 ^ 64 \<Longrightarrow> 0 \<le> b \<Longrightarrow> b < 2 ^ 64 \<Longrightarrow>
   (word_of_int a :: u64) < word_of_int b \<longleftrightarrow> a < b"
  by (simp add: word_of_int_less_iff take_bit_int_eq_self)

lemma word_of_int_plus_word: "word_of_int a + (s :: u64) = word_of_int (a + uint s)"
  by simp

lemma word_of_int_minus_word: "word_of_int a - (s :: u64) = word_of_int (a - uint s)"
  by simp

lemmas mixed_arith = word_of_int_plus_word word_of_int_minus_word

lemma sift_mem_in_range:
  assumes "0 \<le> r" "r < 2 ^ 30" "0 \<le> n" "n \<le> 2 ^ 30" "uint sz \<le> 2 ^ 30" "uint sz \<le> n"
  shows "sift_mem cmp swap sz n r m =
     (if r * 2 + uint sz < n then
        let c = r * 2 + uint sz;
            c = (if c < n - uint sz \<and> cmp m c (c + uint sz) < 0 then c + uint sz else c)
        in if cmp m r c \<ge> 0 then Some m else sift_mem cmp swap sz n c (swap m r c)
      else Some m)"
proof -
  define S where "S = uint sz"
  let ?c = "r * 2 + S"
  have s: "0 \<le> S" "S \<le> 2 ^ 30" "S \<le> n" using assms(5,6) by (simp_all add: S_def)
  have g: "(word_of_int ?c :: u64) < word_of_int n \<longleftrightarrow> ?c < n"
    using assms(1-4) s by (intro word_of_int_less_int) auto
  have cc: "?c < n \<Longrightarrow> c_int (word_of_int ?c) = ?c"
    using assms(1-4) s by (intro c_int_word_of_int) auto
  have g2: "(word_of_int ?c :: u64) < word_of_int (n - S) \<longleftrightarrow> ?c < n - S"
    using assms(1-4) s by (intro word_of_int_less_int) auto
  have cc2: "?c < n \<Longrightarrow> c_int (word_of_int (?c + S)) = ?c + S"
    using assms(1-4) s by (intro c_int_word_of_int) auto
  show ?thesis
    by (subst sift_mem.simps) (simp only: mixed_arith S_def[symmetric] g cc cc2 g2 Let_def cong: if_cong)
qed

section \<open>Reference: heapsort on a list\<close>

definition big_child :: "('a \<Rightarrow> 'a \<Rightarrow> int) \<Rightarrow> nat \<Rightarrow> nat \<Rightarrow> 'a list \<Rightarrow> nat" where
  "big_child ecmp n r xs =
     (let c = 2 * r + 1
      in if c < n - 1 \<and> ecmp (xs ! c) (xs ! (c + 1)) < 0 then c + 1 else c)"

lemma big_child_cases:
  assumes "2 * r + 1 < n"
  shows "big_child ecmp n r xs = 2 * r + 1 \<or> big_child ecmp n r xs = 2 * r + 2"
    and "big_child ecmp n r xs < n" and "r < big_child ecmp n r xs"
  using assms by (auto simp: big_child_def Let_def)

function hsift :: "('a \<Rightarrow> 'a \<Rightarrow> int) \<Rightarrow> nat \<Rightarrow> nat \<Rightarrow> 'a list \<Rightarrow> 'a list" where
  "hsift ecmp n r xs =
     (if 2 * r + 1 < n \<and> ecmp (xs ! r) (xs ! big_child ecmp n r xs) < 0
      then hsift ecmp n (big_child ecmp n r xs) (swap_nth xs r (big_child ecmp n r xs))
      else xs)"
  by pat_completeness auto
termination
proof (relation "measure (\<lambda>(ecmp, n, r, xs). n - r)", goal_cases)
  case (2 ecmp n r xs)
  then show ?case using big_child_cases[of r n ecmp xs] by auto
qed simp

declare hsift.simps [simp del]

fun hheapify :: "('a \<Rightarrow> 'a \<Rightarrow> int) \<Rightarrow> nat \<Rightarrow> nat \<Rightarrow> 'a list \<Rightarrow> 'a list" where
  "hheapify ecmp n 0 xs = xs"
| "hheapify ecmp n (Suc k) xs = hheapify ecmp n k (hsift ecmp n k xs)"

fun hextract :: "('a \<Rightarrow> 'a \<Rightarrow> int) \<Rightarrow> nat \<Rightarrow> 'a list \<Rightarrow> 'a list" where
  "hextract ecmp 0 xs = xs"
| "hextract ecmp (Suc k) xs = hextract ecmp k (hsift ecmp (Suc k) 0 (swap_nth xs 0 (Suc k)))"

definition hsort :: "('a \<Rightarrow> 'a \<Rightarrow> int) \<Rightarrow> 'a list \<Rightarrow> 'a list" where
  "hsort ecmp xs =
     hextract ecmp (length xs - 1) (hheapify ecmp (length xs) (length xs div 2) xs)"

lemma hsift_induct [case_names stop swap]:
  assumes stop: "\<And>r xs. \<not> (2 * r + 1 < n \<and> ecmp (xs ! r) (xs ! big_child ecmp n r xs) < 0) \<Longrightarrow> P r xs xs"
    and swap: "\<And>r xs ys c. 2 * r + 1 < n \<Longrightarrow> c = big_child ecmp n r xs \<Longrightarrow> ecmp (xs ! r) (xs ! c) < 0 \<Longrightarrow>
      c = 2 * r + 1 \<or> c = 2 * r + 2 \<Longrightarrow> c < n \<Longrightarrow> P c (swap_nth xs r c) ys \<Longrightarrow> P r xs ys"
  shows "P r xs (hsift ecmp n r xs)"
  using assms
proof (induction ecmp n r xs rule: hsift.induct)
  case (1 ecmp n r xs)
  show ?case
  proof (cases "2 * r + 1 < n \<and> ecmp (xs ! r) (xs ! big_child ecmp n r xs) < 0")
    case True
    then have "P (big_child ecmp n r xs) (swap_nth xs r (big_child ecmp n r xs))
      (hsift ecmp n (big_child ecmp n r xs) (swap_nth xs r (big_child ecmp n r xs)))"
      using 1 by blast
    with True show ?thesis
      using "1.prems"(2) big_child_cases[of r n ecmp xs] by (subst hsift.simps) auto
  next
    case False
    then show ?thesis using "1.prems"(1) by (subst hsift.simps) auto
  qed
qed

lemma hsift_length [simp]: "length (hsift ecmp n r xs) = length xs"
  by (rule hsift_induct[where P = "\<lambda>r xs ys. length ys = length xs"]) auto

lemma hsift_mset: "n \<le> length xs \<Longrightarrow> mset (hsift ecmp n r xs) = mset xs"
  by (rule hsift_induct[where P = "\<lambda>r xs ys. n \<le> length xs \<longrightarrow> mset ys = mset xs", THEN mp]) auto

lemma hsift_nth_beyond: "n \<le> length xs \<Longrightarrow> n \<le> j \<Longrightarrow> hsift ecmp n r xs ! j = xs ! j"
  by (rule hsift_induct[where P = "\<lambda>r xs ys. n \<le> length xs \<longrightarrow> ys ! j = xs ! j", THEN mp])
    (auto simp: nth_swap_nth)

lemma hsift_drop: "n \<le> length xs \<Longrightarrow> drop n (hsift ecmp n r xs) = drop n xs"
  by (rule nth_equalityI) (auto simp: hsift_nth_beyond)

lemma hsift_take_mset: "n \<le> length xs \<Longrightarrow> mset (take n (hsift ecmp n r xs)) = mset (take n xs)"
proof -
  assume n: "n \<le> length xs"
  let ?ys = "hsift ecmp n r xs"
  have "mset (take n ?ys) + mset (drop n ?ys) = mset (take n xs) + mset (drop n xs)"
    using hsift_mset[OF n, of ecmp r] by (simp flip: mset_append)
  then show ?thesis by (simp add: hsift_drop[OF n])
qed

lemma hheapify_length [simp]: "length (hheapify ecmp n k xs) = length xs"
  by (induction ecmp n k xs rule: hheapify.induct) simp_all

lemma hheapify_mset: "n \<le> length xs \<Longrightarrow> mset (hheapify ecmp n k xs) = mset xs"
  by (induction ecmp n k xs rule: hheapify.induct) (simp_all add: hsift_mset)

lemma hextract_length [simp]: "length (hextract ecmp k xs) = length xs"
  by (induction ecmp k xs rule: hextract.induct) simp_all

lemma hextract_mset: "k < length xs \<Longrightarrow> mset (hextract ecmp k xs) = mset xs"
proof (induction ecmp k xs rule: hextract.induct)
  case (2 ecmp k xs)
  then show ?case by (subst hextract.simps) (simp add: hsift_mset flip: length_greater_0_conv)
qed simp

lemma hsort_mset: "mset (hsort ecmp xs) = mset xs"
  by (cases "xs = []") (simp_all add: hsort_def hextract_mset hheapify_mset)

lemma hsort_length [simp]: "length (hsort ecmp xs) = length xs"
  by (simp add: hsort_def)

section \<open>The comparison contract\<close>

locale comparator =
  fixes ecmp :: "'a \<Rightarrow> 'a \<Rightarrow> int"
  assumes cmp_sign: "ecmp a b < 0 \<longleftrightarrow> 0 < ecmp b a"
    and cmp_trans: "0 \<le> ecmp a b \<Longrightarrow> 0 \<le> ecmp b c \<Longrightarrow> 0 \<le> ecmp a c"
begin

definition heap_from :: "nat \<Rightarrow> nat \<Rightarrow> 'a list \<Rightarrow> bool" where
  "heap_from k n xs \<longleftrightarrow>
     (\<forall>p c. k \<le> p \<longrightarrow> c = 2 * p + 1 \<or> c = 2 * p + 2 \<longrightarrow> c < n \<longrightarrow> 0 \<le> ecmp (xs ! p) (xs ! c))"

definition heap_but :: "nat \<Rightarrow> nat \<Rightarrow> nat \<Rightarrow> 'a list \<Rightarrow> bool" where
  "heap_but k n r xs \<longleftrightarrow>
     (\<forall>p c. k \<le> p \<longrightarrow> p \<noteq> r \<longrightarrow> c = 2 * p + 1 \<or> c = 2 * p + 2 \<longrightarrow> c < n \<longrightarrow> 0 \<le> ecmp (xs ! p) (xs ! c)) \<and>
     (\<forall>q c. k \<le> q \<longrightarrow> r = 2 * q + 1 \<or> r = 2 * q + 2 \<longrightarrow> c = 2 * r + 1 \<or> c = 2 * r + 2 \<longrightarrow> c < n \<longrightarrow>
        0 \<le> ecmp (xs ! q) (xs ! c))"

lemma cmp_refl [simp]: "ecmp a a = 0"
  using cmp_sign[of a a] by linarith

lemma cmp_ge_le: "0 \<le> ecmp a b \<longleftrightarrow> ecmp b a \<le> 0"
  using cmp_sign[of a b] by linarith

lemma heap_fromD:
  "heap_from k n xs \<Longrightarrow> k \<le> p \<Longrightarrow> c = 2 * p + 1 \<or> c = 2 * p + 2 \<Longrightarrow> c < n \<Longrightarrow> 0 \<le> ecmp (xs ! p) (xs ! c)"
  by (auto simp: heap_from_def)

lemma heap_but_close:
  assumes "heap_but k n r xs"
    and "\<And>c. c = 2 * r + 1 \<or> c = 2 * r + 2 \<Longrightarrow> c < n \<Longrightarrow> 0 \<le> ecmp (xs ! r) (xs ! c)"
  shows "heap_from k n xs"
  using assms unfolding heap_but_def heap_from_def by metis

text \<open>Moving the larger child up moves the exception down one level.\<close>

lemma heap_but_swap:
  assumes hb: "heap_but k n r xs" and k: "k \<le> r" and n: "n \<le> length xs"
    and c: "c = 2 * r + 1 \<or> c = 2 * r + 2" "c < n"
    and larger: "\<And>d. d = 2 * r + 1 \<or> d = 2 * r + 2 \<Longrightarrow> d < n \<Longrightarrow> 0 \<le> ecmp (xs ! c) (xs ! d)"
    and less: "ecmp (xs ! r) (xs ! c) < 0"
  shows "heap_but k n c (swap_nth xs r c)"
proof -
  have rc: "r < length xs" "c < length xs" "r \<noteq> c" using c n by auto
  note sw = nth_swap_nth[OF rc(1,2)]
  have A: "0 \<le> ecmp (swap_nth xs r c ! p) (swap_nth xs r c ! d)"
    if p: "k \<le> p" "p \<noteq> c" and d: "d = 2 * p + 1 \<or> d = 2 * p + 2" "d < n" for p d
  proof (cases "p = r")
    case True
    then show ?thesis using larger[OF _ d(2)] d less rc(3) by (auto simp: sw cmp_ge_le)
  next
    case False
    then have dc: "d \<noteq> c" using c(1) d(1) by auto
    show ?thesis
    proof (cases "d = r")
      case True
      with hb p(1) c d(1) have "0 \<le> ecmp (xs ! p) (xs ! c)" unfolding heap_but_def by blast
      with True False p(2) rc(3) show ?thesis by (auto simp: sw)
    next
      case False
      with hb p \<open>p \<noteq> r\<close> d have "0 \<le> ecmp (xs ! p) (xs ! d)" unfolding heap_but_def by blast
      with False \<open>p \<noteq> r\<close> p(2) dc show ?thesis by (simp add: sw)
    qed
  qed
  have B: "0 \<le> ecmp (swap_nth xs r c ! q) (swap_nth xs r c ! d)"
    if q: "k \<le> q" "c = 2 * q + 1 \<or> c = 2 * q + 2" and d: "d = 2 * c + 1 \<or> d = 2 * c + 2" "d < n" for q d
  proof -
    have "q = r" using q(2) c(1) by auto
    moreover have "d \<noteq> r" "d \<noteq> c" using d(1) c(1) by auto
    moreover have "k \<le> c" using k c(1) by auto
    then have "0 \<le> ecmp (xs ! c) (xs ! d)"
      using hb rc(3) d unfolding heap_but_def by blast
    ultimately show ?thesis using rc(3) by (simp add: sw)
  qed
  show ?thesis unfolding heap_but_def using A B by blast
qed

lemma big_child_larger:
  "2 * r + 1 < n \<Longrightarrow> d = 2 * r + 1 \<or> d = 2 * r + 2 \<Longrightarrow> d < n \<Longrightarrow>
   0 \<le> ecmp (xs ! big_child ecmp n r xs) (xs ! d)"
  using cmp_sign[of "xs ! (2 * r + 1)" "xs ! (2 * r + 2)"]
    cmp_ge_le[of "xs ! (2 * r + 1)" "xs ! (2 * r + 2)"]
  by (auto simp: big_child_def Let_def not_less)

lemma hsift_heap:
  assumes "heap_but k n r xs" "k \<le> r" "n \<le> length xs"
  shows "heap_from k n (hsift ecmp n r xs)"
proof -
  have "heap_but k n r xs \<longrightarrow> k \<le> r \<longrightarrow> n \<le> length xs \<longrightarrow> heap_from k n (hsift ecmp n r xs)"
  proof (rule hsift_induct[where P = "\<lambda>r xs ys. heap_but k n r xs \<longrightarrow> k \<le> r \<longrightarrow> n \<le> length xs \<longrightarrow>
        heap_from k n ys"], intro impI)
    fix r xs
    assume stop: "\<not> (2 * r + 1 < n \<and> ecmp (xs ! r) (xs ! big_child ecmp n r xs) < 0)"
      and hb: "heap_but k n r xs"
    show "heap_from k n xs"
    proof (rule heap_but_close[OF hb])
      fix c assume c: "c = 2 * r + 1 \<or> c = 2 * r + 2" "c < n"
      then have "2 * r + 1 < n" by auto
      with stop have "0 \<le> ecmp (xs ! r) (xs ! big_child ecmp n r xs)" by auto
      then show "0 \<le> ecmp (xs ! r) (xs ! c)"
        using big_child_larger[OF \<open>2 * r + 1 < n\<close> c] by (rule cmp_trans)
    qed
  next
    fix r xs ys c
    assume *: "2 * r + 1 < n" "c = big_child ecmp n r xs" "ecmp (xs ! r) (xs ! c) < 0"
      "c = 2 * r + 1 \<or> c = 2 * r + 2" "c < n"
      "heap_but k n c (swap_nth xs r c) \<longrightarrow> k \<le> c \<longrightarrow> n \<le> length (swap_nth xs r c) \<longrightarrow> heap_from k n ys"
    show "heap_but k n r xs \<longrightarrow> k \<le> r \<longrightarrow> n \<le> length xs \<longrightarrow> heap_from k n ys"
      using * heap_but_swap[of k n r xs c] big_child_larger[OF *(1), of _ xs] by auto
  qed
  with assms show ?thesis by blast
qed

lemma hheapify_heap:
  "heap_from k n xs \<Longrightarrow> n \<le> length xs \<Longrightarrow> heap_from 0 n (hheapify ecmp n k xs)"
proof (induction k arbitrary: xs)
  case (Suc k)
  have "heap_but k n k xs"
    using Suc.prems(1) unfolding heap_but_def heap_from_def by (auto simp: Suc_le_eq)
  then have "heap_from k n (hsift ecmp n k xs)"
    using Suc.prems(2) by (intro hsift_heap) auto
  with Suc show ?case by simp
qed simp

lemma heap_root_max:
  assumes "heap_from 0 n xs" "j < n"
  shows "0 \<le> ecmp (xs ! 0) (xs ! j)"
  using assms(2)
proof (induction j rule: less_induct)
  case (less j)
  show ?case
  proof (cases j)
    case (Suc i)
    let ?p = "i div 2"
    have "j = 2 * ?p + 1 \<or> j = 2 * ?p + 2" using Suc by presburger
    then have "0 \<le> ecmp (xs ! ?p) (xs ! j)"
      using heap_fromD[OF assms(1)] less.prems by blast
    moreover have "0 \<le> ecmp (xs ! 0) (xs ! ?p)"
      using Suc less.prems by (intro less.IH) auto
    ultimately show ?thesis by (blast intro: cmp_trans)
  qed simp
qed

abbreviation sorted_by :: "'a list \<Rightarrow> bool" where
  "sorted_by \<equiv> sorted_wrt (\<lambda>a b. ecmp a b \<le> 0)"

lemma hextract_step:
  fixes k xs
  defines "zs \<equiv> hsift ecmp (Suc k) 0 (swap_nth xs 0 (Suc k))"
  assumes len: "Suc k < length xs" and heap: "heap_from 0 (Suc (Suc k)) xs"
  shows "heap_from 0 (Suc k) zs"
    and "drop (Suc k) zs = xs ! 0 # drop (Suc (Suc k)) xs"
    and "set (take (Suc k) zs) \<subseteq> set (take (Suc (Suc k)) xs)"
proof -
  let ?ys = "swap_nth xs 0 (Suc k)"
  have l0: "0 < length xs" using len by auto
  note sw = nth_swap_nth[OF l0 len]
  have "heap_but 0 (Suc k) 0 ?ys"
    unfolding heap_but_def using heap_fromD[OF heap] by (auto simp: sw)
  then show "heap_from 0 (Suc k) zs" unfolding zs_def using len by (intro hsift_heap) auto
  have "drop (Suc k) zs = drop (Suc k) ?ys" unfolding zs_def using len by (simp add: hsift_drop)
  also have "\<dots> = ?ys ! Suc k # drop (Suc (Suc k)) ?ys"
    using len by (simp add: Cons_nth_drop_Suc)
  also have "drop (Suc (Suc k)) ?ys = drop (Suc (Suc k)) xs"
    by (simp add: swap_nth_def)
  finally show "drop (Suc k) zs = xs ! 0 # drop (Suc (Suc k)) xs" by (simp add: sw)
  have "set (take (Suc k) zs) = set (take (Suc k) ?ys)"
    unfolding zs_def using len by (intro mset_eq_setD hsift_take_mset) simp
  also have "\<dots> \<subseteq> set (take (Suc (Suc k)) xs)"
    using len by (auto simp: sw simp flip: nth_image)
  finally show "set (take (Suc k) zs) \<subseteq> set (take (Suc (Suc k)) xs)" .
qed

lemma hextract_sorted:
  "k < length xs \<Longrightarrow> heap_from 0 (Suc k) xs \<Longrightarrow> sorted_by (drop (Suc k) xs) \<Longrightarrow>
   (\<And>a b. a \<in> set (take (Suc k) xs) \<Longrightarrow> b \<in> set (drop (Suc k) xs) \<Longrightarrow> ecmp a b \<le> 0) \<Longrightarrow>
   sorted_by (hextract ecmp k xs)"
proof (induction k arbitrary: xs)
  case 0
  then obtain x ys where "xs = x # ys" by (cases xs) auto
  with 0 show ?case by simp
next
  case (Suc k)
  let ?zs = "hsift ecmp (Suc k) 0 (swap_nth xs 0 (Suc k))"
  note st = hextract_step[OF Suc.prems(1,2)]
  have x0: "xs ! 0 \<in> set (take (Suc (Suc k)) xs)"
    using Suc.prems(1) by (auto simp: in_set_conv_nth intro!: exI[of _ 0])
  have front: "ecmp a (xs ! 0) \<le> 0" if "a \<in> set (take (Suc (Suc k)) xs)" for a
    using that heap_root_max[OF Suc.prems(2)] by (auto simp: in_set_conv_nth cmp_ge_le)
  have "sorted_by (hextract ecmp k ?zs)"
  proof (rule Suc.IH)
    show "k < length ?zs" using Suc.prems(1) by simp
    show "heap_from 0 (Suc k) ?zs" by (rule st(1))
    show "sorted_by (drop (Suc k) ?zs)"
      using Suc.prems(3) Suc.prems(4)[OF x0] by (simp add: st(2))
    fix a b assume "a \<in> set (take (Suc k) ?zs)" "b \<in> set (drop (Suc k) ?zs)"
    then show "ecmp a b \<le> 0"
      using st(3) front Suc.prems(4)[of a b] by (auto simp: st(2))
  qed
  then show ?case by simp
qed

lemma hsort_sorted: "sorted_by (hsort ecmp xs)"
proof (cases "xs = []")
  case False
  let ?n = "length xs"
  have "heap_from (?n div 2) ?n xs" unfolding heap_from_def by auto
  then have "heap_from 0 ?n (hheapify ecmp ?n (?n div 2) xs)" by (rule hheapify_heap) simp
  with False show ?thesis
    unfolding hsort_def by (intro hextract_sorted) auto
qed (simp add: hsort_def)

end

section \<open>The contract of the callbacks\<close>

locale sort_memory =
  fixes view :: "'m \<Rightarrow> 'a list"
    and sz :: u64
    and cmp :: "'m \<Rightarrow> int \<Rightarrow> int \<Rightarrow> int"
    and swap :: "'m \<Rightarrow> int \<Rightarrow> int \<Rightarrow> 'm"
    and ecmp :: "'a \<Rightarrow> 'a \<Rightarrow> int"
  assumes sz_pos: "0 < uint sz"
    and cmp_view: "i < length (view m) \<Longrightarrow> j < length (view m) \<Longrightarrow>
      cmp m (int i * uint sz) (int j * uint sz) = ecmp (view m ! i) (view m ! j)"
    and swap_view: "i < length (view m) \<Longrightarrow> j < length (view m) \<Longrightarrow>
      view (swap m (int i * uint sz) (int j * uint sz)) = swap_nth (view m) i j"
begin

lemma scaled_less: "int a * uint sz < int b * uint sz \<longleftrightarrow> a < b"
  using sz_pos by simp

lemma scaled_nonneg [simp]: "0 \<le> int k * uint sz"
  by simp

lemma child_offset: "int r * uint sz * 2 + uint sz = int (2 * r + 1) * uint sz"
  by (simp add: algebra_simps)

lemma next_offset: "int c * uint sz + uint sz = int (c + 1) * uint sz"
  by (simp add: algebra_simps)

lemma prev_offset: "0 < n \<Longrightarrow> int n * uint sz - uint sz = int (n - 1) * uint sz"
  by (cases n) (simp_all add: algebra_simps)

lemma big_child_offset:
  assumes "2 * r + 1 < n" "n \<le> length (view m)"
  shows "(if int (2 * r + 1) * uint sz < int n * uint sz - uint sz \<and>
             cmp m (int (2 * r + 1) * uint sz) (int (2 * r + 1) * uint sz + uint sz) < 0
          then int (2 * r + 1) * uint sz + uint sz else int (2 * r + 1) * uint sz)
       = int (big_child ecmp n r (view m)) * uint sz"
proof -
  have "int (2 * r + 1) * uint sz < int n * uint sz - uint sz \<longleftrightarrow> 2 * r + 1 < n - 1"
    using assms(1) by (simp only: prev_offset scaled_less)
  moreover have "cmp m (int (2 * r + 1) * uint sz) (int (2 * r + 1) * uint sz + uint sz)
      = ecmp (view m ! (2 * r + 1)) (view m ! (2 * r + 1 + 1))" if "2 * r + 1 < n - 1"
    unfolding next_offset using that assms by (intro cmp_view) auto
  ultimately show ?thesis by (auto simp: big_child_def Let_def algebra_simps)
qed

lemma sift_mem_hsift:
  assumes "n \<le> length (view m)" "0 < n" "int n * uint sz \<le> 2 ^ 30" "int r * uint sz < 2 ^ 30"
  shows "\<exists>m'. sift_mem cmp swap sz (int n * uint sz) (int r * uint sz) m = Some m' \<and>
     view m' = hsift ecmp n r (view m)"
  using assms(1,4)
proof (induction "n - r" arbitrary: r m rule: less_induct)
  case less
  let ?S = "uint sz" and ?c = "big_child ecmp n r (view m)"
  have "1 * ?S \<le> int n * ?S" using assms(2) by (intro mult_right_mono) auto
  then have unfold: "sift_mem cmp swap sz (int n * ?S) (int r * ?S) m = (if int r * ?S * 2 + ?S < int n * ?S then
        let c = int r * ?S * 2 + ?S;
            c = (if c < int n * ?S - ?S \<and> cmp m c (c + ?S) < 0 then c + ?S else c)
        in if cmp m (int r * ?S) c \<ge> 0 then Some m else sift_mem cmp swap sz (int n * ?S) c (swap m (int r * ?S) c)
      else Some m)"
    using less.prems(2) assms(3) by (intro sift_mem_in_range) auto
  show ?case
  proof (cases "2 * r + 1 < n")
    case False
    then show ?thesis
      by (subst unfold) (simp add: child_offset scaled_less hsift.simps[of ecmp n r "view m"] del: of_nat_Suc of_nat_add)
  next
    case True
    note c = big_child_cases[OF True, of ecmp "view m"]
    have cm: "cmp m (int r * ?S) (int ?c * ?S) = ecmp (view m ! r) (view m ! ?c)"
      using c less.prems by (intro cmp_view) auto
    have eq: "sift_mem cmp swap sz (int n * ?S) (int r * ?S) m =
       (if ecmp (view m ! r) (view m ! ?c) \<ge> 0 then Some m
        else sift_mem cmp swap sz (int n * ?S) (int ?c * ?S) (swap m (int r * ?S) (int ?c * ?S)))"
      using True
      by (subst unfold) (simp only: child_offset scaled_less if_True Let_def
          big_child_offset[OF True less.prems(1)] cm)
    have sv: "view (swap m (int r * ?S) (int ?c * ?S)) = swap_nth (view m) r ?c"
      using c less.prems by (intro swap_view) auto
    have bound: "int ?c * ?S < 2 ^ 30"
      using scaled_less[of ?c n] c(2) assms(3) by linarith
    show ?thesis
    proof (cases "ecmp (view m ! r) (view m ! ?c) \<ge> 0")
      case ge: True
      with eq show ?thesis by (simp add: hsift.simps[of ecmp n r "view m"])
    next
      case lt: False
      have "\<exists>m'. sift_mem cmp swap sz (int n * ?S) (int ?c * ?S) (swap m (int r * ?S) (int ?c * ?S)) = Some m' \<and>
         view m' = hsift ecmp n ?c (view (swap m (int r * ?S) (int ?c * ?S)))"
        using c less.prems(1) bound by (intro less.hyps) (auto simp: sv)
      with lt True eq sv show ?thesis by (simp add: hsift.simps[of ecmp n r "view m"])
    qed
  qed
qed

lemma heapify_mem_hheapify:
  "n \<le> length (view m) \<Longrightarrow> int n * uint sz \<le> 2 ^ 30 \<Longrightarrow> uint sz \<le> 2 ^ 30 \<Longrightarrow> k \<le> n \<Longrightarrow>
   \<exists>m'. heapify_mem cmp swap sz (int n * uint sz) ((int k - 1) * uint sz) m = Some m' \<and>
     view m' = hheapify ecmp n k (view m)"
proof (induction k arbitrary: m)
  case 0
  then show ?case using sz_pos by (subst heapify_mem.simps) simp
next
  case (Suc k)
  have kb: "int k * uint sz < 2 ^ 30"
    using scaled_less[of k n] Suc.prems(2,4) by linarith
  obtain m1 where m1: "sift_mem cmp swap sz (int n * uint sz) (int k * uint sz) m = Some m1"
    "view m1 = hsift ecmp n k (view m)"
    using sift_mem_hsift[OF Suc.prems(1) _ Suc.prems(2) kb] Suc.prems(4) by auto
  have off: "(int (Suc k) - 1) * uint sz = int k * uint sz"
    "int k * uint sz - uint sz = (int k - 1) * uint sz"
    by (simp_all add: algebra_simps)
  have dec: "c_int (word_of_int (int k * uint sz) - sz) = (int k - 1) * uint sz"
    unfolding mixed_arith off(2)[symmetric]
    by (rule c_int_small) (use kb Suc.prems(3) sz_pos scaled_nonneg[of k] in linarith)+
  show ?case
    using Suc.IH[of m1] Suc.prems m1 sz_pos
    by (subst heapify_mem.simps) (simp only: off dec, simp)
qed

lemma extract_mem_hextract:
  "k < length (view m) \<Longrightarrow> int (Suc k) * uint sz \<le> 2 ^ 30 \<Longrightarrow>
   \<exists>m'. extract_mem cmp swap sz (int k * uint sz) m = Some m' \<and>
     view m' = hextract ecmp k (view m)"
proof (induction k arbitrary: m)
  case 0
  then show ?case by (subst extract_mem.simps) simp
next
  case (Suc k)
  let ?m0 = "swap m 0 (int (Suc k) * uint sz)"
  have v0: "view ?m0 = swap_nth (view m) 0 (Suc k)"
    using swap_view[of 0 m "Suc k"] Suc.prems by (cases "view m") auto
  have b: "int (Suc k) * uint sz \<le> 2 ^ 30"
    using scaled_less[of "Suc k" "Suc (Suc k)"] Suc.prems(2) by linarith
  obtain m1 where m1: "sift_mem cmp swap sz (int (Suc k) * uint sz) 0 ?m0 = Some m1"
    "view m1 = hsift ecmp (Suc k) 0 (view ?m0)"
    using sift_mem_hsift[of "Suc k" ?m0 0] Suc.prems v0 b by auto
  have off: "int (Suc k) * uint sz - uint sz = int k * uint sz" "0 < int (Suc k) * uint sz"
    using sz_pos by (simp_all add: algebra_simps add_pos_nonneg)
  have "int k * uint sz \<le> 2 ^ 30" using scaled_less[of k "Suc k"] b by linarith
  then have dec: "c_int (word_of_int (int (Suc k) * uint sz) - sz) = int k * uint sz"
    unfolding mixed_arith off(1)
    by (intro c_int_small) (use sz_pos scaled_nonneg[of k] in linarith)+
  show ?case
    using Suc.IH[of m1] Suc.prems m1 v0 b
    by (subst extract_mem.simps) (simp only: off(2) dec if_True, simp)
qed

lemma sort_mem_hsort:
  assumes len: "length (view m) = unat num" and small: "unat num * unat sz \<le> 2 ^ 30" and s: "unat sz \<le> 2 ^ 30"
  shows "\<exists>m'. sort_mem cmp swap num sz m = Some m' \<and> view m' = hsort ecmp (view m)"
proof -
  let ?S = "uint sz" and ?n = "unat num"
  have Sn: "?S = int (unat sz)" by simp
  have nS: "int ?n * ?S \<le> 2 ^ 30" unfolding Sn using small by (metis of_nat_le_iff of_nat_mult of_nat_numeral of_nat_power)
  have S: "?S \<le> 2 ^ 30" unfolding Sn using s by (metis of_nat_le_iff of_nat_numeral of_nat_power)
  have "num * sz = word_of_int (int ?n * ?S)" by simp
  moreover have "c_int (word_of_int (int ?n * ?S)) = int ?n * ?S"
    by (rule c_int_small) (use nS scaled_nonneg[of ?n] in linarith)+
  ultimately have n: "c_int (num * sz) = int ?n * ?S" by (simp only:)
  have "num div 2 = word_of_int (int (?n div 2))"
    by (simp add: word_arith_nat_div[of num 2])
  then have "(num div 2 - 1) * sz = word_of_int ((int (?n div 2) - 1) * ?S)" by simp
  moreover have "(int (?n div 2) - 1) * ?S \<le> int ?n * ?S"
    using sz_pos div_le_dividend[of ?n 2] by (intro mult_right_mono) linarith+
  moreover have "- ?S \<le> (int (?n div 2) - 1) * ?S" using sz_pos by (simp add: algebra_simps)
  ultimately have i: "c_int ((num div 2 - 1) * sz) = (int (?n div 2) - 1) * ?S"
    using c_int_small[of "(int (?n div 2) - 1) * ?S"] nS S by simp
  obtain m1 where m1: "heapify_mem cmp swap sz (int ?n * ?S) ((int (?n div 2) - 1) * ?S) m = Some m1"
    "view m1 = hheapify ecmp ?n (?n div 2) (view m)"
    using heapify_mem_hheapify[of ?n m "?n div 2"] len nS S by auto
  have "\<exists>m'. extract_mem cmp swap sz (c_int (word_of_int (int ?n * ?S) - sz)) m1 = Some m' \<and>
      view m' = hextract ecmp (?n - 1) (view m1)"
  proof (cases ?n)
    case 0
    have "c_int (word_of_int (int ?n * ?S) - sz) = - ?S"
      unfolding mixed_arith using 0 S sz_pos c_int_small[of "- ?S"] by simp
    then show ?thesis using 0 sz_pos by (subst extract_mem.simps) simp
  next
    case (Suc k)
    have e: "int ?n * ?S - ?S = int k * ?S" unfolding Suc by (simp add: algebra_simps)
    have "int k * ?S \<le> 2 ^ 30" using nS e sz_pos by linarith
    then have "c_int (word_of_int (int ?n * ?S) - sz) = int k * ?S"
      unfolding mixed_arith e using scaled_nonneg[of k] c_int_small[of "int k * ?S"] by linarith
    then show ?thesis
      using extract_mem_hextract[of k m1] Suc nS m1(2) len by simp
  qed
  with m1 show ?thesis by (auto simp: sort_mem_def n i hsort_def len Let_def)
qed

end

section \<open>Swapping and sorting arrays in byte memory\<close>

definition alignment_ok :: "u64 \<Rightarrow> u64 \<Rightarrow> bool" where
  "alignment_ok base align \<longleftrightarrow> base AND (align - 1) = 0"

definition u32_swap :: "mem \<Rightarrow> u64 \<Rightarrow> u64 \<Rightarrow> int \<Rightarrow> mem" where
  "u32_swap m a b sz = (let t = read32 m a; m = write32 m a (read32 m b) in write32 m b t)"

definition u64_swap :: "mem \<Rightarrow> u64 \<Rightarrow> u64 \<Rightarrow> int \<Rightarrow> mem" where
  "u64_swap m a b sz = (let t = read64 m a; m = write64 m a (read64 m b) in write64 m b t)"

function generic_swap :: "mem \<Rightarrow> u64 \<Rightarrow> u64 \<Rightarrow> int \<Rightarrow> mem" where
  "generic_swap m a b sz =
     (let t = m a; m = m(a := m b); m = m(b := t)
      in if sz - 1 > 0 then generic_swap m (a + 1) (b + 1) (sz - 1) else m)"
  by pat_completeness auto
termination by (relation "measure (\<lambda>(m, a, b, sz). nat sz)") auto

declare generic_swap.simps [simp del]

definition select_swap ::
  "u64 \<Rightarrow> u64 \<Rightarrow> (mem \<Rightarrow> u64 \<Rightarrow> u64 \<Rightarrow> int \<Rightarrow> mem) option \<Rightarrow> mem \<Rightarrow> u64 \<Rightarrow> u64 \<Rightarrow> int \<Rightarrow> mem" where
  "select_swap base sz swap_func =
     (case swap_func of
        Some f \<Rightarrow> f
      | None \<Rightarrow>
          if sz = 4 \<and> alignment_ok base 4 then u32_swap
          else if sz = 8 \<and> alignment_ok base 8 then u64_swap
          else generic_swap)"

definition sort_bytes ::
  "u64 \<Rightarrow> u64 \<Rightarrow> u64 \<Rightarrow> (mem \<Rightarrow> u64 \<Rightarrow> u64 \<Rightarrow> int) \<Rightarrow> (mem \<Rightarrow> u64 \<Rightarrow> u64 \<Rightarrow> int \<Rightarrow> mem) option \<Rightarrow>
   mem \<Rightarrow> mem option" where
  "sort_bytes base num sz cmp_func swap_func =
     sort_mem (\<lambda>m i j. cmp_func m (base + word_of_int i) (base + word_of_int j))
       (\<lambda>m i j. select_swap base sz swap_func m (base + word_of_int i) (base + word_of_int j) (c_int sz))
       num sz"

text \<open>What every one of the three swap functions does.\<close>

definition block_swap :: "mem \<Rightarrow> u64 \<Rightarrow> u64 \<Rightarrow> nat \<Rightarrow> mem" where
  "block_swap m a b n = write_bytes (write_bytes m a (read_bytes m b n)) b (read_bytes m a n)"

lemma u32_swap_block: "u32_swap m a b sz = block_swap m a b 4"
  using le_bytes_word[where 'a = 32, of "read_bytes m a 4"] le_bytes_word[where 'a = 32, of "read_bytes m b 4"]
  by (simp add: u32_swap_def block_swap_def read32_def write32_def Let_def)

lemma u64_swap_block: "u64_swap m a b sz = block_swap m a b 8"
  using le_bytes_word[where 'a = 64, of "read_bytes m a 8"] le_bytes_word[where 'a = 64, of "read_bytes m b 8"]
  by (simp add: u64_swap_def block_swap_def read64_def write64_def Let_def)

lemma unat_pred: "w \<noteq> 0 \<Longrightarrow> unat (w - 1 :: u64) = unat w - 1"
  by (rule unat_minus_one)

lemma write_bytes_upd_other:
  "length bs \<le> unat (x - a) \<Longrightarrow> write_bytes (m(x := v)) a bs = (write_bytes m a bs)(x := v)"
  by (rule ext) (auto simp: write_bytes_def)

lemma read_bytes_upd_before:
  "n \<le> unat (x - a) \<Longrightarrow> n < 2 ^ 64 \<Longrightarrow> read_bytes (m(x := v)) a n = read_bytes m a n"
  by (rule read_bytes_upd_other) auto

lemma generic_swap_block:
  "0 < n \<Longrightarrow> n < 2 ^ 64 \<Longrightarrow> a = b \<or> n \<le> unat (b - a) \<and> n \<le> unat (a - b) \<Longrightarrow>
   generic_swap m a b (int n) = block_swap m a b n"
proof (induction n arbitrary: m a b)
  case (Suc n)
  let ?m1 = "m(a := m b, b := m a)"
  have unfold: "generic_swap m a b (int (Suc n)) =
      (if 0 < n then generic_swap ?m1 (a + 1) (b + 1) (int n) else ?m1)"
    by (subst generic_swap.simps) (simp add: Let_def)
  have step: "write_bytes (write_bytes ?m1 (a + 1) xs) (b + 1) ys = write_bytes (write_bytes m a (m b # xs)) b (m a # ys)"
    if "length xs = n" "length ys = n" for xs ys
  proof -
    have "length xs \<le> unat (b - (a + 1))"
    proof (cases "a = b")
      case True
      then show ?thesis using that Suc.prems(2) by (simp add: unsigned_minus_1_eq_mask mask_eq_exp_minus_1)
    next
      case False
      then show ?thesis using that Suc.prems(3) unat_pred[of "b - a"] by (auto simp: algebra_simps)
    qed
    then show ?thesis using that Suc.prems(2) by (simp add: write_bytes_Cons write_bytes_upd_other)
  qed
  have far: "n \<le> unat (x - (y + 1))" if "x \<in> {a, b}" "y \<in> {a, b}" for x y
  proof (cases "x = y")
    case True
    then show ?thesis using Suc.prems(2) by (simp add: unsigned_minus_1_eq_mask mask_eq_exp_minus_1)
  next
    case False
    then show ?thesis using that Suc.prems(3) unat_pred[of "x - y"] by (auto simp: algebra_simps)
  qed
  have rd: "read_bytes ?m1 (x + 1) n = read_bytes m (x + 1) n" if "x \<in> {a, b}" for x
    using far[of a x] far[of b x] that Suc.prems(2) by (simp add: read_bytes_upd_before)
  have bs: "block_swap ?m1 (a + 1) (b + 1) n = block_swap m a b (Suc n)"
    unfolding block_swap_def by (simp add: rd step read_bytes_Suc)
  show ?case
  proof (cases "0 < n")
    case True
    have "generic_swap ?m1 (a + 1) (b + 1) (int n) = block_swap ?m1 (a + 1) (b + 1) n"
      using Suc.prems True by (intro Suc.IH) auto
    then show ?thesis using True unfold bs by (simp del: fun_upd_apply)
  next
    case False
    then show ?thesis using unfold bs[symmetric] by (simp add: block_swap_def)
  qed
qed simp

definition blocks :: "u64 \<Rightarrow> nat \<Rightarrow> u64 \<Rightarrow> mem \<Rightarrow> u8 list list" where
  "blocks base num sz m = map (\<lambda>i. read_bytes m (base + of_nat i * sz) (unat sz)) [0..<num]"

lemma length_blocks [simp]: "length (blocks base num sz m) = num"
  by (simp add: blocks_def)

lemma nth_blocks: "i < num \<Longrightarrow> blocks base num sz m ! i = read_bytes m (base + of_nat i * sz) (unat sz)"
  by (simp add: blocks_def)

lemma block_apart:
  assumes "num * unat sz \<le> 2 ^ 30" "i < j" "j < num"
  shows "apart (base + of_nat i * sz) (unat sz) (base + of_nat j * sz) (unat sz)"
proof -
  have le: "i * unat sz + unat sz \<le> j * unat sz" "j * unat sz + unat sz \<le> num * unat sz"
    using assms(2,3) mult_le_mono1[of "Suc i" j "unat sz"] mult_le_mono1[of "Suc j" num "unat sz"] by simp_all
  have u: "unat (of_nat k * sz) = k * unat sz" if "k * unat sz \<le> 2 ^ 30" for k
    using that by (simp add: unat_word_ariths unat_of_nat mod_mult_left_eq)
  have "apart (of_nat i * sz) (unat sz) (of_nat j * sz) (unat sz)"
    using le assms(1) by (intro apart_ranges) (simp_all add: u)
  then show ?thesis by (simp add: apart_def)
qed

lemma blocks_block_swap:
  assumes room: "num * unat sz \<le> 2 ^ 30" and "i < num" "j < num"
  shows "blocks base num sz (block_swap m (base + of_nat i * sz) (base + of_nat j * sz) (unat sz))
       = swap_nth (blocks base num sz m) i j"
proof (rule nth_equalityI)
  let ?P = "\<lambda>k. base + of_nat k * sz"
  fix k assume "k < length (blocks base num sz (block_swap m (?P i) (?P j) (unat sz)))"
  then have k: "k < num" by simp
  have ap: "apart (?P x) (unat sz) (?P k) (unat sz)" if "x \<noteq> k" "x < num" for x
    using that k block_apart[OF room, of x k base] block_apart[OF room, of k x base]
    by (cases "x < k") (auto simp: apart_sym)
  have same: "read_bytes (write_bytes m' a (read_bytes m b (unat sz))) a (unat sz) = read_bytes m b (unat sz)" for m' a b
    using read_write_same[of "read_bytes m b (unat sz)" m' a] unat_lt_64[of sz]
    by (simp del: unsigned_less)
  show "blocks base num sz (block_swap m (?P i) (?P j) (unat sz)) ! k = swap_nth (blocks base num sz m) i j ! k"
    using k assms ap[of i] ap[of j]
    by (cases "k = j"; cases "k = i") (simp_all add: nth_blocks nth_swap_nth block_swap_def same read_write_apart)
qed simp

lemma select_swap_block:
  assumes "0 < unat sz" "num * unat sz \<le> 2 ^ 30" "i < num" "j < num"
  shows "select_swap base0 sz None m (base + of_nat i * sz) (base + of_nat j * sz) (c_int sz)
       = block_swap m (base + of_nat i * sz) (base + of_nat j * sz) (unat sz)"
proof -
  have "unat sz \<le> num * unat sz" using assms(3) by (cases num) auto
  then have s: "unat sz \<le> 2 ^ 30" using assms(2) by (rule order.trans)
  have "uint sz = int (unat sz)" by simp
  also have "\<dots> \<le> 2 ^ 30" using s by (metis of_nat_le_iff of_nat_numeral of_nat_power)
  finally have "c_int (word_of_int (uint sz)) = uint sz"
    by (intro c_int_small) (use uint_ge_0[of sz] in linarith)
  then have c: "c_int sz = int (unat sz)" by simp
  have "base + of_nat i * sz = base + of_nat j * sz \<or>
     unat sz \<le> unat (base + of_nat j * sz - (base + of_nat i * sz)) \<and>
     unat sz \<le> unat (base + of_nat i * sz - (base + of_nat j * sz))"
    using block_apart[OF assms(2), of i j base] block_apart[OF assms(2), of j i base] assms
    by (cases i j rule: linorder_cases) (auto simp: apart_def)
  then have "generic_swap m (base + of_nat i * sz) (base + of_nat j * sz) (c_int sz)
       = block_swap m (base + of_nat i * sz) (base + of_nat j * sz) (unat sz)"
    unfolding c using s assms(1) by (intro generic_swap_block) auto
  then show ?thesis
    by (auto simp: select_swap_def u32_swap_block u64_swap_block)
qed

text \<open>
  With no swap function of its own, \<open>sort\<close> meets the memory contract for any comparison
  that reads exactly the two elements it is given.
\<close>

lemma sort_memory_blocks:
  assumes "0 < unat sz" "num * unat sz \<le> 2 ^ 30"
    and cmp: "\<And>m a b. cmp_func m a b = ecmp (read_bytes m a (unat sz)) (read_bytes m b (unat sz))"
  shows "sort_memory (blocks base num sz) sz
     (\<lambda>m i j. cmp_func m (base + word_of_int i) (base + word_of_int j))
     (\<lambda>m i j. select_swap base sz None m (base + word_of_int i) (base + word_of_int j) (c_int sz)) ecmp"
proof (unfold_locales, goal_cases)
  case 1
  have "uint sz = int (unat sz)" by simp
  then show ?case using assms(1) by linarith
next
  case (2 i m j)
  then show ?case by (simp add: cmp nth_blocks)
next
  case (3 i m j)
  then show ?case
    using select_swap_block[OF assms(1,2), of i j base m base] blocks_block_swap[OF assms(2), of i j base m] by simp
qed


text \<open>Comparing by the first byte of an element.\<close>

definition first_byte_cmp :: "u8 list \<Rightarrow> u8 list \<Rightarrow> int" where
  "first_byte_cmp a b = int (unat (hd a)) - int (unat (hd b))"


end
