(* ===== verification/E820.thy ===== *)
theory E820
  imports Sort
begin

unbundle bit_operations_syntax

text \<open>
  kernel/e820.c: the physical memory map. The table has room for 128 entries; an entry is
  an address, a size and a numeric type (1 is usable RAM). \<open>type_at\<close> is the meaning of a
  list of entries: the highest type of the entries that cover an address, 0 where none
  does. Sanitizing (\<open>__e820_update_table\<close>) sorts the start and end points of the entries
  with \<open>sort\<close> and sweeps over them; it leaves \<open>type_at\<close> as it was while making the table
  sorted and free of overlaps. \<open>__e820_range_update\<close> changes the type of a range.
  The printing of the table is in theory Reports.
\<close>

section \<open>Data\<close>

record e820_entry =
  e_addr :: u64
  e_size :: u64
  e_type :: u32

record e820_table =
  nr_entries :: nat
  entries :: "e820_entry list"

definition E820_MAX_ENTRIES :: nat where "E820_MAX_ENTRIES = 128"

definition E820_TYPE_RAM :: u32 where "E820_TYPE_RAM = 1"
definition E820_TYPE_RESERVED :: u32 where "E820_TYPE_RESERVED = 2"

text \<open>
  Pointers to entries are indices into the table, pointers to change members indices into
  \<open>change_point_list\<close>. The static arrays of the file are the other fields of the state.
\<close>

record change_member =
  cm_entry :: nat
  cm_addr :: u64

record e820_state =
  table :: e820_table
  change_point_list :: "change_member list"
  change_point :: "nat list"
  overlap_list :: "nat list"
  new_entries :: "e820_entry list"

definition valid_table :: "e820_table \<Rightarrow> bool" where
  "valid_table t \<longleftrightarrow> length (entries t) = E820_MAX_ENTRIES \<and> nr_entries t \<le> E820_MAX_ENTRIES"

definition valid_state :: "e820_state \<Rightarrow> bool" where
  "valid_state s \<longleftrightarrow> valid_table (table s) \<and>
     length (change_point_list s) = 2 * E820_MAX_ENTRIES \<and>
     length (change_point s) = 2 * E820_MAX_ENTRIES \<and>
     length (overlap_list s) = E820_MAX_ENTRIES \<and>
     length (new_entries s) = E820_MAX_ENTRIES"

definition used :: "e820_table \<Rightarrow> e820_entry list" where
  "used t = take (nr_entries t) (entries t)"

definition covers :: "e820_entry \<Rightarrow> u64 \<Rightarrow> bool" where
  "covers e a \<longleftrightarrow> e_addr e \<le> a \<and> a < e_addr e + e_size e"

definition reasonable :: "e820_entry \<Rightarrow> bool" where
  "reasonable e \<longleftrightarrow> \<not> e_addr e + e_size e < e_addr e"

fun type_at :: "e820_entry list \<Rightarrow> u64 \<Rightarrow> u32" where
  "type_at [] a = 0"
| "type_at (e # es) a = (if covers e a then max (e_type e) (type_at es a) else type_at es a)"

section \<open>Queries and insertion\<close>

fun mapped_all_loop :: "e820_entry list \<Rightarrow> u64 \<Rightarrow> u64 \<Rightarrow> u32 \<Rightarrow> bool" where
  "mapped_all_loop [] start en ty = False"
| "mapped_all_loop (e # es) start en ty =
     (if ty \<noteq> 0 \<and> e_type e \<noteq> ty then mapped_all_loop es start en ty
      else if e_addr e \<ge> en \<or> e_addr e + e_size e \<le> start then mapped_all_loop es start en ty
      else
        let start = (if e_addr e \<le> start then e_addr e + e_size e else start)
        in if start \<ge> en then True else mapped_all_loop es start en ty)"

definition e820_mapped_all :: "e820_table \<Rightarrow> u64 \<Rightarrow> u64 \<Rightarrow> u32 \<Rightarrow> bool" where
  "e820_mapped_all t start en ty = mapped_all_loop (used t) start en ty"

definition e820_range_add' :: "e820_table \<Rightarrow> u64 \<Rightarrow> u64 \<Rightarrow> u32 \<Rightarrow> e820_table" where
  "e820_range_add' t start sz ty =
     (let x = nr_entries t
      in if x \<ge> length (entries t) then t
         else t\<lparr>entries := (entries t)[x := \<lparr>e_addr = start, e_size = sz, e_type = ty\<rparr>],
                nr_entries := x + 1\<rparr>)"

definition e820_range_add :: "e820_state \<Rightarrow> u64 \<Rightarrow> u64 \<Rightarrow> u32 \<Rightarrow> e820_state" where
  "e820_range_add s start sz ty = s\<lparr>table := e820_range_add' (table s) start sz ty\<rparr>"

section \<open>Sanitizing\<close>

definition cpcompare :: "e820_entry list \<Rightarrow> change_member list \<Rightarrow> nat \<Rightarrow> nat \<Rightarrow> int" where
  "cpcompare es cpl app bpp =
     (let ap = cpl ! app; bp = cpl ! bpp
      in if cm_addr ap \<noteq> cm_addr bp then (if cm_addr ap > cm_addr bp then 1 else -1)
         else of_bool (cm_addr ap \<noteq> e_addr (es ! cm_entry ap)) - of_bool (cm_addr bp \<noteq> e_addr (es ! cm_entry bp)))"

definition init_change_point :: "nat \<Rightarrow> nat list \<Rightarrow> nat list" where
  "init_change_point nr cp = fold (\<lambda>i cp. cp[i := i]) [0..<2 * nr] cp"

definition record_change ::
  "e820_entry list \<Rightarrow> nat list \<Rightarrow> nat \<Rightarrow> nat \<times> change_member list \<Rightarrow> nat \<times> change_member list" where
  "record_change es cp i st =
     (let (chg_idx, cpl) = st
      in if e_size (es ! i) \<noteq> 0 then
           (chg_idx + 2,
            cpl[cp ! chg_idx := \<lparr>cm_entry = i, cm_addr = e_addr (es ! i)\<rparr>,
                cp ! (chg_idx + 1) := \<lparr>cm_entry = i, cm_addr = e_addr (es ! i) + e_size (es ! i)\<rparr>])
         else (chg_idx, cpl))"

text \<open>
  The array \<open>change_point\<close> holds pointers, 8 bytes each and 8-byte aligned, so \<open>sort\<close>
  called without a swap function exchanges whole slots.
\<close>

definition sort_change_points ::
  "e820_entry list \<Rightarrow> change_member list \<Rightarrow> nat \<Rightarrow> nat list \<Rightarrow> nat list option" where
  "sort_change_points es cpl chg_nr =
     sort_mem (\<lambda>m i j. cpcompare es cpl (m ! nat (i div 8)) (m ! nat (j div 8)))
       (\<lambda>m i j. swap_nth m (nat (i div 8)) (nat (j div 8))) (of_nat chg_nr) 8"

record sweep =
  sw_overlap_list :: "nat list"
  overlap_entries :: nat
  sw_new_entries :: "e820_entry list"
  new_nr_entries :: nat
  last_type :: u32
  last_addr :: u64

definition remove_overlap :: "nat \<Rightarrow> nat \<Rightarrow> nat list \<Rightarrow> nat list" where
  "remove_overlap x n ol =
     fold (\<lambda>i ol. if ol ! i = x then ol[i := ol ! (n - 1)] else ol) [0..<n] ol"

definition sweep_overlap :: "e820_entry list \<Rightarrow> change_member \<Rightarrow> sweep \<Rightarrow> sweep" where
  "sweep_overlap es cm s =
     (if cm_addr cm = e_addr (es ! cm_entry cm) then
        s\<lparr>sw_overlap_list := (sw_overlap_list s)[overlap_entries s := cm_entry cm],
          overlap_entries := overlap_entries s + 1\<rparr>
      else
        s\<lparr>sw_overlap_list := remove_overlap (cm_entry cm) (overlap_entries s) (sw_overlap_list s),
          overlap_entries := overlap_entries s - 1\<rparr>)"

definition current_type :: "e820_entry list \<Rightarrow> sweep \<Rightarrow> u32" where
  "current_type es s =
     fold (\<lambda>i cur. if e_type (es ! (sw_overlap_list s ! i)) > cur then e_type (es ! (sw_overlap_list s ! i)) else cur)
       [0..<overlap_entries s] 0"

definition close_entry :: "u64 \<Rightarrow> sweep \<Rightarrow> sweep" where
  "close_entry addr s =
     (let n = new_nr_entries s; sz = addr - last_addr s;
          s = s\<lparr>sw_new_entries := (sw_new_entries s)[n := (sw_new_entries s ! n)\<lparr>e_size := sz\<rparr>]\<rparr>
      in if sz \<noteq> 0 then s\<lparr>new_nr_entries := n + 1\<rparr> else s)"

definition open_entry :: "u64 \<Rightarrow> u32 \<Rightarrow> sweep \<Rightarrow> sweep" where
  "open_entry addr cur s =
     (let n = new_nr_entries s
      in s\<lparr>sw_new_entries := (sw_new_entries s)[n := (sw_new_entries s ! n)\<lparr>e_addr := addr, e_type := cur\<rparr>],
           last_addr := addr\<rparr>)"

text \<open>The result says whether the loop breaks off: no more room for new entries.\<close>

definition sweep_emit :: "u64 \<Rightarrow> u32 \<Rightarrow> sweep \<Rightarrow> bool \<times> sweep" where
  "sweep_emit addr cur s =
     (if cur \<noteq> last_type s then
        let s' = (if last_type s \<noteq> 0 then close_entry addr s else s)
        in if new_nr_entries s' \<noteq> new_nr_entries s \<and> new_nr_entries s' \<ge> E820_MAX_ENTRIES then (True, s')
           else (False, (if cur \<noteq> 0 then open_entry addr cur s' else s')\<lparr>last_type := cur\<rparr>)
      else (False, s))"

fun sweep_loop :: "e820_entry list \<Rightarrow> change_member list \<Rightarrow> sweep \<Rightarrow> sweep" where
  "sweep_loop es [] s = s"
| "sweep_loop es (cm # cms) s =
     (let s = sweep_overlap es cm s;
          (brk, s) = sweep_emit (cm_addr cm) (current_type es s) s
      in if brk then s else sweep_loop es cms s)"

definition e820_update_table' :: "e820_state \<Rightarrow> (stop + int \<times> e820_state) option" where
  "e820_update_table' s =
     (let nr = nr_entries (table s); es = entries (table s)
      in if nr < 2 then Some (Inr (-1, s))
         else if nr > length es then Some (Inl BUG)
         else if \<exists>i\<in>set [0..<nr]. e_addr (es ! i) + e_size (es ! i) < e_addr (es ! i) then Some (Inr (-1, s))
         else
           let cp = init_change_point nr (change_point s);
               (chg_nr, cpl) = fold (record_change es cp) [0..<nr] (0, change_point_list s)
           in Option.bind (sort_change_points es cpl chg_nr cp) (\<lambda>cp.
                let w = sweep_loop es (map (\<lambda>i. cpl ! (cp ! i)) [0..<chg_nr])
                      \<lparr>sw_overlap_list = overlap_list s, overlap_entries = 0, sw_new_entries = new_entries s,
                       new_nr_entries = 0, last_type = 0, last_addr = 0\<rparr>;
                    n = new_nr_entries w
                in Some (Inr (0, s\<lparr>change_point_list := cpl, change_point := cp,
                     overlap_list := sw_overlap_list w, new_entries := sw_new_entries w,
                     table := \<lparr>nr_entries = n, entries = take n (sw_new_entries w) @ drop n es\<rparr>\<rparr>))))"

definition e820_update_table :: "e820_state \<Rightarrow> (stop + e820_state) option" where
  "e820_update_table s =
     map_option (\<lambda>r. and_then r (\<lambda>(ret, s).
        if ret \<noteq> 0 then Inl (PANIC ''e820: fail to sanitize the physical RAM map'') else Inr s))
       (e820_update_table' s)"

section \<open>Changing the type of a range\<close>

definition set_entry :: "e820_table \<Rightarrow> nat \<Rightarrow> e820_entry \<Rightarrow> e820_table" where
  "set_entry t i e = t\<lparr>entries := (entries t)[i := e]\<rparr>"

text \<open>One round of the loop: the new table and the bytes updated by it.\<close>

definition range_update_entry ::
  "e820_table \<Rightarrow> u64 \<Rightarrow> u64 \<Rightarrow> u64 \<Rightarrow> u32 \<Rightarrow> u32 \<Rightarrow> nat \<Rightarrow> e820_table \<times> u64" where
  "range_update_entry t start sz en old_type new_type i =
     (let e = entries t ! i; entry_end = e_addr e + e_size e
      in if e_type e \<noteq> old_type then (t, 0)
         else if e_addr e \<ge> start \<and> entry_end \<le> en then
           (set_entry t i (e\<lparr>e_type := new_type\<rparr>), e_size e)
         else if e_addr e < start \<and> entry_end > en then
           let t = e820_range_add' t start sz new_type;
               t = e820_range_add' t en (entry_end - en) (e_type e)
           in (set_entry t i (e\<lparr>e_size := start - e_addr e\<rparr>), sz)
         else
           let final_start = max start (e_addr e); final_end = min en entry_end
           in if final_start \<ge> final_end then (t, 0)
              else
                let t = e820_range_add' t final_start (final_end - final_start) new_type;
                    e = e\<lparr>e_size := e_size e - (final_end - final_start)\<rparr>;
                    e = (if e_addr e < final_start then e else e\<lparr>e_addr := final_end\<rparr>)
                in (set_entry t i e, final_end - final_start))"

lemma range_update_entry_nr:
  "nr_entries (fst (range_update_entry t start sz en old_type new_type i)) \<le> max (length (entries t)) (nr_entries t)"
  "length (entries (fst (range_update_entry t start sz en old_type new_type i))) = length (entries t)"
  by (auto simp: range_update_entry_def e820_range_add'_def set_entry_def Let_def)

function range_update_loop ::
  "u64 \<Rightarrow> u64 \<Rightarrow> u64 \<Rightarrow> u32 \<Rightarrow> u32 \<Rightarrow> nat \<Rightarrow> e820_table \<Rightarrow> u64 \<Rightarrow> e820_table \<times> u64" where
  "range_update_loop start sz en old_type new_type i t real_updated_size =
     (if i < nr_entries t then
        let (t', upd) = range_update_entry t start sz en old_type new_type i
        in range_update_loop start sz en old_type new_type (i + 1) t' (real_updated_size + upd)
      else (t, real_updated_size))"
  by pat_completeness auto
termination
proof (relation "measure (\<lambda>(start, sz, en, old_type, new_type, i, t, r). max (length (entries t)) (nr_entries t) - i)", goal_cases)
  case (2 start sz en old_type new_type i t r x t' upd)
  then show ?case using range_update_entry_nr[of t start sz en old_type new_type i]
    by (cases "range_update_entry t start sz en old_type new_type i") auto
qed simp

declare range_update_loop.simps [simp del]

definition e820_range_update' :: "e820_table \<Rightarrow> u64 \<Rightarrow> u64 \<Rightarrow> u32 \<Rightarrow> u32 \<Rightarrow> stop + (e820_table \<times> u64)" where
  "e820_range_update' t start sz old_type new_type =
     and_then (BUG_ON (old_type = new_type)) (\<lambda>_.
       let sz = (if sz > (- 1) - start then (- 1) - start else sz);
           en = start + sz
       in Inr (range_update_loop start sz en old_type new_type 0 t 0))"

definition e820_range_update :: "e820_state \<Rightarrow> u64 \<Rightarrow> u64 \<Rightarrow> u32 \<Rightarrow> u32 \<Rightarrow> stop + (e820_state \<times> u64)" where
  "e820_range_update s start sz old_type new_type =
     and_then (e820_range_update' (table s) start sz old_type new_type) (\<lambda>(t, r). Inr (s\<lparr>table := t\<rparr>, r))"

section \<open>The highest page frame\<close>

definition MAXMEM_PFN :: u64 where "MAXMEM_PFN = drop_bit 12 (push_bit 46 1)"

fun end_pfn_loop :: "e820_entry list \<Rightarrow> u64 \<Rightarrow> u32 \<Rightarrow> u64 \<Rightarrow> u64" where
  "end_pfn_loop [] limit_pfn ty last_pfn = last_pfn"
| "end_pfn_loop (e # es) limit_pfn ty last_pfn =
     (if e_type e \<noteq> ty then end_pfn_loop es limit_pfn ty last_pfn
      else
        let start_pfn = drop_bit 12 (e_addr e); end_pfn = drop_bit 12 (e_addr e + e_size e)
        in if start_pfn \<ge> limit_pfn then end_pfn_loop es limit_pfn ty last_pfn
           else if end_pfn > limit_pfn then limit_pfn
           else end_pfn_loop es limit_pfn ty (if end_pfn > last_pfn then end_pfn else last_pfn))"

definition e820_end_pfn :: "e820_table \<Rightarrow> u64 \<Rightarrow> u32 \<Rightarrow> u64" where
  "e820_end_pfn t limit_pfn ty =
     (let last_pfn = end_pfn_loop (used t) limit_pfn ty 0
      in if last_pfn > MAXMEM_PFN then MAXMEM_PFN else last_pfn)"

definition e820_end_of_ram_pfn :: "e820_table \<Rightarrow> u64" where
  "e820_end_of_ram_pfn t = e820_end_pfn t MAXMEM_PFN E820_TYPE_RAM"

section \<open>Filling the map from the boot loader\<close>

text \<open>
  \<open>struct multiboot_mmap_entry\<close> is packed: \<open>size\<close> at 0, \<open>addr\<close> at 4, \<open>len\<close> at 12, \<open>type\<close> at
  20. The offset \<open>i\<close> never wraps: \<open>len\<close> is a 32-bit field of the boot information.
\<close>

function multiboot_add_loop :: "mem \<Rightarrow> nat \<Rightarrow> nat \<Rightarrow> u64 \<Rightarrow> e820_state \<Rightarrow> e820_state" where
  "multiboot_add_loop m len i e s =
     (if i < len then
        let s = e820_range_add s (read64 m (e + 4)) (read64 m (e + 12)) (read32 m (e + 20));
            skip = unat (read32 m e) + 4
        in multiboot_add_loop m len (i + skip) (e + of_nat skip) s
      else s)"
  by pat_completeness auto
termination by (relation "measure (\<lambda>(m, len, i, e, s). len - i)") auto

declare multiboot_add_loop.simps [simp del]

definition e820_range_add_multiboot :: "mem \<Rightarrow> u64 \<Rightarrow> u32 \<Rightarrow> e820_state \<Rightarrow> (stop + e820_state) option" where
  "e820_range_add_multiboot m e len s = e820_update_table (multiboot_add_loop m (unat len) 0 e s)"

section \<open>Meaning of a table\<close>

lemma type_at_append: "type_at (xs @ ys) a = max (type_at xs a) (type_at ys a)"
  by (induction xs) (auto simp: max.assoc)

lemma type_at_0: "(\<And>e. e \<in> set es \<Longrightarrow> \<not> covers e a) \<Longrightarrow> type_at es a = 0"
  by (induction es) auto

lemma type_at_ge: "e \<in> set es \<Longrightarrow> covers e a \<Longrightarrow> e_type e \<le> type_at es a"
  by (induction es) (auto simp: le_max_iff_disj)

lemma type_at_attained: "type_at es a \<noteq> 0 \<Longrightarrow> \<exists>e\<in>set es. covers e a \<and> e_type e = type_at es a"
  by (induction es) (auto simp: max_def split: if_splits)

lemma type_at_eqI:
  assumes "\<And>e. e \<in> set es \<Longrightarrow> covers e a \<Longrightarrow> e_type e \<le> t"
    and "t \<noteq> 0 \<Longrightarrow> \<exists>e\<in>set es. covers e a \<and> e_type e = t"
  shows "type_at es a = t"
proof (rule antisym)
  show "type_at es a \<le> t"
    using assms(1) type_at_attained[of es a] by (cases "type_at es a = 0") (simp, metis)
  show "t \<le> type_at es a"
    using assms(2) type_at_ge[of _ es a] by (cases "t = 0") auto
qed

text \<open>Entries in address order, none empty, none overlapping.\<close>

definition sanitized :: "e820_entry list \<Rightarrow> bool" where
  "sanitized es \<longleftrightarrow>
     (\<forall>e\<in>set es. e_addr e < e_addr e + e_size e) \<and>
     sorted_wrt (\<lambda>e e'. e_addr e + e_size e \<le> e_addr e') es"

lemma sanitized_Cons:
  "sanitized (e # es) \<longleftrightarrow> e_addr e < e_addr e + e_size e \<and>
     (\<forall>e'\<in>set es. e_addr e + e_size e \<le> e_addr e') \<and> sanitized es"
  by (auto simp: sanitized_def)

lemma sanitized_snoc:
  "sanitized (es @ [e]) \<longleftrightarrow> e_addr e < e_addr e + e_size e \<and>
     (\<forall>e'\<in>set es. e_addr e' + e_size e' \<le> e_addr e) \<and> sanitized es"
  by (auto simp: sanitized_def sorted_wrt_append)

lemma sanitized_unique:
  "sanitized es \<Longrightarrow> e \<in> set es \<Longrightarrow> e' \<in> set es \<Longrightarrow> covers e a \<Longrightarrow> covers e' a \<Longrightarrow> e = e'"
proof (induction es)
  case (Cons x es)
  then show ?case by (fastforce simp: sanitized_Cons covers_def)
qed simp

section \<open>Queries\<close>

definition covered_by :: "e820_entry list \<Rightarrow> u32 \<Rightarrow> u64 \<Rightarrow> bool" where
  "covered_by es ty a \<longleftrightarrow> (\<exists>e\<in>set es. covers e a \<and> (ty = 0 \<or> e_type e = ty))"

lemma mapped_all_loop_sound:
  "mapped_all_loop es start en ty \<Longrightarrow> start \<le> a \<Longrightarrow> a < en \<Longrightarrow> covered_by es ty a"
proof (induction es arbitrary: start)
  case (Cons e es)
  have weaken: "covered_by es ty a \<Longrightarrow> covered_by (e # es) ty a" by (auto simp: covered_by_def)
  consider (skip) "ty \<noteq> 0 \<and> e_type e \<noteq> ty \<or> e_addr e \<ge> en \<or> e_addr e + e_size e \<le> start"
    | (hit) "ty = 0 \<or> e_type e = ty" "\<not> (e_addr e \<ge> en \<or> e_addr e + e_size e \<le> start)" by blast
  then show ?case
  proof cases
    case skip
    then have "mapped_all_loop es start en ty" using Cons.prems(1) by (auto split: if_splits)
    then show ?thesis using Cons.IH Cons.prems(2,3) weaken by blast
  next
    case hit
    show ?thesis
    proof (cases "covers e a")
      case True
      then show ?thesis using hit by (auto simp: covered_by_def)
    next
      case False
      let ?start = "if e_addr e \<le> start then e_addr e + e_size e else start"
      have le: "?start \<le> a" using False Cons.prems(2) by (auto simp: covers_def)
      then have "mapped_all_loop es ?start en ty"
        using hit Cons.prems(1,3) by (auto simp: Let_def split: if_splits)
      then show ?thesis using Cons.IH le Cons.prems(3) weaken by blast
    qed
  qed
qed simp

lemma mapped_all_loop_complete:
  "sanitized es \<Longrightarrow> start < en \<Longrightarrow> (\<And>a. start \<le> a \<Longrightarrow> a < en \<Longrightarrow> covered_by es ty a) \<Longrightarrow>
   mapped_all_loop es start en ty"
proof (induction es arbitrary: start)
  case Nil
  then show ?case by (fastforce simp: covered_by_def)
next
  case (Cons e es)
  have rest: "covered_by es ty a" if "start \<le> a" "a < en" "\<not> (covers e a \<and> (ty = 0 \<or> e_type e = ty))" for a
    using Cons.prems(3)[OF that(1,2)] that(3) by (auto simp: covered_by_def)
  have san: "sanitized es" using Cons.prems(1) by (simp add: sanitized_Cons)
  consider (skip) "ty \<noteq> 0 \<and> e_type e \<noteq> ty \<or> e_addr e \<ge> en \<or> e_addr e + e_size e \<le> start"
    | (hit) "ty = 0 \<or> e_type e = ty" "\<not> (e_addr e \<ge> en \<or> e_addr e + e_size e \<le> start)" by blast
  then show ?case
  proof cases
    case skip
    then have "mapped_all_loop es start en ty"
      using san Cons.prems(2) by (intro Cons.IH rest) (auto simp: covers_def)
    with skip show ?thesis by auto
  next
    case hit
    have le: "e_addr e \<le> start"
    proof (rule ccontr)
      assume "\<not> e_addr e \<le> start"
      moreover from this have "covered_by es ty start"
        using Cons.prems(2) by (intro rest) (auto simp: covers_def)
      ultimately show False using Cons.prems(1) by (fastforce simp: covered_by_def covers_def sanitized_Cons)
    qed
    have "mapped_all_loop es (e_addr e + e_size e) en ty" if "e_addr e + e_size e < en"
      using san that hit le by (intro Cons.IH rest) (auto simp: covers_def)
    with hit le show ?thesis by (auto simp: Let_def)
  qed
qed

section \<open>Sanitizing: recording and sorting the change points\<close>

definition cm_cmp :: "e820_entry list \<Rightarrow> change_member \<Rightarrow> change_member \<Rightarrow> int" where
  "cm_cmp es ap bp =
     (if cm_addr ap \<noteq> cm_addr bp then (if cm_addr ap > cm_addr bp then 1 else -1)
      else of_bool (cm_addr ap \<noteq> e_addr (es ! cm_entry ap)) - of_bool (cm_addr bp \<noteq> e_addr (es ! cm_entry bp)))"

lemma cpcompare_cm_cmp: "cpcompare es cpl a b = cm_cmp es (cpl ! a) (cpl ! b)"
  by (simp add: cpcompare_def cm_cmp_def Let_def)

lemma cm_cmp_addr: "cm_cmp es x y \<le> 0 \<Longrightarrow> cm_addr x \<le> cm_addr y"
  by (auto simp: cm_cmp_def split: if_splits)

interpretation cp: comparator "cpcompare es cpl" for es cpl
  by unfold_locales (auto simp: cpcompare_cm_cmp cm_cmp_def split: if_splits)

interpretation cp_array: sort_memory "take n" 8
    "\<lambda>m i j. cpcompare es cpl (m ! nat (i div 8)) (m ! nat (j div 8))"
    "\<lambda>m i j. swap_nth m (nat (i div 8)) (nat (j div 8))" "cpcompare es cpl" for n es cpl
  by unfold_locales (simp_all add: swap_nth_def take_update_swap)

lemma sort_change_points_ok:
  assumes "n \<le> 2 * E820_MAX_ENTRIES" "n \<le> length cp"
  shows "\<exists>cp'. sort_change_points es cpl n cp = Some cp' \<and> length cp' = length cp \<and>
     mset (map (\<lambda>i. cpl ! (cp' ! i)) [0..<n]) = mset (map (\<lambda>i. cpl ! (cp ! i)) [0..<n]) \<and>
     sorted_wrt (\<lambda>x y. cm_cmp es x y \<le> 0) (map (\<lambda>i. cpl ! (cp' ! i)) [0..<n])"
proof -
  have un: "unat (of_nat n :: u64) = n" using assms(1) by (intro unat_offset) (simp add: E820_MAX_ENTRIES_def)
  obtain cp' where cp': "sort_change_points es cpl n cp = Some cp'"
    and tk: "take n cp' = hsort (cpcompare es cpl) (take n cp)"
    using cp_array.sort_mem_hsort[of n cp "of_nat n" es cpl] assms un
    by (auto simp: sort_change_points_def E820_MAX_ENTRIES_def)
  have len: "length cp' \<ge> n" using arg_cong[OF tk, of length] assms(2) by simp
  have view: "map (\<lambda>i. cpl ! (c ! i)) [0..<n] = map ((!) cpl) (take n c)" if "n \<le> length c" for c
    using that by (intro nth_equalityI) auto
  have "sorted_wrt (\<lambda>a b. cpcompare es cpl a b \<le> 0) (take n cp')"
    unfolding tk by (rule cp.hsort_sorted)
  moreover have "mset (take n cp') = mset (take n cp)" unfolding tk by (rule hsort_mset)
  ultimately have "sorted_wrt (\<lambda>x y. cm_cmp es x y \<le> 0) (map ((!) cpl) (take n cp'))"
    "mset (map ((!) cpl) (take n cp')) = mset (map ((!) cpl) (take n cp))"
    by (simp_all add: sorted_wrt_map cpcompare_cm_cmp)
  moreover have "length cp' = length cp"
    using cp' unfolding sort_change_points_def by (rule sort_mem_invariant[where Q = "\<lambda>m. length m = length cp"]) simp_all
  ultimately show ?thesis using cp' view[OF len] view[OF assms(2)] by metis
qed

definition change_points :: "e820_entry list \<Rightarrow> nat \<Rightarrow> change_member list" where
  "change_points es k = concat (map (\<lambda>i. if e_size (es ! i) \<noteq> 0
     then [\<lparr>cm_entry = i, cm_addr = e_addr (es ! i)\<rparr>, \<lparr>cm_entry = i, cm_addr = e_addr (es ! i) + e_size (es ! i)\<rparr>]
     else []) [0..<k])"

lemma change_points_Suc:
  "change_points es (Suc k) = change_points es k @ (if e_size (es ! k) \<noteq> 0
     then [\<lparr>cm_entry = k, cm_addr = e_addr (es ! k)\<rparr>, \<lparr>cm_entry = k, cm_addr = e_addr (es ! k) + e_size (es ! k)\<rparr>]
     else [])"
  by (simp add: change_points_def)

lemma length_change_points: "length (change_points es k) \<le> 2 * k"
  by (induction k) (simp_all add: change_points_Suc change_points_def[of _ 0])

lemma init_change_point_nth:
  assumes "2 * nr \<le> length cp"
  shows "length (init_change_point nr cp) = length cp" and "i < 2 * nr \<Longrightarrow> init_change_point nr cp ! i = i"
proof -
  have "length (fold (\<lambda>i cp. cp[i := i]) [0..<k] cp) = length cp \<and>
     (\<forall>i<k. fold (\<lambda>i cp. cp[i := i]) [0..<k] cp ! i = i)" if "k \<le> length cp" for k
    using that by (induction k) (auto simp: nth_list_update less_Suc_eq)
  then show "length (init_change_point nr cp) = length cp" "i < 2 * nr \<Longrightarrow> init_change_point nr cp ! i = i"
    using assms by (auto simp: init_change_point_def)
qed

lemma record_change_pair:
  "record_change es cp i (n, c) = (if e_size (es ! i) \<noteq> 0 then
     (n + 2, c[cp ! n := \<lparr>cm_entry = i, cm_addr = e_addr (es ! i)\<rparr>,
               cp ! (n + 1) := \<lparr>cm_entry = i, cm_addr = e_addr (es ! i) + e_size (es ! i)\<rparr>])
     else (n, c))"
  by (simp add: record_change_def)

lemma record_changes:
  assumes "\<And>i. i < 2 * nr \<Longrightarrow> cp ! i = i" "2 * nr \<le> length cpl" "k \<le> nr"
  obtains cpl' where "fold (record_change es cp) [0..<k] (0, cpl) = (length (change_points es k), cpl')"
    "length cpl' = length cpl" "take (length (change_points es k)) cpl' = change_points es k"
proof -
  have "\<exists>cpl'. fold (record_change es cp) [0..<k] (0, cpl) = (length (change_points es k), cpl') \<and>
    length cpl' = length cpl \<and> take (length (change_points es k)) cpl' = change_points es k"
    using assms(3)
  proof (induction k)
    case 0
    then show ?case by (simp add: change_points_def)
  next
    case (Suc k)
    then obtain c where c: "fold (record_change es cp) [0..<k] (0, cpl) = (length (change_points es k), c)"
      "length c = length cpl" "take (length (change_points es k)) c = change_points es k" by auto
    let ?n = "length (change_points es k)"
    have n: "?n + 1 < 2 * nr" using length_change_points[of es k] Suc.prems by linarith
    then have "cp ! ?n = ?n" "cp ! (?n + 1) = ?n + 1" using assms(1) by auto
    moreover have "take (?n + 2) (c[?n := x, ?n + 1 := y]) = change_points es k @ [x, y]" for x y
      using n c(2,3) assms(2) by (simp add: take_Suc_conv_app_nth numeral_2_eq_2 nth_list_update)
    moreover have "fold (record_change es cp) [0..<Suc k] (0, cpl) = record_change es cp k (?n, c)"
      using c(1) by simp
    ultimately show ?case using c by (auto simp: record_change_pair change_points_Suc numeral_2_eq_2)
  qed
  then show ?thesis using that by blast
qed

section \<open>Sanitizing: the overlap list\<close>

lemma remove_overlap_map:
  assumes "k \<le> n" "n \<le> length ol"
  shows "fold (\<lambda>i ol. if ol ! i = x then ol[i := ol ! (n - 1)] else ol) [0..<k] ol
       = map (\<lambda>y. if y = x then ol ! (n - 1) else y) (take k ol) @ drop k ol"
  using assms(1)
proof (induction k)
  case (Suc k)
  let ?g = "\<lambda>y. if y = x then ol ! (n - 1) else y"
  let ?ol = "map ?g (take k ol) @ drop k ol"
  have k: "k < length ol" using Suc.prems assms(2) by simp
  have at: "?ol ! k = ol ! k" "?ol ! (n - 1) = ol ! (n - 1)"
    using Suc.prems assms(2) by (auto simp: nth_append)
  have split: "map ?g (take (Suc k) ol) @ drop (Suc k) ol = map ?g (take k ol) @ ?g (ol ! k) # drop (Suc k) ol"
    using k by (simp add: take_Suc_conv_app_nth)
  have "drop k ol = ol ! k # drop (Suc k) ol" using k by (simp add: Cons_nth_drop_Suc)
  then show ?case using Suc k at split by (auto simp: list_update_append)
qed simp

lemma butlast_replace_set:
  assumes "distinct (us @ [l])" "x \<in> set (us @ [l])"
  shows "distinct (map (\<lambda>y. if y = x then l else y) us)"
    and "set (map (\<lambda>y. if y = x then l else y) us) = set (us @ [l]) - {x}"
  using assms by (auto simp: distinct_map inj_on_def)

lemma remove_overlap_set:
  assumes n: "0 < n" "n \<le> length ol" and d: "distinct (take n ol)" and x: "x \<in> set (take n ol)"
  shows "distinct (take (n - 1) (remove_overlap x n ol))"
    and "set (take (n - 1) (remove_overlap x n ol)) = set (take n ol) - {x}"
    and "length (remove_overlap x n ol) = length ol"
proof -
  have tk: "take n ol = take (n - 1) ol @ [ol ! (n - 1)]"
    using n take_Suc_conv_app_nth[of "n - 1" ol] by simp
  have r: "remove_overlap x n ol = map (\<lambda>y. if y = x then ol ! (n - 1) else y) (take n ol) @ drop n ol"
    unfolding remove_overlap_def using n by (intro remove_overlap_map) auto
  have t: "take (n - 1) (remove_overlap x n ol) = map (\<lambda>y. if y = x then ol ! (n - 1) else y) (take (n - 1) ol)"
    using n by (simp add: r take_map min_def)
  show "distinct (take (n - 1) (remove_overlap x n ol))"
    "set (take (n - 1) (remove_overlap x n ol)) = set (take n ol) - {x}"
    unfolding t using butlast_replace_set[of "take (n - 1) ol" "ol ! (n - 1)" x] d x unfolding tk by blast+
  show "length (remove_overlap x n ol) = length ol" using n by (simp add: r)
qed

lemma fold_max_bounds:
  fixes g :: "nat \<Rightarrow> u32"
  defines "step \<equiv> \<lambda>i cur. if g i > cur then g i else cur"
  shows "c \<le> fold step is c" "i \<in> set is \<Longrightarrow> g i \<le> fold step is c"
    "fold step is c = c \<or> (\<exists>i\<in>set is. g i = fold step is c)"
proof -
  have "c \<le> fold step is c \<and> (\<forall>i\<in>set is. g i \<le> fold step is c) \<and>
    (fold step is c = c \<or> (\<exists>i\<in>set is. g i = fold step is c))"
  proof (induction "is" arbitrary: c)
    case (Cons j js)
    have "c \<le> step j c" "g j \<le> step j c" "step j c = c \<or> step j c = g j" by (auto simp: step_def)
    moreover note Cons.IH[of "step j c"]
    ultimately show ?case by (auto intro: order.trans)
  qed simp
  then show "c \<le> fold step is c" "i \<in> set is \<Longrightarrow> g i \<le> fold step is c"
    "fold step is c = c \<or> (\<exists>i\<in>set is. g i = fold step is c)" by auto
qed

definition overlapping :: "sweep \<Rightarrow> nat set" where
  "overlapping s = set (take (overlap_entries s) (sw_overlap_list s))"

lemma current_type_max:
  assumes "overlap_entries s \<le> length (sw_overlap_list s)"
  shows "i \<in> overlapping s \<Longrightarrow> e_type (es ! i) \<le> current_type es s"
    and "current_type es s \<noteq> 0 \<Longrightarrow> \<exists>i\<in>overlapping s. e_type (es ! i) = current_type es s"
proof -
  let ?n = "overlap_entries s" and ?ol = "sw_overlap_list s"
  have ov: "overlapping s = (\<lambda>k. ?ol ! k) ` {0..<?n}"
    using assms nth_image[of ?n ?ol] by (simp add: overlapping_def atLeast0LessThan lessThan_def)
  show "i \<in> overlapping s \<Longrightarrow> e_type (es ! i) \<le> current_type es s"
    using fold_max_bounds(2)[of _ "[0..<?n]" "\<lambda>k. e_type (es ! (?ol ! k))" 0]
    by (auto simp: ov current_type_def)
  show "current_type es s \<noteq> 0 \<Longrightarrow> \<exists>i\<in>overlapping s. e_type (es ! i) = current_type es s"
    using fold_max_bounds(3)[of "\<lambda>k. e_type (es ! (?ol ! k))" "[0..<?n]" 0]
    by (auto simp: ov current_type_def)
qed

section \<open>Sanitizing: the new map\<close>

definition emitted :: "sweep \<Rightarrow> e820_entry list" where
  "emitted s = take (new_nr_entries s) (sw_new_entries s)"

text \<open>
  The invariant of the sweep after \<open>k\<close> change points, the last of them at address \<open>P\<close>, for
  a wanted type function \<open>f\<close>: the emitted entries with the open one give \<open>f\<close> below \<open>P\<close>.
\<close>

definition emit_inv :: "(u64 \<Rightarrow> u32) \<Rightarrow> u64 \<Rightarrow> nat \<Rightarrow> sweep \<Rightarrow> bool" where
  "emit_inv f P k s \<longleftrightarrow>
     length (sw_new_entries s) = E820_MAX_ENTRIES \<and> new_nr_entries s < E820_MAX_ENTRIES \<and>
     new_nr_entries s + of_bool (last_type s \<noteq> 0) \<le> k \<and> sanitized (emitted s) \<and>
     (last_type s = 0 \<longrightarrow> (\<forall>e\<in>set (emitted s). e_addr e + e_size e \<le> P)) \<and>
     (last_type s \<noteq> 0 \<longrightarrow> last_addr s \<le> P \<and> (\<forall>e\<in>set (emitted s). e_addr e + e_size e \<le> last_addr s) \<and>
        e_addr (sw_new_entries s ! new_nr_entries s) = last_addr s \<and>
        e_type (sw_new_entries s ! new_nr_entries s) = last_type s) \<and>
     (\<forall>a<P. f a = max (type_at (emitted s) a) (if last_addr s \<le> a then last_type s else 0))"

text \<open>What holds when the sweep breaks off for want of room, having reached \<open>P\<close>.\<close>

definition emit_full :: "(u64 \<Rightarrow> u32) \<Rightarrow> u64 \<Rightarrow> sweep \<Rightarrow> bool" where
  "emit_full f P s \<longleftrightarrow>
     length (sw_new_entries s) = E820_MAX_ENTRIES \<and> new_nr_entries s = E820_MAX_ENTRIES \<and>
     sanitized (emitted s) \<and> e_addr (last (emitted s)) + e_size (last (emitted s)) = P \<and>
     (\<forall>a<P. type_at (emitted s) a = f a)"

lemma emitted_beyond:
  "(\<And>e. e \<in> set es \<Longrightarrow> e_addr e + e_size e \<le> P) \<Longrightarrow> P \<le> a \<Longrightarrow> type_at es a = 0"
  by (rule type_at_0) (fastforce simp: covers_def)

lemma emit_inv_reaches:
  assumes "emit_inv f P k s" "P \<le> p" "\<And>a. P \<le> a \<Longrightarrow> a < p \<Longrightarrow> f a = last_type s" "a < p"
  shows "f a = max (type_at (emitted s) a) (if last_addr s \<le> a then last_type s else 0)"
proof (cases "a < P")
  case False
  have "type_at (emitted s) a = 0"
    using assms(1) False by (intro emitted_beyond[of _ P]) (force simp: emit_inv_def)+
  moreover have "last_type s = 0 \<or> last_addr s \<le> a" using assms(1) False by (auto simp: emit_inv_def)
  ultimately show ?thesis using False assms(3,4) by auto
qed (use assms(1) in \<open>simp add: emit_inv_def\<close>)

text \<open>Closing the open entry at \<open>p\<close>: afterwards nothing is open and \<open>f\<close> is met below \<open>p\<close>.\<close>

lemma close_entry_ok:
  assumes inv: "emit_inv f P k s" "P \<le> p" "\<And>a. P \<le> a \<Longrightarrow> a < p \<Longrightarrow> f a = last_type s"
    and lt: "last_type s \<noteq> 0"
  defines "t \<equiv> close_entry p s"
  shows "length (sw_new_entries t) = E820_MAX_ENTRIES" "new_nr_entries t \<le> new_nr_entries s + 1"
    "new_nr_entries s \<le> new_nr_entries t" "sanitized (emitted t)"
    "e \<in> set (emitted t) \<Longrightarrow> e_addr e + e_size e \<le> p"
    "a < p \<Longrightarrow> type_at (emitted t) a = f a"
    "new_nr_entries t \<noteq> new_nr_entries s \<Longrightarrow> e_addr (last (emitted t)) + e_size (last (emitted t)) = p"
    "last_type t = last_type s" "last_addr t = last_addr s"
    "sw_overlap_list t = sw_overlap_list s" "overlap_entries t = overlap_entries s"
proof -
  let ?n = "new_nr_entries s"
  let ?e = "(sw_new_entries s ! ?n)\<lparr>e_size := p - last_addr s\<rparr>"
  have n: "?n < length (sw_new_entries s)" "length (sw_new_entries s) = E820_MAX_ENTRIES"
    and la: "last_addr s \<le> P" and ends: "\<And>e. e \<in> set (emitted s) \<Longrightarrow> e_addr e + e_size e \<le> last_addr s"
    and oe: "e_addr ?e = last_addr s" "e_type ?e = last_type s" and san: "sanitized (emitted s)"
    using inv(1) lt by (auto simp: emit_inv_def)
  have lp: "last_addr s \<le> p" using la inv(2) by (rule order.trans)
  have em: "emitted t = emitted s @ (if p \<noteq> last_addr s then [?e] else [])"
    using n(1) by (auto simp: t_def close_entry_def Let_def emitted_def take_Suc_conv_app_nth)
  have f: "f a = max (type_at (emitted s) a) (if last_addr s \<le> a then last_type s else 0)" if "a < p" for a
    using inv that by (rule emit_inv_reaches)
  show "length (sw_new_entries t) = E820_MAX_ENTRIES" "new_nr_entries t \<le> ?n + 1" "?n \<le> new_nr_entries t"
    "last_type t = last_type s" "last_addr t = last_addr s"
    "sw_overlap_list t = sw_overlap_list s" "overlap_entries t = overlap_entries s"
    using n by (simp_all add: t_def close_entry_def Let_def)
  show "sanitized (emitted t)" using san ends oe lp by (auto simp: em sanitized_snoc)
  show "e \<in> set (emitted t) \<Longrightarrow> e_addr e + e_size e \<le> p"
    using ends[of e] oe lp by (auto simp: em split: if_splits)
  show "a < p \<Longrightarrow> type_at (emitted t) a = f a"
    using f[of a] oe lp by (auto simp: em type_at_append covers_def)
  show "new_nr_entries t \<noteq> ?n \<Longrightarrow> e_addr (last (emitted t)) + e_size (last (emitted t)) = p"
    using oe unfolding em by (auto simp: t_def close_entry_def Let_def split: if_splits)
qed

lemma sweep_emit_ok:
  assumes inv: "emit_inv f P k s" "P \<le> p" "\<And>a. P \<le> a \<Longrightarrow> a < p \<Longrightarrow> f a = last_type s"
    and t: "sweep_emit p c s = (brk, t)"
  shows "sw_overlap_list t = sw_overlap_list s" "overlap_entries t = overlap_entries s"
    and "brk \<Longrightarrow> emit_full f p t \<and> E820_MAX_ENTRIES \<le> k"
    and "\<not> brk \<Longrightarrow> emit_inv f p (Suc k) t \<and> last_type t = c"
proof -
  note reach = emit_inv_reaches[OF inv]
  define s' where "s' = (if last_type s \<noteq> 0 then close_entry p s else s)"
  note cl = close_entry_ok[OF inv]
  have old: "length (sw_new_entries s) = E820_MAX_ENTRIES" "new_nr_entries s < E820_MAX_ENTRIES"
    "new_nr_entries s + of_bool (last_type s \<noteq> 0) \<le> k" "sanitized (emitted s)"
    "last_type s = 0 \<Longrightarrow> e \<in> set (emitted s) \<Longrightarrow> e_addr e + e_size e \<le> p" for e
    using inv(1,2) by (auto simp: emit_inv_def)
  have s': "length (sw_new_entries s') = E820_MAX_ENTRIES"
    "new_nr_entries s' \<le> new_nr_entries s + of_bool (last_type s \<noteq> 0)" "sanitized (emitted s')"
    "e \<in> set (emitted s') \<Longrightarrow> e_addr e + e_size e \<le> p"
    "a < p \<Longrightarrow> type_at (emitted s') a = f a"
    "new_nr_entries s' \<noteq> new_nr_entries s \<Longrightarrow> e_addr (last (emitted s')) + e_size (last (emitted s')) = p"
    "sw_overlap_list s' = sw_overlap_list s" "overlap_entries s' = overlap_entries s" for e a
    using cl old reach by (auto simp: s'_def split: if_splits)
  show "sw_overlap_list t = sw_overlap_list s" "overlap_entries t = overlap_entries s"
    using t s'(7,8) by (auto simp: sweep_emit_def Let_def open_entry_def simp flip: s'_def split: if_splits)
  have "new_nr_entries s' \<le> new_nr_entries s + 1" "new_nr_entries s' \<le> k"
    using s'(2) old(3) by (cases "last_type s = 0"; simp)+
  then show "brk \<Longrightarrow> emit_full f p t \<and> E820_MAX_ENTRIES \<le> k"
    using t s' old(2,3)
    by (auto simp: sweep_emit_def Let_def emit_full_def simp flip: s'_def split: if_splits)
  show "\<not> brk \<Longrightarrow> emit_inv f p (Suc k) t \<and> last_type t = c"
  proof -
    assume nb: "\<not> brk"
    show ?thesis
    proof (cases "c = last_type s")
      case True
      then show ?thesis using t inv(1,2) reach by (auto simp: sweep_emit_def emit_inv_def)
    next
      case False
      have n: "new_nr_entries s' < E820_MAX_ENTRIES"
        using False nb t old(2) by (auto simp: sweep_emit_def Let_def simp flip: s'_def split: if_splits)
      have t': "t = (if c \<noteq> 0 then open_entry p c s' else s')\<lparr>last_type := c\<rparr>"
        using False nb t by (auto simp: sweep_emit_def Let_def simp flip: s'_def split: if_splits)
      have "emitted t = emitted s'" by (simp add: t' emitted_def open_entry_def Let_def)
      then show ?thesis using s' n old(3) unfolding emit_inv_def
        by (auto simp: t' open_entry_def Let_def)
    qed
  qed
qed

section \<open>Sanitizing: the sweep\<close>

definition start_of :: "e820_entry list \<Rightarrow> nat \<Rightarrow> change_member" where
  "start_of es i = \<lparr>cm_entry = i, cm_addr = e_addr (es ! i)\<rparr>"

definition end_of :: "e820_entry list \<Rightarrow> nat \<Rightarrow> change_member" where
  "end_of es i = \<lparr>cm_entry = i, cm_addr = e_addr (es ! i) + e_size (es ! i)\<rparr>"

definition active :: "e820_entry list \<Rightarrow> change_member list \<Rightarrow> nat set" where
  "active es ps = {i. start_of es i \<in> set ps \<and> end_of es i \<notin> set ps}"

text \<open>The change points of \<open>nr\<close> reasonable entries, in order.\<close>

definition ordered_points :: "e820_entry list \<Rightarrow> nat \<Rightarrow> change_member list \<Rightarrow> bool" where
  "ordered_points es nr cms \<longleftrightarrow>
     (\<forall>i<nr. reasonable (es ! i)) \<and> distinct cms \<and>
     (\<forall>i. (start_of es i \<in> set cms \<longleftrightarrow> i < nr \<and> e_size (es ! i) \<noteq> 0) \<and>
          (end_of es i \<in> set cms \<longleftrightarrow> i < nr \<and> e_size (es ! i) \<noteq> 0)) \<and>
     (\<forall>x\<in>set cms. x = start_of es (cm_entry x) \<or> x = end_of es (cm_entry x)) \<and>
     sorted_wrt (\<lambda>x y. cm_addr x \<le> cm_addr y) cms"

lemma nonempty_end: "reasonable e \<Longrightarrow> e_size e \<noteq> 0 \<Longrightarrow> e_addr e < e_addr e + e_size e"
  unfolding reasonable_def by (metis add_cancel_left_right not_less_iff_gr_or_eq)

lemma change_points_set:
  "set (change_points es k) = {x. \<exists>i<k. e_size (es ! i) \<noteq> 0 \<and> (x = start_of es i \<or> x = end_of es i)}"
  by (induction k) (auto simp: change_points_Suc change_points_def[of _ 0] start_of_def end_of_def less_Suc_eq)

lemma change_points_distinct: "distinct (change_points es k)"
proof (induction k)
  case (Suc k)
  then show ?case
    by (auto simp: change_points_Suc change_points_set start_of_def end_of_def)
qed (simp add: change_points_def)

lemma ordered_pointsI:
  assumes "\<And>i. i < nr \<Longrightarrow> reasonable (es ! i)" "mset cms = mset (change_points es nr)"
    "sorted_wrt (\<lambda>x y. cm_cmp es x y \<le> 0) cms"
  shows "ordered_points es nr cms"
proof -
  have st: "set cms = set (change_points es nr)" using assms(2) by (rule mset_eq_setD)
  have "distinct cms" using assms(2) change_points_distinct by (metis mset_eq_imp_distinct_iff)
  moreover have "sorted_wrt (\<lambda>x y. cm_addr x \<le> cm_addr y) cms"
    using assms(3) by (rule sorted_wrt_mono_rel[rotated]) (simp add: cm_cmp_addr)
  ultimately show ?thesis using assms(1) unfolding ordered_points_def st change_points_set
    by (auto simp: start_of_def end_of_def)
qed

text \<open>The active entries between two change points are the ones that cover the addresses there.\<close>

lemma active_covers:
  assumes o: "ordered_points es nr (ps @ qs)"
    and a: "\<And>x. x \<in> set ps \<Longrightarrow> cm_addr x \<le> a" "\<And>x. x \<in> set qs \<Longrightarrow> a < cm_addr x"
  shows "i \<in> active es ps \<longleftrightarrow> i < nr \<and> covers (es ! i) a"
proof -
  have pt: "start_of es i \<in> set ps \<union> set qs \<longleftrightarrow> i < nr \<and> e_size (es ! i) \<noteq> 0"
    "end_of es i \<in> set ps \<union> set qs \<longleftrightarrow> i < nr \<and> e_size (es ! i) \<noteq> 0"
    using o by (auto simp: ordered_points_def)
  have "x \<in> set ps \<longleftrightarrow> cm_addr x \<le> a" if "x \<in> set ps \<union> set qs" for x
    using that a(1)[of x] a(2)[of x] by auto
  from this[of "start_of es i"] this[of "end_of es i"] pt
  show ?thesis by (auto simp: active_def covers_def start_of_def end_of_def)
qed

text \<open>The overlap list holds the active entries, each once, and never overflows.\<close>

definition overlap_inv :: "e820_entry list \<Rightarrow> change_member list \<Rightarrow> sweep \<Rightarrow> bool" where
  "overlap_inv es ps s \<longleftrightarrow>
     length (sw_overlap_list s) = E820_MAX_ENTRIES \<and> overlap_entries s \<le> E820_MAX_ENTRIES \<and>
     distinct (take (overlap_entries s) (sw_overlap_list s)) \<and> overlapping s = active es ps"

lemma active_step:
  assumes o: "ordered_points es nr (ps @ x # qs)"
  shows "x = start_of es i \<Longrightarrow> active es (ps @ [x]) = insert i (active es ps) \<and> i \<notin> active es ps \<and> i < nr"
    and "x = end_of es i \<Longrightarrow> active es (ps @ [x]) = active es ps - {i} \<and> i \<in> active es ps"
proof -
  have d: "x \<notin> set ps" and before: "\<And>y. y \<in> set ps \<Longrightarrow> cm_addr y \<le> cm_addr x"
    and after: "\<And>y. y \<in> set qs \<Longrightarrow> cm_addr x \<le> cm_addr y"
    using o by (auto simp: ordered_points_def sorted_wrt_append)
  have ne: "e_addr (es ! i) < e_addr (es ! i) + e_size (es ! i)" if "x = start_of es i \<or> x = end_of es i" for i
  proof (rule nonempty_end)
    show "reasonable (es ! i)" "e_size (es ! i) \<noteq> 0"
      using o that unfolding ordered_points_def by (metis in_set_conv_decomp)+
  qed
  have inj: "start_of es j = start_of es i \<longleftrightarrow> j = i" "end_of es j = end_of es i \<longleftrightarrow> j = i" for i j
    by (auto simp: start_of_def end_of_def)
  have ser: "start_of es i \<noteq> end_of es j" "end_of es j \<noteq> start_of es i"
    if "x = start_of es i \<or> x = end_of es j" for i j
    using that ne[of i] ne[of j] by (auto simp: start_of_def end_of_def)
  show "x = start_of es i \<Longrightarrow> active es (ps @ [x]) = insert i (active es ps) \<and> i \<notin> active es ps \<and> i < nr"
  proof (intro conjI)
    assume x: "x = start_of es i"
    have "end_of es i \<notin> set ps" using before[of "end_of es i"] ne[of i] x by (auto simp: start_of_def end_of_def)
    then show "active es (ps @ [x]) = insert i (active es ps)" using x ser[of i] by (auto simp: active_def inj)
    show "i \<notin> active es ps" using d x by (simp add: active_def)
    show "i < nr" using o x unfolding ordered_points_def by (metis in_set_conv_decomp)
  qed
  show "x = end_of es i \<Longrightarrow> active es (ps @ [x]) = active es ps - {i} \<and> i \<in> active es ps"
  proof (intro conjI)
    assume x: "x = end_of es i"
    have "start_of es i \<in> set (ps @ x # qs)" using o x unfolding ordered_points_def by (metis in_set_conv_decomp)
    moreover have "start_of es i \<notin> set qs" using after[of "start_of es i"] ne[of i] x by (auto simp: start_of_def end_of_def)
    ultimately have "start_of es i \<in> set ps" using x ser[of i i] by auto
    then show "i \<in> active es ps" using d x by (simp add: active_def)
    show "active es (ps @ [x]) = active es ps - {i}"
      using x ser[of _ i] by (auto simp: active_def inj)
  qed
qed

lemma sweep_overlap_inv:
  assumes o: "ordered_points es nr (ps @ x # qs)" and nr: "nr \<le> E820_MAX_ENTRIES"
    and inv: "overlap_inv es ps s"
  shows "overlap_inv es (ps @ [x]) (sweep_overlap es x s)"
proof -
  let ?i = "cm_entry x" and ?n = "overlap_entries s" and ?ol = "sw_overlap_list s"
  have len: "length ?ol = E820_MAX_ENTRIES" "?n \<le> E820_MAX_ENTRIES" and dis: "distinct (take ?n ?ol)"
    and ov: "set (take ?n ?ol) = active es ps" using inv by (auto simp: overlap_inv_def overlapping_def)
  have kind: "x = start_of es ?i \<or> x = end_of es ?i" using o by (simp add: ordered_points_def)
  show ?thesis
  proof (cases "cm_addr x = e_addr (es ! ?i)")
    case True
    then have x: "x = start_of es ?i" by (simp add: start_of_def)
    note st = active_step(1)[OF o x]
    have "set (take ?n ?ol) \<subseteq> {..<nr} - {?i}"
    proof
      fix j assume "j \<in> set (take ?n ?ol)"
      then have "j \<in> active es ps" by (simp add: ov)
      moreover from this have "j < nr" using o by (auto simp: active_def ordered_points_def)
      ultimately show "j \<in> {..<nr} - {?i}" using st by auto
    qed
    then have "card (set (take ?n ?ol)) \<le> card ({..<nr} - {?i})" by (intro card_mono) auto
    then have n: "?n < E820_MAX_ENTRIES" using st nr len dis by (auto simp: distinct_card)
    then have "take (Suc ?n) (?ol[?n := ?i]) = take ?n ?ol @ [?i]"
      using len by (simp add: take_Suc_conv_app_nth)
    then show ?thesis using True len n dis ov st
      by (simp add: sweep_overlap_def overlap_inv_def overlapping_def)
  next
    case False
    then have x: "x = end_of es ?i" using kind by (metis change_member.select_convs(2) start_of_def)
    note st = active_step(2)[OF o x]
    then have "0 < ?n" using ov by (cases ?n) auto
    then show ?thesis using remove_overlap_set[of ?n ?ol ?i] False len dis ov st
      by (auto simp: sweep_overlap_def overlap_inv_def overlapping_def)
  qed
qed

lemma overlap_type:
  assumes "ordered_points es nr (ps @ qs)" "nr \<le> length es" "overlap_inv es ps s"
    "\<And>x. x \<in> set ps \<Longrightarrow> cm_addr x \<le> a" "\<And>x. x \<in> set qs \<Longrightarrow> a < cm_addr x"
  shows "type_at (take nr es) a = current_type es s"
proof -
  have act: "i \<in> overlapping s \<longleftrightarrow> i < nr \<and> covers (es ! i) a" for i
    using assms(3) active_covers[OF assms(1,4,5)] by (simp add: overlap_inv_def)
  have le: "overlap_entries s \<le> length (sw_overlap_list s)" using assms(3) by (simp add: overlap_inv_def)
  have mem: "e \<in> set (take nr es) \<longleftrightarrow> (\<exists>i<nr. e = es ! i)" for e
    using assms(2) by (auto simp: in_set_conv_nth)
  show ?thesis
    using current_type_max[OF le] by (intro type_at_eqI) (fastforce simp: act mem)+
qed

definition last_point :: "change_member list \<Rightarrow> u64" where
  "last_point ps = (if ps = [] then 0 else cm_addr (last ps))"

lemma last_point_ge: "sorted_wrt (\<lambda>x y. cm_addr x \<le> cm_addr y) ps \<Longrightarrow> x \<in> set ps \<Longrightarrow> cm_addr x \<le> last_point ps"
  by (cases ps rule: rev_cases) (auto simp: last_point_def sorted_wrt_append)

lemma sweep_loop_ok:
  fixes es nr
  defines "f \<equiv> type_at (take nr es)"
  assumes "ordered_points es nr (ps @ qs)" "nr \<le> E820_MAX_ENTRIES" "nr \<le> length es"
    "overlap_inv es ps s" "emit_inv f (last_point ps) (length ps) s" "last_type s = current_type es s"
  shows "let t = sweep_loop es qs s in
     emit_inv f (last_point (ps @ qs)) (length (ps @ qs)) t \<and> overlap_inv es (ps @ qs) t \<and> last_type t = current_type es t \<or>
     (\<exists>P. emit_full f P t) \<and> E820_MAX_ENTRIES < length (ps @ qs)"
  using assms(2,5-)
proof (induction qs arbitrary: ps s)
  case (Cons x qs)
  let ?s1 = "sweep_overlap es x s"
  let ?p = "cm_addr x" and ?P = "last_point ps"
  have so: "sorted_wrt (\<lambda>x y. cm_addr x \<le> cm_addr y) (ps @ x # qs)"
    using Cons.prems(1) by (simp add: ordered_points_def)
  then have Pp: "?P \<le> ?p" by (auto simp: last_point_def sorted_wrt_append)
  have gap: "f a = last_type s" if a: "?P \<le> a" "a < ?p" for a
    unfolding f_def Cons.prems(4)
  proof (rule overlap_type[OF Cons.prems(1) assms(4) Cons.prems(2)])
    show "cm_addr y \<le> a" if "y \<in> set ps" for y
      using last_point_ge[of ps y] that so a(1) by (auto simp: sorted_wrt_append)
    show "a < cm_addr y" if "y \<in> set (x # qs)" for y
      using that so a(2) by (auto simp: sorted_wrt_append)
  qed
  have ov1: "overlap_inv es (ps @ [x]) ?s1"
    using Cons.prems(1) assms(3) Cons.prems(2) by (rule sweep_overlap_inv)
  have em1: "emit_inv f ?P (length ps) ?s1" "last_type ?s1 = last_type s"
    using Cons.prems(3) by (auto simp: sweep_overlap_def emit_inv_def emitted_def)
  obtain brk t where t: "sweep_emit ?p (current_type es ?s1) ?s1 = (brk, t)" by force
  have "\<And>a. ?P \<le> a \<Longrightarrow> a < ?p \<Longrightarrow> f a = last_type ?s1" using gap em1(2) by simp
  note st = sweep_emit_ok[OF em1(1) Pp this t]
  have cur: "current_type es t = current_type es ?s1" by (simp only: current_type_def st(1,2))
  have ovt: "overlap_inv es (ps @ [x]) t" using ov1 st(1,2) by (simp add: overlap_inv_def overlapping_def)
  have lp: "last_point (ps @ [x]) = ?p" by (simp add: last_point_def)
  show ?case
  proof (cases brk)
    case True
    then show ?thesis using st(3) t by (auto simp: Let_def)
  next
    case False
    then have "emit_inv f (last_point (ps @ [x])) (length (ps @ [x])) t" "last_type t = current_type es t"
      using st(4) cur by (simp_all add: lp)
    then show ?thesis using Cons.IH[of "ps @ [x]" t] Cons.prems(1) ovt False t by (simp add: Let_def)
  qed
qed simp

lemma sweep_whole:
  fixes es nr cms w
  defines "t \<equiv> sweep_loop es cms w" and "f \<equiv> type_at (take nr es)"
  assumes o: "ordered_points es nr cms" and nr: "nr \<le> E820_MAX_ENTRIES" "nr \<le> length es" "length cms \<le> 2 * nr"
    and w: "length (sw_overlap_list w) = E820_MAX_ENTRIES" "length (sw_new_entries w) = E820_MAX_ENTRIES"
      "overlap_entries w = 0" "new_nr_entries w = 0" "last_type w = 0"
  shows "length (sw_new_entries t) = E820_MAX_ENTRIES" "new_nr_entries t \<le> E820_MAX_ENTRIES"
    "sanitized (emitted t)"
    "type_at (emitted t) a = f a \<or>
     new_nr_entries t = E820_MAX_ENTRIES \<and> E820_MAX_ENTRIES < 2 * nr \<and>
     e_addr (last (emitted t)) + e_size (last (emitted t)) \<le> a"
    "new_nr_entries t \<le> 2 * nr"
proof -
  have "overlap_inv es [] w" using w by (simp add: overlap_inv_def overlapping_def active_def)
  moreover have "emit_inv f (last_point []) (length []) w"
    using w by (simp add: emit_inv_def last_point_def emitted_def sanitized_def E820_MAX_ENTRIES_def)
  moreover have "last_type w = current_type es w" using w by (simp add: current_type_def)
  ultimately consider (finished) "emit_inv f (last_point cms) (length cms) t" "overlap_inv es cms t" "last_type t = current_type es t"
    | (full) P where "emit_full f P t" "E820_MAX_ENTRIES < length cms"
    using sweep_loop_ok[of es nr "[]" cms w] o nr(1,2) unfolding f_def t_def Let_def by fastforce
  then have "length (sw_new_entries t) = E820_MAX_ENTRIES \<and> new_nr_entries t \<le> E820_MAX_ENTRIES \<and>
    sanitized (emitted t) \<and> (type_at (emitted t) a = f a \<or>
     new_nr_entries t = E820_MAX_ENTRIES \<and> E820_MAX_ENTRIES < 2 * nr \<and>
     e_addr (last (emitted t)) + e_size (last (emitted t)) \<le> a) \<and> new_nr_entries t \<le> 2 * nr"
  proof cases
    case finished
    have so: "sorted_wrt (\<lambda>x y. cm_addr x \<le> cm_addr y) cms" using o by (simp add: ordered_points_def)
    have none: "active es cms = {}" using o by (auto simp: active_def ordered_points_def)
    have ov: "overlapping t = {}" and le: "overlap_entries t \<le> length (sw_overlap_list t)"
      using finished(2) none by (auto simp: overlap_inv_def)
    then have lt: "last_type t = 0" using finished(3) current_type_max(2)[OF le, of es] by auto
    have "type_at (emitted t) a = f a"
    proof (cases "a < last_point cms")
      case True
      then show ?thesis using finished(1) lt by (simp add: emit_inv_def)
    next
      case False
      then have "f a = current_type es t"
        unfolding f_def using o nr(2) finished(2) last_point_ge[OF so]
        by (intro overlap_type[of _ _ cms "[]"]) fastforce+
      moreover have "type_at (emitted t) a = 0"
        using finished(1) lt False by (intro emitted_beyond[of _ "last_point cms"]) (auto simp: emit_inv_def)
      ultimately show ?thesis using finished(3) lt by simp
    qed
    then show ?thesis using finished(1) nr(3) by (simp add: emit_inv_def)
  next
    case full
    then show ?thesis using nr(3) by (cases "a < P") (auto simp: emit_full_def not_less)
  qed
  then show "length (sw_new_entries t) = E820_MAX_ENTRIES" "new_nr_entries t \<le> E820_MAX_ENTRIES"
    "sanitized (emitted t)"
    "type_at (emitted t) a = f a \<or>
     new_nr_entries t = E820_MAX_ENTRIES \<and> E820_MAX_ENTRIES < 2 * nr \<and>
     e_addr (last (emitted t)) + e_size (last (emitted t)) \<le> a"
    "new_nr_entries t \<le> 2 * nr" by auto
qed

lemma sweep_loop_lengths: "length (sw_overlap_list (sweep_loop es cms w)) = length (sw_overlap_list w)"
proof (induction cms arbitrary: w)
  case (Cons x cms)
  have "length (remove_overlap i n ol) = length ol" for i n ol
    unfolding remove_overlap_def
    by (rule fold_invariant[where P = "\<lambda>l. length l = length ol" and Q = "\<lambda>_. True"]) auto
  then have "length (sw_overlap_list (sweep_overlap es x w)) = length (sw_overlap_list w)"
    by (simp add: sweep_overlap_def)
  moreover have "sw_overlap_list (snd (sweep_emit p c v)) = sw_overlap_list v" for p c v
    by (simp add: sweep_emit_def Let_def close_entry_def open_entry_def)
  ultimately show ?case using Cons by (simp add: Let_def split_def)
qed simp

lemma update_table_result:
  assumes v: "valid_state s" and nr: "2 \<le> nr_entries (table s)"
    and r: "\<And>e. e \<in> set (used (table s)) \<Longrightarrow> reasonable e"
  obtains s' where "e820_update_table' s = Some (Inr (0, s'))" "valid_state s'" "sanitized (used (table s'))"
    "\<And>a. type_at (used (table s')) a = type_at (used (table s)) a \<or>
      nr_entries (table s') = E820_MAX_ENTRIES \<and> E820_MAX_ENTRIES < 2 * nr_entries (table s) \<and>
      e_addr (last (used (table s'))) + e_size (last (used (table s'))) \<le> a"
    "nr_entries (table s') \<le> 2 * nr_entries (table s)"
proof -
  let ?nr = "nr_entries (table s)" and ?es = "entries (table s)"
  have len: "?nr \<le> E820_MAX_ENTRIES" "length ?es = E820_MAX_ENTRIES"
    "length (change_point_list s) = 2 * E820_MAX_ENTRIES" "length (change_point s) = 2 * E820_MAX_ENTRIES"
    "length (overlap_list s) = E820_MAX_ENTRIES" "length (new_entries s) = E820_MAX_ENTRIES"
    using v by (auto simp: valid_state_def valid_table_def)
  have re: "reasonable (?es ! i)" if "i < ?nr" for i
    using that len by (intro r) (auto simp: used_def in_set_conv_nth)
  define cp where "cp = init_change_point ?nr (change_point s)"
  have cp: "length cp = 2 * E820_MAX_ENTRIES" "\<And>i. i < 2 * ?nr \<Longrightarrow> cp ! i = i"
    using init_change_point_nth[of ?nr "change_point s"] len by (simp_all add: cp_def)
  define pts where "pts = change_points ?es ?nr"
  obtain cpl where cpl: "fold (record_change ?es cp) [0..<?nr] (0, change_point_list s) = (length pts, cpl)"
    "length cpl = 2 * E820_MAX_ENTRIES" "take (length pts) cpl = pts"
    using record_changes[of ?nr cp "change_point_list s" ?nr ?es] cp len unfolding pts_def by auto
  have lp: "length pts \<le> 2 * ?nr" unfolding pts_def by (rule length_change_points)
  have "map (\<lambda>i. cpl ! (cp ! i)) [0..<length pts] = take (length pts) cpl"
    using lp cp(2) cpl(2) len(1) by (intro nth_equalityI) auto
  then have view: "map (\<lambda>i. cpl ! (cp ! i)) [0..<length pts] = pts" using cpl(3) by simp
  have "length pts \<le> 2 * E820_MAX_ENTRIES" "length pts \<le> length cp" using lp len(1) cp(1) by auto
  from sort_change_points_ok[OF this, of ?es cpl] view
  obtain cp' where cp': "sort_change_points ?es cpl (length pts) cp = Some cp'"
    "mset (map (\<lambda>i. cpl ! (cp' ! i)) [0..<length pts]) = mset pts"
    "sorted_wrt (\<lambda>x y. cm_cmp ?es x y \<le> 0) (map (\<lambda>i. cpl ! (cp' ! i)) [0..<length pts])"
    "length cp' = length cp"
    by auto
  let ?cms = "map (\<lambda>i. cpl ! (cp' ! i)) [0..<length pts]"
  let ?w = "\<lparr>sw_overlap_list = overlap_list s, overlap_entries = 0, sw_new_entries = new_entries s,
                       new_nr_entries = 0, last_type = 0, last_addr = 0\<rparr>"
  define t where "t = sweep_loop ?es ?cms ?w"
  have op: "ordered_points ?es ?nr ?cms"
    using re cp'(2,3) unfolding pts_def by (intro ordered_pointsI)
  note sw = sweep_whole[OF op, of ?w, folded t_def]
  define s' where "s' = s\<lparr>change_point_list := cpl, change_point := cp',
     overlap_list := sw_overlap_list t, new_entries := sw_new_entries t,
     table := \<lparr>nr_entries = new_nr_entries t, entries = take (new_nr_entries t) (sw_new_entries t) @ drop (new_nr_entries t) ?es\<rparr>\<rparr>"
  have us: "used (table s') = emitted t" using sw(1,2) len lp by (simp add: s'_def used_def emitted_def)
  have "\<not> (\<exists>i\<in>set [0..<?nr]. e_addr (?es ! i) + e_size (?es ! i) < e_addr (?es ! i))"
    using re by (auto simp: reasonable_def)
  then have "e820_update_table' s = Some (Inr (0, s'))"
    using nr len cpl(1) cp'(1) by (simp add: e820_update_table'_def Let_def s'_def flip: cp_def t_def)
  moreover have "valid_state s'"
    using len cpl cp' cp(1) sw(1,2) lp sweep_loop_lengths[of ?es ?cms ?w]
    by (simp add: s'_def valid_state_def valid_table_def flip: t_def)
  moreover have "sanitized (used (table s'))" using sw(3) len lp by (simp add: us)
  moreover have "type_at (used (table s')) a = type_at (used (table s)) a \<or>
      nr_entries (table s') = E820_MAX_ENTRIES \<and> E820_MAX_ENTRIES < 2 * nr_entries (table s) \<and>
      e_addr (last (used (table s'))) + e_size (last (used (table s'))) \<le> a" for a
    using sw(4)[of a] len lp us by (simp add: used_def[of "table s"]) (simp add: s'_def)
  moreover have "nr_entries (table s') \<le> 2 * ?nr" using sw(5) len lp by (simp add: s'_def)
  ultimately show ?thesis using that by blast
qed

lemma update_table_refuses:
  assumes "valid_state s"
    and "nr_entries (table s) < 2 \<or> (\<exists>e\<in>set (used (table s)). \<not> reasonable e)"
  shows "e820_update_table' s = Some (Inr (-1, s))"
    "e820_update_table s = Some (Inl (PANIC ''e820: fail to sanitize the physical RAM map''))"
proof -
  have len: "length (used (table s)) = nr_entries (table s)" "nr_entries (table s) \<le> length (entries (table s))"
    using assms(1) by (simp_all add: valid_state_def valid_table_def used_def)
  show "e820_update_table' s = Some (Inr (-1, s))"
  proof (cases "nr_entries (table s) < 2")
    case False
    then obtain i where "i < nr_entries (table s)" "\<not> reasonable (used (table s) ! i)"
      using assms(2) len(1) by (auto simp: in_set_conv_nth)
    then have "\<exists>i\<in>set [0..<nr_entries (table s)]. e_addr (entries (table s) ! i) + e_size (entries (table s) ! i) < e_addr (entries (table s) ! i)"
      by (auto simp: reasonable_def used_def)
    then show ?thesis using False len(2) by (auto simp: e820_update_table'_def Let_def)
  qed (simp add: e820_update_table'_def)
  then show "e820_update_table s = Some (Inl (PANIC ''e820: fail to sanitize the physical RAM map''))"
    by (simp add: e820_update_table_def)
qed

lemma update_table_returns:
  assumes "valid_state s" "e820_update_table s = Some (Inr s')"
  shows "valid_state s'" "sanitized (used (table s'))"
    "2 * nr_entries (table s) \<le> E820_MAX_ENTRIES \<Longrightarrow> type_at (used (table s')) a = type_at (used (table s)) a"
    "nr_entries (table s') \<le> 2 * nr_entries (table s)"
proof -
  have ok: "2 \<le> nr_entries (table s)" "\<And>e. e \<in> set (used (table s)) \<Longrightarrow> reasonable e"
    using update_table_refuses(2)[OF assms(1)] assms(2) by (force simp: not_less)+
  obtain s'' where s'': "e820_update_table' s = Some (Inr (0, s''))" "valid_state s''" "sanitized (used (table s''))"
    "\<And>a. type_at (used (table s'')) a = type_at (used (table s)) a \<or>
      nr_entries (table s'') = E820_MAX_ENTRIES \<and> E820_MAX_ENTRIES < 2 * nr_entries (table s) \<and>
      e_addr (last (used (table s''))) + e_size (last (used (table s''))) \<le> a"
    "nr_entries (table s'') \<le> 2 * nr_entries (table s)"
    using update_table_result[OF assms(1) ok] by metis
  then have "s'' = s'" using assms(2) by (simp add: e820_update_table_def)
  then show "valid_state s'" "sanitized (used (table s'))"
    "2 * nr_entries (table s) \<le> E820_MAX_ENTRIES \<Longrightarrow> type_at (used (table s')) a = type_at (used (table s)) a"
    "nr_entries (table s') \<le> 2 * nr_entries (table s)"
    using s''(2,3,5) s''(4)[of a] by auto
qed

section \<open>Changing the type of a range: every entry counts\<close>

text \<open>
  \<open>types_at\<close> keeps the types of all entries that cover an address, \<open>retype\<close> is what
  changing \<open>old\<close> to \<open>new\<close> on \<open>[start, en)\<close> should do to them. While the table has room the
  loop does exactly that; when it is full entries are dropped, but never kept wrongly.
\<close>

definition contrib :: "e820_entry \<Rightarrow> u64 \<Rightarrow> u32 multiset" where
  "contrib e a = (if covers e a then {#e_type e#} else {#})"

definition types_at :: "e820_entry list \<Rightarrow> u64 \<Rightarrow> u32 multiset" where
  "types_at es a = (\<Sum>e\<leftarrow>es. contrib e a)"

definition retype :: "u64 \<Rightarrow> u64 \<Rightarrow> u32 \<Rightarrow> u32 \<Rightarrow> u64 \<Rightarrow> u32 multiset \<Rightarrow> u32 multiset" where
  "retype start en old new a M =
     (if start \<le> a \<and> a < en then image_mset (\<lambda>t. if t = old then new else t) M else M)"

lemma types_at_simps [simp]:
  "types_at [] a = {#}" "types_at (e # es) a = contrib e a + types_at es a"
  "types_at (xs @ ys) a = types_at xs a + types_at ys a"
  by (simp_all add: types_at_def)

lemma retype_add [simp]: "retype start en old new a (M + N) = retype start en old new a M + retype start en old new a N"
  by (simp add: retype_def)

lemma retype_empty [simp]: "retype start en old new a {#} = {#}"
  by (simp add: retype_def)

lemma retype_old: "old \<noteq> new \<Longrightarrow> start \<le> a \<Longrightarrow> a < en \<Longrightarrow> old \<notin># retype start en old new a M"
  by (auto simp: retype_def)

text \<open>What replaces an entry of the old type, and what is appended for it.\<close>

definition cut_entry :: "u64 \<Rightarrow> u64 \<Rightarrow> u32 \<Rightarrow> u32 \<Rightarrow> e820_entry \<Rightarrow> e820_entry \<times> e820_entry list" where
  "cut_entry start en old new e =
     (let ee = e_addr e + e_size e; fs = max start (e_addr e); fe = min en ee
      in if e_type e \<noteq> old then (e, [])
         else if e_addr e \<ge> start \<and> ee \<le> en then (e\<lparr>e_type := new\<rparr>, [])
         else if e_addr e < start \<and> ee > en then
           (e\<lparr>e_size := start - e_addr e\<rparr>,
            [\<lparr>e_addr = start, e_size = en - start, e_type = new\<rparr>, \<lparr>e_addr = en, e_size = ee - en, e_type = old\<rparr>])
         else if fs \<ge> fe then (e, [])
         else
           let e' = e\<lparr>e_size := e_size e - (fe - fs)\<rparr>
           in (if e_addr e < fs then e' else e'\<lparr>e_addr := fe\<rparr>, [\<lparr>e_addr = fs, e_size = fe - fs, e_type = new\<rparr>]))"

lemma cut_entry_contrib:
  assumes "reasonable e" "start \<le> en"
  shows "contrib (fst (cut_entry start en old new e)) a + types_at (snd (cut_entry start en old new e)) a
       = retype start en old new a (contrib e a)"
    and "x \<in> set (snd (cut_entry start en old new e)) \<Longrightarrow> old \<noteq> new \<Longrightarrow> retype start en old new a (contrib x a) = contrib x a"
    and "reasonable (fst (cut_entry start en old new e))"
    and "x \<in> set (snd (cut_entry start en old new e)) \<Longrightarrow> reasonable x"
proof -
  have ne: "e_addr e \<le> e_addr e + e_size e" using assms(1) by (simp add: reasonable_def not_less)
  have bk: "e_addr e + (e_size e - (e_addr e + e_size e - start)) = start"
    "en + (e_size e - (en - e_addr e)) = e_addr e + e_size e" by (simp_all add: algebra_simps)
  show "contrib (fst (cut_entry start en old new e)) a + types_at (snd (cut_entry start en old new e)) a
       = retype start en old new a (contrib e a)"
    using ne assms(2) bk
    by (auto simp: cut_entry_def Let_def contrib_def covers_def retype_def max_def min_def add.commute[of "e_size e"])
  show "x \<in> set (snd (cut_entry start en old new e)) \<Longrightarrow> old \<noteq> new \<Longrightarrow> retype start en old new a (contrib x a) = contrib x a"
    using ne assms(2)
    by (auto simp: cut_entry_def Let_def contrib_def covers_def retype_def max_def min_def split: if_splits)
  show "reasonable (fst (cut_entry start en old new e))"
    using ne assms(2) bk
    by (auto simp: cut_entry_def Let_def reasonable_def max_def min_def add.commute[of "e_size e"])
  show "x \<in> set (snd (cut_entry start en old new e)) \<Longrightarrow> reasonable x"
    using ne assms(2)
    by (auto simp: cut_entry_def Let_def reasonable_def max_def min_def split: if_splits)
qed

lemma range_add_used:
  assumes "valid_table t"
  shows "valid_table (e820_range_add' t start sz ty)"
    and "used (e820_range_add' t start sz ty) = used t @
      (if nr_entries t < E820_MAX_ENTRIES then [\<lparr>e_addr = start, e_size = sz, e_type = ty\<rparr>] else [])"
    and "nr_entries (e820_range_add' t start sz ty) =
      (if nr_entries t < E820_MAX_ENTRIES then nr_entries t + 1 else nr_entries t)"
  using assms by (auto simp: valid_table_def e820_range_add'_def used_def Let_def take_Suc_conv_app_nth)

lemma set_entry_used [simp]:
  "used (set_entry t i e) = (used t)[i := e]" "valid_table (set_entry t i e) = valid_table t"
  "nr_entries (set_entry t i e) = nr_entries t"
  by (simp_all add: set_entry_def used_def valid_table_def take_update_swap)

lemma length_used: "valid_table t \<Longrightarrow> length (used t) = nr_entries t"
  by (simp add: valid_table_def used_def)

lemma range_update_entry_used:
  fixes t start en old new i
  defines "t' \<equiv> fst (range_update_entry t start (en - start) en old new i)"
    and "c \<equiv> cut_entry start en old new (used t ! i)"
  assumes v: "valid_table t" and i: "i < nr_entries t"
  shows "valid_table t'" "\<exists>k. used t' = (used t)[i := fst c] @ take k (snd c) \<and> (nr_entries t' < E820_MAX_ENTRIES \<longrightarrow> length (snd c) \<le> k)"
proof -
  have e: "used t ! i = entries t ! i" using i by (simp add: used_def)
  have len: "i < length (used t)" using v i by (simp add: length_used)
  note defs = t'_def c_def range_update_entry_def cut_entry_def Let_def e range_add_used[OF v]
    range_add_used[OF range_add_used(1)[OF v]] list_update_append len
  show "valid_table t'" using v by (simp add: defs)
  have self: "(used t)[i := entries t ! i] = used t" using e by (metis list_update_id)
  show "\<exists>k. used t' = (used t)[i := fst c] @ take k (snd c) \<and> (nr_entries t' < E820_MAX_ENTRIES \<longrightarrow> length (snd c) \<le> k)"
    by (rule exI[of _ "E820_MAX_ENTRIES - nr_entries t"]) (simp add: defs self take_Cons' E820_MAX_ENTRIES_def, fastforce?)
qed

definition retyped_from ::
  "u64 \<Rightarrow> u64 \<Rightarrow> u32 \<Rightarrow> u32 \<Rightarrow> nat \<Rightarrow> e820_entry list \<Rightarrow> u64 \<Rightarrow> u32 multiset" where
  "retyped_from start en old new i es a =
     types_at (take i es) a + retype start en old new a (types_at (drop i es) a)"

text \<open>Processing entry \<open>i\<close> moves the boundary past it and keeps the account.\<close>

lemma retyped_from_step:
  fixes start en old new e
  defines "c \<equiv> cut_entry start en old new e"
  assumes "reasonable e" "start \<le> en" "old \<noteq> new" "i < length es" "es ! i = e"
    and fs: "es' = es[i := fst c] @ take k (snd c)"
  shows "retyped_from start en old new (Suc i) es' a \<subseteq># retyped_from start en old new i es a"
    and "length (snd c) \<le> k \<Longrightarrow> retyped_from start en old new (Suc i) es' a = retyped_from start en old new i es a"
proof -
  note cc = cut_entry_contrib[OF assms(2,3), where old = old and new = new, folded c_def]
  have inert: "retype start en old new a (types_at xs a) = types_at xs a" if "set xs \<subseteq> set (snd c)" for xs
    using that cc(2) assms(4) by (induction xs) auto
  have "drop i es = e # drop (Suc i) es" using assms(5,6) by (metis Cons_nth_drop_Suc)
  then have l: "retyped_from start en old new i es a = types_at (take i es) a + contrib (fst c) a
      + types_at (snd c) a + retype start en old new a (types_at (drop (Suc i) es) a)"
    using cc(1)[of a] by (simp add: retyped_from_def)
  have r: "retyped_from start en old new (Suc i) es' a = types_at (take i es) a + contrib (fst c) a
      + types_at (take k (snd c)) a + retype start en old new a (types_at (drop (Suc i) es) a)"
    using assms(5) inert[OF set_take_subset, of k]
    by (simp add: retyped_from_def fs take_Suc_conv_app_nth)
  have "types_at (snd c) a = types_at (take k (snd c)) a + types_at (drop k (snd c)) a"
    by (simp flip: types_at_simps(3))
  then show "retyped_from start en old new (Suc i) es' a \<subseteq># retyped_from start en old new i es a"
    unfolding l r by simp
  show "length (snd c) \<le> k \<Longrightarrow> retyped_from start en old new (Suc i) es' a = retyped_from start en old new i es a"
    unfolding l r by simp
qed

lemma range_update_loop_types:
  "valid_table t \<Longrightarrow> (\<forall>e\<in>set (used t). reasonable e) \<Longrightarrow> start \<le> en \<Longrightarrow> old \<noteq> new \<Longrightarrow> sz = en - start \<Longrightarrow>
   range_update_loop start sz en old new i t r = (t', r') \<Longrightarrow>
   valid_table t' \<and> (\<forall>e\<in>set (used t'). reasonable e) \<and> nr_entries t \<le> nr_entries t' \<and>
     (\<forall>a. types_at (used t') a \<subseteq># retyped_from start en old new i (used t) a) \<and>
     (nr_entries t' < E820_MAX_ENTRIES \<longrightarrow> (\<forall>a. types_at (used t') a = retyped_from start en old new i (used t) a))"
proof (induction start sz en old new i t r rule: range_update_loop.induct)
  case (1 start sz en old new i t r)
  show ?case
  proof (cases "i < nr_entries t")
    case False
    then have "take i (used t) = used t" "drop i (used t) = []" using 1(2) by (simp_all add: length_used)
    moreover have "t' = t" using False 1(7) by (simp add: range_update_loop.simps[of start sz en old new i t])
    ultimately show ?thesis using 1(2,3) by (simp add: retyped_from_def)
  next
    case True
    obtain t1 upd where t1: "range_update_entry t start sz en old new i = (t1, upd)" by force
    let ?e = "used t ! i" and ?c = "cut_entry start en old new (used t ! i)"
    have loop: "range_update_loop start sz en old new (i + 1) t1 (r + upd) = (t', r')"
      using 1(7) True t1 by (simp add: range_update_loop.simps[of start sz en old new i t])
    obtain k where v1: "valid_table t1" and k: "used t1 = (used t)[i := fst ?c] @ take k (snd ?c)"
      "nr_entries t1 < E820_MAX_ENTRIES \<longrightarrow> length (snd ?c) \<le> k"
      using range_update_entry_used[OF 1(2) True, of start en old new] t1 1(6) by auto
    have len: "i < length (used t)" using True 1(2) by (simp add: length_used)
    then have re: "reasonable ?e" using 1(3) by auto
    note cc = cut_entry_contrib[OF re 1(4), where old = old and new = new]
    have r1: "\<forall>e\<in>set (used t1). reasonable e"
      using k(1) cc(3,4) 1(3) by (auto dest!: set_update_subset_insert[THEN subsetD] in_set_takeD)
    have nr: "nr_entries t \<le> nr_entries t1"
      using arg_cong[OF k(1), of length] length_used[OF v1] length_used[OF 1(2)] by simp
    note step = retyped_from_step[OF re 1(4,5) len refl k(1)]
    note ih = 1(1)[OF True t1[symmetric] refl v1 r1 1(4,5,6) loop]
    have "nr_entries t' < E820_MAX_ENTRIES \<Longrightarrow> length (snd ?c) \<le> k" using ih k(2) by linarith
    then show ?thesis using ih step nr by (auto intro: subset_mset.order_trans)
  qed
qed

text \<open>
  How far the table can grow: only entries of the old type that start below the end of the range
  are cut, each into at most three parts, and none of the new parts is cut again.
\<close>

definition to_cut :: "u64 \<Rightarrow> u32 \<Rightarrow> e820_entry \<Rightarrow> bool" where
  "to_cut en old e \<longleftrightarrow> e_type e = old \<and> e_addr e < en"

lemma cut_entry_parts:
  assumes "start \<le> en" "old \<noteq> new"
  shows "length (snd (cut_entry start en old new e)) \<le> 2" "\<forall>x\<in>set (snd (cut_entry start en old new e)). \<not> to_cut en old x"
    "\<not> to_cut en old e \<Longrightarrow> snd (cut_entry start en old new e) = []"
  using assms by (auto simp: cut_entry_def to_cut_def Let_def not_less split: if_splits)

lemma range_update_loop_nr:
  "valid_table t \<Longrightarrow> start \<le> en \<Longrightarrow> old \<noteq> new \<Longrightarrow> sz = en - start \<Longrightarrow>
   nr_entries (fst (range_update_loop start sz en old new i t r)) \<le> nr_entries t + 2 * length (filter (to_cut en old) (drop i (used t)))"
proof (induction start sz en old new i t r rule: range_update_loop.induct)
  case (1 start sz en old new i t r)
  show ?case
  proof (cases "i < nr_entries t")
    case False
    then show ?thesis by (simp add: range_update_loop.simps[of start sz en old new i t])
  next
    case True
    obtain t1 upd where t1: "range_update_entry t start sz en old new i = (t1, upd)" by force
    let ?e = "used t ! i" and ?c = "cut_entry start en old new (used t ! i)"
    obtain k where v1: "valid_table t1" and k: "used t1 = (used t)[i := fst ?c] @ take k (snd ?c)"
      using range_update_entry_used[OF 1(2) True, of start en old new] t1 1(5) by auto
    have len: "i < length (used t)" using True 1(2) by (simp add: length_used)
    note parts = cut_entry_parts[OF 1(3,4), of ?e]
    have "filter (to_cut en old) (take k (snd ?c)) = []" using parts(2) by (auto simp: filter_empty_conv dest: in_set_takeD)
    then have rest: "filter (to_cut en old) (drop (i + 1) (used t1)) = filter (to_cut en old) (drop (i + 1) (used t))"
      using len by (simp add: k)
    have all: "filter (to_cut en old) (drop i (used t)) = (if to_cut en old ?e then [?e] else []) @ filter (to_cut en old) (drop (i + 1) (used t))"
      using len by (simp add: Cons_nth_drop_Suc[symmetric])
    have "nr_entries t1 \<le> nr_entries t + length (snd ?c)"
      using arg_cong[OF k, of length] length_used[OF v1] length_used[OF 1(2)] by simp
    then have "nr_entries t1 \<le> nr_entries t + 2 * of_bool (to_cut en old ?e)" using parts(1,3) by (cases "to_cut en old ?e") auto
    then show ?thesis using 1(1)[OF True t1[symmetric] refl v1 1(3-5)] True t1 all rest
      by (cases "to_cut en old ?e") (simp_all add: range_update_loop.simps[of start sz en old new i t])
  qed
qed

lemma clamped_no_wrap: "s \<le> - 1 - a \<Longrightarrow> a \<le> a + (s :: u64)"
  using unat_lt_64[of a]
  by (simp add: word_le_nat_alt unat_word_ariths unat_sub_if' unsigned_minus_1_eq_mask mask_eq_exp_minus_1)

lemma range_update_types:
  fixes start sz :: u64
  assumes "valid_table t" "\<forall>e\<in>set (used t). reasonable e" "old \<noteq> new"
  defines "en \<equiv> start + (if sz > - 1 - start then - 1 - start else sz)"
  obtains t' r where "e820_range_update' t start sz old new = Inr (t', r)" "valid_table t'"
    "\<forall>e\<in>set (used t'). reasonable e"
    "\<And>a. types_at (used t') a \<subseteq># retype start en old new a (types_at (used t) a)"
    "\<And>a. nr_entries t' < E820_MAX_ENTRIES \<Longrightarrow> types_at (used t') a = retype start en old new a (types_at (used t) a)"
    "nr_entries t' \<le> 3 * nr_entries t"
proof -
  let ?sz = "if sz > - 1 - start then - 1 - start else sz"
  have "?sz \<le> - 1 - start" by auto
  then have le: "start \<le> en" unfolding en_def by (rule clamped_no_wrap)
  obtain t' r where l: "range_update_loop start ?sz en old new 0 t 0 = (t', r)" by force
  have "e820_range_update' t start sz old new = Inr (t', r)"
    using l assms(3) by (simp add: e820_range_update'_def BUG_ON_def Let_def en_def)
  moreover have "nr_entries t' \<le> 3 * nr_entries t"
    using range_update_loop_nr[OF assms(1) le assms(3), of ?sz 0 0] l length_filter_le[of "to_cut en old" "used t"] length_used[OF assms(1)]
    by (simp add: en_def)
  ultimately show ?thesis
    using that range_update_loop_types[OF assms(1,2) le assms(3) _ l] by (simp add: retyped_from_def en_def)
qed

section \<open>Properties\<close>

text \<open>A small map: low memory, an overlap with a reserved hole, high memory.\<close>

definition sample_table :: e820_table where
  "sample_table = \<lparr>nr_entries = 3,
     entries = [\<lparr>e_addr = 0, e_size = 0x100000, e_type = 1\<rparr>, \<lparr>e_addr = 0x9f000, e_size = 0x1000, e_type = 2\<rparr>,
       \<lparr>e_addr = 0x100000, e_size = 0x7ff00000, e_type = 1\<rparr>] @ replicate 125 \<lparr>e_addr = 0, e_size = 0, e_type = 0\<rparr>\<rparr>"

definition sample_state :: e820_state where
  "sample_state = \<lparr>table = sample_table, change_point_list = replicate 256 \<lparr>cm_entry = 0, cm_addr = 0\<rparr>,
     change_point = replicate 256 0, overlap_list = replicate 128 0,
     new_entries = replicate 128 \<lparr>e_addr = 0, e_size = 0, e_type = 0\<rparr>\<rparr>"

lemma sample_used: "used sample_table = [\<lparr>e_addr = 0, e_size = 0x100000, e_type = 1\<rparr>,
    \<lparr>e_addr = 0x9f000, e_size = 0x1000, e_type = 2\<rparr>, \<lparr>e_addr = 0x100000, e_size = 0x7ff00000, e_type = 1\<rparr>]"
  by (simp add: used_def sample_table_def)

lemma sample_valid: "valid_state sample_state" "valid_table sample_table" "\<forall>e\<in>set (used sample_table). reasonable e"
  by (simp_all add: valid_state_def valid_table_def sample_state_def sample_table_def E820_MAX_ENTRIES_def used_def reasonable_def)

text \<open>C11: sanitizing. On a table of at least two entries, none of which wraps around, the sweep
  terminates and reports success; the new table is sorted, without empty or overlapping entries,
  and gives every address the type it had: the highest of the entries covering it. Only when the
  table may overflow, with more than 64 entries, can addresses past the last kept entry be lost.\<close>

theorem e820_update_sanitizes:
  assumes "valid_state s" "2 \<le> nr_entries (table s)" "\<forall>e\<in>set (used (table s)). reasonable e"
  shows "\<exists>s'. e820_update_table' s = Some (Inr (0, s')) \<and> valid_state s' \<and> sanitized (used (table s')) \<and>
    (2 * nr_entries (table s) \<le> E820_MAX_ENTRIES \<longrightarrow> (\<forall>a. type_at (used (table s')) a = type_at (used (table s)) a)) \<and>
    (\<forall>a. type_at (used (table s')) a = type_at (used (table s)) a \<or>
       e_addr (last (used (table s'))) + e_size (last (used (table s'))) \<le> a)"
proof -
  obtain s' where "e820_update_table' s = Some (Inr (0, s'))" "valid_state s'" "sanitized (used (table s'))"
    and t: "\<And>a. type_at (used (table s')) a = type_at (used (table s)) a \<or>
      nr_entries (table s') = E820_MAX_ENTRIES \<and> E820_MAX_ENTRIES < 2 * nr_entries (table s) \<and>
      e_addr (last (used (table s'))) + e_size (last (used (table s'))) \<le> a"
    using update_table_result[OF assms(1,2)] assms(3) by metis
  moreover have "\<forall>a. type_at (used (table s')) a = type_at (used (table s)) a" if "2 * nr_entries (table s) \<le> E820_MAX_ENTRIES"
    using t that by (meson leD)
  ultimately show ?thesis using t by blast
qed

theorem e820_update_sanitizes_witness:
  "\<exists>s'. e820_update_table' sample_state = Some (Inr (0, s')) \<and> sanitized (used (table s')) \<and>
     type_at (used (table s')) 0x9f800 = 2 \<and> type_at (used (table s')) 0x9e000 = 1"
proof -
  have t: "table sample_state = sample_table" "nr_entries sample_table = 3" by (simp_all add: sample_state_def sample_table_def)
  have "type_at (used sample_table) 0x9f800 = 2" "type_at (used sample_table) 0x9e000 = 1"
    by (simp_all add: sample_used covers_def)
  then show ?thesis
    using e820_update_sanitizes[of sample_state] sample_valid by (auto simp: t E820_MAX_ENTRIES_def)
qed

text \<open>Sanitizing refuses a map of fewer than two entries and one with an entry that wraps
  around: the table is left as it was, and \<open>e820_update_table\<close> panics.\<close>

theorem e820_update_refuses:
  assumes "valid_state s"
    and "nr_entries (table s) < 2 \<or> (\<exists>e\<in>set (used (table s)). \<not> reasonable e)"
  shows "e820_update_table' s = Some (Inr (-1, s)) \<and>
    e820_update_table s = Some (Inl (PANIC ''e820: fail to sanitize the physical RAM map''))"
  using update_table_refuses[OF assms] by simp

theorem e820_update_refuses_witness:
  "e820_update_table' (sample_state\<lparr>table := sample_table\<lparr>nr_entries := 1\<rparr>\<rparr>) =
     Some (Inr (-1, sample_state\<lparr>table := sample_table\<lparr>nr_entries := 1\<rparr>\<rparr>))"
  using e820_update_refuses[of "sample_state\<lparr>table := sample_table\<lparr>nr_entries := 1\<rparr>\<rparr>"] sample_valid
  by (simp add: valid_state_def valid_table_def E820_MAX_ENTRIES_def)

text \<open>On a sanitized table \<open>e820_mapped_all\<close> decides whether every address of a non-empty range
  lies in an entry of the wanted type (type 0 stands for any).\<close>

theorem e820_mapped_all_exact:
  assumes "sanitized (used t)" "start < en"
  shows "e820_mapped_all t start en ty \<longleftrightarrow> (\<forall>a. start \<le> a \<longrightarrow> a < en \<longrightarrow> covered_by (used t) ty a)"
  using mapped_all_loop_sound[of "used t" start en ty] mapped_all_loop_complete[OF assms, of ty]
  by (auto simp: e820_mapped_all_def)

theorem e820_mapped_all_exact_witness:
  "e820_mapped_all (sample_table\<lparr>nr_entries := 1\<rparr>) 0x1000 0x2000 1 \<longleftrightarrow>
     (\<forall>a. 0x1000 \<le> a \<longrightarrow> a < 0x2000 \<longrightarrow> covered_by (used (sample_table\<lparr>nr_entries := 1\<rparr>)) 1 a)"
  by (rule e820_mapped_all_exact) (simp_all add: sample_table_def used_def sanitized_def)

text \<open>C19: retyping a range. \<open>e820_range_update\<close> turns, on \<open>[start, start + size)\<close> clamped below
  the end of the address space, every occurrence of the old type into the new one and changes
  nothing else, as long as the table does not fill up; when it fills up, coverage is only ever
  lost, and no address of the range keeps the old type.\<close>

theorem e820_range_update_retypes:
  fixes start sz :: u64
  assumes "valid_table t" "\<forall>e\<in>set (used t). reasonable e" "old \<noteq> new"
  defines "en \<equiv> start + (if sz > - 1 - start then - 1 - start else sz)"
  shows "\<exists>t' r. e820_range_update' t start sz old new = Inr (t', r) \<and> valid_table t' \<and>
    (\<forall>a. types_at (used t') a \<subseteq># retype start en old new a (types_at (used t) a)) \<and>
    (\<forall>a. start \<le> a \<longrightarrow> a < en \<longrightarrow> old \<notin># types_at (used t') a) \<and>
    (nr_entries t' < E820_MAX_ENTRIES \<longrightarrow> (\<forall>a. types_at (used t') a = retype start en old new a (types_at (used t) a)))"
proof -
  obtain t' r where t': "e820_range_update' t start sz old new = Inr (t', r)" "valid_table t'"
    and s: "\<And>a. types_at (used t') a \<subseteq># retype start en old new a (types_at (used t) a)"
    and e: "\<And>a. nr_entries t' < E820_MAX_ENTRIES \<Longrightarrow> types_at (used t') a = retype start en old new a (types_at (used t) a)"
    using range_update_types[OF assms(1-3), of start sz, folded en_def] by metis
  have "old \<notin># types_at (used t') a" if "start \<le> a" "a < en" for a
    using s[of a] retype_old[OF assms(3) that] by (meson mset_subset_eqD)
  then show ?thesis using t' s e by blast
qed

theorem e820_range_update_retypes_witness:
  "\<exists>t' r. e820_range_update' sample_table 0x200000 0x200000 1 2 = Inr (t', r) \<and> 1 \<notin># types_at (used t') 0x300000"
  using e820_range_update_retypes[OF sample_valid(2,3), of 1 2 "0x200000" "0x200000"] by fastforce

text \<open>The end of an entry in pages, cut at the limit.\<close>

definition pfn_end :: "u64 \<Rightarrow> e820_entry \<Rightarrow> u64" where
  "pfn_end limit e = min limit (drop_bit 12 (e_addr e + e_size e))"

definition pfn_ends :: "e820_entry list \<Rightarrow> u64 \<Rightarrow> u32 \<Rightarrow> u64 list" where
  "pfn_ends es limit ty = map (pfn_end limit) (filter (\<lambda>e. e_type e = ty \<and> drop_bit 12 (e_addr e) < limit) es)"

lemma fold_max_le: "(\<forall>x\<in>set xs. x \<le> limit) \<Longrightarrow> fold max xs limit = (limit :: u64)"
  by (induction xs) (simp_all add: max_absorb2)

lemma end_pfn_loop_max: "acc \<le> limit \<Longrightarrow> end_pfn_loop es limit ty acc = fold max (pfn_ends es limit ty) acc"
proof (induction es arbitrary: acc)
  case (Cons e es)
  let ?fin = "drop_bit 12 (e_addr e + e_size e)"
  have le: "\<forall>x\<in>set (pfn_ends es limit ty). x \<le> limit" by (auto simp: pfn_ends_def pfn_end_def)
  consider "e_type e \<noteq> ty \<or> limit \<le> drop_bit 12 (e_addr e)"
    | "e_type e = ty" "drop_bit 12 (e_addr e) < limit" "limit < ?fin"
    | "e_type e = ty" "drop_bit 12 (e_addr e) < limit" "?fin \<le> limit" by force
  then show ?case
  proof cases
    case 1
    then show ?thesis using Cons by (auto simp: pfn_ends_def Let_def)
  next
    case 2
    then have "pfn_ends (e # es) limit ty = limit # pfn_ends es limit ty"
      by (simp add: pfn_ends_def pfn_end_def min_absorb1 less_imp_le)
    then show ?thesis using 2 Cons.prems fold_max_le[OF le] by (auto simp: Let_def max_absorb1)
  next
    case 3
    then have "pfn_ends (e # es) limit ty = ?fin # pfn_ends es limit ty"
      by (simp add: pfn_ends_def pfn_end_def min_absorb2)
    moreover have "(if acc < ?fin then ?fin else acc) = max ?fin acc" by (auto simp: max_def)
    ultimately show ?thesis using 3 Cons.IH[of "max ?fin acc"] Cons.prems by (auto simp: Let_def not_le not_less)
  qed
qed (simp add: pfn_ends_def)

text \<open>\<open>e820_end_of_ram_pfn\<close> is the largest end, in pages, of a RAM entry that starts below the
  supported 64 TB, never more than that limit, and 0 when there is none.\<close>

theorem e820_end_of_ram_exact:
  "e820_end_of_ram_pfn t = fold max (pfn_ends (used t) MAXMEM_PFN E820_TYPE_RAM) 0 \<and> e820_end_of_ram_pfn t \<le> MAXMEM_PFN"
proof -
  have le: "fold max xs x \<le> limit" if "\<forall>y\<in>set xs. y \<le> limit" "x \<le> limit" for xs x and limit :: u64
    using that by (induction xs arbitrary: x) auto
  have "fold max (pfn_ends (used t) MAXMEM_PFN E820_TYPE_RAM) 0 \<le> MAXMEM_PFN"
    by (rule le) (auto simp: pfn_ends_def pfn_end_def)
  then show ?thesis
    by (auto simp: e820_end_of_ram_pfn_def e820_end_pfn_def end_pfn_loop_max Let_def)
qed

end
