(* ===== verification/Vmx_Machine.thy ===== *)
theory Vmx_Machine
  imports Memory
begin

unbundle bit_operations_syntax

text \<open>
  The machine the VMX code of vmm/vmx.c drives: the constants of include/asm/vmx.h,
  include/asm/msr-index.h and include/asm/processor-flags.h it uses, the state of the
  processor and of the file's static and per-CPU data, and the access to VMCS fields, MSRs
  and guest registers. What the processor does is a parameter of the model: the record
  \<open>cpu\<close> says which VMCS fields it lets software write, what CPUID answers, where its
  descriptor tables are.
\<close>

section \<open>Constants\<close>

text \<open>\<open>enum vmcs_field\<close>\<close>

abbreviation (input) VIRTUAL_PROCESSOR_ID :: u32 where "VIRTUAL_PROCESSOR_ID \<equiv> 0x0"
abbreviation (input) GUEST_ES_SELECTOR :: u32 where "GUEST_ES_SELECTOR \<equiv> 0x800"
abbreviation (input) GUEST_CS_SELECTOR :: u32 where "GUEST_CS_SELECTOR \<equiv> 0x802"
abbreviation (input) GUEST_SS_SELECTOR :: u32 where "GUEST_SS_SELECTOR \<equiv> 0x804"
abbreviation (input) GUEST_DS_SELECTOR :: u32 where "GUEST_DS_SELECTOR \<equiv> 0x806"
abbreviation (input) GUEST_FS_SELECTOR :: u32 where "GUEST_FS_SELECTOR \<equiv> 0x808"
abbreviation (input) GUEST_GS_SELECTOR :: u32 where "GUEST_GS_SELECTOR \<equiv> 0x80A"
abbreviation (input) GUEST_LDTR_SELECTOR :: u32 where "GUEST_LDTR_SELECTOR \<equiv> 0x80C"
abbreviation (input) GUEST_TR_SELECTOR :: u32 where "GUEST_TR_SELECTOR \<equiv> 0x80E"
abbreviation (input) HOST_ES_SELECTOR :: u32 where "HOST_ES_SELECTOR \<equiv> 0xC00"
abbreviation (input) HOST_CS_SELECTOR :: u32 where "HOST_CS_SELECTOR \<equiv> 0xC02"
abbreviation (input) HOST_SS_SELECTOR :: u32 where "HOST_SS_SELECTOR \<equiv> 0xC04"
abbreviation (input) HOST_DS_SELECTOR :: u32 where "HOST_DS_SELECTOR \<equiv> 0xC06"
abbreviation (input) HOST_FS_SELECTOR :: u32 where "HOST_FS_SELECTOR \<equiv> 0xC08"
abbreviation (input) HOST_GS_SELECTOR :: u32 where "HOST_GS_SELECTOR \<equiv> 0xC0A"
abbreviation (input) HOST_TR_SELECTOR :: u32 where "HOST_TR_SELECTOR \<equiv> 0xC0C"
abbreviation (input) MSR_BITMAP :: u32 where "MSR_BITMAP \<equiv> 0x2004"
abbreviation (input) VM_EXIT_MSR_STORE_ADDR :: u32 where "VM_EXIT_MSR_STORE_ADDR \<equiv> 0x2006"
abbreviation (input) VM_EXIT_MSR_LOAD_ADDR :: u32 where "VM_EXIT_MSR_LOAD_ADDR \<equiv> 0x2008"
abbreviation (input) VM_ENTRY_MSR_LOAD_ADDR :: u32 where "VM_ENTRY_MSR_LOAD_ADDR \<equiv> 0x200A"
abbreviation (input) EPT_POINTER :: u32 where "EPT_POINTER \<equiv> 0x201A"
abbreviation (input) GUEST_PHYSICAL_ADDRESS :: u32 where "GUEST_PHYSICAL_ADDRESS \<equiv> 0x2400"
abbreviation (input) VMCS_LINK_POINTER :: u32 where "VMCS_LINK_POINTER \<equiv> 0x2800"
abbreviation (input) GUEST_IA32_DEBUGCTL :: u32 where "GUEST_IA32_DEBUGCTL \<equiv> 0x2802"
abbreviation (input) GUEST_IA32_EFER :: u32 where "GUEST_IA32_EFER \<equiv> 0x2806"
abbreviation (input) HOST_IA32_PAT :: u32 where "HOST_IA32_PAT \<equiv> 0x2C00"
abbreviation (input) HOST_IA32_EFER :: u32 where "HOST_IA32_EFER \<equiv> 0x2C02"
abbreviation (input) PIN_BASED_VM_EXEC_CONTROL :: u32 where "PIN_BASED_VM_EXEC_CONTROL \<equiv> 0x4000"
abbreviation (input) CPU_BASED_VM_EXEC_CONTROL :: u32 where "CPU_BASED_VM_EXEC_CONTROL \<equiv> 0x4002"
abbreviation (input) EXCEPTION_BITMAP :: u32 where "EXCEPTION_BITMAP \<equiv> 0x4004"
abbreviation (input) PAGE_FAULT_ERROR_CODE_MASK :: u32 where "PAGE_FAULT_ERROR_CODE_MASK \<equiv> 0x4006"
abbreviation (input) PAGE_FAULT_ERROR_CODE_MATCH :: u32 where "PAGE_FAULT_ERROR_CODE_MATCH \<equiv> 0x4008"
abbreviation (input) CR3_TARGET_COUNT :: u32 where "CR3_TARGET_COUNT \<equiv> 0x400A"
abbreviation (input) VM_EXIT_CONTROLS :: u32 where "VM_EXIT_CONTROLS \<equiv> 0x400C"
abbreviation (input) VM_EXIT_MSR_STORE_COUNT :: u32 where "VM_EXIT_MSR_STORE_COUNT \<equiv> 0x400E"
abbreviation (input) VM_EXIT_MSR_LOAD_COUNT :: u32 where "VM_EXIT_MSR_LOAD_COUNT \<equiv> 0x4010"
abbreviation (input) VM_ENTRY_CONTROLS :: u32 where "VM_ENTRY_CONTROLS \<equiv> 0x4012"
abbreviation (input) VM_ENTRY_MSR_LOAD_COUNT :: u32 where "VM_ENTRY_MSR_LOAD_COUNT \<equiv> 0x4014"
abbreviation (input) VM_ENTRY_INTR_INFO_FIELD :: u32 where "VM_ENTRY_INTR_INFO_FIELD \<equiv> 0x4016"
abbreviation (input) SECONDARY_VM_EXEC_CONTROL :: u32 where "SECONDARY_VM_EXEC_CONTROL \<equiv> 0x401E"
abbreviation (input) VM_INSTRUCTION_ERROR :: u32 where "VM_INSTRUCTION_ERROR \<equiv> 0x4400"
abbreviation (input) VM_EXIT_REASON :: u32 where "VM_EXIT_REASON \<equiv> 0x4402"
abbreviation (input) VM_EXIT_INTR_INFO :: u32 where "VM_EXIT_INTR_INFO \<equiv> 0x4404"
abbreviation (input) VM_EXIT_INSTRUCTION_LEN :: u32 where "VM_EXIT_INSTRUCTION_LEN \<equiv> 0x440C"
abbreviation (input) GUEST_ES_LIMIT :: u32 where "GUEST_ES_LIMIT \<equiv> 0x4800"
abbreviation (input) GUEST_CS_LIMIT :: u32 where "GUEST_CS_LIMIT \<equiv> 0x4802"
abbreviation (input) GUEST_SS_LIMIT :: u32 where "GUEST_SS_LIMIT \<equiv> 0x4804"
abbreviation (input) GUEST_DS_LIMIT :: u32 where "GUEST_DS_LIMIT \<equiv> 0x4806"
abbreviation (input) GUEST_FS_LIMIT :: u32 where "GUEST_FS_LIMIT \<equiv> 0x4808"
abbreviation (input) GUEST_GS_LIMIT :: u32 where "GUEST_GS_LIMIT \<equiv> 0x480A"
abbreviation (input) GUEST_LDTR_LIMIT :: u32 where "GUEST_LDTR_LIMIT \<equiv> 0x480C"
abbreviation (input) GUEST_TR_LIMIT :: u32 where "GUEST_TR_LIMIT \<equiv> 0x480E"
abbreviation (input) GUEST_GDTR_LIMIT :: u32 where "GUEST_GDTR_LIMIT \<equiv> 0x4810"
abbreviation (input) GUEST_IDTR_LIMIT :: u32 where "GUEST_IDTR_LIMIT \<equiv> 0x4812"
abbreviation (input) GUEST_ES_AR_BYTES :: u32 where "GUEST_ES_AR_BYTES \<equiv> 0x4814"
abbreviation (input) GUEST_CS_AR_BYTES :: u32 where "GUEST_CS_AR_BYTES \<equiv> 0x4816"
abbreviation (input) GUEST_SS_AR_BYTES :: u32 where "GUEST_SS_AR_BYTES \<equiv> 0x4818"
abbreviation (input) GUEST_DS_AR_BYTES :: u32 where "GUEST_DS_AR_BYTES \<equiv> 0x481A"
abbreviation (input) GUEST_FS_AR_BYTES :: u32 where "GUEST_FS_AR_BYTES \<equiv> 0x481C"
abbreviation (input) GUEST_GS_AR_BYTES :: u32 where "GUEST_GS_AR_BYTES \<equiv> 0x481E"
abbreviation (input) GUEST_LDTR_AR_BYTES :: u32 where "GUEST_LDTR_AR_BYTES \<equiv> 0x4820"
abbreviation (input) GUEST_TR_AR_BYTES :: u32 where "GUEST_TR_AR_BYTES \<equiv> 0x4822"
abbreviation (input) GUEST_INTERRUPTIBILITY_INFO :: u32 where "GUEST_INTERRUPTIBILITY_INFO \<equiv> 0x4824"
abbreviation (input) GUEST_ACTIVITY_STATE :: u32 where "GUEST_ACTIVITY_STATE \<equiv> 0x4826"
abbreviation (input) GUEST_SYSENTER_CS :: u32 where "GUEST_SYSENTER_CS \<equiv> 0x482A"
abbreviation (input) HOST_IA32_SYSENTER_CS :: u32 where "HOST_IA32_SYSENTER_CS \<equiv> 0x4C00"
abbreviation (input) CR0_GUEST_HOST_MASK :: u32 where "CR0_GUEST_HOST_MASK \<equiv> 0x6000"
abbreviation (input) CR4_GUEST_HOST_MASK :: u32 where "CR4_GUEST_HOST_MASK \<equiv> 0x6002"
abbreviation (input) CR0_READ_SHADOW :: u32 where "CR0_READ_SHADOW \<equiv> 0x6004"
abbreviation (input) CR4_READ_SHADOW :: u32 where "CR4_READ_SHADOW \<equiv> 0x6006"
abbreviation (input) EXIT_QUALIFICATION :: u32 where "EXIT_QUALIFICATION \<equiv> 0x6400"
abbreviation (input) GUEST_CR0 :: u32 where "GUEST_CR0 \<equiv> 0x6800"
abbreviation (input) GUEST_CR3 :: u32 where "GUEST_CR3 \<equiv> 0x6802"
abbreviation (input) GUEST_CR4 :: u32 where "GUEST_CR4 \<equiv> 0x6804"
abbreviation (input) GUEST_ES_BASE :: u32 where "GUEST_ES_BASE \<equiv> 0x6806"
abbreviation (input) GUEST_CS_BASE :: u32 where "GUEST_CS_BASE \<equiv> 0x6808"
abbreviation (input) GUEST_SS_BASE :: u32 where "GUEST_SS_BASE \<equiv> 0x680A"
abbreviation (input) GUEST_DS_BASE :: u32 where "GUEST_DS_BASE \<equiv> 0x680C"
abbreviation (input) GUEST_FS_BASE :: u32 where "GUEST_FS_BASE \<equiv> 0x680E"
abbreviation (input) GUEST_GS_BASE :: u32 where "GUEST_GS_BASE \<equiv> 0x6810"
abbreviation (input) GUEST_LDTR_BASE :: u32 where "GUEST_LDTR_BASE \<equiv> 0x6812"
abbreviation (input) GUEST_TR_BASE :: u32 where "GUEST_TR_BASE \<equiv> 0x6814"
abbreviation (input) GUEST_GDTR_BASE :: u32 where "GUEST_GDTR_BASE \<equiv> 0x6816"
abbreviation (input) GUEST_IDTR_BASE :: u32 where "GUEST_IDTR_BASE \<equiv> 0x6818"
abbreviation (input) GUEST_RIP :: u32 where "GUEST_RIP \<equiv> 0x681E"
abbreviation (input) GUEST_RFLAGS :: u32 where "GUEST_RFLAGS \<equiv> 0x6820"
abbreviation (input) GUEST_PENDING_DBG_EXCEPTIONS :: u32 where "GUEST_PENDING_DBG_EXCEPTIONS \<equiv> 0x6822"
abbreviation (input) GUEST_SYSENTER_ESP :: u32 where "GUEST_SYSENTER_ESP \<equiv> 0x6824"
abbreviation (input) GUEST_SYSENTER_EIP :: u32 where "GUEST_SYSENTER_EIP \<equiv> 0x6826"
abbreviation (input) HOST_CR0 :: u32 where "HOST_CR0 \<equiv> 0x6C00"
abbreviation (input) HOST_CR3 :: u32 where "HOST_CR3 \<equiv> 0x6C02"
abbreviation (input) HOST_CR4 :: u32 where "HOST_CR4 \<equiv> 0x6C04"
abbreviation (input) HOST_FS_BASE :: u32 where "HOST_FS_BASE \<equiv> 0x6C06"
abbreviation (input) HOST_GS_BASE :: u32 where "HOST_GS_BASE \<equiv> 0x6C08"
abbreviation (input) HOST_TR_BASE :: u32 where "HOST_TR_BASE \<equiv> 0x6C0A"
abbreviation (input) HOST_GDTR_BASE :: u32 where "HOST_GDTR_BASE \<equiv> 0x6C0C"
abbreviation (input) HOST_IDTR_BASE :: u32 where "HOST_IDTR_BASE \<equiv> 0x6C0E"
abbreviation (input) HOST_IA32_SYSENTER_EIP :: u32 where "HOST_IA32_SYSENTER_EIP \<equiv> 0x6C12"
abbreviation (input) HOST_RSP :: u32 where "HOST_RSP \<equiv> 0x6C14"
abbreviation (input) HOST_RIP :: u32 where "HOST_RIP \<equiv> 0x6C16"

text \<open>Model-specific registers; \<open>APIC_ICR_MSR\<close> is \<open>APIC_BASE_MSR + (APIC_ICR >> 4)\<close>.\<close>

abbreviation (input) MSR_EFER :: u32 where "MSR_EFER \<equiv> 0xC0000080"
abbreviation (input) MSR_STAR :: u32 where "MSR_STAR \<equiv> 0xC0000081"
abbreviation (input) MSR_LSTAR :: u32 where "MSR_LSTAR \<equiv> 0xC0000082"
abbreviation (input) MSR_SYSCALL_MASK :: u32 where "MSR_SYSCALL_MASK \<equiv> 0xC0000084"
abbreviation (input) MSR_FS_BASE :: u32 where "MSR_FS_BASE \<equiv> 0xC0000100"
abbreviation (input) MSR_GS_BASE :: u32 where "MSR_GS_BASE \<equiv> 0xC0000101"
abbreviation (input) MSR_KERNEL_GS_BASE :: u32 where "MSR_KERNEL_GS_BASE \<equiv> 0xC0000102"
abbreviation (input) MSR_IA32_SYSENTER_CS :: u32 where "MSR_IA32_SYSENTER_CS \<equiv> 0x174"
abbreviation (input) MSR_IA32_SYSENTER_EIP :: u32 where "MSR_IA32_SYSENTER_EIP \<equiv> 0x176"
abbreviation (input) MSR_IA32_CR_PAT :: u32 where "MSR_IA32_CR_PAT \<equiv> 0x277"
abbreviation (input) MSR_IA32_FEATURE_CONTROL :: u32 where "MSR_IA32_FEATURE_CONTROL \<equiv> 0x3A"
abbreviation (input) MSR_IA32_APICBASE :: u32 where "MSR_IA32_APICBASE \<equiv> 0x1B"
abbreviation (input) MSR_IA32_VMX_BASIC :: u32 where "MSR_IA32_VMX_BASIC \<equiv> 0x480"
abbreviation (input) MSR_IA32_VMX_PINBASED_CTLS :: u32 where "MSR_IA32_VMX_PINBASED_CTLS \<equiv> 0x481"
abbreviation (input) MSR_IA32_VMX_PROCBASED_CTLS :: u32 where "MSR_IA32_VMX_PROCBASED_CTLS \<equiv> 0x482"
abbreviation (input) MSR_IA32_VMX_EXIT_CTLS :: u32 where "MSR_IA32_VMX_EXIT_CTLS \<equiv> 0x483"
abbreviation (input) MSR_IA32_VMX_ENTRY_CTLS :: u32 where "MSR_IA32_VMX_ENTRY_CTLS \<equiv> 0x484"
abbreviation (input) MSR_IA32_VMX_PROCBASED_CTLS2 :: u32 where "MSR_IA32_VMX_PROCBASED_CTLS2 \<equiv> 0x48B"
abbreviation (input) MSR_IA32_VMX_EPT_VPID_CAP :: u32 where "MSR_IA32_VMX_EPT_VPID_CAP \<equiv> 0x48C"
abbreviation (input) MSR_IA32_VMX_VMFUNC :: u32 where "MSR_IA32_VMX_VMFUNC \<equiv> 0x491"
abbreviation (input) APIC_ICR_MSR :: u32 where "APIC_ICR_MSR \<equiv> 0x830"

text \<open>VM-execution, VM-exit and VM-entry controls\<close>

abbreviation (input) CPU_BASED_USE_MSR_BITMAPS :: u32 where "CPU_BASED_USE_MSR_BITMAPS \<equiv> 0x10000000"
abbreviation (input) CPU_BASED_ACTIVATE_SECONDARY_CONTROLS :: u32 where "CPU_BASED_ACTIVATE_SECONDARY_CONTROLS \<equiv> 0x80000000"
abbreviation (input) CPU_BASED_RDTSC_EXITING :: u32 where "CPU_BASED_RDTSC_EXITING \<equiv> 0x1000"
abbreviation (input) CPU_BASED_CR3_LOAD_EXITING :: u32 where "CPU_BASED_CR3_LOAD_EXITING \<equiv> 0x8000"
abbreviation (input) CPU_BASED_CR3_STORE_EXITING :: u32 where "CPU_BASED_CR3_STORE_EXITING \<equiv> 0x10000"
abbreviation (input) CPU_BASED_INVLPG_EXITING :: u32 where "CPU_BASED_INVLPG_EXITING \<equiv> 0x200"
abbreviation (input) SECONDARY_EXEC_ENABLE_EPT :: u32 where "SECONDARY_EXEC_ENABLE_EPT \<equiv> 0x2"
abbreviation (input) SECONDARY_EXEC_ENABLE_VPID :: u32 where "SECONDARY_EXEC_ENABLE_VPID \<equiv> 0x20"
abbreviation (input) SECONDARY_EXEC_UNRESTRICTED_GUEST :: u32 where "SECONDARY_EXEC_UNRESTRICTED_GUEST \<equiv> 0x80"
abbreviation (input) SECONDARY_EXEC_RDTSCP :: u32 where "SECONDARY_EXEC_RDTSCP \<equiv> 0x8"
abbreviation (input) SECONDARY_EXEC_ENABLE_INVPCID :: u32 where "SECONDARY_EXEC_ENABLE_INVPCID \<equiv> 0x1000"
abbreviation (input) VM_EXIT_SAVE_DEBUG_CONTROLS :: u32 where "VM_EXIT_SAVE_DEBUG_CONTROLS \<equiv> 0x4"
abbreviation (input) VM_EXIT_HOST_ADDR_SPACE_SIZE :: u32 where "VM_EXIT_HOST_ADDR_SPACE_SIZE \<equiv> 0x200"
abbreviation (input) VM_EXIT_SAVE_IA32_EFER :: u32 where "VM_EXIT_SAVE_IA32_EFER \<equiv> 0x100000"
abbreviation (input) VM_EXIT_LOAD_IA32_EFER :: u32 where "VM_EXIT_LOAD_IA32_EFER \<equiv> 0x200000"
abbreviation (input) VM_EXIT_SAVE_IA32_PAT :: u32 where "VM_EXIT_SAVE_IA32_PAT \<equiv> 0x40000"
abbreviation (input) VM_EXIT_LOAD_IA32_PAT :: u32 where "VM_EXIT_LOAD_IA32_PAT \<equiv> 0x80000"
abbreviation (input) VM_EXIT_CLEAR_BNDCFGS :: u32 where "VM_EXIT_CLEAR_BNDCFGS \<equiv> 0x800000"
abbreviation (input) VM_ENTRY_LOAD_DEBUG_CONTROLS :: u32 where "VM_ENTRY_LOAD_DEBUG_CONTROLS \<equiv> 0x4"
abbreviation (input) VM_ENTRY_LOAD_IA32_EFER :: u32 where "VM_ENTRY_LOAD_IA32_EFER \<equiv> 0x8000"
abbreviation (input) VM_ENTRY_LOAD_IA32_PAT :: u32 where "VM_ENTRY_LOAD_IA32_PAT \<equiv> 0x4000"
abbreviation (input) VM_ENTRY_LOAD_BNDCFGS :: u32 where "VM_ENTRY_LOAD_BNDCFGS \<equiv> 0x10000"
abbreviation (input) VM_ENTRY_IA32E_MODE :: u32 where "VM_ENTRY_IA32E_MODE \<equiv> 0x200"

definition X86_CR0_PE :: u64 where "X86_CR0_PE = BIT_64 0"
definition X86_CR0_ET :: u64 where "X86_CR0_ET = BIT_64 4"
definition X86_CR0_NE :: u64 where "X86_CR0_NE = BIT_64 5"
definition X86_CR0_WP :: u64 where "X86_CR0_WP = BIT_64 16"
definition X86_CR0_NW :: u64 where "X86_CR0_NW = BIT_64 29"
definition X86_CR0_CD :: u64 where "X86_CR0_CD = BIT_64 30"
definition X86_CR0_PG :: u64 where "X86_CR0_PG = BIT_64 31"
definition X86_CR4_VMXE :: u64 where "X86_CR4_VMXE = BIT_64 13"

definition EFER_SCE :: u64 where "EFER_SCE = BIT_64 0"
definition EFER_LME :: u64 where "EFER_LME = BIT_64 8"
definition EFER_LMA :: u64 where "EFER_LMA = BIT_64 10"

definition FEATURE_CONTROL_LOCKED :: u64 where "FEATURE_CONTROL_LOCKED = BIT_64 0"
definition FEATURE_CONTROL_VMXON_ENABLED_INSIDE_SMX :: u64 where
  "FEATURE_CONTROL_VMXON_ENABLED_INSIDE_SMX = BIT_64 1"
definition FEATURE_CONTROL_VMXON_ENABLED_OUTSIDE_SMX :: u64 where
  "FEATURE_CONTROL_VMXON_ENABLED_OUTSIDE_SMX = BIT_64 2"

definition KVM_GUEST_CR0_ALWAYS_ON :: u64 where
  "KVM_GUEST_CR0_ALWAYS_ON = X86_CR0_WP OR X86_CR0_NE"

definition KVM_GUEST_CR4_ALWAYS_ON :: u64 where
  "KVM_GUEST_CR4_ALWAYS_ON = X86_CR4_VMXE"

text \<open>\<open>enum kvm_reg\<close>: indices into the saved register file.\<close>

abbreviation (input) VCPU_REGS_RAX :: nat where "VCPU_REGS_RAX \<equiv> 0"
abbreviation (input) VCPU_REGS_RCX :: nat where "VCPU_REGS_RCX \<equiv> 1"
abbreviation (input) VCPU_REGS_RDX :: nat where "VCPU_REGS_RDX \<equiv> 2"
abbreviation (input) VCPU_REGS_RBX :: nat where "VCPU_REGS_RBX \<equiv> 3"
abbreviation (input) VCPU_REGS_RSP :: nat where "VCPU_REGS_RSP \<equiv> 4"
abbreviation (input) VCPU_REGS_R11 :: nat where "VCPU_REGS_R11 \<equiv> 11"

section \<open>State\<close>

record vmcs_config =
  conf_size :: u32
  basic_cap :: u32
  revision_id :: u32
  pin_based_exec_ctrl :: u32
  cpu_based_exec_ctrl :: u32
  cpu_based_2nd_exec_ctrl :: u32
  vmexit_ctrl :: u32
  vmentry_ctrl :: u32

record vmx_msr_entry =
  msr_index :: u32
  msr_value :: u64

text \<open>
  The processor, the data of vmm/vmx.c (\<open>vmcs_config\<close>, \<open>vmx_capability\<close>, \<open>msr_bitmap\<close>), the
  \<open>struct vcpu_vmx\<close> of the CPU, and memory.
\<close>

record machine =
  msrs :: "u32 \<Rightarrow> u64"
  vmcs :: "u32 \<Rightarrow> u64"
  hw_cr0 :: u64
  hw_cr2 :: u64
  hw_cr3 :: u64
  hw_cr4 :: u64
  tsc :: u64
  vmxon_region :: "u64 option"
  vmcs_region :: "u64 option"
  config :: vmcs_config
  cap_ept :: u32
  cap_vpid :: u32
  msr_bitmap :: "u64 list"
  regs :: "nat \<Rightarrow> u64"
  vcpu_cr2 :: u64
  host_rsp :: u64
  fail :: bool
  launched :: bool
  autoload_guest :: "vmx_msr_entry list"
  autoload_host :: "vmx_msr_entry list"
  ept_handler :: bool
  pml4_0_512g_initialized :: bool
  memory :: mem

text \<open>The processor and the link-time addresses, which no step changes.\<close>

record cpu =
  vmwrite_ok :: "u32 \<Rightarrow> bool"
  vmptrld_ok :: "u64 \<Rightarrow> bool"
  cpuid :: "u32 \<Rightarrow> u32 \<Rightarrow> u32 \<times> u32 \<times> u32 \<times> u32"
  tr_selector :: u64
  gdt_address :: u64
  idt_address :: u64
  msr_bitmap_addr :: u64
  vmxarea_addr :: u64
  current_vmcs_addr :: u64
  autoload_guest_addr :: u64
  autoload_host_addr :: u64
  vmx_return :: u64

section \<open>VMCS fields\<close>

text \<open>
  Bits 14:13 of an encoding give the width of the field: 0 is 16 bits, 2 is 32 bits, 1 and
  3 are 64 bits here. The processor stores what fits and returns it zero-extended.
\<close>

definition field_width :: "u32 \<Rightarrow> nat" where
  "field_width f = (if f AND 0x6000 = 0 then 16 else if f AND 0x6000 = 0x4000 then 32 else 64)"

definition vmcs_check16 :: "u32 \<Rightarrow> bool" where
  "vmcs_check16 f \<longleftrightarrow> f AND 0x6001 \<noteq> 0x2000 \<and> f AND 0x6001 \<noteq> 0x2001 \<and> f AND 0x6000 \<noteq> 0x4000 \<and> f AND 0x6000 \<noteq> 0x6000"

definition vmcs_check32 :: "u32 \<Rightarrow> bool" where
  "vmcs_check32 f \<longleftrightarrow> f AND 0x6000 \<noteq> 0 \<and> f AND 0x6000 \<noteq> 0x6000"

definition vmcs_check64 :: "u32 \<Rightarrow> bool" where
  "vmcs_check64 f \<longleftrightarrow> f AND 0x6000 \<noteq> 0 \<and> f AND 0x6001 \<noteq> 0x2001 \<and> f AND 0x6000 \<noteq> 0x4000 \<and> f AND 0x6000 \<noteq> 0x6000"

definition vmcs_checkl :: "u32 \<Rightarrow> bool" where
  "vmcs_checkl f \<longleftrightarrow> f AND 0x6000 \<noteq> 0 \<and> f AND 0x6001 \<noteq> 0x2000 \<and> f AND 0x6001 \<noteq> 0x2001 \<and> f AND 0x6000 \<noteq> 0x4000"

definition vmcs_read :: "u32 \<Rightarrow> machine \<Rightarrow> u64" where
  "vmcs_read f s = vmcs s f"

definition vmcs_read16 :: "u32 \<Rightarrow> machine \<Rightarrow> u16" where
  "vmcs_read16 f s = ucast (vmcs_read f s)"

definition vmcs_read32 :: "u32 \<Rightarrow> machine \<Rightarrow> u32" where
  "vmcs_read32 f s = ucast (vmcs_read f s)"

definition vmcs_read64 :: "u32 \<Rightarrow> machine \<Rightarrow> u64" where
  "vmcs_read64 f s = vmcs_read f s"

definition vmcs_readl :: "u32 \<Rightarrow> machine \<Rightarrow> u64" where
  "vmcs_readl f s = vmcs_read f s"

definition vmcs_write :: "cpu \<Rightarrow> u32 \<Rightarrow> u64 \<Rightarrow> machine \<Rightarrow> stop + machine" where
  "vmcs_write c f v s =
     (if vmwrite_ok c f then Inr (s\<lparr>vmcs := (vmcs s)(f := take_bit (field_width f) v)\<rparr>)
      else Inl (PANIC ''vmx: vmwrite error''))"

text \<open>The accessors differ only in the compile-time check.\<close>

definition vmcs_write16 :: "cpu \<Rightarrow> u32 \<Rightarrow> u64 \<Rightarrow> machine \<Rightarrow> stop + machine" where
  "vmcs_write16 = vmcs_write"

definition vmcs_write32 :: "cpu \<Rightarrow> u32 \<Rightarrow> u64 \<Rightarrow> machine \<Rightarrow> stop + machine" where
  "vmcs_write32 = vmcs_write"

definition vmcs_write64 :: "cpu \<Rightarrow> u32 \<Rightarrow> u64 \<Rightarrow> machine \<Rightarrow> stop + machine" where
  "vmcs_write64 = vmcs_write"

definition vmcs_writel :: "cpu \<Rightarrow> u32 \<Rightarrow> u64 \<Rightarrow> machine \<Rightarrow> stop + machine" where
  "vmcs_writel = vmcs_write"

section \<open>MSRs and guest registers\<close>

definition rdmsr :: "u32 \<Rightarrow> machine \<Rightarrow> u32 \<times> u32" where
  "rdmsr msr s = (ucast (msrs s msr), ucast (drop_bit 32 (msrs s msr)))"

definition rdmsrl :: "u32 \<Rightarrow> machine \<Rightarrow> u64" where
  "rdmsrl msr s = (let (low, high) = rdmsr msr s in ucast low OR push_bit 32 (ucast high))"

definition wrmsr :: "u32 \<Rightarrow> u32 \<Rightarrow> u32 \<Rightarrow> machine \<Rightarrow> machine" where
  "wrmsr msr low high s = s\<lparr>msrs := (msrs s)(msr := ucast low OR push_bit 32 (ucast high))\<rparr>"

definition wrmsrl :: "u32 \<Rightarrow> u64 \<Rightarrow> machine \<Rightarrow> machine" where
  "wrmsrl msr v = wrmsr msr (ucast v) (ucast (drop_bit 32 v))"

definition kvm_register_read :: "nat \<Rightarrow> machine \<Rightarrow> u64" where
  "kvm_register_read r s = regs s r"

definition kvm_register_write :: "nat \<Rightarrow> u64 \<Rightarrow> machine \<Rightarrow> machine" where
  "kvm_register_write r v s = s\<lparr>regs := (regs s)(r := v)\<rparr>"

definition kvm_read_edx_eax :: "machine \<Rightarrow> u64" where
  "kvm_read_edx_eax s =
     (let eax = ucast (kvm_register_read VCPU_REGS_RAX s) :: u32;
          edx = ucast (kvm_register_read VCPU_REGS_RDX s) :: u32
      in ucast eax OR push_bit 32 (ucast edx))"

definition kvm_write_edx_eax :: "u64 \<Rightarrow> machine \<Rightarrow> machine" where
  "kvm_write_edx_eax v s =
     kvm_register_write VCPU_REGS_RDX (ucast (ucast (drop_bit 32 v) :: u32))
       (kvm_register_write VCPU_REGS_RAX (ucast (ucast v :: u32)) s)"

section \<open>Facts\<close>

lemma low_high_word: "(ucast (ucast v :: u32) :: u64) OR push_bit 32 (ucast (ucast (drop_bit 32 v) :: u32)) = v"
  by (rule bit_word_eqI) (auto simp: bit_simps)

lemma rdmsrl_msrs [simp]: "rdmsrl msr s = msrs s msr"
  by (simp add: rdmsrl_def rdmsr_def low_high_word)

lemma wrmsrl_upd [simp]: "wrmsrl msr v s = s\<lparr>msrs := (msrs s)(msr := v)\<rparr>"
  by (simp add: wrmsrl_def wrmsr_def low_high_word)

lemma edx_eax_round_trip: "kvm_read_edx_eax (kvm_write_edx_eax v s) = v"
  by (rule bit_word_eqI)
    (auto simp: kvm_read_edx_eax_def kvm_write_edx_eax_def kvm_register_read_def kvm_register_write_def bit_simps)

lemmas vmcs_writes [stop_simps] = vmcs_write16_def vmcs_write32_def vmcs_write64_def vmcs_writel_def
lemmas vmcs_reads [stop_simps] = vmcs_read16_def vmcs_read32_def vmcs_read64_def vmcs_readl_def vmcs_read_def

lemma vmcs_write_Inr [stop_simps]:
  "vmcs_write c f v s = Inr s' \<longleftrightarrow>
   vmwrite_ok c f \<and> s' = s\<lparr>vmcs := (vmcs s)(f := take_bit (field_width f) v)\<rparr>"
  by (auto simp: vmcs_write_def)

text \<open>
  What a write leaves of the field, for each accessor the code may use on it: a 32-bit
  accessor is let through on a 64-bit field, where the whole value is stored.
\<close>

lemma field_mask_bits:
  "f AND 0x6000 = (if bit f 13 then 0x2000 else 0) OR (if bit f 14 then 0x4000 else (0 :: u32))"
  "f AND 0x6001 = (if bit f 13 then 0x2000 else 0) OR (if bit f 14 then 0x4000 else 0) OR (if bit f 0 then 1 else (0 :: u32))"
proof -
  have c: "(0x6000 :: u32) = BIT_32 13 OR BIT_32 14" "(0x6001 :: u32) = BIT_32 13 OR BIT_32 14 OR BIT_32 0"
    "(0x2000 :: u32) = BIT_32 13" "(0x4000 :: u32) = BIT_32 14" "(1 :: u32) = BIT_32 0" by (simp_all add: BIT_32_def)
  show "f AND 0x6000 = (if bit f 13 then 0x2000 else 0) OR (if bit f 14 then 0x4000 else (0 :: u32))"
    unfolding c by (rule bit_word_eqI) (auto simp: bit_simps bit_BIT_32)
  show "f AND 0x6001 = (if bit f 13 then 0x2000 else 0) OR (if bit f 14 then 0x4000 else 0) OR (if bit f 0 then 1 else (0 :: u32))"
    unfolding c by (rule bit_word_eqI) (auto simp: bit_simps bit_BIT_32 intro!: gr0I)
qed

lemma field_width_checked:
  "vmcs_check16 f \<Longrightarrow> field_width f = 16" "vmcs_check32 f \<Longrightarrow> 32 \<le> field_width f"
  "vmcs_check64 f \<Longrightarrow> field_width f = 64" "vmcs_checkl f \<Longrightarrow> field_width f = 64"
  unfolding vmcs_check16_def vmcs_check32_def vmcs_check64_def vmcs_checkl_def field_width_def field_mask_bits
  by (auto split: if_splits)

lemma ucast_take_bit: "LENGTH('a::len) \<le> n \<Longrightarrow> (ucast (take_bit n (v :: u64)) :: 'a word) = ucast v"
  by (rule bit_word_eqI) (auto simp: bit_simps)

lemma take_bit_64 [simp]: "take_bit 64 (v :: u64) = v"
  by (rule bit_word_eqI) (auto simp: bit_simps)

lemma vmcs_read_write:
  assumes "vmcs_write c f v s = Inr s'"
  shows "vmcs_check16 f \<Longrightarrow> vmcs_read16 f s' = ucast v"
    and "vmcs_check32 f \<Longrightarrow> vmcs_read32 f s' = ucast v"
    and "vmcs_check64 f \<Longrightarrow> vmcs_read64 f s' = v"
    and "vmcs_checkl f \<Longrightarrow> vmcs_readl f s' = v"
    and "g \<noteq> f \<Longrightarrow> vmcs_read g s' = vmcs_read g s"
  using assms field_width_checked[of f] by (auto simp: vmcs_write_Inr vmcs_reads ucast_take_bit)

section \<open>Concrete states\<close>

text \<open>A machine with every register and every byte zero, and a processor that accepts every \<open>vmwrite\<close>.\<close>

definition zero_config :: vmcs_config where
  "zero_config = \<lparr>conf_size = 0, basic_cap = 0, revision_id = 0, pin_based_exec_ctrl = 0, cpu_based_exec_ctrl = 0,
     cpu_based_2nd_exec_ctrl = 0, vmexit_ctrl = 0, vmentry_ctrl = 0\<rparr>"

definition zero_machine :: machine where
  "zero_machine = \<lparr>msrs = (\<lambda>_. 0), vmcs = (\<lambda>_. 0), hw_cr0 = 0, hw_cr2 = 0, hw_cr3 = 0, hw_cr4 = 0, tsc = 0,
     vmxon_region = None, vmcs_region = None, config = zero_config, cap_ept = 0, cap_vpid = 0,
     msr_bitmap = replicate 512 0, regs = (\<lambda>_. 0), vcpu_cr2 = 0, host_rsp = 0, fail = False, launched = False,
     autoload_guest = replicate 8 \<lparr>msr_index = 0, msr_value = 0\<rparr>,
     autoload_host = replicate 8 \<lparr>msr_index = 0, msr_value = 0\<rparr>,
     ept_handler = False, pml4_0_512g_initialized = False, memory = (\<lambda>_. 0)\<rparr>"

definition open_cpu :: cpu where
  "open_cpu = \<lparr>vmwrite_ok = (\<lambda>_. True), vmptrld_ok = (\<lambda>_. True), cpuid = (\<lambda>_ _. (0, 0, 0, 0)), tr_selector = 64,
     gdt_address = 0x10200000, idt_address = 0x10201000, msr_bitmap_addr = 0x10202000, vmxarea_addr = 0x10203000,
     current_vmcs_addr = 0x10204000, autoload_guest_addr = 0x10205000, autoload_host_addr = 0x10205080,
     vmx_return = 0x10100000\<rparr>"

end
