(* ===== verification/Vmx_Setup.thy ===== *)
theory Vmx_Setup
  imports Vmx_Machine Find_Bit
begin

unbundle bit_operations_syntax

text \<open>
  vmm/vmx.c up to the first VM entry: choosing the VM-execution controls, the MSR bitmap,
  entering VMX operation, the control registers and their long-mode bookkeeping, the
  initial VMCS, segment registers. Every function is a step on the machine state that may
  stop in a panic.
\<close>

section \<open>Controls\<close>

definition vmx_disabled_by_bios :: "machine \<Rightarrow> bool" where
  "vmx_disabled_by_bios s =
     (let msr = rdmsrl MSR_IA32_FEATURE_CONTROL s
      in if msr AND FEATURE_CONTROL_LOCKED \<noteq> 0 then
           (if msr AND FEATURE_CONTROL_VMXON_ENABLED_OUTSIDE_SMX = 0 \<and>
               msr AND FEATURE_CONTROL_VMXON_ENABLED_INSIDE_SMX \<noteq> 0 then True
            else if msr AND FEATURE_CONTROL_VMXON_ENABLED_OUTSIDE_SMX = 0 then True
            else False)
         else False)"

definition adjust_vmx_controls :: "u32 \<Rightarrow> u32 \<Rightarrow> u32 \<Rightarrow> machine \<Rightarrow> stop + u32" where
  "adjust_vmx_controls ctl_min ctl_opt msr s =
     (let ctl = ctl_min OR ctl_opt;
          (vmx_msr_low, vmx_msr_high) = rdmsr msr s;
          ctl = ctl AND vmx_msr_high;
          ctl = ctl OR vmx_msr_low
      in and_then (panic_if (ctl_min AND NOT ctl \<noteq> 0) ''vmx: failed to set minimum control bits'')
           (\<lambda>_. Inr ctl))"

definition setup_vmcs_config :: "machine \<Rightarrow> stop + machine" where
  "setup_vmcs_config s =
     and_then (adjust_vmx_controls
       (CPU_BASED_USE_MSR_BITMAPS OR CPU_BASED_ACTIVATE_SECONDARY_CONTROLS OR
        CPU_BASED_RDTSC_EXITING OR CPU_BASED_CR3_LOAD_EXITING) 0 MSR_IA32_VMX_PROCBASED_CTLS s) (\<lambda>cpu_based.
     and_then (adjust_vmx_controls
       (SECONDARY_EXEC_ENABLE_EPT OR SECONDARY_EXEC_ENABLE_VPID OR SECONDARY_EXEC_UNRESTRICTED_GUEST)
       (SECONDARY_EXEC_RDTSCP OR SECONDARY_EXEC_ENABLE_INVPCID) MSR_IA32_VMX_PROCBASED_CTLS2 s) (\<lambda>cpu_based_2nd.
     let cpu_based = cpu_based AND NOT (CPU_BASED_CR3_STORE_EXITING OR CPU_BASED_INVLPG_EXITING);
         (ept, vpid) = rdmsr MSR_IA32_VMX_EPT_VPID_CAP s
     in and_then (adjust_vmx_controls
       (VM_EXIT_SAVE_DEBUG_CONTROLS OR VM_EXIT_HOST_ADDR_SPACE_SIZE OR VM_EXIT_SAVE_IA32_EFER OR VM_EXIT_LOAD_IA32_EFER)
       (VM_EXIT_SAVE_IA32_PAT OR VM_EXIT_LOAD_IA32_PAT OR VM_EXIT_CLEAR_BNDCFGS) MSR_IA32_VMX_EXIT_CTLS s) (\<lambda>vmexit.
     and_then (adjust_vmx_controls 0 0 MSR_IA32_VMX_PINBASED_CTLS s) (\<lambda>pin_based.
     and_then (adjust_vmx_controls
       (VM_ENTRY_LOAD_DEBUG_CONTROLS OR VM_ENTRY_LOAD_IA32_EFER)
       (VM_ENTRY_LOAD_IA32_PAT OR VM_ENTRY_LOAD_BNDCFGS) MSR_IA32_VMX_ENTRY_CTLS s) (\<lambda>vmentry.
     let (low, high) = rdmsr MSR_IA32_VMX_BASIC s
     in and_then (panic_if (high AND 0x1fff > 4096) ''vmx: VMCS size is never greater than 4KB'') (\<lambda>_.
        and_then (panic_if (drop_bit 18 high AND 15 \<noteq> 6) ''vmx: require write-back memory type for VMCS accesses'') (\<lambda>_.
        Inr (s\<lparr>cap_ept := ept, cap_vpid := vpid,
          config := \<lparr>conf_size = high AND 0x1fff, basic_cap = high AND NOT 0x1fff, revision_id = low,
            pin_based_exec_ctrl = pin_based, cpu_based_exec_ctrl = cpu_based,
            cpu_based_2nd_exec_ctrl = cpu_based_2nd, vmexit_ctrl = vmexit, vmentry_ctrl = vmentry\<rparr>\<rparr>))))))))"

definition cpu_has_vmx_ept_2m_page :: "machine \<Rightarrow> bool" where
  "cpu_has_vmx_ept_2m_page s \<longleftrightarrow> cap_ept s AND BIT_32 16 \<noteq> 0"

definition cpu_has_vmx_ept_4levels :: "machine \<Rightarrow> bool" where
  "cpu_has_vmx_ept_4levels s \<longleftrightarrow> cap_ept s AND BIT_32 6 \<noteq> 0"

section \<open>The MSR bitmap\<close>

text \<open>\<open>tmp = msr_bitmap + off\<close> and a bit operation through \<open>tmp\<close>.\<close>

definition bitmap_part :: "nat \<Rightarrow> (u64 list \<Rightarrow> u64 list) \<Rightarrow> u64 list \<Rightarrow> u64 list" where
  "bitmap_part off op bm = take off bm @ op (drop off bm)"

definition set_or_clear :: "bool \<Rightarrow> nat \<Rightarrow> u64 list \<Rightarrow> u64 list" where
  "set_or_clear b nr tmp = (if b then set_bit_bm nr tmp else clear_bit_bm nr tmp)"

definition set_msr_interception' :: "u32 \<Rightarrow> bool \<Rightarrow> bool \<Rightarrow> u64 list \<Rightarrow> u64 list" where
  "set_msr_interception' msr rd wr bm =
     (if msr \<le> 0x1fff then
        bitmap_part (0x800 div 8) (set_or_clear wr (unat msr))
          (bitmap_part (0x000 div 8) (set_or_clear rd (unat msr)) bm)
      else if msr \<ge> 0xc0000000 \<and> msr \<le> 0xc0001fff then
        let msr = msr AND 0x1fff
        in bitmap_part (0xc00 div 8) (set_or_clear wr (unat msr))
             (bitmap_part (0x400 div 8) (set_or_clear rd (unat msr)) bm)
      else bm)"

definition set_msr_interception :: "u32 \<Rightarrow> bool \<Rightarrow> bool \<Rightarrow> machine \<Rightarrow> machine" where
  "set_msr_interception msr rd wr s = s\<lparr>msr_bitmap := set_msr_interception' msr rd wr (msr_bitmap s)\<rparr>"

definition intercept_msrs :: "machine \<Rightarrow> machine" where
  "intercept_msrs s =
     (let s = set_msr_interception MSR_IA32_APICBASE False True s;
          s = set_msr_interception APIC_ICR_MSR False True s;
          s = fold (\<lambda>i. set_msr_interception (of_nat i) True True) [0x480..<0x492] s
      in set_msr_interception MSR_EFER False True s)"

definition vmx_hardware_setup :: "machine \<Rightarrow> stop + machine" where
  "vmx_hardware_setup s =
     and_then (setup_vmcs_config s) (\<lambda>s.
     and_then (panic_if (\<not> cpu_has_vmx_ept_2m_page s) ''vmx: no support for 2MB EPT pages'') (\<lambda>_.
     and_then (panic_if (\<not> cpu_has_vmx_ept_4levels s) ''vmx: no support for 4-level EPT'') (\<lambda>_.
     Inr (intercept_msrs s))))"

section \<open>Entering VMX operation\<close>

definition vmcs_load :: "cpu \<Rightarrow> u64 \<Rightarrow> machine \<Rightarrow> stop + machine" where
  "vmcs_load c addr s =
     (if vmptrld_ok c addr then Inr (s\<lparr>vmcs_region := Some addr\<rparr>) else Inl (PANIC ''vmx: vmptrld failed''))"

definition vmx_vcpu_enable :: "cpu \<Rightarrow> machine \<Rightarrow> stop + machine" where
  "vmx_vcpu_enable c s =
     and_then (panic_if (hw_cr4 s AND X86_CR4_VMXE \<noteq> 0) ''vmx: VMXE already set in CR4'') (\<lambda>_.
     let old = rdmsrl MSR_IA32_FEATURE_CONTROL s;
         test_bits = FEATURE_CONTROL_LOCKED OR FEATURE_CONTROL_VMXON_ENABLED_OUTSIDE_SMX;
         s = (if old AND test_bits \<noteq> test_bits then wrmsrl MSR_IA32_FEATURE_CONTROL (old OR test_bits) s else s);
         s = s\<lparr>hw_cr4 := hw_cr4 s OR X86_CR4_VMXE\<rparr>;
         s = s\<lparr>memory := write32 (memory s) (vmxarea_addr c) (revision_id (config s))\<rparr>;
         s = s\<lparr>vmxon_region := Some (vmxarea_addr c)\<rparr>;
         s = s\<lparr>memory := write32 (memory s) (current_vmcs_addr c) (revision_id (config s))\<rparr>
     in vmcs_load c (current_vmcs_addr c) s)"

section \<open>Control registers\<close>

definition VMX_AR_TYPE_MASK :: u32 where "VMX_AR_TYPE_MASK = 0x0f"
definition VMX_AR_TYPE_BUSY_64_TSS :: u32 where "VMX_AR_TYPE_BUSY_64_TSS = 11"

definition enter_lmode :: "cpu \<Rightarrow> machine \<Rightarrow> stop + machine" where
  "enter_lmode c = run_steps
     [\<lambda>s. vmcs_write32 c VM_ENTRY_CONTROLS (ucast (vmcs_read32 VM_ENTRY_CONTROLS s OR VM_ENTRY_IA32E_MODE)) s,
      \<lambda>s. vmcs_write64 c GUEST_IA32_EFER (vmcs_read64 GUEST_IA32_EFER s OR EFER_LMA) s,
      \<lambda>s. let guest_tr_ar = vmcs_read32 GUEST_TR_AR_BYTES s
          in if guest_tr_ar AND VMX_AR_TYPE_MASK \<noteq> VMX_AR_TYPE_BUSY_64_TSS
             then vmcs_write32 c GUEST_TR_AR_BYTES
                    (ucast ((guest_tr_ar AND NOT VMX_AR_TYPE_MASK) OR VMX_AR_TYPE_BUSY_64_TSS)) s
             else Inr s]"

definition exit_lmode :: "cpu \<Rightarrow> machine \<Rightarrow> stop + machine" where
  "exit_lmode c = run_steps
     [\<lambda>s. vmcs_write32 c VM_ENTRY_CONTROLS (ucast (vmcs_read32 VM_ENTRY_CONTROLS s AND NOT VM_ENTRY_IA32E_MODE)) s,
      \<lambda>s. vmcs_write64 c GUEST_IA32_EFER (vmcs_read64 GUEST_IA32_EFER s AND NOT EFER_LMA) s]"

definition vmx_set_cr0 :: "cpu \<Rightarrow> u64 \<Rightarrow> machine \<Rightarrow> stop + machine" where
  "vmx_set_cr0 c cr0 s =
     and_then
       (if vmcs_read64 GUEST_IA32_EFER s AND EFER_LME \<noteq> 0 then
          let old_cr0 = vmcs_readl GUEST_CR0 s
          in and_then (if old_cr0 AND X86_CR0_PG = 0 \<and> cr0 AND X86_CR0_PG \<noteq> 0 then enter_lmode c s else Inr s) (\<lambda>s.
               if old_cr0 AND X86_CR0_PG \<noteq> 0 \<and> cr0 AND X86_CR0_PG = 0 then exit_lmode c s else Inr s)
        else Inr s)
       (vmcs_writel c GUEST_CR0 (cr0 OR KVM_GUEST_CR0_ALWAYS_ON))"

definition vmx_set_cr3 :: "cpu \<Rightarrow> u64 \<Rightarrow> machine \<Rightarrow> stop + machine" where
  "vmx_set_cr3 c cr3 = vmcs_writel c GUEST_CR3 cr3"

definition vmx_set_cr4 :: "cpu \<Rightarrow> u64 \<Rightarrow> machine \<Rightarrow> stop + machine" where
  "vmx_set_cr4 c cr4 = vmcs_writel c GUEST_CR4 (cr4 OR KVM_GUEST_CR4_ALWAYS_ON)"

section \<open>The initial VMCS\<close>

text \<open>
  The MSRs in the VM-exit and VM-entry MSR areas, in the order of \<open>MSR_SAVE_LIST\<close>; \<open>SAVED_x\<close>
  is the position of \<open>x\<close> there.
\<close>

definition NR_AUTOLOAD_MSRS :: nat where "NR_AUTOLOAD_MSRS = 8"

definition vmx_msr_index :: "u32 list" where
  "vmx_msr_index = [MSR_KERNEL_GS_BASE, MSR_SYSCALL_MASK, MSR_LSTAR, MSR_STAR]"

abbreviation (input) SAVED_MSR_SYSCALL_MASK :: nat where "SAVED_MSR_SYSCALL_MASK \<equiv> 1"
abbreviation (input) SAVED_MSR_LSTAR :: nat where "SAVED_MSR_LSTAR \<equiv> 2"
abbreviation (input) SAVED_MSR_STAR :: nat where "SAVED_MSR_STAR \<equiv> 3"

text \<open>The base address in the 16-byte TSS descriptor of the GDT: \<open>struct ldttss_desc\<close>.\<close>

definition get_tr_base :: "cpu \<Rightarrow> machine \<Rightarrow> stop + u64" where
  "get_tr_base c s =
     (let m = memory s; desc = gdt_address c + (tr_selector c div 8) * 8;
          base0 = ucast (m (desc + 2)) OR push_bit 8 (ucast (m (desc + 3)));
          base1 = ucast (m (desc + 4));
          base2 = ucast (m (desc + 7));
          base3 = ucast (read32 m (desc + 8))
      in and_then (BUG_ON (\<not> bit (m (desc + 5)) 7)) (\<lambda>_.
           Inr (base0 OR push_bit 16 base1 OR push_bit 24 base2 OR push_bit 32 base3)))"

definition setup_controls :: "cpu \<Rightarrow> (machine \<Rightarrow> stop + machine) list" where
  "setup_controls c =
     [vmcs_write64 c MSR_BITMAP (msr_bitmap_addr c),
      vmcs_write64 c VMCS_LINK_POINTER (NOT 0),
      \<lambda>s. vmcs_write32 c PIN_BASED_VM_EXEC_CONTROL (ucast (pin_based_exec_ctrl (config s))) s,
      \<lambda>s. vmcs_write32 c CPU_BASED_VM_EXEC_CONTROL (ucast (cpu_based_exec_ctrl (config s))) s,
      \<lambda>s. vmcs_write32 c SECONDARY_VM_EXEC_CONTROL (ucast (cpu_based_2nd_exec_ctrl (config s))) s,
      \<lambda>s. vmcs_write32 c VM_EXIT_CONTROLS (ucast (vmexit_ctrl (config s))) s,
      \<lambda>s. vmcs_write32 c VM_ENTRY_CONTROLS (ucast (vmentry_ctrl (config s))) s,
      vmcs_write32 c EXCEPTION_BITMAP (push_bit 6 1 OR push_bit 14 1),
      vmcs_write32 c PAGE_FAULT_ERROR_CODE_MASK 0,
      vmcs_write32 c PAGE_FAULT_ERROR_CODE_MATCH 0,
      vmcs_write32 c CR3_TARGET_COUNT 0,
      vmcs_write32 c VM_EXIT_MSR_STORE_COUNT (of_nat (length vmx_msr_index)),
      vmcs_write32 c VM_EXIT_MSR_STORE_ADDR (autoload_guest_addr c),
      vmcs_write32 c VM_EXIT_MSR_LOAD_COUNT (of_nat (length vmx_msr_index)),
      vmcs_write64 c VM_EXIT_MSR_LOAD_ADDR (autoload_host_addr c),
      vmcs_write32 c VM_ENTRY_MSR_LOAD_COUNT (of_nat (length vmx_msr_index)),
      vmcs_write64 c VM_ENTRY_MSR_LOAD_ADDR (autoload_guest_addr c)]"

definition autoload_msr :: "nat \<Rightarrow> machine \<Rightarrow> machine" where
  "autoload_msr i s =
     (let index = vmx_msr_index ! i
      in s\<lparr>autoload_guest := (autoload_guest s)[i := (autoload_guest s ! i)\<lparr>msr_index := index\<rparr>],
           autoload_host := (autoload_host s)[i := \<lparr>msr_index = index, msr_value = rdmsrl index s\<rparr>]\<rparr>)"

definition KERNEL_CS :: u64 where "KERNEL_CS = 2 * 8"
definition KERNEL_DS :: u64 where "KERNEL_DS = 3 * 8"
definition GDT_ENTRY_TSS :: u64 where "GDT_ENTRY_TSS = 8"

definition setup_host_pat :: "cpu \<Rightarrow> machine \<Rightarrow> stop + machine" where
  "setup_host_pat c s =
     (if vmexit_ctrl (config s) AND VM_EXIT_LOAD_IA32_PAT \<noteq> 0
      then vmcs_write64 c HOST_IA32_PAT (rdmsrl MSR_IA32_CR_PAT s) s else Inr s)"

definition setup_host :: "cpu \<Rightarrow> (machine \<Rightarrow> stop + machine) list" where
  "setup_host c =
     [vmcs_write16 c HOST_FS_SELECTOR 0,
      vmcs_write16 c HOST_GS_SELECTOR 0,
      \<lambda>s. vmcs_writel c HOST_FS_BASE (rdmsrl MSR_FS_BASE s) s,
      \<lambda>s. vmcs_writel c HOST_GS_BASE (rdmsrl MSR_GS_BASE s) s,
      \<lambda>s. vmcs_writel c HOST_CR0 (hw_cr0 s) s,
      \<lambda>s. vmcs_writel c HOST_CR3 (hw_cr3 s) s,
      \<lambda>s. vmcs_writel c HOST_CR4 (hw_cr4 s) s,
      \<lambda>s. vmcs_write64 c HOST_IA32_EFER (rdmsrl MSR_EFER s) s,
      vmcs_write16 c HOST_CS_SELECTOR KERNEL_CS,
      vmcs_write16 c HOST_DS_SELECTOR KERNEL_DS,
      vmcs_write16 c HOST_ES_SELECTOR KERNEL_DS,
      vmcs_write16 c HOST_SS_SELECTOR KERNEL_DS,
      vmcs_write16 c HOST_TR_SELECTOR (tr_selector c),
      \<lambda>s. and_then (BUG_ON (tr_selector c \<noteq> GDT_ENTRY_TSS * 8)) (\<lambda>_. Inr s),
      vmcs_writel c HOST_IDTR_BASE (idt_address c),
      vmcs_writel c HOST_GDTR_BASE (gdt_address c),
      \<lambda>s. and_then (get_tr_base c s) (\<lambda>b. vmcs_writel c HOST_TR_BASE b s),
      vmcs_writel c HOST_RIP (vmx_return c),
      \<lambda>s. vmcs_write32 c HOST_IA32_SYSENTER_CS (ucast (ucast (rdmsrl MSR_IA32_SYSENTER_CS s) :: u32)) s,
      \<lambda>s. vmcs_writel c HOST_IA32_SYSENTER_EIP (rdmsrl MSR_IA32_SYSENTER_EIP s) s,
      setup_host_pat c]"

definition setup_guest :: "cpu \<Rightarrow> (machine \<Rightarrow> stop + machine) list" where
  "setup_guest c =
     [vmcs_write16 c GUEST_CS_SELECTOR 0xf000,
      vmcs_writel c GUEST_CS_BASE 0xffff0000,
      vmcs_write32 c GUEST_CS_LIMIT 0xffff,
      vmcs_write32 c GUEST_CS_AR_BYTES (0x93 OR 0x08),
      vmcs_write16 c GUEST_DS_SELECTOR 0,
      vmcs_writel c GUEST_DS_BASE 0,
      vmcs_write32 c GUEST_DS_LIMIT 0xffff,
      vmcs_write32 c GUEST_DS_AR_BYTES 0x93,
      vmcs_write16 c GUEST_ES_SELECTOR 0,
      vmcs_writel c GUEST_ES_BASE 0,
      vmcs_write32 c GUEST_ES_LIMIT 0xffff,
      vmcs_write32 c GUEST_ES_AR_BYTES 0x93,
      vmcs_write16 c GUEST_SS_SELECTOR 0,
      vmcs_writel c GUEST_SS_BASE 0,
      vmcs_write32 c GUEST_SS_LIMIT 0xffff,
      vmcs_write32 c GUEST_SS_AR_BYTES 0x93,
      vmcs_write16 c GUEST_FS_SELECTOR 0,
      vmcs_writel c GUEST_FS_BASE 0,
      vmcs_write32 c GUEST_FS_LIMIT 0xffff,
      vmcs_write32 c GUEST_FS_AR_BYTES 0x93,
      vmcs_write16 c GUEST_GS_SELECTOR 0,
      vmcs_writel c GUEST_GS_BASE 0,
      vmcs_write32 c GUEST_GS_LIMIT 0xffff,
      vmcs_write32 c GUEST_GS_AR_BYTES 0x93,
      vmcs_write16 c GUEST_TR_SELECTOR 0,
      vmcs_writel c GUEST_TR_BASE 0,
      vmcs_write32 c GUEST_TR_LIMIT 0xffff,
      vmcs_write32 c GUEST_TR_AR_BYTES 0x8b,
      vmcs_write16 c GUEST_LDTR_SELECTOR 0,
      vmcs_writel c GUEST_LDTR_BASE 0,
      vmcs_write32 c GUEST_LDTR_LIMIT 0xffff,
      vmcs_write32 c GUEST_LDTR_AR_BYTES 0x82,
      vmcs_write32 c GUEST_SYSENTER_CS 0,
      vmcs_writel c GUEST_SYSENTER_ESP 0,
      vmcs_writel c GUEST_SYSENTER_EIP 0,
      vmcs_write64 c GUEST_IA32_DEBUGCTL 0,
      vmcs_writel c GUEST_RFLAGS 0x02,
      vmcs_writel c GUEST_RIP 0xfff0,
      vmcs_writel c GUEST_GDTR_BASE 0,
      vmcs_write32 c GUEST_GDTR_LIMIT 0xffff,
      vmcs_writel c GUEST_IDTR_BASE 0,
      vmcs_write32 c GUEST_IDTR_LIMIT 0xffff,
      vmcs_write32 c GUEST_ACTIVITY_STATE 0,
      vmcs_write32 c GUEST_INTERRUPTIBILITY_INFO 0,
      vmcs_writel c GUEST_PENDING_DBG_EXCEPTIONS 0,
      vmcs_write32 c VM_ENTRY_INTR_INFO_FIELD 0,
      vmcs_write16 c VIRTUAL_PROCESSOR_ID 1]"

definition setup_crs :: "cpu \<Rightarrow> (machine \<Rightarrow> stop + machine) list" where
  "setup_crs c =
     [vmcs_writel c CR0_GUEST_HOST_MASK KVM_GUEST_CR0_ALWAYS_ON,
      vmcs_writel c CR0_READ_SHADOW KVM_GUEST_CR0_ALWAYS_ON,
      vmx_set_cr0 c (X86_CR0_NW OR X86_CR0_CD OR X86_CR0_ET),
      vmcs_writel c GUEST_CR3 0,
      vmcs_writel c CR4_GUEST_HOST_MASK KVM_GUEST_CR4_ALWAYS_ON,
      vmcs_writel c CR4_READ_SHADOW KVM_GUEST_CR4_ALWAYS_ON,
      vmx_set_cr4 c 0]"

definition vmx_vcpu_setup :: "cpu \<Rightarrow> machine \<Rightarrow> stop + machine" where
  "vmx_vcpu_setup c = run_steps
     (setup_controls c @ [\<lambda>s. Inr (fold autoload_msr [0..<length vmx_msr_index] s)] @ setup_host c @ setup_guest c @ setup_crs c)"

definition vmx_set_tdp :: "cpu \<Rightarrow> u64 \<Rightarrow> machine \<Rightarrow> stop + machine" where
  "vmx_set_tdp c tdp = vmcs_write64 c EPT_POINTER (tdp OR 6 OR push_bit 3 3)"

section \<open>Segments, flags and the instruction pointer\<close>

record kvm_segment =
  seg_base :: u64
  seg_limit :: u32
  seg_selector :: u16
  seg_type :: u8
  seg_present :: u8
  seg_dpl :: u8
  seg_db :: u8
  seg_s :: u8
  seg_l :: u8
  seg_g :: u8
  seg_avl :: u8
  seg_unusable :: u8

datatype sreg = VCPU_SREG_ES | VCPU_SREG_CS | VCPU_SREG_SS | VCPU_SREG_DS | VCPU_SREG_FS
  | VCPU_SREG_GS | VCPU_SREG_TR | VCPU_SREG_LDTR

text \<open>\<open>kvm_vmx_segment_fields\<close>: selector, base, limit and access rights of a segment.\<close>

fun kvm_vmx_segment_fields :: "sreg \<Rightarrow> u32 \<times> u32 \<times> u32 \<times> u32" where
  "kvm_vmx_segment_fields VCPU_SREG_CS = (GUEST_CS_SELECTOR, GUEST_CS_BASE, GUEST_CS_LIMIT, GUEST_CS_AR_BYTES)"
| "kvm_vmx_segment_fields VCPU_SREG_DS = (GUEST_DS_SELECTOR, GUEST_DS_BASE, GUEST_DS_LIMIT, GUEST_DS_AR_BYTES)"
| "kvm_vmx_segment_fields VCPU_SREG_ES = (GUEST_ES_SELECTOR, GUEST_ES_BASE, GUEST_ES_LIMIT, GUEST_ES_AR_BYTES)"
| "kvm_vmx_segment_fields VCPU_SREG_FS = (GUEST_FS_SELECTOR, GUEST_FS_BASE, GUEST_FS_LIMIT, GUEST_FS_AR_BYTES)"
| "kvm_vmx_segment_fields VCPU_SREG_GS = (GUEST_GS_SELECTOR, GUEST_GS_BASE, GUEST_GS_LIMIT, GUEST_GS_AR_BYTES)"
| "kvm_vmx_segment_fields VCPU_SREG_SS = (GUEST_SS_SELECTOR, GUEST_SS_BASE, GUEST_SS_LIMIT, GUEST_SS_AR_BYTES)"
| "kvm_vmx_segment_fields VCPU_SREG_TR = (GUEST_TR_SELECTOR, GUEST_TR_BASE, GUEST_TR_LIMIT, GUEST_TR_AR_BYTES)"
| "kvm_vmx_segment_fields VCPU_SREG_LDTR = (GUEST_LDTR_SELECTOR, GUEST_LDTR_BASE, GUEST_LDTR_LIMIT, GUEST_LDTR_AR_BYTES)"

definition is_real_mode :: "machine \<Rightarrow> bool" where
  "is_real_mode s \<longleftrightarrow> vmcs_readl GUEST_CR0 s AND X86_CR0_PE = 0"

definition vmx_get_cpl :: "machine \<Rightarrow> u32" where
  "vmx_get_cpl s = (if is_real_mode s then 0 else drop_bit 5 (vmcs_read32 GUEST_SS_AR_BYTES s) AND 3)"

definition vmx_get_segment :: "sreg \<Rightarrow> machine \<Rightarrow> kvm_segment" where
  "vmx_get_segment seg s =
     (let (sel, bas, lim, arb) = kvm_vmx_segment_fields seg;
          ar = ucast (vmcs_read arb s) :: u32;
          unusable = ucast (drop_bit 16 ar AND 1) :: u8
      in \<lparr>seg_base = vmcs_read bas s, seg_limit = ucast (vmcs_read lim s), seg_selector = ucast (vmcs_read sel s),
          seg_type = ucast (ar AND 15), seg_present = (if unusable = 0 then 1 else 0),
          seg_dpl = ucast (drop_bit 5 ar AND 3), seg_db = ucast (drop_bit 14 ar AND 1),
          seg_s = ucast (drop_bit 4 ar AND 1), seg_l = ucast (drop_bit 13 ar AND 1),
          seg_g = ucast (drop_bit 15 ar AND 1), seg_avl = ucast (drop_bit 12 ar AND 1),
          seg_unusable = unusable\<rparr>)"

definition vmx_segment_access_rights :: "kvm_segment \<Rightarrow> u32" where
  "vmx_segment_access_rights var =
     (if seg_unusable var \<noteq> 0 \<or> seg_present var = 0 then push_bit 16 1
      else ucast (seg_type var AND 15) OR push_bit 4 (ucast (seg_s var AND 1)) OR
        push_bit 5 (ucast (seg_dpl var AND 3)) OR push_bit 7 (ucast (seg_present var AND 1)) OR
        push_bit 12 (ucast (seg_avl var AND 1)) OR push_bit 13 (ucast (seg_l var AND 1)) OR
        push_bit 14 (ucast (seg_db var AND 1)) OR push_bit 15 (ucast (seg_g var AND 1)))"

definition vmx_set_segment :: "cpu \<Rightarrow> kvm_segment \<Rightarrow> sreg \<Rightarrow> machine \<Rightarrow> stop + machine" where
  "vmx_set_segment c var seg =
     (let (sel, bas, lim, arb) = kvm_vmx_segment_fields seg
      in run_steps
        [vmcs_write c bas (seg_base var),
         vmcs_write c lim (ucast (seg_limit var)),
         vmcs_write c sel (ucast (seg_selector var)),
         vmcs_write c arb (ucast (vmx_segment_access_rights var))])"

definition vmx_get_rflags :: "machine \<Rightarrow> u64" where
  "vmx_get_rflags s = vmcs_readl GUEST_RFLAGS s"

definition vmx_set_rflags :: "cpu \<Rightarrow> u64 \<Rightarrow> machine \<Rightarrow> stop + machine" where
  "vmx_set_rflags c = vmcs_writel c GUEST_RFLAGS"

definition vmx_get_rip :: "machine \<Rightarrow> u64" where
  "vmx_get_rip s = vmcs_readl GUEST_RIP s"

definition vmx_set_rip :: "cpu \<Rightarrow> u64 \<Rightarrow> machine \<Rightarrow> stop + machine" where
  "vmx_set_rip c = vmcs_writel c GUEST_RIP"

text \<open>\<open>vmx_skip_emulated_instruction\<close>; \<open>GUEST_INTR_STATE_STI\<close> is 1, \<open>GUEST_INTR_STATE_MOV_SS\<close> 2.\<close>

definition vmx_skip_emulated_instruction :: "cpu \<Rightarrow> machine \<Rightarrow> stop + machine" where
  "vmx_skip_emulated_instruction c = run_steps
     [\<lambda>s. vmx_set_rip c (vmx_get_rip s + ucast (vmcs_read32 VM_EXIT_INSTRUCTION_LEN s)) s,
      \<lambda>s. vmcs_write32 c GUEST_INTERRUPTIBILITY_INFO
            (ucast (vmcs_read32 GUEST_INTERRUPTIBILITY_INFO s AND NOT (1 OR 2))) s]"

section \<open>Facts: controls and the MSR bitmap\<close>

lemma adjust_vmx_controls_ok:
  assumes "adjust_vmx_controls ctl_min ctl_opt msr s = Inr ctl"
  shows "bit ctl_min i \<Longrightarrow> bit ctl i"
    and "bit (fst (rdmsr msr s)) i \<Longrightarrow> bit ctl i"
    and "bit ctl i \<Longrightarrow> bit (fst (rdmsr msr s)) i \<or> bit (snd (rdmsr msr s)) i \<and> (bit ctl_min i \<or> bit ctl_opt i)"
proof -
  let ?ctl = "(ctl_min OR ctl_opt) AND snd (rdmsr msr s) OR fst (rdmsr msr s)"
  have c: "ctl = ?ctl" and m: "ctl_min AND NOT ?ctl = 0"
    using assms by (auto simp: adjust_vmx_controls_def Let_def split_def and_then_eq_Inr)
  show "bit ctl_min i \<Longrightarrow> bit ctl i"
    using arg_cong[OF m, of "\<lambda>w. bit w i"] bit_imp_le_length[of ctl_min i] unfolding c by (auto simp: bit_simps)
  show "bit (fst (rdmsr msr s)) i \<Longrightarrow> bit ctl i"
    "bit ctl i \<Longrightarrow> bit (fst (rdmsr msr s)) i \<or> bit (snd (rdmsr msr s)) i \<and> (bit ctl_min i \<or> bit ctl_opt i)"
    unfolding c by (auto simp: bit_simps)
qed

lemma adjust_vmx_controls_panics:
  "(\<exists>e. adjust_vmx_controls ctl_min ctl_opt msr s = Inl e) \<longleftrightarrow>
   (\<exists>i. bit ctl_min i \<and> \<not> bit (fst (rdmsr msr s)) i \<and> \<not> bit (snd (rdmsr msr s)) i)"
proof -
  let ?ctl = "(ctl_min OR ctl_opt) AND snd (rdmsr msr s) OR fst (rdmsr msr s)"
  have "(\<exists>e. adjust_vmx_controls ctl_min ctl_opt msr s = Inl e) \<longleftrightarrow> ctl_min AND NOT ?ctl \<noteq> 0"
    by (auto simp: adjust_vmx_controls_def Let_def split_def panic_if_def)
  also have "\<dots> \<longleftrightarrow> (\<exists>i. bit (ctl_min AND NOT ?ctl) i)"
    by (rule word_nonzero_bit)
  also have "\<dots> \<longleftrightarrow> (\<exists>i. bit ctl_min i \<and> \<not> bit (fst (rdmsr msr s)) i \<and> \<not> bit (snd (rdmsr msr s)) i)"
    by (rule ex_cong1) (auto simp: bit_simps dest: bit_imp_le_length)
  finally show ?thesis .
qed

lemma bitmap_part_set_or_clear:
  assumes "64 * off + nr < 64 * length bm"
  shows "bm_test (bitmap_part off (set_or_clear b nr) bm) i \<longleftrightarrow> (if i = 64 * off + nr then b else bm_test bm i)"
    and "length (bitmap_part off (set_or_clear b nr) bm) = length bm"
proof -
  have o: "off \<le> length bm" using assms by linarith
  have d: "(64 * off + nr) div 64 = off + nr div 64" "(64 * off + nr) mod 64 = nr mod 64" by auto
  have upd: "take off bm @ (drop off bm)[k := f (drop off bm ! k)] = bm[off + k := f (bm ! (off + k))]" for k f
    using o append_take_drop_id[of off bm] by (metis list_update_append length_take min.absorb2 nth_drop diff_add_inverse not_add_less1)
  have "bitmap_part off (set_or_clear b nr) bm = set_or_clear b (64 * off + nr) bm"
    unfolding bitmap_part_def set_or_clear_def set_bit_bm_def clear_bit_bm_def d by (simp add: upd)
  then show "bm_test (bitmap_part off (set_or_clear b nr) bm) i \<longleftrightarrow> (if i = 64 * off + nr then b else bm_test bm i)"
    "length (bitmap_part off (set_or_clear b nr) bm) = length bm"
    using assms by (simp_all add: set_or_clear_def bm_test_set_bit bm_test_clear_bit)
qed

text \<open>
  How the processor reads the bitmap: which accesses to an MSR cause a VM exit. MSRs
  outside the two ranges always do.
\<close>

definition low_msr :: "u32 \<Rightarrow> bool" where "low_msr msr \<longleftrightarrow> msr \<le> 0x1fff"

definition high_msr :: "u32 \<Rightarrow> bool" where "high_msr msr \<longleftrightarrow> msr \<ge> 0xc0000000 \<and> msr \<le> 0xc0001fff"

definition exits_on_read :: "u64 list \<Rightarrow> u32 \<Rightarrow> bool" where
  "exits_on_read bm msr \<longleftrightarrow>
     (if low_msr msr then bm_test bm (unat msr)
      else if high_msr msr then bm_test bm (0x400 * 8 + unat (msr AND 0x1fff)) else True)"

definition exits_on_write :: "u64 list \<Rightarrow> u32 \<Rightarrow> bool" where
  "exits_on_write bm msr \<longleftrightarrow>
     (if low_msr msr then bm_test bm (0x800 * 8 + unat msr)
      else if high_msr msr then bm_test bm (0xc00 * 8 + unat (msr AND 0x1fff)) else True)"

lemma msr_offset_bound: "unat (msr AND 0x1fff :: u32) \<le> 0x1fff"
  using word_and_le1[of msr "0x1fff"] by (simp add: word_le_nat_alt)

lemma low_mask_13: "(0x1fff :: u32) = mask 13"
  by (simp add: mask_eq_exp_minus_1)

lemma high_msr_inj:
  assumes "high_msr a" "high_msr b" "a AND 0x1fff = b AND 0x1fff"
  shows "a = b"
proof -
  have "unat w mod 2 ^ 13 = unat w - 0xc0000000" "0xc0000000 \<le> unat w" if "high_msr w" for w
  proof -
    have r: "0xc0000000 \<le> unat w" "unat w \<le> 0xc0001fff" using that by (simp_all add: high_msr_def word_le_nat_alt)
    then show "0xc0000000 \<le> unat w" by simp
    have "unat w = (unat w - 0xc0000000) + 0x60000 * 2 ^ 13" using r by simp
    moreover have "unat w - 0xc0000000 < 2 ^ 13" using r by simp
    ultimately show "unat w mod 2 ^ 13 = unat w - 0xc0000000" by (metis mod_less mod_mult_self1)
  qed
  then have "unat a - 0xc0000000 = unat b - 0xc0000000" "0xc0000000 \<le> unat a" "0xc0000000 \<le> unat b"
    using assms arg_cong[OF assms(3), of unat] unfolding low_mask_13 unat_and_mask by metis+
  then show ?thesis by (simp add: word_unat_eq_iff)
qed

lemma low_not_high: "low_msr msr \<Longrightarrow> \<not> high_msr msr"
  by (auto simp: low_msr_def high_msr_def word_le_nat_alt)

text \<open>Setting the interception of one MSR sets exactly that.\<close>

lemma set_msr_interception_exits:
  assumes "length bm = 512" "low_msr msr \<or> high_msr msr"
  shows "exits_on_read (set_msr_interception' msr rd wr bm) m \<longleftrightarrow> (if m = msr then rd else exits_on_read bm m)"
    and "exits_on_write (set_msr_interception' msr rd wr bm) m \<longleftrightarrow> (if m = msr then wr else exits_on_write bm m)"
    and "length (set_msr_interception' msr rd wr bm) = 512"
proof -
  have lo: "unat x \<le> 0x1fff" if "low_msr x" for x using that by (simp add: low_msr_def word_le_nat_alt)
  have ne: "unat x \<noteq> unat y" if "x \<noteq> y" for x y :: u32 using that by (simp add: word_unat_eq_iff)
  have nh: "unat (x AND 0x1fff) \<noteq> unat (y AND 0x1fff)" if "x \<noteq> y" "high_msr x" "high_msr y" for x y
    using that high_msr_inj by (metis word_unat_eq_iff)
  have "(exits_on_read (set_msr_interception' msr rd wr bm) m \<longleftrightarrow> (if m = msr then rd else exits_on_read bm m)) \<and>
    (exits_on_write (set_msr_interception' msr rd wr bm) m \<longleftrightarrow> (if m = msr then wr else exits_on_write bm m)) \<and>
    length (set_msr_interception' msr rd wr bm) = 512"
  proof (cases "low_msr msr")
    case True
    have "set_msr_interception' msr rd wr bm = bitmap_part 256 (set_or_clear wr (unat msr)) (bitmap_part 0 (set_or_clear rd (unat msr)) bm)"
      using True by (simp add: set_msr_interception'_def low_msr_def)
    then show ?thesis
      using lo[OF True] assms(1) lo[of m] ne[of m msr] low_not_high[OF True] msr_offset_bound[of m] True
      by (auto simp: bitmap_part_set_or_clear exits_on_read_def exits_on_write_def)
  next
    case False
    with assms(2) have h: "high_msr msr" by simp
    have "set_msr_interception' msr rd wr bm = bitmap_part 384 (set_or_clear wr (unat (msr AND 0x1fff)))
        (bitmap_part 128 (set_or_clear rd (unat (msr AND 0x1fff))) bm)"
      using False h by (simp add: set_msr_interception'_def low_msr_def high_msr_def Let_def)
    then show ?thesis
      using msr_offset_bound[of msr] assms(1) lo[of m] nh[of m msr] h False msr_offset_bound[of m]
      by (auto simp: bitmap_part_set_or_clear exits_on_read_def exits_on_write_def)
  qed
  then show "exits_on_read (set_msr_interception' msr rd wr bm) m \<longleftrightarrow> (if m = msr then rd else exits_on_read bm m)"
    "exits_on_write (set_msr_interception' msr rd wr bm) m \<longleftrightarrow> (if m = msr then wr else exits_on_write bm m)"
    "length (set_msr_interception' msr rd wr bm) = 512" by auto
qed

lemma fold_interception_exits:
  fixes a b :: nat and s
  assumes "length (msr_bitmap s) = 512" "b \<le> 0x2000"
  defines "s' \<equiv> fold (\<lambda>i. set_msr_interception (of_nat i) True True) [a..<b] s"
  shows "length (msr_bitmap s') = 512"
    "exits_on_read (msr_bitmap s') m \<longleftrightarrow> a \<le> unat m \<and> unat m < b \<or> exits_on_read (msr_bitmap s) m"
    "exits_on_write (msr_bitmap s') m \<longleftrightarrow> a \<le> unat m \<and> unat m < b \<or> exits_on_write (msr_bitmap s) m"
proof -
  have u: "unat (of_nat i :: u32) = i" if "i < 0x2000" for i
    using that by (simp add: unat_of_nat)
  have low: "low_msr (of_nat i)" if "i < 0x2000" for i
    using u[OF that] that by (simp add: low_msr_def word_le_nat_alt)
  have eq: "m = of_nat i \<longleftrightarrow> unat m = i" if "i < 0x2000" for i
    using u[OF that] by (metis word_unat_eq_iff)
  have "let s' = fold (\<lambda>i. set_msr_interception (of_nat i) True True) [a..<b] s in
    length (msr_bitmap s') = 512 \<and>
    (exits_on_read (msr_bitmap s') m \<longleftrightarrow> a \<le> unat m \<and> unat m < b \<or> exits_on_read (msr_bitmap s) m) \<and>
    (exits_on_write (msr_bitmap s') m \<longleftrightarrow> a \<le> unat m \<and> unat m < b \<or> exits_on_write (msr_bitmap s) m)"
    using assms(2)
  proof (induction b)
    case (Suc b)
    show ?case
    proof (cases "a \<le> b")
      case True
      then show ?thesis using Suc low[of b] eq[of b]
        by (auto simp: Let_def set_msr_interception_def set_msr_interception_exits less_Suc_eq)
    next
      case False
      then show ?thesis using assms(1) by auto
    qed
  qed (use assms(1) in simp)
  then show "length (msr_bitmap s') = 512"
    "exits_on_read (msr_bitmap s') m \<longleftrightarrow> a \<le> unat m \<and> unat m < b \<or> exits_on_read (msr_bitmap s) m"
    "exits_on_write (msr_bitmap s') m \<longleftrightarrow> a \<le> unat m \<and> unat m < b \<or> exits_on_write (msr_bitmap s) m"
    by (auto simp: s'_def Let_def)
qed

lemma zero_bitmap_exits:
  "exits_on_read (replicate 512 0) m \<longleftrightarrow> \<not> low_msr m \<and> \<not> high_msr m"
  "exits_on_write (replicate 512 0) m \<longleftrightarrow> \<not> low_msr m \<and> \<not> high_msr m"
proof -
  have "\<not> bm_test (replicate 512 0) i" if "i < 512 * 64" for i
    using that by (simp add: bm_test_def nth_replicate[OF less_mult_imp_div_less[OF that]])
  moreover have "unat m \<le> 0x1fff" if "low_msr m" using that by (simp add: low_msr_def word_le_nat_alt)
  ultimately show "exits_on_read (replicate 512 0) m \<longleftrightarrow> \<not> low_msr m \<and> \<not> high_msr m"
    "exits_on_write (replicate 512 0) m \<longleftrightarrow> \<not> low_msr m \<and> \<not> high_msr m"
    using msr_offset_bound[of m] by (auto simp: exits_on_read_def exits_on_write_def)
qed

lemma setup_vmcs_config_Inr:
  "setup_vmcs_config s = Inr s' \<Longrightarrow> \<exists>e v cfg. s' = s\<lparr>cap_ept := e, cap_vpid := v, config := cfg\<rparr>"
  by (auto simp: setup_vmcs_config_def Let_def split_def and_then_eq_Inr)

lemma hardware_setup_exits:
  assumes "vmx_hardware_setup s = Inr s'" "msr_bitmap s = replicate 512 0"
  shows "exits_on_read (msr_bitmap s') m \<longleftrightarrow> (0x480 \<le> m \<and> m \<le> 0x491) \<or> \<not> low_msr m \<and> \<not> high_msr m"
    and "exits_on_write (msr_bitmap s') m \<longleftrightarrow>
      (0x480 \<le> m \<and> m \<le> 0x491) \<or> m = MSR_IA32_APICBASE \<or> m = APIC_ICR_MSR \<or> m = MSR_EFER \<or> \<not> low_msr m \<and> \<not> high_msr m"
proof -
  obtain s0 where "setup_vmcs_config s = Inr s0" and s': "s' = intercept_msrs s0"
    using assms(1) by (auto simp: vmx_hardware_setup_def and_then_eq_Inr)
  then have s0: "msr_bitmap s0 = replicate 512 0" using assms(2) by (auto dest!: setup_vmcs_config_Inr)
  have rng: "0x480 \<le> m \<and> m \<le> 0x491 \<longleftrightarrow> 0x480 \<le> unat m \<and> unat m < 0x492"
    by (auto simp: word_le_nat_alt)
  have c: "low_msr MSR_IA32_APICBASE" "low_msr APIC_ICR_MSR" "high_msr MSR_EFER"
    by (simp_all add: low_msr_def high_msr_def)
  note step = set_msr_interception_exits set_msr_interception_def c s0 zero_bitmap_exits fold_interception_exits
  show "exits_on_read (msr_bitmap s') m \<longleftrightarrow> (0x480 \<le> m \<and> m \<le> 0x491) \<or> \<not> low_msr m \<and> \<not> high_msr m"
    using c unfolding s' rng intercept_msrs_def Let_def
    by (simp add: step del: upt_rec_numeral)
  show "exits_on_write (msr_bitmap s') m \<longleftrightarrow>
      (0x480 \<le> m \<and> m \<le> 0x491) \<or> m = MSR_IA32_APICBASE \<or> m = APIC_ICR_MSR \<or> m = MSR_EFER \<or> \<not> low_msr m \<and> \<not> high_msr m"
    using c unfolding s' rng intercept_msrs_def Let_def
    by (simp add: step del: upt_rec_numeral)
qed

section \<open>Facts: control registers\<close>

text \<open>The consistency requirements the source states above \<open>enter_lmode\<close>.\<close>

definition lmode_ok :: "machine \<Rightarrow> bool" where
  "lmode_ok s \<longleftrightarrow>
     (vmcs_read64 GUEST_IA32_EFER s AND EFER_LMA \<noteq> 0 \<longleftrightarrow> vmcs_read32 VM_ENTRY_CONTROLS s AND VM_ENTRY_IA32E_MODE \<noteq> 0) \<and>
     (vmcs_read64 GUEST_IA32_EFER s AND EFER_LMA \<noteq> 0 \<longleftrightarrow>
        vmcs_readl GUEST_CR0 s AND X86_CR0_PG \<noteq> 0 \<and> vmcs_read64 GUEST_IA32_EFER s AND EFER_LME \<noteq> 0)"

lemma IA32E_bit: "bit VM_ENTRY_IA32E_MODE n \<longleftrightarrow> n = 9" "x AND VM_ENTRY_IA32E_MODE = 0 \<longleftrightarrow> \<not> bit x 9"
proof -
  have "VM_ENTRY_IA32E_MODE = BIT_32 9" by (simp add: BIT_32_def)
  then show "bit VM_ENTRY_IA32E_MODE n \<longleftrightarrow> n = 9" "x AND VM_ENTRY_IA32E_MODE = 0 \<longleftrightarrow> \<not> bit x 9"
    by (simp_all only: bit_BIT_32 and_BIT_32) simp_all
qed

lemmas field_widths [simp] = field_width_def

lemmas bit_names = EFER_LMA_def EFER_LME_def EFER_SCE_def X86_CR0_PG_def X86_CR0_WP_def X86_CR0_NE_def
  X86_CR0_NW_def X86_CR0_CD_def X86_CR0_ET_def X86_CR0_PE_def X86_CR4_VMXE_def

lemma vmx_set_cr0_lmode:
  assumes "vmx_set_cr0 c cr0 s = Inr s'" "lmode_ok s"
  shows "lmode_ok s'"
  using assms
  by (auto simp: lmode_ok_def vmx_set_cr0_def enter_lmode_def exit_lmode_def Let_def IA32E_bit bit_names
      KVM_GUEST_CR0_ALWAYS_ON_def stop_simps bit_simps bit_BIT_64 bit_BIT_32 split: if_splits)

definition only_vmcs :: "machine \<Rightarrow> machine \<Rightarrow> bool" where
  "only_vmcs s s' \<longleftrightarrow> (\<exists>v. s' = s\<lparr>vmcs := v\<rparr>)"

lemma only_vmcs_trans: "only_vmcs s s1 \<Longrightarrow> only_vmcs s1 s2 \<Longrightarrow> only_vmcs s s2"
  by (auto simp: only_vmcs_def)

lemma only_vmcs_upd [simp]: "only_vmcs s (s\<lparr>vmcs := v\<rparr>)" "only_vmcs s s"
  by (auto simp: only_vmcs_def intro: exI[of _ "vmcs s"])

lemma vmx_set_cr0_value:
  assumes "vmx_set_cr0 c cr0 s = Inr s'"
  shows "vmcs_readl GUEST_CR0 s' = cr0 OR KVM_GUEST_CR0_ALWAYS_ON"
    and "f \<notin> {GUEST_CR0, GUEST_IA32_EFER, VM_ENTRY_CONTROLS, GUEST_TR_AR_BYTES} \<Longrightarrow> vmcs s' f = vmcs s f"
    and "n \<noteq> 10 \<Longrightarrow> bit (vmcs_read64 GUEST_IA32_EFER s') n \<longleftrightarrow> bit (vmcs_read64 GUEST_IA32_EFER s) n"
    and "only_vmcs s s'"
  using assms
  by (auto simp: vmx_set_cr0_def enter_lmode_def exit_lmode_def Let_def bit_names stop_simps bit_simps bit_BIT_64
      dest: bit_imp_le_length split: if_splits)

section \<open>Facts: segments\<close>

definition usable_segment :: "kvm_segment \<Rightarrow> bool" where
  "usable_segment v \<longleftrightarrow> seg_type v < 16 \<and> seg_s v < 2 \<and> seg_dpl v < 4 \<and> seg_present v = 1 \<and> seg_unusable v = 0 \<and>
     seg_avl v < 2 \<and> seg_l v < 2 \<and> seg_db v < 2 \<and> seg_g v < 2"

lemma small_bits:
  assumes "(x :: u8) < 2 ^ n" "bit x i"
  shows "i < n"
proof -
  have "x AND mask n = x" using assms(1) by (rule less_mask_eq)
  then have "bit (x AND mask n) i" using assms(2) by simp
  then show ?thesis by (simp add: bit_simps)
qed

lemma and_small_masks:
  "x AND 15 = take_bit 4 x" "x AND 3 = take_bit 2 x" "x AND 1 = take_bit 1 (x :: 'a::len word)"
  by (simp_all add: take_bit_eq_mask mask_eq_exp_minus_1)

lemma bit_flag: "k < 32 \<Longrightarrow> bit (push_bit k (ucast (take_bit 1 (x :: u8))) :: u32) i \<longleftrightarrow> i = k \<and> bit x 0"
proof -
  assume "k < 32"
  moreover have "k \<le> i \<and> i - k < 1 \<longleftrightarrow> i = k" by auto
  ultimately show ?thesis by (auto simp only: bit_push_bit_iff bit_unsigned_iff bit_take_bit_iff possible_bit_word) auto
qed

lemma bit_flags:
  "bit (push_bit 4 (ucast (take_bit 1 (x :: u8))) :: u32) i \<longleftrightarrow> i = 4 \<and> bit x 0"
  "bit (push_bit 7 (ucast (take_bit 1 (x :: u8))) :: u32) i \<longleftrightarrow> i = 7 \<and> bit x 0"
  "bit (push_bit 12 (ucast (take_bit 1 (x :: u8))) :: u32) i \<longleftrightarrow> i = 12 \<and> bit x 0"
  "bit (push_bit 13 (ucast (take_bit 1 (x :: u8))) :: u32) i \<longleftrightarrow> i = 13 \<and> bit x 0"
  "bit (push_bit 14 (ucast (take_bit 1 (x :: u8))) :: u32) i \<longleftrightarrow> i = 14 \<and> bit x 0"
  "bit (push_bit 15 (ucast (take_bit 1 (x :: u8))) :: u32) i \<longleftrightarrow> i = 15 \<and> bit x 0"
  by (rule bit_flag, simp)+

lemma bit_type: "bit (ucast (take_bit 4 (x :: u8)) :: u32) i \<longleftrightarrow> i < 4 \<and> bit x i"
  by (auto simp: bit_simps)

lemma bit_dpl: "bit (push_bit 5 (ucast (take_bit 2 (x :: u8))) :: u32) i \<longleftrightarrow> 5 \<le> i \<and> i < 7 \<and> bit x (i - 5)"
  by (auto simp: bit_simps)

lemma segment_round_trip:
  assumes "vmx_set_segment c v seg s = Inr s'" "usable_segment v"
  shows "vmx_get_segment seg s' = v"
proof -
  obtain sel bas lim arb where f: "kvm_vmx_segment_fields seg = (sel, bas, lim, arb)" by (metis surj_pair)
  have w: "field_width sel = 16" "field_width bas = 64" "field_width lim = 32" "field_width arb = 32"
    and d: "bas \<noteq> lim" "bas \<noteq> sel" "bas \<noteq> arb" "lim \<noteq> sel" "lim \<noteq> arb" "sel \<noteq> arb"
    using f by (cases seg; auto)+
  let ?ar = "vmx_segment_access_rights v"
  have s': "vmcs s' bas = seg_base v" "vmcs s' lim = take_bit 32 (ucast (seg_limit v))"
    "vmcs s' sel = take_bit 16 (ucast (seg_selector v))" "vmcs s' arb = take_bit 32 (ucast ?ar)"
    using assms(1) d by (auto simp: vmx_set_segment_def f stop_simps w simp del: field_widths)
  have c: "ucast (take_bit 32 (ucast (w :: u32) :: u64)) = w" "ucast (take_bit 16 (ucast (x :: u16) :: u64)) = x" for w x
    by (rule bit_word_eqI, auto simp: bit_simps)+
  have eq: "(y :: u8) = x" if "\<And>i. i < 8 \<Longrightarrow> bit y i \<longleftrightarrow> bit x i" for x y :: u8
    using that by (auto simp: word_eq_bits)
  note u = assms(2)[unfolded usable_segment_def]
  have sm: "bit (seg_type v) i \<Longrightarrow> i < 4" "bit (seg_s v) i \<Longrightarrow> i < 1" "bit (seg_dpl v) i \<Longrightarrow> i < 2"
    "bit (seg_avl v) i \<Longrightarrow> i < 1" "bit (seg_l v) i \<Longrightarrow> i < 1" "bit (seg_db v) i \<Longrightarrow> i < 1" "bit (seg_g v) i \<Longrightarrow> i < 1" for i
    using u small_bits[of _ 4 i] small_bits[of _ 2 i] small_bits[of _ 1 i] by auto
  have ar: "?ar = ucast (take_bit 4 (seg_type v)) OR push_bit 4 (ucast (take_bit 1 (seg_s v))) OR
      push_bit 5 (ucast (take_bit 2 (seg_dpl v))) OR push_bit 7 (ucast (take_bit 1 (1 :: u8))) OR
      push_bit 12 (ucast (take_bit 1 (seg_avl v))) OR push_bit 13 (ucast (take_bit 1 (seg_l v))) OR
      push_bit 14 (ucast (take_bit 1 (seg_db v))) OR push_bit 15 (ucast (take_bit 1 (seg_g v)))"
    using u by (simp only: vmx_segment_access_rights_def and_small_masks) simp
  have bits: "bit ?ar i \<longleftrightarrow> i < 4 \<and> bit (seg_type v) i \<or> i = 4 \<and> bit (seg_s v) 0 \<or> 5 \<le> i \<and> i < 7 \<and> bit (seg_dpl v) (i - 5) \<or>
      i = 7 \<or> i = 12 \<and> bit (seg_avl v) 0 \<or> i = 13 \<and> bit (seg_l v) 0 \<or> i = 14 \<and> bit (seg_db v) 0 \<or> i = 15 \<and> bit (seg_g v) 0" for i
    unfolding ar by (simp only: bit_or_iff bit_flags bit_type bit_dpl disj_assoc) simp
  note fld = bit_unsigned_iff bit_take_bit_iff bit_drop_bit_eq comp_def bits
  have ty: "ucast (take_bit 4 ?ar) = seg_type v"
    by (rule eq) (simp only: fld, auto dest: sm)
  have one: "(ucast (take_bit 1 (drop_bit k ?ar)) :: u8) = x" if "bit ?ar k \<longleftrightarrow> bit x 0" "\<And>i. bit x i \<Longrightarrow> i < 1" for k x
  proof (rule eq)
    fix i :: nat assume "i < 8"
    then show "bit (ucast (take_bit 1 (drop_bit k ?ar)) :: u8) i \<longleftrightarrow> bit x i"
      using that by (cases i) (auto simp only: bit_unsigned_iff bit_take_bit_iff bit_drop_bit_eq comp_def, auto)
  qed
  have b: "(ucast (take_bit 1 (drop_bit 4 ?ar)) :: u8) = seg_s v" "(ucast (take_bit 1 (drop_bit 12 ?ar)) :: u8) = seg_avl v"
    "(ucast (take_bit 1 (drop_bit 13 ?ar)) :: u8) = seg_l v" "(ucast (take_bit 1 (drop_bit 14 ?ar)) :: u8) = seg_db v"
    "(ucast (take_bit 1 (drop_bit 15 ?ar)) :: u8) = seg_g v" "(ucast (take_bit 1 (drop_bit 16 ?ar)) :: u8) = 0"
    by (rule one; use sm in \<open>simp add: bits\<close>)+
  have b2: "(ucast (take_bit 2 (drop_bit 5 ?ar)) :: u8) = seg_dpl v"
    by (rule eq) (simp only: fld, auto dest: sm)
  show ?thesis using u b b2 ty by (simp add: vmx_get_segment_def f s' c vmcs_read_def and_small_masks Let_def del: take_bit_Suc_0)
qed

section \<open>Facts: the initial VMCS\<close>

text \<open>The fields each part of the setup is responsible for, and that the later parts leave alone.\<close>

abbreviation control_fields :: "u32 set" where
  "control_fields \<equiv> {MSR_BITMAP, VMCS_LINK_POINTER, PIN_BASED_VM_EXEC_CONTROL, CPU_BASED_VM_EXEC_CONTROL,
     SECONDARY_VM_EXEC_CONTROL, VM_EXIT_CONTROLS, EXCEPTION_BITMAP, VM_ENTRY_MSR_LOAD_ADDR}"

abbreviation host_fields :: "u32 set" where
  "host_fields \<equiv> {HOST_CR0, HOST_CR3, HOST_CR4, HOST_RIP, HOST_GDTR_BASE, HOST_CS_SELECTOR}"

lemma setup_controls_vmcs:
  assumes "run_steps (setup_controls c) s = Inr s'"
  shows "vmcs s' MSR_BITMAP = msr_bitmap_addr c" "vmcs s' VMCS_LINK_POINTER = NOT 0"
    "vmcs s' PIN_BASED_VM_EXEC_CONTROL = ucast (pin_based_exec_ctrl (config s))"
    "vmcs s' CPU_BASED_VM_EXEC_CONTROL = ucast (cpu_based_exec_ctrl (config s))"
    "vmcs s' SECONDARY_VM_EXEC_CONTROL = ucast (cpu_based_2nd_exec_ctrl (config s))"
    "vmcs s' VM_EXIT_CONTROLS = ucast (vmexit_ctrl (config s))"
    "vmcs s' EXCEPTION_BITMAP = push_bit 6 1 OR push_bit 14 1"
    "vmcs s' VM_ENTRY_MSR_LOAD_ADDR = autoload_guest_addr c"
    "only_vmcs s s'"
proof -
  have t: "take_bit 32 (ucast (w :: u32) :: u64) = ucast w" for w
    by (rule bit_word_eqI) (auto simp: bit_simps dest: bit_imp_le_length)
  have m: "(mask 64 :: u64) = - 1" using mask_full[where 'a = 64] by simp
  show "vmcs s' MSR_BITMAP = msr_bitmap_addr c" "vmcs s' VMCS_LINK_POINTER = NOT 0"
    "vmcs s' PIN_BASED_VM_EXEC_CONTROL = ucast (pin_based_exec_ctrl (config s))"
    "vmcs s' CPU_BASED_VM_EXEC_CONTROL = ucast (cpu_based_exec_ctrl (config s))"
    "vmcs s' SECONDARY_VM_EXEC_CONTROL = ucast (cpu_based_2nd_exec_ctrl (config s))"
    "vmcs s' VM_EXIT_CONTROLS = ucast (vmexit_ctrl (config s))"
    "vmcs s' EXCEPTION_BITMAP = push_bit 6 1 OR push_bit 14 1"
    "vmcs s' VM_ENTRY_MSR_LOAD_ADDR = autoload_guest_addr c"
    "only_vmcs s s'"
    using assms unfolding setup_controls_def by (auto simp: stop_simps t m)
qed

lemma setup_host_vmcs:
  assumes "run_steps (setup_host c) s = Inr s'"
  shows "vmcs s' HOST_CR0 = hw_cr0 s" "vmcs s' HOST_CR3 = hw_cr3 s" "vmcs s' HOST_CR4 = hw_cr4 s"
    "vmcs s' HOST_RIP = vmx_return c" "vmcs s' HOST_GDTR_BASE = gdt_address c" "vmcs s' HOST_CS_SELECTOR = KERNEL_CS"
    "f \<in> control_fields \<Longrightarrow> vmcs s' f = vmcs s f" "only_vmcs s s'"
proof -
  obtain s1 where s1: "run_steps (butlast (setup_host c)) s = Inr s1" and s': "setup_host_pat c s1 = Inr s'"
    using assms by (auto simp: setup_host_def stop_simps)
  have v: "f \<noteq> HOST_IA32_PAT \<Longrightarrow> vmcs s' f = vmcs s1 f" "only_vmcs s1 s'" for f
    using s' by (auto simp: setup_host_pat_def stop_simps split: if_splits)
  have "vmcs s1 HOST_CR0 = hw_cr0 s" "vmcs s1 HOST_CR3 = hw_cr3 s" "vmcs s1 HOST_CR4 = hw_cr4 s"
    "vmcs s1 HOST_RIP = vmx_return c" "vmcs s1 HOST_GDTR_BASE = gdt_address c" "vmcs s1 HOST_CS_SELECTOR = KERNEL_CS"
    "f \<in> control_fields \<Longrightarrow> vmcs s1 f = vmcs s f" "only_vmcs s s1"
    using s1 unfolding setup_host_def by (auto simp: stop_simps KERNEL_CS_def)
  with v show "vmcs s' HOST_CR0 = hw_cr0 s" "vmcs s' HOST_CR3 = hw_cr3 s" "vmcs s' HOST_CR4 = hw_cr4 s"
    "vmcs s' HOST_RIP = vmx_return c" "vmcs s' HOST_GDTR_BASE = gdt_address c" "vmcs s' HOST_CS_SELECTOR = KERNEL_CS"
    "f \<in> control_fields \<Longrightarrow> vmcs s' f = vmcs s f" "only_vmcs s s'"
    by (auto intro: only_vmcs_trans)
qed

lemma setup_guest_vmcs:
  assumes "run_steps (setup_guest c) s = Inr s'"
  shows "vmcs s' GUEST_RIP = 0xfff0" "vmcs s' GUEST_CS_BASE = 0xffff0000" "vmcs s' GUEST_CS_SELECTOR = 0xf000"
    "vmcs s' GUEST_RFLAGS = 2"
    "f \<in> control_fields \<union> host_fields \<Longrightarrow> vmcs s' f = vmcs s f"
    "only_vmcs s s'"
  using assms unfolding setup_guest_def by (auto simp: stop_simps)

lemma setup_crs_vmcs:
  assumes "run_steps (setup_crs c) s = Inr s'"
  shows "vmcs s' GUEST_CR0 = X86_CR0_NW OR X86_CR0_CD OR X86_CR0_ET OR KVM_GUEST_CR0_ALWAYS_ON"
    "vmcs s' GUEST_CR4 = KVM_GUEST_CR4_ALWAYS_ON" "vmcs s' GUEST_CR3 = 0"
    "vmcs s' CR0_GUEST_HOST_MASK = KVM_GUEST_CR0_ALWAYS_ON" "vmcs s' CR4_GUEST_HOST_MASK = KVM_GUEST_CR4_ALWAYS_ON"
    "f \<in> control_fields \<union> host_fields \<union> {GUEST_RIP, GUEST_CS_BASE, GUEST_CS_SELECTOR, GUEST_RFLAGS} \<Longrightarrow> vmcs s' f = vmcs s f"
    "only_vmcs s s'"
proof -
  obtain s1 s2 where s1: "run_steps [vmcs_writel c CR0_GUEST_HOST_MASK KVM_GUEST_CR0_ALWAYS_ON,
      vmcs_writel c CR0_READ_SHADOW KVM_GUEST_CR0_ALWAYS_ON] s = Inr s1"
    and s2: "vmx_set_cr0 c (X86_CR0_NW OR X86_CR0_CD OR X86_CR0_ET) s1 = Inr s2"
    and s': "run_steps [vmcs_writel c GUEST_CR3 0, vmcs_writel c CR4_GUEST_HOST_MASK KVM_GUEST_CR4_ALWAYS_ON,
      vmcs_writel c CR4_READ_SHADOW KVM_GUEST_CR4_ALWAYS_ON, vmx_set_cr4 c 0] s2 = Inr s'"
    using assms unfolding setup_crs_def by (auto simp: stop_simps)
  note v = vmx_set_cr0_value[OF s2]
  show "vmcs s' GUEST_CR0 = X86_CR0_NW OR X86_CR0_CD OR X86_CR0_ET OR KVM_GUEST_CR0_ALWAYS_ON"
    "vmcs s' GUEST_CR4 = KVM_GUEST_CR4_ALWAYS_ON" "vmcs s' GUEST_CR3 = 0"
    "vmcs s' CR0_GUEST_HOST_MASK = KVM_GUEST_CR0_ALWAYS_ON" "vmcs s' CR4_GUEST_HOST_MASK = KVM_GUEST_CR4_ALWAYS_ON"
    "f \<in> control_fields \<union> host_fields \<union> {GUEST_RIP, GUEST_CS_BASE, GUEST_CS_SELECTOR, GUEST_RFLAGS} \<Longrightarrow> vmcs s' f = vmcs s f"
    using s1 s' v(1) v(2) by (auto simp: stop_simps vmx_set_cr4_def or.assoc)
  show "only_vmcs s s'"
  proof -
    have "only_vmcs s s1" using s1 by (auto simp: stop_simps)
    moreover have "only_vmcs s2 s'" using s' by (auto simp: stop_simps vmx_set_cr4_def)
    ultimately show ?thesis using v(4) by (blast intro: only_vmcs_trans)
  qed
qed

lemma autoload_msrs:
  assumes "length (autoload_guest s) = NR_AUTOLOAD_MSRS" "length (autoload_host s) = NR_AUTOLOAD_MSRS"
  defines "t \<equiv> fold autoload_msr [0..<length vmx_msr_index] s"
  shows "\<exists>g h. t = s\<lparr>autoload_guest := g, autoload_host := h\<rparr>"
    and "length (autoload_guest t) = NR_AUTOLOAD_MSRS" "length (autoload_host t) = NR_AUTOLOAD_MSRS"
    and "i < 4 \<Longrightarrow> msr_index (autoload_guest t ! i) = vmx_msr_index ! i"
    and "i < 4 \<Longrightarrow> msr_value (autoload_guest t ! i) = msr_value (autoload_guest s ! i)"
    and "i < 4 \<Longrightarrow> autoload_host t ! i = \<lparr>msr_index = vmx_msr_index ! i, msr_value = msrs s (vmx_msr_index ! i)\<rparr>"
proof -
  have idx: "[0..<length vmx_msr_index] = [0, 1, 2, 3]" by (simp add: vmx_msr_index_def upt_rec)
  have i4: "i < 4 \<Longrightarrow> i = 0 \<or> i = 1 \<or> i = 2 \<or> i = 3" by auto
  show "\<exists>g h. t = s\<lparr>autoload_guest := g, autoload_host := h\<rparr>"
    by (auto simp: t_def idx autoload_msr_def Let_def)
  show "length (autoload_guest t) = NR_AUTOLOAD_MSRS" "length (autoload_host t) = NR_AUTOLOAD_MSRS"
    using assms(1,2) by (simp_all add: t_def idx autoload_msr_def Let_def)
  show "i < 4 \<Longrightarrow> msr_index (autoload_guest t ! i) = vmx_msr_index ! i"
    "i < 4 \<Longrightarrow> msr_value (autoload_guest t ! i) = msr_value (autoload_guest s ! i)"
    "i < 4 \<Longrightarrow> autoload_host t ! i = \<lparr>msr_index = vmx_msr_index ! i, msr_value = msrs s (vmx_msr_index ! i)\<rparr>"
    using i4 assms(1,2) by (auto simp: t_def idx autoload_msr_def Let_def NR_AUTOLOAD_MSRS_def)
qed

lemma vcpu_setup_parts:
  assumes "vmx_vcpu_setup c s = Inr s'"
  obtains s1 s2 s3 where "run_steps (setup_controls c) s = Inr s1"
    "run_steps (setup_host c) (fold autoload_msr [0..<length vmx_msr_index] s1) = Inr s2"
    "run_steps (setup_guest c) s2 = Inr s3" "run_steps (setup_crs c) s3 = Inr s'"
  using assms by (auto simp: vmx_vcpu_setup_def run_steps_append and_then_eq_Inr)

text \<open>The setup never writes \<open>GUEST_IA32_EFER\<close>, except that loading CR0 may change \<open>LMA\<close>.\<close>

lemma vcpu_setup_efer:
  assumes "vmx_vcpu_setup c s = Inr s'" "n \<noteq> 10"
    and "length (autoload_guest s) = NR_AUTOLOAD_MSRS" "length (autoload_host s) = NR_AUTOLOAD_MSRS"
  shows "bit (vmcs s' GUEST_IA32_EFER) n \<longleftrightarrow> bit (vmcs s GUEST_IA32_EFER) n"
proof -
  obtain s1 s2 s3 where p: "run_steps (setup_controls c) s = Inr s1"
    "run_steps (setup_host c) (fold autoload_msr [0..<length vmx_msr_index] s1) = Inr s2"
    "run_steps (setup_guest c) s2 = Inr s3" "run_steps (setup_crs c) s3 = Inr s'"
    using assms(1) by (rule vcpu_setup_parts)
  define t where "t = fold autoload_msr [0..<length vmx_msr_index] s1"
  have 1: "vmcs s1 GUEST_IA32_EFER = vmcs s GUEST_IA32_EFER" "only_vmcs s s1"
    using p(1) unfolding setup_controls_def by (auto simp: stop_simps)
  have "length (autoload_guest s1) = NR_AUTOLOAD_MSRS" "length (autoload_host s1) = NR_AUTOLOAD_MSRS"
    using 1(2) assms(3,4) by (auto simp: only_vmcs_def)
  then have 2: "vmcs t = vmcs s1" using autoload_msrs(1)[of s1] by (auto simp: t_def)
  obtain w where w: "run_steps (butlast (setup_host c)) t = Inr w" and s2: "setup_host_pat c w = Inr s2"
    using p(2)[folded t_def] by (auto simp: setup_host_def stop_simps)
  have "vmcs w GUEST_IA32_EFER = vmcs t GUEST_IA32_EFER" using w unfolding setup_host_def by (auto simp: stop_simps)
  then have 3: "vmcs s2 GUEST_IA32_EFER = vmcs t GUEST_IA32_EFER"
    using s2 by (auto simp: setup_host_pat_def stop_simps split: if_splits)
  have 4: "vmcs s3 GUEST_IA32_EFER = vmcs s2 GUEST_IA32_EFER"
    using p(3) unfolding setup_guest_def by (auto simp: stop_simps)
  let ?u = "s3\<lparr>vmcs := (vmcs s3)(CR0_GUEST_HOST_MASK := KVM_GUEST_CR0_ALWAYS_ON, CR0_READ_SHADOW := KVM_GUEST_CR0_ALWAYS_ON)\<rparr>"
  obtain v where v: "vmx_set_cr0 c (X86_CR0_NW OR X86_CR0_CD OR X86_CR0_ET) ?u = Inr v"
    and s': "vmcs s' GUEST_IA32_EFER = vmcs v GUEST_IA32_EFER"
    using p(4) unfolding setup_crs_def by (auto simp: stop_simps vmx_set_cr4_def)
  show ?thesis using vmx_set_cr0_value(3)[OF v assms(2)] s' 1 2 3 4 by (simp add: vmcs_reads)
qed

lemma vcpu_setup_frame:
  assumes "vmx_vcpu_setup c s = Inr s'"
    and "length (autoload_guest s) = NR_AUTOLOAD_MSRS" "length (autoload_host s) = NR_AUTOLOAD_MSRS"
  shows "memory s' = memory s" "msr_bitmap s' = msr_bitmap s" "pml4_0_512g_initialized s' = pml4_0_512g_initialized s"
    "vmcs s' GUEST_CR0 = X86_CR0_NW OR X86_CR0_CD OR X86_CR0_ET OR KVM_GUEST_CR0_ALWAYS_ON"
    "vmcs s' GUEST_CR4 = KVM_GUEST_CR4_ALWAYS_ON"
    "vmcs s' CR0_GUEST_HOST_MASK = KVM_GUEST_CR0_ALWAYS_ON" "vmcs s' CR4_GUEST_HOST_MASK = KVM_GUEST_CR4_ALWAYS_ON"
proof -
  obtain s1 s2 s3 where p: "run_steps (setup_controls c) s = Inr s1"
    "run_steps (setup_host c) (fold autoload_msr [0..<length vmx_msr_index] s1) = Inr s2"
    "run_steps (setup_guest c) s2 = Inr s3" "run_steps (setup_crs c) s3 = Inr s'"
    using assms(1) by (rule vcpu_setup_parts)
  note C = setup_controls_vmcs[OF p(1)] and H = setup_host_vmcs[OF p(2)]
    and G = setup_guest_vmcs[OF p(3)] and R = setup_crs_vmcs[OF p(4)]
  obtain v where s1: "s1 = s\<lparr>vmcs := v\<rparr>" using C(9) by (auto simp: only_vmcs_def)
  obtain g h where "fold autoload_msr [0..<length vmx_msr_index] s1 = s1\<lparr>autoload_guest := g, autoload_host := h\<rparr>"
    using autoload_msrs(1)[of s1] assms(2,3) s1 by auto
  then show "memory s' = memory s" "msr_bitmap s' = msr_bitmap s" "pml4_0_512g_initialized s' = pml4_0_512g_initialized s"
    using H(8) G(6) R(7) s1 by (auto simp: only_vmcs_def)
qed (use vcpu_setup_parts[OF assms(1)] setup_crs_vmcs(1,2,4,5) in metis)+


section \<open>The setup returns\<close>

text \<open>
  Every step of the setup returns when the processor accepts every \<open>vmwrite\<close>, the task register
  selects the TSS and its descriptor is present; memory stays the same.
\<close>

definition host_ok :: "cpu \<Rightarrow> machine \<Rightarrow> bool" where
  "host_ok c s \<longleftrightarrow> (\<forall>f. vmwrite_ok c f) \<and> tr_selector c = GDT_ENTRY_TSS * 8 \<and> bit (memory s (gdt_address c + 69)) 7"

lemma returning_write:
  "returning (host_ok c) (vmcs_write c f v)" "returning (host_ok c) (\<lambda>s. vmcs_write c f (g s) s)"
  by (auto simp: returning_def vmcs_write_def host_ok_def)

lemma returning_cr0: "returning (host_ok c) (vmx_set_cr0 c cr0)"
  by (auto simp: returning_def vmx_set_cr0_def enter_lmode_def exit_lmode_def Let_def vmcs_writes vmcs_write_def host_ok_def)

lemma returning_tr:
  "returning (host_ok c) (\<lambda>s. and_then (BUG_ON (tr_selector c \<noteq> GDT_ENTRY_TSS * 8)) (\<lambda>_. Inr s))"
  "returning (host_ok c) (\<lambda>s. and_then (get_tr_base c s) (\<lambda>b. vmcs_write c HOST_TR_BASE b s))"
  by (auto simp: returning_def host_ok_def get_tr_base_def BUG_ON_def GDT_ENTRY_TSS_def vmcs_write_def Let_def add.commute[of 69])

lemma autoload_memory: "memory (fold autoload_msr is s) = memory s"
  by (induction "is" arbitrary: s) (simp_all add: autoload_msr_def Let_def)

lemma returning_rest:
  "returning (host_ok c) (\<lambda>s. Inr (fold autoload_msr is s))" "returning (host_ok c) (setup_host_pat c)"
  by (auto simp: returning_def host_ok_def autoload_memory setup_host_pat_def vmcs_writes vmcs_write_def)

lemma vcpu_setup_returns: "returning (host_ok c) (vmx_vcpu_setup c)"
  unfolding vmx_vcpu_setup_def
  by (rule returning_run_steps)
    (simp add: setup_controls_def setup_host_def setup_guest_def setup_crs_def vmx_set_cr4_def vmcs_writes
      returning_write returning_cr0 returning_tr returning_rest)

text \<open>A zeroed machine whose GDT holds a present TSS descriptor.\<close>

definition tss_machine :: machine where
  "tss_machine = zero_machine\<lparr>memory := (\<lambda>_. 0)(0x10200045 := 0x80)\<rparr>"

lemma tss_machine_host: "host_ok open_cpu tss_machine"
  by (simp add: host_ok_def tss_machine_def open_cpu_def GDT_ENTRY_TSS_def bit_numeral_rec)


section \<open>Properties\<close>

text \<open>Negotiating controls. \<open>adjust_vmx_controls\<close> panics exactly when a required control is
  neither forced nor allowed by the processor; when it returns, every required and every forced
  control is on, and nothing is on that is not forced or both allowed and asked for.\<close>

theorem adjust_vmx_controls_negotiates:
  fixes ctl_min ctl_opt msr :: u32 and s :: machine
  defines "forced \<equiv> fst (rdmsr msr s)" and "allowed \<equiv> snd (rdmsr msr s)"
  shows "case adjust_vmx_controls ctl_min ctl_opt msr s of
      Inl e \<Rightarrow> \<exists>i. bit ctl_min i \<and> \<not> bit forced i \<and> \<not> bit allowed i
    | Inr ctl \<Rightarrow> (\<forall>i. (bit ctl_min i \<longrightarrow> bit ctl i) \<and> (bit forced i \<longrightarrow> bit ctl i) \<and>
        (bit ctl i \<longrightarrow> bit forced i \<or> bit allowed i \<and> (bit ctl_min i \<or> bit ctl_opt i)))"
proof (cases "adjust_vmx_controls ctl_min ctl_opt msr s")
  case (Inl e)
  then show ?thesis using adjust_vmx_controls_panics[of ctl_min ctl_opt msr s] by (simp add: forced_def allowed_def)
next
  case (Inr ctl)
  then show ?thesis using adjust_vmx_controls_ok[OF Inr] by (simp add: forced_def allowed_def)
qed

theorem adjust_vmx_controls_negotiates_witness:
  "\<exists>i. bit (1 :: u32) i \<and> \<not> bit (fst (rdmsr 0x481 zero_machine)) i \<and> \<not> bit (snd (rdmsr 0x481 zero_machine)) i"
proof -
  have "adjust_vmx_controls 1 0 0x481 zero_machine = Inl (PANIC ''vmx: failed to set minimum control bits'')"
    by (simp add: adjust_vmx_controls_def zero_machine_def rdmsr_def panic_if_def Let_def)
  then show ?thesis using adjust_vmx_controls_negotiates[where ctl_min = 1 and ctl_opt = 0 and msr = "0x481" and s = zero_machine] by simp
qed

text \<open>C16: the MSR bitmap. After \<open>vmx_hardware_setup\<close> the guest's accesses to the VMX capability
  MSRs exit, its writes to \<open>IA32_APIC_BASE\<close>, to the x2APIC \<open>ICR\<close> and to \<open>EFER\<close> exit, and of the
  MSRs the bitmap covers no others do.\<close>

theorem hardware_setup_intercepts:
  assumes "vmx_hardware_setup s = Inr s'" "msr_bitmap s = replicate 512 0"
  shows "(exits_on_read (msr_bitmap s') m \<longleftrightarrow> (0x480 \<le> m \<and> m \<le> 0x491) \<or> \<not> low_msr m \<and> \<not> high_msr m) \<and>
    (exits_on_write (msr_bitmap s') m \<longleftrightarrow>
      (0x480 \<le> m \<and> m \<le> 0x491) \<or> m = MSR_IA32_APICBASE \<or> m = APIC_ICR_MSR \<or> m = MSR_EFER \<or> \<not> low_msr m \<and> \<not> high_msr m)"
  using hardware_setup_exits[OF assms] by simp

text \<open>A processor whose capability MSRs allow everything.\<close>

definition capable_machine :: machine where
  "capable_machine = zero_machine\<lparr>msrs := (\<lambda>m. if m = MSR_IA32_VMX_BASIC then 0x0018100000000000 else 0xffffffffffffffff)\<rparr>"

lemma capable_machine_setup: "\<exists>s'. vmx_hardware_setup capable_machine = Inr s'"
  by (simp add: vmx_hardware_setup_def setup_vmcs_config_def adjust_vmx_controls_def capable_machine_def zero_machine_def
      rdmsr_def panic_if_def BUG_ON_def Let_def cpu_has_vmx_ept_2m_page_def cpu_has_vmx_ept_4levels_def)

theorem hardware_setup_intercepts_witness:
  "\<exists>s'. vmx_hardware_setup capable_machine = Inr s' \<and> exits_on_write (msr_bitmap s') MSR_EFER \<and>
     \<not> exits_on_read (msr_bitmap s') MSR_EFER"
proof -
  obtain s' where s': "vmx_hardware_setup capable_machine = Inr s'" using capable_machine_setup by blast
  have "msr_bitmap capable_machine = replicate 512 0" by (simp add: capable_machine_def zero_machine_def)
  from s' hardware_setup_intercepts[OF s' this, of MSR_EFER] show ?thesis by (simp add: low_msr_def high_msr_def)
qed

text \<open>C17: loading CR0 keeps the requirements stated above \<open>enter_lmode\<close>: \<open>EFER.LMA\<close> is the IA-32e
  bit of the VM-entry controls, and is set exactly when paging and \<open>EFER.LME\<close> are; the register
  gets the value asked for with the always-on bits.\<close>

theorem set_cr0_long_mode:
  assumes "vmx_set_cr0 c cr0 s = Inr s'" "lmode_ok s"
  shows "lmode_ok s' \<and> vmcs_readl GUEST_CR0 s' = cr0 OR KVM_GUEST_CR0_ALWAYS_ON"
  using vmx_set_cr0_lmode[OF assms] vmx_set_cr0_value(1)[OF assms(1)] by simp

theorem set_cr0_long_mode_witness:
  "\<exists>s'. vmx_set_cr0 open_cpu X86_CR0_PE zero_machine = Inr s' \<and> lmode_ok s'"
proof -
  obtain s' where s': "vmx_set_cr0 open_cpu X86_CR0_PE zero_machine = Inr s'"
    by (simp add: vmx_set_cr0_def zero_machine_def open_cpu_def vmcs_reads vmcs_writes vmcs_write_def)
  moreover have "lmode_ok zero_machine" by (simp add: lmode_ok_def zero_machine_def vmcs_reads)
  ultimately show ?thesis using set_cr0_long_mode[OF s'] by blast
qed

text \<open>Reading a segment back gives what was written, through the packing of its attributes
  into the access rights of the VMCS.\<close>

theorem segment_write_read:
  assumes "vmx_set_segment c v seg s = Inr s'" "usable_segment v"
  shows "vmx_get_segment seg s' = v"
  using assms by (rule segment_round_trip)

definition flat_code_segment :: kvm_segment where
  "flat_code_segment = \<lparr>seg_base = 0, seg_limit = 0xfffff, seg_selector = 8, seg_type = 11, seg_present = 1, seg_dpl = 3,
     seg_db = 0, seg_s = 1, seg_l = 1, seg_g = 1, seg_avl = 0, seg_unusable = 0\<rparr>"

theorem segment_write_read_witness:
  "\<exists>s'. vmx_set_segment open_cpu flat_code_segment VCPU_SREG_CS zero_machine = Inr s' \<and>
     vmx_get_segment VCPU_SREG_CS s' = flat_code_segment"
proof -
  obtain s' where s': "vmx_set_segment open_cpu flat_code_segment VCPU_SREG_CS zero_machine = Inr s'"
    by (simp add: vmx_set_segment_def open_cpu_def vmcs_write_def)
  moreover have "usable_segment flat_code_segment" by (simp add: usable_segment_def flat_code_segment_def)
  ultimately show ?thesis using segment_write_read[OF s'] by blast
qed

text \<open>\<open>vmx_vcpu_setup\<close> returns whenever the processor accepts its \<open>vmwrite\<close>s, the task register
  selects the TSS and its descriptor is present.\<close>

theorem vcpu_setup_terminates:
  assumes "host_ok c s"
  shows "\<exists>s'. vmx_vcpu_setup c s = Inr s'"
  using vcpu_setup_returns assms by (auto simp: returning_def)

theorem vcpu_setup_terminates_witness: "\<exists>s'. vmx_vcpu_setup open_cpu tss_machine = Inr s'"
  by (rule vcpu_setup_terminates[OF tss_machine_host])

end
