(* ===== verification/Ept.thy ===== *)
theory Ept
  imports Vmx_Machine
begin

unbundle bit_operations_syntax

text \<open>
  Extended page tables: the tables of vmm/kvm.c (\<open>construct_tdp\<close>, \<open>handle_ept_violation\<close>) and
  the software walks of vmm/vmx.c (\<open>gpa2hpa\<close>, \<open>gva2hva\<close>). The tables are arrays in the VMM's
  image, in byte memory; \<open>__pa\<close> and \<open>__va\<close> are the identity. \<open>ept_translate\<close> is the walk the
  processor does for an access of the guest. \<open>ept_ok\<close> says what the tables may hold: identity
  mappings of 2 MB pages below 4 GB that lie outside the VMM's image.
\<close>

section \<open>Tables\<close>

text \<open>The link-time addresses of \<open>_start\<close>, \<open>_end\<close> and of the three tables.\<close>

record layout =
  img_start :: u64
  img_end :: u64
  ept_pml4 :: u64
  ept_pdpt_0_512g :: u64
  ept_pd_0_4g :: u64

definition EPTE_READ :: u64 where "EPTE_READ = BIT_64 0"
definition EPTE_WRITE :: u64 where "EPTE_WRITE = BIT_64 1"
definition EPTE_EXECUTE :: u64 where "EPTE_EXECUTE = BIT_64 2"
definition EPTE_PSE :: u64 where "EPTE_PSE = BIT_64 7"

definition SZ_2M :: u64 where "SZ_2M = 0x200000"
definition SZ_4G :: u64 where "SZ_4G = 0x100000000"

definition rwx :: u64 where "rwx = EPTE_READ OR EPTE_WRITE OR EPTE_EXECUTE"

text \<open>\<open>a[i]\<close> of an array of \<open>uint64_t\<close>.\<close>

definition slot :: "u64 \<Rightarrow> nat \<Rightarrow> u64" where
  "slot a i = a + 8 * of_nat i"

definition link_tables :: "layout \<Rightarrow> mem \<Rightarrow> mem" where
  "link_tables L m =
     fold (\<lambda>i m. write64 m (slot (ept_pdpt_0_512g L) i) (slot (ept_pd_0_4g L) (i * 512) OR rwx)) [0..<4]
       (write64 m (slot (ept_pml4 L) 0) (ept_pdpt_0_512g L OR rwx))"

definition map_2m :: "layout \<Rightarrow> nat \<Rightarrow> mem \<Rightarrow> mem" where
  "map_2m L i m = write64 m (slot (ept_pd_0_4g L) i) ((SZ_2M * of_nat i) OR rwx OR EPTE_PSE)"

definition construct_tdp :: "layout \<Rightarrow> machine \<Rightarrow> stop + machine" where
  "construct_tdp L s =
     and_then (BUG_ON (img_start L mod SZ_2M \<noteq> 0)) (\<lambda>_.
     and_then (BUG_ON (img_end L mod SZ_2M \<noteq> 0)) (\<lambda>_.
     let m = link_tables L (memory s);
         m = fold (map_2m L) [0..<unat (img_start L div SZ_2M)] m;
         m = fold (map_2m L) [unat (img_end L div SZ_2M)..<unat (SZ_4G div SZ_2M)] m
     in Inr (s\<lparr>memory := m\<rparr>)))"

definition handle_ept_violation :: "layout \<Rightarrow> u64 \<Rightarrow> machine \<Rightarrow> stop + machine" where
  "handle_ept_violation L guest_phys s =
     and_then (panic_if (img_start L \<le> guest_phys \<and> guest_phys < img_end L) ''cannot write into VMM'') (\<lambda>_.
     and_then (panic_if (guest_phys \<ge> SZ_4G) ''cannot write to physmem higher than 4G'') (\<lambda>_.
     let s = (if \<not> pml4_0_512g_initialized s
              then s\<lparr>memory := link_tables L (memory s), pml4_0_512g_initialized := True\<rparr> else s)
     in Inr (s\<lparr>memory := write64 (memory s) (slot (ept_pd_0_4g L) (unat (guest_phys div SZ_2M)))
                ((guest_phys AND NOT (SZ_2M - 1)) OR rwx OR EPTE_PSE)\<rparr>)))"

section \<open>Walks\<close>

definition walk_masks :: "u64 list" where
  "walk_masks = [0xffffff8000000000, 0xffffffffc0000000, 0xffffffffffe00000, 0xfffffffffffff000]"

definition walk_shifts :: "nat list" where
  "walk_shifts = [39, 30, 21, 12]"

text \<open>The loop of \<open>gpa2hpa\<close> from level \<open>i\<close> on; \<open>entry\<close> is the last one read.\<close>

fun gpa2hpa_loop :: "mem \<Rightarrow> u64 \<Rightarrow> nat list \<Rightarrow> u64 \<Rightarrow> u64 \<Rightarrow> stop + u64" where
  "gpa2hpa_loop m gpa [] entry entries = Inr ((entry AND NOT 0xfff) OR (gpa AND 0xfff))"
| "gpa2hpa_loop m gpa (i # is) entry entries =
     (let idx = drop_bit (walk_shifts ! i) gpa AND 0x1ff;
          entry = read64 m (entries + 8 * idx)
      in and_then (BUG_ON (entry AND 1 = 0)) (\<lambda>_.
           if entry AND push_bit 7 1 \<noteq> 0 then
             and_then (BUG_ON (\<not> (i = 1 \<or> i = 2))) (\<lambda>_.
               Inr ((entry AND walk_masks ! i) OR (gpa AND NOT (walk_masks ! i))))
           else gpa2hpa_loop m gpa is entry (entry AND NOT 0xfff)))"

definition gpa2hpa :: "mem \<Rightarrow> u64 \<Rightarrow> u64 \<Rightarrow> stop + u64" where
  "gpa2hpa m eptp gpa = gpa2hpa_loop m gpa [0..<4] 0 eptp"

fun gva2hva_loop :: "mem \<Rightarrow> u64 \<Rightarrow> u64 \<Rightarrow> nat list \<Rightarrow> u64 \<Rightarrow> u64 \<Rightarrow> stop + u64" where
  "gva2hva_loop m eptr gva [] entry entries = Inr ((entry AND NOT 0xfff) OR (gva AND 0xfff))"
| "gva2hva_loop m eptr gva (i # is) entry entries =
     (let idx = drop_bit (walk_shifts ! i) gva AND 0x1ff;
          entry = read64 m (entries + 8 * idx)
      in and_then (BUG_ON (entry AND 1 = 0)) (\<lambda>_.
           if entry AND push_bit 7 1 \<noteq> 0 then
             and_then (BUG_ON (\<not> (i = 1 \<or> i = 2))) (\<lambda>_.
               Inr ((entry AND walk_masks ! i) OR (gva AND NOT (walk_masks ! i))))
           else if i < 3 then
             and_then (gpa2hpa m (eptr AND NOT 0xfff) (entry AND NOT 0xfff)) (gva2hva_loop m eptr gva is entry)
           else gva2hva_loop m eptr gva is entry entries))"

definition gva2hva :: "u64 \<Rightarrow> machine \<Rightarrow> stop + u64" where
  "gva2hva gva s =
     (let cr3 = vmcs_readl GUEST_CR3 s; eptr = vmcs_read64 EPT_POINTER s
      in and_then (gpa2hpa (memory s) (eptr AND NOT 0xfff) (cr3 AND NOT 0xfff))
           (gva2hva_loop (memory s) eptr gva [0..<4] 0))"

text \<open>
  The processor's walk: four levels, addresses in bits 51:12 of an entry, an entry present
  when any of its permission bits is set, bit 7 a page at levels 1 and 2.
\<close>

fun ept_walk :: "mem \<Rightarrow> u64 \<Rightarrow> nat list \<Rightarrow> u64 \<Rightarrow> u64 option" where
  "ept_walk m gpa [] tbl = None"
| "ept_walk m gpa (i # is) tbl =
     (let entry = read64 m (tbl + 8 * (drop_bit (walk_shifts ! i) gpa AND 0x1ff));
          addr = take_bit 52 entry
      in if entry AND 7 = 0 then None
         else if i = 3 \<or> (i = 1 \<or> i = 2) \<and> bit entry 7
           then Some ((addr AND walk_masks ! i) OR (gpa AND NOT (walk_masks ! i)))
         else ept_walk m gpa is (addr AND NOT 0xfff))"

definition ept_translate :: "mem \<Rightarrow> u64 \<Rightarrow> u64 \<Rightarrow> u64 option" where
  "ept_translate m eptp gpa = (if gpa < 2 ^ 48 then ept_walk m gpa [0..<4] (take_bit 52 eptp AND NOT 0xfff) else None)"

section \<open>What the tables hold\<close>

definition layout_ok :: "layout \<Rightarrow> bool" where
  "layout_ok L \<longleftrightarrow>
     unat (img_start L) mod 2 ^ 21 = 0 \<and> unat (img_end L) mod 2 ^ 21 = 0 \<and> unat (img_end L) \<le> 2 ^ 46 \<and>
     unat (ept_pml4 L) mod 4096 = 0 \<and> unat (ept_pdpt_0_512g L) mod 4096 = 0 \<and> unat (ept_pd_0_4g L) mod 4096 = 0 \<and>
     unat (img_start L) \<le> unat (ept_pml4 L) \<and> unat (ept_pml4 L) + 4096 \<le> unat (img_end L) \<and>
     unat (img_start L) \<le> unat (ept_pdpt_0_512g L) \<and> unat (ept_pdpt_0_512g L) + 4096 \<le> unat (img_end L) \<and>
     unat (img_start L) \<le> unat (ept_pd_0_4g L) \<and> unat (ept_pd_0_4g L) + 4 * 4096 \<le> unat (img_end L) \<and>
     (unat (ept_pml4 L) + 4096 \<le> unat (ept_pdpt_0_512g L) \<or> unat (ept_pdpt_0_512g L) + 4096 \<le> unat (ept_pml4 L)) \<and>
     (unat (ept_pml4 L) + 4096 \<le> unat (ept_pd_0_4g L) \<or> unat (ept_pd_0_4g L) + 4 * 4096 \<le> unat (ept_pml4 L)) \<and>
     (unat (ept_pdpt_0_512g L) + 4096 \<le> unat (ept_pd_0_4g L) \<or> unat (ept_pd_0_4g L) + 4 * 4096 \<le> unat (ept_pdpt_0_512g L))"

definition outside_image :: "layout \<Rightarrow> nat \<Rightarrow> bool" where
  "outside_image L a \<longleftrightarrow> a < unat (img_start L) \<or> unat (img_end L) \<le> a"

definition pd_leaf :: "nat \<Rightarrow> u64" where
  "pd_leaf k = push_bit 21 (of_nat k) OR rwx OR EPTE_PSE"

definition ept_ok :: "layout \<Rightarrow> bool \<Rightarrow> mem \<Rightarrow> bool" where
  "ept_ok L linked m \<longleftrightarrow>
     (\<forall>i<512. read64 m (slot (ept_pml4 L) i) = (if linked \<and> i = 0 then ept_pdpt_0_512g L OR rwx else 0)) \<and>
     (\<forall>i<512. read64 m (slot (ept_pdpt_0_512g L) i) =
        (if linked \<and> i < 4 then slot (ept_pd_0_4g L) (i * 512) OR rwx else 0)) \<and>
     (\<forall>k<2048. read64 m (slot (ept_pd_0_4g L) k) = 0 \<or>
        linked \<and> read64 m (slot (ept_pd_0_4g L) k) = pd_leaf k \<and> outside_image L (k * 2 ^ 21))"

section \<open>Slots\<close>

lemma read64_write64_aligned:
  assumes "unat a mod 8 = 0" "unat b mod 8 = 0"
  shows "read64 (write64 m a v) b = (if a = b then v else read64 m b)"
proof (cases "a = b")
  case False
  have d: "8 \<le> unat (y - x)" if "x \<noteq> y" "unat x mod 8 = 0" "unat y mod 8 = 0" for x y :: u64
  proof -
    have "unat (y - x) mod 8 = 0" using that unat_lt_64[of x] by (simp add: unat_sub_if' ) presburger
    moreover have "unat (y - x) \<noteq> 0"
    proof
      assume "unat (y - x) = 0"
      then have "y - x = 0" by (metis unat_gt_0 less_irrefl)
      then show False using that(1) by simp
    qed
    ultimately show ?thesis by presburger
  qed
  have "apart a 8 b 8" using d[of a b] d[of b a] False assms by (simp add: apart_def)
  then show ?thesis using False by (simp add: read64_write64_apart)
qed simp

lemma unat_slot:
  assumes "unat T \<le> 2 ^ 46" "i < 2048"
  shows "unat (slot T i) = unat T + 8 * i"
proof -
  have "unat (8 * of_nat i :: u64) = 8 * i" using assms(2) by (simp add: unat_word_ariths unat_of_nat)
  then show ?thesis using assms by (simp add: slot_def unat_word_ariths)
qed

text \<open>Two slots of the tables are the same or apart; a store to one leaves the others alone.\<close>

definition tables :: "layout \<Rightarrow> (u64 \<times> nat) set" where
  "tables L = {(ept_pml4 L, 512), (ept_pdpt_0_512g L, 512), (ept_pd_0_4g L, 2048)}"

lemma table_facts:
  assumes "layout_ok L" "(T, n) \<in> tables L"
  shows "unat T \<le> 2 ^ 46" "n \<le> 2048" "unat T mod 4096 = 0" "unat (img_start L) \<le> unat T"
    "unat T + 8 * n \<le> unat (img_end L)"
  using assms by (auto simp: tables_def layout_ok_def)

lemma slot_eq_iff:
  assumes "layout_ok L" "(T, n) \<in> tables L" "(U, k) \<in> tables L" "i < n" "j < k"
  shows "slot T i = slot U j \<longleftrightarrow> T = U \<and> i = j"
proof -
  note f = table_facts[OF assms(1,2)] table_facts[OF assms(1,3)]
  have u: "unat (slot T i) = unat T + 8 * i" "unat (slot U j) = unat U + 8 * j"
    using f assms(4,5) by (auto intro!: unat_slot)
  have "T = U \<or> unat T + 8 * i \<noteq> unat U + 8 * j"
    using assms by (auto simp: tables_def layout_ok_def)
  then show ?thesis using u by (metis add_left_cancel mult_cancel1 word_unat_eq_iff zero_neq_numeral)
qed

lemma read_slot_write_slot:
  assumes "layout_ok L" "(T, n) \<in> tables L" "(U, k) \<in> tables L" "i < n" "j < k"
  shows "read64 (write64 m (slot T i) v) (slot U j) = (if T = U \<and> i = j then v else read64 m (slot U j))"
proof -
  note f = table_facts[OF assms(1,2)] table_facts[OF assms(1,3)]
  have al: "(t + 8 * x) mod 8 = 0" if "t mod 4096 = 0" for t x :: nat
  proof -
    have "8 dvd t" using that by (auto intro: dvd_trans[of 8 4096])
    then show ?thesis by simp
  qed
  have ij: "i < 2048" "j < 2048" using f(2,7) assms(4,5) by linarith+
  have "unat (slot T i) mod 8 = 0" "unat (slot U j) mod 8 = 0"
    unfolding unat_slot[OF f(1) ij(1)] unat_slot[OF f(6) ij(2)] by (rule al[OF f(3)], rule al[OF f(8)])
  then show ?thesis using slot_eq_iff[OF assms] by (simp add: read64_write64_aligned)
qed

lemma table_members [simp]:
  "(ept_pml4 L, 512) \<in> tables L" "(ept_pdpt_0_512g L, 512) \<in> tables L" "(ept_pd_0_4g L, 2048) \<in> tables L"
  by (simp_all add: tables_def)

lemma tables_distinct:
  assumes "layout_ok L"
  shows "ept_pml4 L \<noteq> ept_pdpt_0_512g L" "ept_pml4 L \<noteq> ept_pd_0_4g L" "ept_pdpt_0_512g L \<noteq> ept_pd_0_4g L"
  using assms by (auto simp: layout_ok_def)

lemma link_tables_pd:
  assumes "layout_ok L" "k < 2048"
  shows "read64 (link_tables L m) (slot (ept_pd_0_4g L) k) = read64 m (slot (ept_pd_0_4g L) k)"
proof -
  have idx: "[0..<4] = [0, 1, 2, 3 :: nat]" by (simp add: upt_rec)
  show ?thesis using assms(2) tables_distinct[OF assms(1)]
    by (simp add: link_tables_def idx read_slot_write_slot[OF assms(1), of _ 512 _ 2048])
qed

lemma link_tables_ok:
  assumes "layout_ok L" "ept_ok L linked m"
  shows "ept_ok L True (link_tables L m)"
proof -
  have idx: "[0..<4] = [0, 1, 2, 3 :: nat]" by (simp add: upt_rec)
  note rw = read_slot_write_slot[OF assms(1)] and d = tables_distinct[OF assms(1)]
  have i4: "i < 4 \<longleftrightarrow> i = 0 \<or> i = 1 \<or> i = 2 \<or> i = (3 :: nat)" for i by auto
  have p: "read64 (link_tables L m) (slot (ept_pml4 L) i) = (if i = 0 then ept_pdpt_0_512g L OR rwx else read64 m (slot (ept_pml4 L) i))"
    if "i < 512" for i
    using that d by (simp add: link_tables_def idx rw[of _ 512 _ 512])
  have q: "read64 (link_tables L m) (slot (ept_pdpt_0_512g L) i) =
      (if i < 4 then slot (ept_pd_0_4g L) (i * 512) OR rwx else read64 m (slot (ept_pdpt_0_512g L) i))" if "i < 512" for i
    using that d by (auto simp: link_tables_def idx rw[of _ 512 _ 512] i4)
  show ?thesis using assms(2) by (auto simp: ept_ok_def p q link_tables_pd[OF assms(1)] split: if_splits)
qed

section \<open>The handler keeps the tables in order\<close>

lemma SZ_2M_mask: "SZ_2M - 1 = mask 21" "SZ_2M = push_bit 21 1"
  by (simp_all add: SZ_2M_def mask_eq_exp_minus_1)

lemma div_2M: "g div SZ_2M = drop_bit 21 g" "unat (g div SZ_2M) = unat g div 2 ^ 21"
  by (simp_all add: SZ_2M_def drop_bit_eq_div unat_div)

lemma leaf_of_address: "(g AND NOT (SZ_2M - 1)) OR rwx OR EPTE_PSE = pd_leaf (unat (g div SZ_2M))"
proof -
  have "(of_nat (unat (g div SZ_2M)) :: u64) = drop_bit 21 g" by (simp add: div_2M(1))
  moreover have "g AND NOT (mask 21) = push_bit 21 (drop_bit 21 g)"
    by (rule bit_word_eqI) (auto simp: bit_simps)
  ultimately show ?thesis by (simp only: pd_leaf_def SZ_2M_mask(1))
qed

lemma page_outside_iff:
  assumes "layout_ok L"
  shows "outside_image L (unat g div 2 ^ 21 * 2 ^ 21) \<longleftrightarrow> outside_image L (unat g)"
proof -
  have al: "a < s \<longleftrightarrow> a div 2 ^ 21 * 2 ^ 21 < s" if al: "s mod 2 ^ 21 = 0" for a s :: nat
  proof -
    have "a div 2 ^ 21 * 2 ^ 21 < s \<Longrightarrow> a < s"
    proof -
      obtain q where q: "s = q * 2 ^ 21" using mod_0_imp_dvd[OF al] by (auto elim!: dvdE simp only: mult.commute)
      assume "a div 2 ^ 21 * 2 ^ 21 < s"
      then have "a div 2 ^ 21 < q" using q by simp
      then show "a < s" unfolding q by (simp add: div_less_iff_less_mult)
    qed
    moreover have "a div 2 ^ 21 * 2 ^ 21 \<le> a" by simp
    ultimately show ?thesis by linarith
  qed
  show ?thesis using assms al[of "unat (img_start L)" "unat g"] al[of "unat (img_end L)" "unat g"]
    by (auto simp: outside_image_def layout_ok_def not_less[symmetric])
qed

lemma read_map:
  assumes "layout_ok L" "i < 2048" "k < 2048"
  shows "read64 (write64 m (slot (ept_pd_0_4g L) i) v) (slot (ept_pd_0_4g L) k) =
    (if i = k then v else read64 m (slot (ept_pd_0_4g L) k))"
  using read_slot_write_slot[OF assms(1) table_members(3) table_members(3) assms(2,3)] by simp

lemma write_leaf_ok:
  assumes L: "layout_ok L" and m: "ept_ok L True m" and k: "k < 2048" and out: "outside_image L (k * 2 ^ 21)"
  shows "ept_ok L True (write64 m (slot (ept_pd_0_4g L) k) (pd_leaf k))"
proof -
  note rw = read_slot_write_slot[OF L table_members(3) _ k, where m = m and v = "pd_leaf k"]
  show ?thesis using m out tables_distinct[OF L]
    by (simp add: ept_ok_def rw[OF table_members(1)] rw[OF table_members(2)] rw[OF table_members(3)])
qed

lemma handle_ept_violation_ok:
  assumes L: "layout_ok L" and inv: "ept_ok L (pml4_0_512g_initialized s) (memory s)"
    and h: "handle_ept_violation L g s = Inr s'"
  shows "ept_ok L (pml4_0_512g_initialized s') (memory s')" "pml4_0_512g_initialized s'"
    and "read64 (memory s') (slot (ept_pd_0_4g L) (unat g div 2 ^ 21)) = pd_leaf (unat g div 2 ^ 21)"
    and "outside_image L (unat g)" "unat g < 2 ^ 32"
    and "\<exists>m. s' = s\<lparr>memory := m, pml4_0_512g_initialized := True\<rparr>"
proof -
  let ?k = "unat g div 2 ^ 21"
  obtain m where m: "ept_ok L True m" and s': "s' = s\<lparr>memory := write64 m (slot (ept_pd_0_4g L) ?k) (pd_leaf ?k), pml4_0_512g_initialized := True\<rparr>"
  proof -
    let ?m = "if pml4_0_512g_initialized s then memory s else link_tables L (memory s)"
    have "ept_ok L True ?m" using inv link_tables_ok[OF L inv] by (cases "pml4_0_512g_initialized s") simp_all
    moreover have "s' = s\<lparr>memory := write64 ?m (slot (ept_pd_0_4g L) ?k) (pd_leaf ?k), pml4_0_512g_initialized := True\<rparr>"
      using h by (auto simp: handle_ept_violation_def and_then_eq_Inr Let_def leaf_of_address div_2M(2))
    ultimately show ?thesis using that by blast
  qed
  show out: "outside_image L (unat g)"
    using h by (auto simp: handle_ept_violation_def and_then_eq_Inr outside_image_def word_le_nat_alt word_less_nat_alt)
  show g: "unat g < 2 ^ 32"
    using h by (auto simp: handle_ept_violation_def and_then_eq_Inr SZ_4G_def word_le_nat_alt)
  have k: "?k < 2048" using g by (simp add: div_less_iff_less_mult)
  have "ept_ok L True (memory s')" using write_leaf_ok[OF L m k page_outside_iff[OF L, THEN iffD2, OF out]] by (simp add: s')
  then show "ept_ok L (pml4_0_512g_initialized s') (memory s')" by (simp add: s')
  show "pml4_0_512g_initialized s'" "\<exists>m. s' = s\<lparr>memory := m, pml4_0_512g_initialized := True\<rparr>" using s' by auto
  show "read64 (memory s') (slot (ept_pd_0_4g L) ?k) = pd_leaf ?k" using k by (simp add: s' read_map[OF L])
qed

section \<open>Walking the tables\<close>

lemma walk_index: "tbl + 8 * (drop_bit n gpa AND 0x1ff) = slot tbl (unat gpa div 2 ^ n mod 512)"
proof -
  have "unat (drop_bit n gpa AND mask 9) = unat gpa div 2 ^ n mod 512"
    unfolding unat_and_mask unsigned_drop_bit_eq by (simp add: drop_bit_eq_div take_bit_nat_eq_self[OF unat_lt_64])
  moreover have "(0x1ff :: u64) = mask 9" by (simp add: mask_eq_exp_minus_1)
  ultimately have "drop_bit n gpa AND 0x1ff = of_nat (unat gpa div 2 ^ n mod 512)" by (metis of_nat_unat ucast_id)
  then show ?thesis unfolding slot_def by simp
qed

lemma bit_unat: "bit (T :: u64) i \<longleftrightarrow> bit (unat T) i"
  by (auto simp: bit_unsigned_iff dest: bit_imp_le_length)

lemma aligned_bits:
  assumes "unat (T :: u64) mod 2 ^ n = 0" "i < n"
  shows "\<not> bit T i"
proof -
  have "bit (unat T) i \<longleftrightarrow> bit (take_bit n (unat T)) i" using assms(2) by (simp add: bit_take_bit_iff)
  also have "take_bit n (unat T) = 0" using assms(1) by (simp only: take_bit_eq_mod)
  finally show ?thesis by (simp add: bit_unat)
qed

lemma u64_small_bits:
  assumes "unat (T :: u64) < 2 ^ n" "n \<le> i"
  shows "\<not> bit T i"
proof -
  have "take_bit n (unat T) = unat T" using assms(1) by (simp only: take_bit_eq_mod mod_less)
  then have "bit (unat T) i \<longleftrightarrow> bit (take_bit n (unat T)) i" by simp
  then show ?thesis using assms(2) by (simp add: bit_unat bit_take_bit_iff)
qed

lemma bit_rwx [simp]: "bit rwx i \<longleftrightarrow> i = 0 \<or> i = 1 \<or> i = 2"
  by (auto simp: rwx_def EPTE_READ_def EPTE_WRITE_def EPTE_EXECUTE_def bit_or_iff bit_BIT_64)

lemma and_bit_zero: "x AND push_bit n 1 = 0 \<longleftrightarrow> \<not> bit (x :: u64) n"
proof -
  have "bit (x AND push_bit n 1) i \<longleftrightarrow> i = n \<and> bit x n" for i
    by (auto simp only: bit_and_iff bit_push_bit_1 dest: bit_imp_le_length)
  then show ?thesis using word_nonzero_bit by blast
qed

lemma not_fff: "bit (NOT 0xfff :: u64) i \<longleftrightarrow> 12 \<le> i \<and> i < 64"
proof -
  have "(0xfff :: u64) = mask 12" by (simp add: mask_eq_exp_minus_1)
  then show ?thesis by (simp only: bit_not_iff bit_mask_iff) auto
qed

lemma nonzero_bit: "bit (x :: u64) i \<Longrightarrow> bit y i \<Longrightarrow> x AND y \<noteq> 0"
  by (metis bit_and_iff word_nonzero_bit)

lemma table_entry:
  assumes "unat (T :: u64) mod 4096 = 0" "unat T \<le> 2 ^ 46"
  shows "take_bit 52 (T OR rwx) AND NOT 0xfff = T" "(T OR rwx) AND NOT 0xfff = T"
    "\<not> bit (T OR rwx) 7" "(T OR rwx) AND 7 \<noteq> 0" "(T OR rwx) AND 1 \<noteq> 0"
proof -
  have lo: "\<not> bit T i" if "i < 12" for i using aligned_bits[of T 12 i] assms(1) that by simp
  have hi: "\<not> bit T i" if "47 \<le> i" for i
    using u64_small_bits[of T 47 i] assms(2) that by simp
  have T: "bit T i \<Longrightarrow> 12 \<le> i \<and> i < 47" for i using lo[of i] hi[of i] by force
  show "take_bit 52 (T OR rwx) AND NOT 0xfff = T" "(T OR rwx) AND NOT 0xfff = T"
    by (rule bit_word_eqI; unfold bit_and_iff bit_or_iff bit_take_bit_iff not_fff bit_rwx; use T in fastforce)+
  show "\<not> bit (T OR rwx) 7" using lo[of 7] by (simp add: bit_or_iff)
  show "(T OR rwx) AND 7 \<noteq> 0" "(T OR rwx) AND 1 \<noteq> 0"
    by (rule nonzero_bit[of _ 0]; simp add: bit_or_iff del: bit_0; fail)+
qed

lemma leaf_bits: "k < 2048 \<Longrightarrow> bit (pd_leaf k) i \<longleftrightarrow> (21 \<le> i \<and> bit k (i - 21)) \<or> i = 0 \<or> i = 1 \<or> i = 2 \<or> i = 7"
proof -
  assume k: "k < 2048"
  have "\<not> bit k (i - 21)" if "\<not> i < 64"
  proof -
    have "take_bit 11 k = k" using k by (simp add: take_bit_nat_eq_self)
    then have "bit k (i - 21) \<longleftrightarrow> bit (take_bit 11 k) (i - 21)" by simp
    moreover have "\<not> i - 21 < 11" using that by simp
    ultimately show ?thesis by (simp only: bit_take_bit_iff) simp
  qed
  then have "bit k (i - 21) \<Longrightarrow> i < 64" by blast
  then show ?thesis
    by (auto simp: pd_leaf_def EPTE_PSE_def bit_or_iff bit_BIT_64 bit_push_bit_iff bit_of_nat_iff)
qed

lemma leaf_entry:
  assumes "k < 2048"
  shows "pd_leaf k AND 7 \<noteq> 0" "pd_leaf k AND 1 \<noteq> 0" "bit (pd_leaf k) 7" "pd_leaf k \<noteq> 0" "take_bit 52 (pd_leaf k) = pd_leaf k"
proof -
  have b: "bit (pd_leaf k) 0" "bit (pd_leaf k) 7" using leaf_bits[OF assms, of 0] leaf_bits[OF assms, of 7] by blast+
  show "pd_leaf k AND 7 \<noteq> 0" "pd_leaf k AND 1 \<noteq> 0" by (rule nonzero_bit[OF b(1)]; simp)+
  show "bit (pd_leaf k) 7" by (rule b)
  show "pd_leaf k \<noteq> 0" using b(2) by auto
  have "take_bit 11 k = k" using assms by (simp add: take_bit_nat_eq_self)
  then have "bit k i \<Longrightarrow> i < 11" for i by (metis bit_take_bit_iff)
  then show "take_bit 52 (pd_leaf k) = pd_leaf k"
    by (intro bit_word_eqI) (force simp only: bit_take_bit_iff leaf_bits[OF assms])
qed

lemma mask_2M: "bit (0xffffffffffe00000 :: u64) i \<longleftrightarrow> 21 \<le> i \<and> i < 64"
proof -
  have "(0xffffffffffe00000 :: u64) = NOT (mask 21)" by (simp add: mask_eq_exp_minus_1)
  then show ?thesis by (simp only: bit_not_iff bit_mask_iff) auto
qed

lemma leaf_address:
  assumes "unat gpa div 2 ^ 21 = k" "k < 2048"
  shows "(pd_leaf k AND walk_masks ! 2) OR (gpa AND NOT (walk_masks ! 2)) = gpa"
proof -
  have "bit k i \<longleftrightarrow> bit gpa (21 + i)" for i
    unfolding bit_unat assms(1)[symmetric] drop_bit_eq_div[symmetric] by (simp add: bit_drop_bit_eq)
  then have "21 \<le> i \<Longrightarrow> bit k (i - 21) \<longleftrightarrow> bit gpa i" for i by simp
  moreover have w: "walk_masks ! 2 = 0xffffffffffe00000" by (simp add: walk_masks_def)
  ultimately show ?thesis
    unfolding w by (intro bit_word_eqI; unfold bit_or_iff bit_and_iff bit_not_iff mask_2M leaf_bits[OF assms(2)]) auto
qed

lemma walk_range:
  assumes "(g :: nat) < 2 ^ 48"
  shows "g div 2 ^ 39 mod 512 = 0 \<and> g div 2 ^ 30 mod 512 < 4 \<longleftrightarrow> g < 2 ^ 32"
    and "g < 2 ^ 32 \<Longrightarrow> g div 2 ^ 30 mod 512 * 512 + g div 2 ^ 21 mod 512 = g div 2 ^ 21"
proof -
  have d39: "g div 2 ^ 39 = g div 2 ^ 30 div 512" and d30: "g div 2 ^ 30 = g div 2 ^ 21 div 512"
    by (simp_all add: div_mult2_eq[symmetric])
  have a: "g div 2 ^ 30 div 512 < 512" using assms by (simp add: div_mult2_eq[symmetric] div_less_iff_less_mult)
  have b: "g < 2 ^ 32 \<longleftrightarrow> g div 2 ^ 30 < 4" by (simp add: div_less_iff_less_mult)
  show "g div 2 ^ 39 mod 512 = 0 \<and> g div 2 ^ 30 mod 512 < 4 \<longleftrightarrow> g < 2 ^ 32"
    unfolding d39 b using a by (auto simp: div_less_iff_less_mult)
  show "g < 2 ^ 32 \<Longrightarrow> g div 2 ^ 30 mod 512 * 512 + g div 2 ^ 21 mod 512 = g div 2 ^ 21"
    unfolding b unfolding d30 by (simp add: mod_less)
qed

lemma slot_slot: "slot (slot T i) j = slot T (i + j)"
  by (simp add: slot_def distrib_left)

definition pml4_index :: "u64 \<Rightarrow> nat" where "pml4_index gpa = unat gpa div 2 ^ 39 mod 512"
definition pdpt_index :: "u64 \<Rightarrow> nat" where "pdpt_index gpa = unat gpa div 2 ^ 30 mod 512"
definition page_2m :: "u64 \<Rightarrow> nat" where "page_2m gpa = unat gpa div 2 ^ 21"
definition pd_index :: "u64 \<Rightarrow> nat" where "pd_index gpa = page_2m gpa mod 512"
definition below_4g :: "u64 \<Rightarrow> bool" where "below_4g gpa \<longleftrightarrow> unat gpa < 2 ^ 32"

lemma page_2m_div: "unat (g div SZ_2M) = page_2m g"
  by (simp add: page_2m_def div_2M(2))

lemmas index_folds = pml4_index_def[symmetric] pdpt_index_def[symmetric] page_2m_def[symmetric] pd_index_def[symmetric]
  below_4g_def[symmetric]

lemma vmx_eptp:
  assumes "layout_ok L"
  shows "take_bit 52 (ept_pml4 L OR 6 OR push_bit 3 3) AND NOT 0xfff = ept_pml4 L"
    "(ept_pml4 L OR 6 OR push_bit 3 3) AND NOT 0xfff = ept_pml4 L"
proof -
  have lo: "\<not> bit (ept_pml4 L) i" if "i < 12" for i
    using aligned_bits[of "ept_pml4 L" 12 i] table_facts(3)[OF assms table_members(1)] that by simp
  have hi: "\<not> bit (ept_pml4 L) i" if "47 \<le> i" for i
    using u64_small_bits[of "ept_pml4 L" 47 i] table_facts(1)[OF assms table_members(1)] that by simp
  have T: "bit (ept_pml4 L) i \<Longrightarrow> 12 \<le> i \<and> i < 47" for i using lo[of i] hi[of i] by force
  have c: "bit (6 OR push_bit 3 3 :: u64) i \<Longrightarrow> i < 12" for i
  proof -
    have "(6 OR push_bit 3 3 :: u64) = take_bit 12 30" by simp
    then show "bit (6 OR push_bit 3 3 :: u64) i \<Longrightarrow> i < 12" by (metis bit_take_bit_iff)
  qed
  show "take_bit 52 (ept_pml4 L OR 6 OR push_bit 3 3) AND NOT 0xfff = ept_pml4 L"
    "(ept_pml4 L OR 6 OR push_bit 3 3) AND NOT 0xfff = ept_pml4 L"
    unfolding or.assoc
    by (rule bit_word_eqI; unfold bit_and_iff bit_or_iff[of "ept_pml4 L"] bit_take_bit_iff not_fff; use T c in fastforce)+
qed

text \<open>
  The three levels met by the walk of an address: what they hold, in one place for the walk of
  the processor and for the one in software.
\<close>

lemma walk_levels:
  assumes L: "layout_ok L" and inv: "ept_ok L linked m" and g: "unat gpa < 2 ^ 48"
  defines "p \<equiv> read64 m (slot (ept_pml4 L) (pml4_index gpa))"
    and "q \<equiv> read64 m (slot (ept_pdpt_0_512g L) (pdpt_index gpa))"
    and "r \<equiv> read64 m (slot (slot (ept_pd_0_4g L) (pdpt_index gpa * 512)) (pd_index gpa))"
  obtains (unmapped_p) "p = 0" "\<not> (linked \<and> below_4g gpa)"
    | (unmapped_q) "p = ept_pdpt_0_512g L OR rwx" "q = 0" "\<not> (linked \<and> below_4g gpa)"
    | (unmapped_r) "p = ept_pdpt_0_512g L OR rwx"
        "q = slot (ept_pd_0_4g L) (pdpt_index gpa * 512) OR rwx" "r = 0"
        "read64 m (slot (ept_pd_0_4g L) (page_2m gpa)) = 0"
        "pdpt_index gpa * 512 < 2048"
    | (mapped) "p = ept_pdpt_0_512g L OR rwx"
        "q = slot (ept_pd_0_4g L) (pdpt_index gpa * 512) OR rwx" "r = pd_leaf (page_2m gpa)"
        "linked" "below_4g gpa" "read64 m (slot (ept_pd_0_4g L) (page_2m gpa)) = pd_leaf (page_2m gpa)"
        "pdpt_index gpa * 512 < 2048" "page_2m gpa < 2048"
        "outside_image L (page_2m gpa * 2 ^ 21)"
proof -
  let ?i = "pml4_index gpa" and ?j = "pdpt_index gpa" and ?k = "page_2m gpa"
  note wr = walk_range[OF g, unfolded index_folds, folded page_2m_def, folded pd_index_def]
  have P: "p = (if linked \<and> ?i = 0 then ept_pdpt_0_512g L OR rwx else 0)"
    and Q: "q = (if linked \<and> ?j < 4 then slot (ept_pd_0_4g L) (?j * 512) OR rwx else 0)"
    using inv by (simp_all add: p_def q_def ept_ok_def pml4_index_def pdpt_index_def)
  consider "\<not> (linked \<and> ?i = 0)" | "linked \<and> ?i = 0" "\<not> ?j < 4" | "linked \<and> ?i = 0" "?j < 4" by blast
  then show ?thesis
  proof cases
    case 1
    then have "p = 0" unfolding P by (rule if_not_P)
    moreover have "\<not> (linked \<and> below_4g gpa)" using 1 wr(1) by blast
    ultimately show ?thesis by (rule unmapped_p)
  next
    case 2
    have "p = ept_pdpt_0_512g L OR rwx" unfolding P using 2(1) by (rule if_P)
    moreover have "q = 0" unfolding Q using 2(2) by (intro if_not_P) blast
    moreover have "\<not> (linked \<and> below_4g gpa)" using 2 wr(1) by blast
    ultimately show ?thesis by (rule unmapped_q)
  next
    case 3
    have p: "p = ept_pdpt_0_512g L OR rwx" unfolding P using 3(1) by (rule if_P)
    have q: "q = slot (ept_pd_0_4g L) (?j * 512) OR rwx" unfolding Q using 3 by (intro if_P) blast
    have lt: "below_4g gpa" using 3 wr(1) by blast
    have r: "r = read64 m (slot (ept_pd_0_4g L) ?k)" unfolding r_def slot_slot wr(2)[OF lt] by (rule refl)
    have k: "?k < 2048" using lt by (simp add: page_2m_def below_4g_def div_less_iff_less_mult)
    have j: "?j * 512 < 2048" using 3(2) by linarith
    have "read64 m (slot (ept_pd_0_4g L) ?k) = 0 \<or>
      linked \<and> read64 m (slot (ept_pd_0_4g L) ?k) = pd_leaf ?k \<and> outside_image L (?k * 2 ^ 21)"
      using inv k unfolding ept_ok_def by blast
    then show ?thesis
    proof
      assume "read64 m (slot (ept_pd_0_4g L) ?k) = 0"
      then show ?thesis using unmapped_r[OF p q _ _ j] r by simp
    next
      assume a: "linked \<and> read64 m (slot (ept_pd_0_4g L) ?k) = pd_leaf ?k \<and> outside_image L (?k * 2 ^ 21)"
      show ?thesis using mapped[OF p q _ _ lt _ j k] r a 3(1) by simp
    qed
  qed
qed

lemma pd_part:
  assumes "layout_ok L" "n * 512 < 2048"
  shows "unat (slot (ept_pd_0_4g L) (n * 512)) mod 4096 = 0" "unat (slot (ept_pd_0_4g L) (n * 512)) \<le> 2 ^ 46"
proof -
  note f = table_facts[OF assms(1) table_members(3)]
  have u: "unat (slot (ept_pd_0_4g L) (n * 512)) = unat (ept_pd_0_4g L) + 4096 * n"
    using unat_slot[OF f(1) assms(2)] by simp
  show "unat (slot (ept_pd_0_4g L) (n * 512)) mod 4096 = 0" unfolding u using f(3) by simp
  show "unat (slot (ept_pd_0_4g L) (n * 512)) \<le> 2 ^ 46"
    unfolding u using f(5) assms by (simp add: layout_ok_def)
qed

definition entry_table :: "u64 \<Rightarrow> u64" where "entry_table e = take_bit 52 e AND NOT 0xfff"
definition entry_next :: "u64 \<Rightarrow> u64" where "entry_next e = e AND NOT 0xfff"

lemma table_entries:
  assumes "layout_ok L"
  shows "entry_table (ept_pdpt_0_512g L OR rwx) = ept_pdpt_0_512g L" "entry_next (ept_pdpt_0_512g L OR rwx) = ept_pdpt_0_512g L"
    "(ept_pdpt_0_512g L OR rwx) AND 7 \<noteq> 0" "(ept_pdpt_0_512g L OR rwx) AND 1 \<noteq> 0" "\<not> bit (ept_pdpt_0_512g L OR rwx) 7"
    "n * 512 < 2048 \<Longrightarrow> entry_table (slot (ept_pd_0_4g L) (n * 512) OR rwx) = slot (ept_pd_0_4g L) (n * 512)"
    "n * 512 < 2048 \<Longrightarrow> entry_next (slot (ept_pd_0_4g L) (n * 512) OR rwx) = slot (ept_pd_0_4g L) (n * 512)"
    "n * 512 < 2048 \<Longrightarrow> (slot (ept_pd_0_4g L) (n * 512) OR rwx) AND 7 \<noteq> 0"
    "n * 512 < 2048 \<Longrightarrow> (slot (ept_pd_0_4g L) (n * 512) OR rwx) AND 1 \<noteq> 0"
    "n * 512 < 2048 \<Longrightarrow> \<not> bit (slot (ept_pd_0_4g L) (n * 512) OR rwx) 7"
  unfolding entry_table_def entry_next_def
  by (rule table_entry[OF table_facts(3,1)[OF assms table_members(2)]] | rule table_entry[OF pd_part[OF assms]]; assumption)+

lemma walk_shifts_nth: "walk_shifts ! 0 = 39" "walk_shifts ! 1 = 30" "walk_shifts ! 2 = 21"
  by (simp_all add: walk_shifts_def)

lemma ept_walk_levels:
  "ept_walk m gpa [0, 1, 2, 3] tbl =
     (let p = read64 m (slot tbl (pml4_index gpa)); q = read64 m (slot (entry_table p) (pdpt_index gpa));
          r = read64 m (slot (entry_table q) (pd_index gpa))
      in if p AND 7 = 0 then None
         else if q AND 7 = 0 then None
         else if bit q 7 then Some ((take_bit 52 q AND walk_masks ! 1) OR (gpa AND NOT (walk_masks ! 1)))
         else if r AND 7 = 0 then None
         else if bit r 7 then Some ((take_bit 52 r AND walk_masks ! 2) OR (gpa AND NOT (walk_masks ! 2)))
         else ept_walk m gpa [3] (entry_table r))"
  unfolding ept_walk.simps(2) Let_def walk_shifts_nth walk_index index_folds entry_table_def[symmetric] by simp

text \<open>The walk of the processor over tables in order, computed.\<close>

lemma ept_translate_exact:
  assumes L: "layout_ok L" and inv: "ept_ok L linked m" and root: "take_bit 52 eptp AND NOT 0xfff = ept_pml4 L"
  shows "ept_translate m eptp gpa =
    (if linked \<and> below_4g gpa \<and> read64 m (slot (ept_pd_0_4g L) (page_2m gpa)) \<noteq> 0 then Some gpa else None)"
proof (cases "unat gpa < 2 ^ 48")
  case g: True
  have u: "[0..<4] = [0, 1, 2, 3 :: nat]" by (simp add: upt_rec)
  have lt: "gpa < 2 ^ 48" using g by (simp add: word_less_nat_alt)
  have start: "ept_translate m eptp gpa = ept_walk m gpa [0, 1, 2, 3] (ept_pml4 L)"
    using lt by (simp only: ept_translate_def if_True u root)
  note e = table_entries[OF L]
  from L inv g show ?thesis
  proof (cases rule: walk_levels)
    case unmapped_p
    then show ?thesis unfolding start ept_walk_levels by auto
  next
    case unmapped_q
    then show ?thesis unfolding start ept_walk_levels by (auto simp: e)
  next
    case unmapped_r
    then show ?thesis unfolding start ept_walk_levels by (simp add: e)
  next
    case mapped
    note lf = leaf_entry[OF mapped(8)]
    show ?thesis unfolding start ept_walk_levels
      using mapped leaf_address[OF page_2m_def[symmetric] mapped(8)] by (simp add: e lf)
  qed
next
  case False
  then have "\<not> below_4g gpa" "\<not> gpa < 2 ^ 48" by (simp_all add: word_less_nat_alt below_4g_def)
  then show ?thesis by (simp add: ept_translate_def)
qed

lemma gpa2hpa_levels:
  "gpa2hpa m tbl gpa =
     (let p = read64 m (slot tbl (pml4_index gpa)); q = read64 m (slot (entry_next p) (pdpt_index gpa));
          r = read64 m (slot (entry_next q) (pd_index gpa))
      in if p AND 1 = 0 \<or> bit p 7 \<or> q AND 1 = 0 then Inl BUG
         else if bit q 7 then Inr ((q AND walk_masks ! 1) OR (gpa AND NOT (walk_masks ! 1)))
         else if r AND 1 = 0 then Inl BUG
         else if bit r 7 then Inr ((r AND walk_masks ! 2) OR (gpa AND NOT (walk_masks ! 2)))
         else gpa2hpa_loop m gpa [3] r (entry_next r))"
proof -
  have u: "[0..<4] = [0, 1, 2, 3 :: nat]" by (simp add: upt_rec)
  show ?thesis
    unfolding gpa2hpa_def u gpa2hpa_loop.simps(2) Let_def walk_shifts_nth walk_index index_folds entry_next_def[symmetric]
      and_bit_zero by (simp add: BUG_ON_def)
qed

text \<open>The software walk over the same tables finds what the processor finds, or stops in \<open>BUG_ON\<close>.\<close>

lemma gpa2hpa_exact:
  assumes L: "layout_ok L" and inv: "ept_ok L linked m" and g: "unat gpa < 2 ^ 48"
  shows "gpa2hpa m (ept_pml4 L) gpa =
    (if linked \<and> below_4g gpa \<and> read64 m (slot (ept_pd_0_4g L) (page_2m gpa)) \<noteq> 0 then Inr gpa else Inl BUG)"
proof -
  note e = table_entries[OF L]
  from L inv g show ?thesis
  proof (cases rule: walk_levels)
    case unmapped_p
    then show ?thesis unfolding gpa2hpa_levels by auto
  next
    case unmapped_q
    then show ?thesis unfolding gpa2hpa_levels by (auto simp: e)
  next
    case unmapped_r
    then show ?thesis unfolding gpa2hpa_levels by (simp add: e)
  next
    case mapped
    note lf = leaf_entry[OF mapped(8)]
    show ?thesis unfolding gpa2hpa_levels
      using mapped leaf_address[OF page_2m_def[symmetric] mapped(8)] by (simp add: e lf)
  qed
qed

section \<open>Frame\<close>

lemma unat_slot_byte:
  assumes "layout_ok L" "(T, n) \<in> tables L" "i < n" "j < 8"
  shows "unat (slot T i + of_nat j) = unat T + 8 * i + j"
proof -
  note f = table_facts[OF assms(1,2)]
  have "unat (slot T i) = unat T + 8 * i" using unat_slot[OF f(1)] f(2) assms(3) by simp
  moreover have e: "unat (img_end L) \<le> 2 ^ 46" using assms(1) by (simp add: layout_ok_def)
  ultimately show ?thesis using f(5) assms(3,4) by (simp add: unat_word_ariths unat_of_nat)
qed

lemma slot_inside:
  assumes "layout_ok L" "(T, n) \<in> tables L" "i < n" "j < 8"
  shows "\<not> outside_image L (unat (slot T i + of_nat j))"
  using unat_slot_byte[OF assms] table_facts(4,5)[OF assms(1,2)] assms(3,4) by (simp add: outside_image_def)

lemma read64_cong: "(\<And>j. j < 8 \<Longrightarrow> m (a + of_nat j) = m' (a + of_nat j)) \<Longrightarrow> read64 m a = read64 m' a"
  unfolding read64_def by (metis read_bytes_cong)

text \<open>The tables depend on the bytes of the image only: stores elsewhere leave them in order.\<close>

lemma ept_ok_frame:
  assumes L: "layout_ok L" and same: "\<And>a. \<not> outside_image L (unat a) \<Longrightarrow> m' a = m a" and m: "ept_ok L linked m"
  shows "ept_ok L linked m'"
proof -
  have e: "read64 m' (slot T i) = read64 m (slot T i)" if "(T, n) \<in> tables L" "i < n" for T n i
    using slot_inside[OF L that] by (intro read64_cong same)
  show ?thesis using m by (simp add: ept_ok_def e[OF table_members(1)] e[OF table_members(2)] e[OF table_members(3)])
qed

lemma write_slot_outside:
  assumes "layout_ok L" "(T, n) \<in> tables L" "i < n" "outside_image L (unat a)"
  shows "write64 m (slot T i) v a = m a"
proof -
  have "8 \<le> unat (a - slot T i)"
  proof (rule ccontr)
    assume "\<not> ?thesis"
    then have "unat (a - slot T i) < 8" by simp
    moreover have "slot T i + of_nat (unat (a - slot T i)) = a" by simp
    ultimately show False using slot_inside[OF assms(1-3), of "unat (a - slot T i)"] assms(4) by simp
  qed
  then show ?thesis by (simp add: write64_def write_bytes_other)
qed

lemma link_tables_outside:
  assumes "layout_ok L" "outside_image L (unat a)"
  shows "link_tables L m a = m a"
proof -
  have idx: "[0..<4] = [0, 1, 2, 3 :: nat]" by (simp add: upt_rec)
  note w = write_slot_outside[OF assms(1) table_members(1) _ assms(2)] write_slot_outside[OF assms(1) table_members(2) _ assms(2)]
  show ?thesis by (simp add: link_tables_def idx w)
qed

lemma handle_ept_violation_outside:
  assumes L: "layout_ok L" and h: "handle_ept_violation L g s = Inr s'" and o: "outside_image L (unat a)"
  shows "memory s' a = memory s a"
proof -
  have g: "page_2m g < 2048"
    using h by (simp add: handle_ept_violation_def and_then_eq_Inr SZ_4G_def page_2m_def div_less_iff_less_mult word_le_nat_alt)
  note w = write_slot_outside[OF L table_members(3) g o] and l = link_tables_outside[OF L o]
  show ?thesis using h by (auto simp: handle_ept_violation_def and_then_eq_Inr Let_def page_2m_div w l)
qed

text \<open>In the image, only bytes of the tables change.\<close>

lemma write_slot_tables:
  assumes "layout_ok L" "(T, n) \<in> tables L" "i < n" "8 * n \<le> unat (a - T)"
  shows "write64 m (slot T i) v a = m a"
proof -
  have "8 \<le> unat (a - slot T i)"
  proof -
    have u: "unat (8 * of_nat i :: u64) = 8 * i"
      using table_facts(2)[OF assms(1,2)] assms(3) by (simp add: unat_word_ariths unat_of_nat)
    have "a - slot T i = (a - T) - 8 * of_nat i" by (simp add: slot_def)
    moreover have "unat ((a - T) - 8 * of_nat i) = unat (a - T) - 8 * i"
      using u assms(3,4) by (simp add: unat_sub_if')
    ultimately have "unat (a - slot T i) = unat (a - T) - 8 * i" by (simp only:)
    then show ?thesis using assms(3,4) by linarith
  qed
  then show ?thesis by (simp add: write64_def write_bytes_other)
qed

lemma handle_ept_violation_tables:
  assumes L: "layout_ok L" and h: "handle_ept_violation L g s = Inr s'" and o: "\<And>T n. (T, n) \<in> tables L \<Longrightarrow> 8 * n \<le> unat (a - T)"
  shows "memory s' a = memory s a"
proof -
  have idx: "[0..<4] = [0, 1, 2, 3 :: nat]" by (simp add: upt_rec)
  have g: "page_2m g < 2048"
    using h by (simp add: handle_ept_violation_def and_then_eq_Inr SZ_4G_def page_2m_def div_less_iff_less_mult word_le_nat_alt)
  note w = write_slot_tables[OF L table_members(1) _ o[OF table_members(1)]] write_slot_tables[OF L table_members(2) _ o[OF table_members(2)]]
    write_slot_tables[OF L table_members(3) g o[OF table_members(3)]]
  show ?thesis using h by (auto simp: handle_ept_violation_def and_then_eq_Inr Let_def page_2m_div link_tables_def idx w)
qed

text \<open>A layout as the linker makes it, and empty tables.\<close>

definition small_layout :: layout where
  "small_layout = \<lparr>img_start = 0x10000000, img_end = 0x10400000, ept_pml4 = 0x10001000,
     ept_pdpt_0_512g = 0x10002000, ept_pd_0_4g = 0x10003000\<rparr>"

lemma small_layout_ok: "layout_ok small_layout"
  by (simp add: layout_ok_def small_layout_def)

lemma read64_zero: "read64 (\<lambda>_. 0) a = 0"
  by (simp add: read64_def read_bytes_def word_eq_bits bit_le_word)

lemma zero_tables: "ept_ok L False (\<lambda>_. 0)"
  by (simp add: ept_ok_def read64_zero)

section \<open>What the guest can reach\<close>

lemma ept_ok_isolates:
  assumes L: "layout_ok L" and m: "ept_ok L linked m" and root: "take_bit 52 eptp AND NOT 0xfff = ept_pml4 L"
    and t: "ept_translate m eptp gpa = Some hpa"
  shows "hpa = gpa" "unat gpa < 2 ^ 32" "outside_image L (unat gpa)"
proof -
  have x: "linked" "below_4g gpa" "read64 m (slot (ept_pd_0_4g L) (page_2m gpa)) \<noteq> 0" and h: "hpa = gpa"
    using t unfolding ept_translate_exact[OF L m root] by (simp_all split: if_splits)
  have k: "page_2m gpa < 2048" using x(2) by (simp add: page_2m_def below_4g_def div_less_iff_less_mult)
  then have o: "outside_image L (page_2m gpa * 2 ^ 21)" using m x(3) by (auto simp: ept_ok_def)
  show "hpa = gpa" "unat gpa < 2 ^ 32" using h x(2) by (simp_all add: below_4g_def)
  show "outside_image L (unat gpa)" using o page_outside_iff[OF L, of gpa] by (simp add: page_2m_def)
qed

text \<open>C6: \<open>handle_ept_violation\<close> on tables in order: afterwards the 2 MB page of the faulting address
  is mapped, to itself, and every other guest physical address translates as before.\<close>

theorem ept_violation_maps_page:
  assumes L: "layout_ok L" and inv: "ept_ok L (pml4_0_512g_initialized s) (memory s)"
    and root: "take_bit 52 eptp AND NOT 0xfff = ept_pml4 L"
    and h: "handle_ept_violation L g s = Inr s'"
  shows "ept_ok L True (memory s') \<and> ept_translate (memory s') eptp gpa =
    (if gpa div SZ_2M = g div SZ_2M then Some gpa else ept_translate (memory s) eptp gpa)"
proof -
  note H = handle_ept_violation_ok[OF L inv h]
  have ok: "ept_ok L True (memory s')" using H(1,2) by simp
  have page: "gpa div SZ_2M = g div SZ_2M \<longleftrightarrow> page_2m gpa = page_2m g"
    by (simp add: word_unat_eq_iff div_2M(2) page_2m_def)
  have g4: "below_4g g" and k: "page_2m g < 2048" using H(5) by (simp_all add: below_4g_def page_2m_def div_less_iff_less_mult)
  have b4: "below_4g x \<longleftrightarrow> page_2m x < 2048" for x by (simp add: below_4g_def page_2m_def div_less_iff_less_mult)
  have old: "read64 (memory s') (slot (ept_pd_0_4g L) n) = read64 (memory s) (slot (ept_pd_0_4g L) n)"
    if "n \<noteq> page_2m g" "n < 2048" for n
    using h that k link_tables_pd[OF L that(2)]
    by (auto simp: handle_ept_violation_def and_then_eq_Inr Let_def read_map[OF L] page_2m_div)
  have zero: "read64 (memory s) (slot (ept_pd_0_4g L) n) = 0" if "\<not> pml4_0_512g_initialized s" "n < 2048" for n
    using inv that by (auto simp: ept_ok_def)
  have new: "read64 (memory s') (slot (ept_pd_0_4g L) (page_2m g)) \<noteq> 0"
    using H(3) leaf_entry(4)[OF k] by (simp add: page_2m_def)
  have "ept_translate (memory s') eptp gpa = (if page_2m gpa = page_2m g then Some gpa else ept_translate (memory s) eptp gpa)"
    unfolding ept_translate_exact[OF L ok root] ept_translate_exact[OF L inv root]
    using new old[of "page_2m gpa"] zero[of "page_2m gpa"] b4[of gpa] k by (cases "page_2m gpa = page_2m g"; cases "pml4_0_512g_initialized s") auto
  then show ?thesis using ok page by simp
qed

theorem ept_violation_maps_page_witness:
  "\<exists>s'. handle_ept_violation small_layout 0x5000 zero_machine = Inr s' \<and>
     ept_translate (memory s') 0x10001000 0x1234 = Some 0x1234 \<and> ept_translate (memory s') 0x10001000 0x200000 = None"
proof -
  obtain s' where s': "handle_ept_violation small_layout 0x5000 zero_machine = Inr s'"
    by (simp add: handle_ept_violation_def small_layout_def panic_if_def SZ_4G_def Let_def)
  have z: "ept_ok small_layout (pml4_0_512g_initialized zero_machine) (memory zero_machine)"
    using zero_tables by (simp add: zero_machine_def)
  have root: "take_bit 52 0x10001000 AND NOT 0xfff = ept_pml4 small_layout" by (simp add: small_layout_def)
  have none: "ept_translate (memory zero_machine) 0x10001000 0x200000 = None"
    using ept_translate_exact[OF small_layout_ok z root] by (simp add: zero_machine_def)
  show ?thesis
    using s' none ept_violation_maps_page[OF small_layout_ok z root s', where gpa = "0x1234"]
      ept_violation_maps_page[OF small_layout_ok z root s', where gpa = "0x200000"] by (simp add: SZ_2M_def)
qed


text \<open>C8: whatever the tables in order translate is translated to itself, lies below 4 GB and
  outside the VMM's image, and the software walk \<open>gpa2hpa\<close> finds the same address, stopping in
  \<open>BUG_ON\<close> where the processor finds none.\<close>

theorem gpa2hpa_agrees:
  assumes L: "layout_ok L" and inv: "ept_ok L linked m" and g: "gpa < 2 ^ 48"
  shows "gpa2hpa m ((ept_pml4 L OR 6 OR push_bit 3 3) AND NOT 0xfff) gpa =
    (case ept_translate m (ept_pml4 L OR 6 OR push_bit 3 3) gpa of Some hpa \<Rightarrow> Inr hpa | None \<Rightarrow> Inl BUG) \<and>
    (\<forall>hpa. ept_translate m (ept_pml4 L OR 6 OR push_bit 3 3) gpa = Some hpa \<longrightarrow>
       hpa = gpa \<and> unat gpa < 2 ^ 32 \<and> outside_image L (unat gpa))"
proof -
  have "unat gpa < 2 ^ 48" using g by (simp add: word_less_nat_alt)
  note x = gpa2hpa_exact[OF L inv this] and y = ept_translate_exact[OF L inv vmx_eptp(1)[OF L], of gpa]
  note i = ept_ok_isolates[OF L inv vmx_eptp(1)[OF L], of gpa]
  show ?thesis unfolding vmx_eptp(2)[OF L] x using i y by auto
qed

theorem gpa2hpa_agrees_witness:
  "gpa2hpa (\<lambda>_. 0) 0x10001000 0x1234 = Inl BUG"
  using gpa2hpa_agrees[OF small_layout_ok zero_tables, where gpa = "0x1234"]
    ept_translate_exact[OF small_layout_ok zero_tables vmx_eptp(1)[OF small_layout_ok], of "0x1234"]
  by (simp add: small_layout_def)

text \<open>The direct map of \<open>construct_tdp\<close>.\<close>

lemma map_2m_leaf: "map_2m L i m = write64 m (slot (ept_pd_0_4g L) i) (pd_leaf i)"
proof -
  have "SZ_2M * of_nat i = push_bit 21 (of_nat i)" by (simp add: SZ_2M_def push_bit_eq_mult)
  then show ?thesis by (simp add: map_2m_def pd_leaf_def)
qed

lemma fold_map_2m:
  assumes L: "layout_ok L" and m: "ept_ok L True m"
    and ks: "\<And>k. k \<in> set ks \<Longrightarrow> k < 2048 \<and> outside_image L (k * 2 ^ 21)"
  shows "ept_ok L True (fold (map_2m L) ks m) \<and>
    (\<forall>k<2048. read64 (fold (map_2m L) ks m) (slot (ept_pd_0_4g L) k) =
      (if k \<in> set ks then pd_leaf k else read64 m (slot (ept_pd_0_4g L) k)))"
  using m ks
proof (induction ks arbitrary: m)
  case (Cons i ks)
  have i: "i < 2048" and o: "outside_image L (i * 2 ^ 21)" using Cons.prems(2)[of i] by simp_all
  have ok: "ept_ok L True (map_2m L i m)" unfolding map_2m_leaf by (rule write_leaf_ok[OF L Cons.prems(1) i o])
  show ?case using Cons.IH[OF ok] Cons.prems(2) i by (auto simp: map_2m_leaf read_map[OF L])
qed simp

lemma outside_pages:
  assumes L: "layout_ok L" and e: "unat (img_end L) \<le> 2 ^ 32"
  shows "k < 2048 \<and> outside_image L (k * 2 ^ 21) \<longleftrightarrow>
    k < unat (img_start L div SZ_2M) \<or> unat (img_end L div SZ_2M) \<le> k \<and> k < unat (SZ_4G div SZ_2M)"
proof -
  have al: "unat (img_start L) = unat (img_start L div SZ_2M) * 2 ^ 21" "unat (img_end L) = unat (img_end L div SZ_2M) * 2 ^ 21"
    using L unfolding div_2M(2) by (simp_all add: layout_ok_def mod_0_imp_dvd)
  have se: "unat (img_start L) \<le> unat (img_end L)" using L by (simp add: layout_ok_def)
  have n: "unat (SZ_4G div SZ_2M) = 2048" by (simp add: SZ_4G_def SZ_2M_def)
  show ?thesis unfolding outside_image_def n using al se e by auto
qed

text \<open>C10: from empty tables \<open>construct_tdp\<close> maps every address below 4 GB outside the image to
  itself, and nothing else.\<close>

theorem construct_tdp_maps:
  assumes L: "layout_ok L" and e: "unat (img_end L) \<le> 2 ^ 32" and zero: "ept_ok L False (memory s)"
    and root: "take_bit 52 eptp AND NOT 0xfff = ept_pml4 L"
  shows "\<exists>s'. construct_tdp L s = Inr s' \<and>
    (\<forall>gpa. ept_translate (memory s') eptp gpa = (if unat gpa < 2 ^ 32 \<and> outside_image L (unat gpa) then Some gpa else None))"
proof -
  let ?a = "[0..<unat (img_start L div SZ_2M)]" and ?b = "[unat (img_end L div SZ_2M)..<unat (SZ_4G div SZ_2M)]"
  let ?m = "link_tables L (memory s)"
  define m' where "m' = fold (map_2m L) (?a @ ?b) ?m"
  have al: "img_start L mod SZ_2M = 0" "img_end L mod SZ_2M = 0"
    using L by (simp_all add: layout_ok_def word_unat_eq_iff unat_mod SZ_2M_def)
  have ok: "ept_ok L True ?m" by (rule link_tables_ok[OF L zero])
  have mem: "k \<in> set (?a @ ?b) \<longleftrightarrow> k < 2048 \<and> outside_image L (k * 2 ^ 21)" for k
    unfolding outside_pages[OF L e] by auto
  have F: "ept_ok L True m'" "\<And>k. k < 2048 \<Longrightarrow> read64 m' (slot (ept_pd_0_4g L) k) =
      (if outside_image L (k * 2 ^ 21) then pd_leaf k else read64 ?m (slot (ept_pd_0_4g L) k))"
    using fold_map_2m[OF L ok, of "?a @ ?b"] mem unfolding m'_def by auto
  have z: "read64 ?m (slot (ept_pd_0_4g L) k) = 0" if "k < 2048" for k
    using zero that by (auto simp: link_tables_pd[OF L that] ept_ok_def)
  have b4: "unat gpa < 2 ^ 32 \<longleftrightarrow> page_2m gpa < 2048" for gpa by (simp add: page_2m_def div_less_iff_less_mult)
  have "ept_translate m' eptp gpa = (if unat gpa < 2 ^ 32 \<and> outside_image L (unat gpa) then Some gpa else None)" for gpa
  proof -
    have "below_4g gpa \<and> read64 m' (slot (ept_pd_0_4g L) (page_2m gpa)) \<noteq> 0 \<longleftrightarrow> unat gpa < 2 ^ 32 \<and> outside_image L (unat gpa)"
      using F(2)[of "page_2m gpa"] z[of "page_2m gpa"] leaf_entry(4)[of "page_2m gpa"] page_outside_iff[OF L, of gpa]
      unfolding below_4g_def b4 page_2m_def[symmetric] by auto
    then show ?thesis unfolding ept_translate_exact[OF L F(1) root] by simp
  qed
  moreover have "construct_tdp L s = Inr (s\<lparr>memory := m'\<rparr>)"
    using al by (simp add: construct_tdp_def BUG_ON_def Let_def m'_def)
  ultimately show ?thesis by fastforce
qed

theorem construct_tdp_maps_witness:
  "\<exists>s'. construct_tdp small_layout zero_machine = Inr s' \<and> ept_translate (memory s') 0x10001000 0x1234 = Some 0x1234 \<and>
     ept_translate (memory s') 0x10001000 0x10001000 = None"
proof -
  have z: "ept_ok small_layout False (memory zero_machine)" using zero_tables by (simp add: zero_machine_def)
  have root: "take_bit 52 0x10001000 AND NOT 0xfff = ept_pml4 small_layout" and e: "unat (img_end small_layout) \<le> 2 ^ 32"
    by (simp_all add: small_layout_def)
  obtain s' where "construct_tdp small_layout zero_machine = Inr s'"
    "\<And>gpa. ept_translate (memory s') 0x10001000 gpa =
      (if unat gpa < 2 ^ 32 \<and> outside_image small_layout (unat gpa) then Some gpa else None)"
    using construct_tdp_maps[OF small_layout_ok e z root] by blast
  then show ?thesis by (simp add: outside_image_def small_layout_def)
qed

end
