(* ===== verification/Vmx_Exit.thy ===== *)
theory Vmx_Exit
  imports Vmx_Setup Ept
begin

unbundle bit_operations_syntax

text \<open>
  Running the guest: the world switch \<open>vmx_vcpu_run\<close>, the exit handlers and their dispatcher
  (vmm/vmx.c), and the machine-independent part of vmm/kvm.c (\<open>kvm_emulate_cpuid\<close>,
  \<open>create_vcpu\<close>, \<open>run_vcpu\<close>). A handler that panics or hits \<open>BUG_ON\<close> stops the machine.
  What is printed is not part of the state; the dump of the VMCS is in theory Reports.
\<close>

section \<open>Entering the guest\<close>

datatype vm_op = VMLAUNCH | VMRESUME

text \<open>
  What the processor hands back when control returns to \<open>vmx_return\<close>: whether the entry
  failed (\<open>CF\<close> or \<open>ZF\<close> set), the general registers, and the machine.
\<close>

record vm_return =
  entry_failed :: bool
  out_regs :: "nat \<Rightarrow> u64"
  out_machine :: machine

abbreviation (input) gprs :: "nat set" where "gprs \<equiv> {0, 1, 2, 3, 5, 6, 7, 8, 9, 10, 11, 12, 13, 14, 15}"

text \<open>
  \<open>vmx_vcpu_run\<close> up to \<open>vmlaunch\<close> or \<open>vmresume\<close>: \<open>HOST_RSP\<close> is written when the stack pointer
  changed (the result of that \<open>vmwrite\<close> is not looked at), \<open>cr2\<close> is loaded, \<open>launched\<close> selects the
  instruction.
\<close>

definition vcpu_enter :: "cpu \<Rightarrow> u64 \<Rightarrow> machine \<Rightarrow> vm_op \<times> machine" where
  "vcpu_enter c rsp s =
     (let s = (if host_rsp s = rsp then s
               else s\<lparr>host_rsp := rsp, vmcs := if vmwrite_ok c HOST_RSP then (vmcs s)(HOST_RSP := rsp) else vmcs s\<rparr>);
          s = (if hw_cr2 s = vcpu_cr2 s then s else s\<lparr>hw_cr2 := vcpu_cr2 s\<rparr>)
      in (if launched s then VMRESUME else VMLAUNCH, s))"

text \<open>After the exit: every general register but \<open>RSP\<close> is saved, then \<open>cr2\<close>, \<open>fail\<close> and \<open>launched\<close>.\<close>

definition vcpu_leave :: "(nat \<Rightarrow> u64) \<Rightarrow> vm_return \<Rightarrow> machine" where
  "vcpu_leave saved r =
     (out_machine r)\<lparr>regs := (\<lambda>i. if i \<in> gprs then out_regs r i else saved i),
       vcpu_cr2 := hw_cr2 (out_machine r), fail := entry_failed r, launched := True\<rparr>"

definition vmx_vcpu_run :: "(vm_op \<Rightarrow> (nat \<Rightarrow> u64) \<Rightarrow> machine \<Rightarrow> vm_return) \<Rightarrow> cpu \<Rightarrow> u64 \<Rightarrow> machine \<Rightarrow> machine" where
  "vmx_vcpu_run hw c rsp s =
     (let (op, s1) = vcpu_enter c rsp s in vcpu_leave (regs s1) (hw op (regs s1) s1))"

section \<open>Exit handlers\<close>

definition kvm_skip_emulated_instruction :: "cpu \<Rightarrow> machine \<Rightarrow> stop + machine" where
  "kvm_skip_emulated_instruction = vmx_skip_emulated_instruction"

definition handle_rdtsc :: "cpu \<Rightarrow> machine \<Rightarrow> stop + machine" where
  "handle_rdtsc c s = kvm_skip_emulated_instruction c (kvm_write_edx_eax (tsc s) s)"

definition handle_cr :: "cpu \<Rightarrow> machine \<Rightarrow> stop + machine" where
  "handle_cr c s =
     (let exit_qualification = vmcs_readl EXIT_QUALIFICATION s;
          cr = exit_qualification AND 15;
          reg = unat (drop_bit 8 exit_qualification AND 15);
          op = drop_bit 4 exit_qualification AND 3
      in if op = 0 then
           (let val = kvm_register_read reg s
            in if cr = 0 then and_then (vmx_set_cr0 c val s) (kvm_skip_emulated_instruction c)
               else if cr = 3 then and_then (vmx_set_cr3 c val s) (kvm_skip_emulated_instruction c)
               else if cr = 4 then and_then (vmx_set_cr4 c val s) (kvm_skip_emulated_instruction c)
               else Inl (PANIC ''unknown control register''))
         else Inl (PANIC ''unhandled control register''))"

definition handle_rdmsr :: "machine \<Rightarrow> stop + machine" where
  "handle_rdmsr s = Inl (PANIC ''unknown rdmsr'')"

definition MSR_IA32_APICBASE_ENABLE :: u64 where "MSR_IA32_APICBASE_ENABLE = BIT_64 11"

definition handle_wrmsr :: "cpu \<Rightarrow> machine \<Rightarrow> stop + machine" where
  "handle_wrmsr c s =
     (let msr = ucast (kvm_register_read VCPU_REGS_RCX s) :: u32;
          val = kvm_read_edx_eax s
      in and_then
        (if msr = MSR_IA32_APICBASE then
           and_then (BUG_ON (val AND MSR_IA32_APICBASE_ENABLE = 0)) (\<lambda>_. Inr (wrmsrl msr val s))
         else if msr = APIC_ICR_MSR then
           (if val AND 0x700 = 0x500 then Inr s
            else if val AND 0x700 = 0x600 then Inr s
            else Inr (wrmsrl msr val s))
         else if msr = MSR_EFER then vmcs_write64 c GUEST_IA32_EFER (val AND NOT EFER_SCE) s
         else Inl (PANIC ''unknown wrmsr''))
        (kvm_skip_emulated_instruction c))"

definition vmx_handle_ept_violation :: "layout \<Rightarrow> machine \<Rightarrow> stop + machine" where
  "vmx_handle_ept_violation L s =
     and_then (panic_if (\<not> ept_handler s) ''cannot handle EPT violation'')
       (\<lambda>_. handle_ept_violation L (vmcs_read64 GUEST_PHYSICAL_ADDRESS s) s)"

text \<open>
  The saved MSRs by their index in \<open>enum saved_msrs\<close>. \<open>handle_syscall\<close> and \<open>handle_sysret\<close> leave
  the \<open>avl\<close> field of their segments unset, so its values are arguments.
\<close>

definition SAVED_MSR :: "nat \<Rightarrow> machine \<Rightarrow> u64" where
  "SAVED_MSR i s = msr_value (autoload_guest s ! i)"

definition syscall_cs :: "u64 \<Rightarrow> u8 \<Rightarrow> kvm_segment" where
  "syscall_cs star avl =
     \<lparr>seg_base = 0, seg_limit = 0xfffff, seg_selector = ucast (drop_bit 32 star AND 0xfffc), seg_type = 11,
      seg_present = 1, seg_dpl = 0, seg_db = 0, seg_s = 1, seg_l = 1, seg_g = 1, seg_avl = avl, seg_unusable = 0\<rparr>"

definition syscall_ss :: "u64 \<Rightarrow> u8 \<Rightarrow> kvm_segment" where
  "syscall_ss star avl =
     \<lparr>seg_base = 0, seg_limit = 0xfffff, seg_selector = ucast ((drop_bit 32 star AND 0xffff) + 8), seg_type = 3,
      seg_present = 1, seg_dpl = 0, seg_db = 1, seg_s = 1, seg_l = 0, seg_g = 1, seg_avl = avl, seg_unusable = 0\<rparr>"

definition handle_syscall :: "cpu \<Rightarrow> u8 \<times> u8 \<Rightarrow> machine \<Rightarrow> stop + machine" where
  "handle_syscall c avl s0 =
     (let rip = SAVED_MSR SAVED_MSR_LSTAR s0
      in run_steps
        [kvm_skip_emulated_instruction c,
         \<lambda>s. Inr (kvm_register_write VCPU_REGS_RCX (vmx_get_rip s) s),
         vmx_set_rip c rip,
         \<lambda>s. Inr (kvm_register_write VCPU_REGS_R11 (vmx_get_rflags s) s),
         \<lambda>s. vmx_set_rflags c (vmx_get_rflags s AND NOT (SAVED_MSR SAVED_MSR_SYSCALL_MASK s)) s,
         \<lambda>s. vmx_set_segment c (syscall_cs (SAVED_MSR SAVED_MSR_STAR s) (fst avl)) VCPU_SREG_CS s,
         \<lambda>s. vmx_set_segment c (syscall_ss (SAVED_MSR SAVED_MSR_STAR s) (snd avl)) VCPU_SREG_SS s] s0)"

definition sysret_cs :: "u64 \<Rightarrow> u8 \<Rightarrow> kvm_segment" where
  "sysret_cs star avl =
     \<lparr>seg_base = 0, seg_limit = 0xfffff, seg_selector = ucast ((drop_bit 48 star AND 0xffff) + 16) OR 3, seg_type = 11,
      seg_present = 1, seg_dpl = 3, seg_db = 0, seg_s = 1, seg_l = 1, seg_g = 1, seg_avl = avl, seg_unusable = 0\<rparr>"

definition sysret_ss :: "u64 \<Rightarrow> u8 \<Rightarrow> kvm_segment" where
  "sysret_ss star avl =
     \<lparr>seg_base = 0, seg_limit = 0xfffff, seg_selector = ucast ((drop_bit 48 star AND 0xffff) + 8) OR 3, seg_type = 3,
      seg_present = 1, seg_dpl = 3, seg_db = 1, seg_s = 1, seg_l = 0, seg_g = 1, seg_avl = avl, seg_unusable = 0\<rparr>"

definition handle_sysret :: "cpu \<Rightarrow> u8 \<times> u8 \<Rightarrow> machine \<Rightarrow> stop + machine" where
  "handle_sysret c avl = run_steps
     [\<lambda>s. vmx_set_rip c (kvm_register_read VCPU_REGS_RCX s) s,
      \<lambda>s. vmx_set_rflags c ((kvm_register_read VCPU_REGS_R11 s AND 0x3c7fd7) OR 2) s,
      \<lambda>s. vmx_set_segment c (sysret_cs (SAVED_MSR SAVED_MSR_STAR s) (fst avl)) VCPU_SREG_CS s,
      \<lambda>s. vmx_set_segment c (sysret_ss (SAVED_MSR SAVED_MSR_STAR s) (snd avl)) VCPU_SREG_SS s]"

definition handle_exception_nmi :: "cpu \<Rightarrow> u8 \<times> u8 \<Rightarrow> machine \<Rightarrow> stop + machine" where
  "handle_exception_nmi c avl s =
     (let intr_info = vmcs_read32 VM_EXIT_INTR_INFO s;
          type = drop_bit 8 intr_info AND 7;
          exception = intr_info AND 0xff
      in if exception = 6 \<and> type = 3 then
           and_then (gva2hva (vmx_get_rip s) s) (\<lambda>instr.
             let m = memory s
             in if m instr = 0xf \<and> m (instr + 1) = 5 then handle_syscall c avl s
                else if m instr = 0x48 \<and> m (instr + 1) = 0xf \<and> m (instr + 2) = 7 then handle_sysret c avl s
                else Inl (PANIC ''cannot handle exception/nmi''))
         else Inl (PANIC ''cannot handle exception/nmi''))"

section \<open>CPUID\<close>

definition cpuid_bit :: "nat \<Rightarrow> u32" where
  "cpuid_bit bitno = push_bit (bitno mod 32) 1"

abbreviation (input) X86_FEATURE_VMX :: nat where "X86_FEATURE_VMX \<equiv> 4 * 32 + 5"
abbreviation (input) X86_FEATURE_X2APIC :: nat where "X86_FEATURE_X2APIC \<equiv> 4 * 32 + 21"
abbreviation (input) X86_FEATURE_HYPERVISOR :: nat where "X86_FEATURE_HYPERVISOR \<equiv> 4 * 32 + 31"

definition cpuid_result :: "cpu \<Rightarrow> u32 \<Rightarrow> u32 \<Rightarrow> u32 \<times> u32 \<times> u32 \<times> u32" where
  "cpuid_result c leaf sub =
     (let (eax, ebx, ecx, edx) = cpuid c leaf sub
      in if leaf = 1 then
           (eax, ebx, ((ecx AND NOT (cpuid_bit X86_FEATURE_VMX)) OR cpuid_bit X86_FEATURE_X2APIC) OR
              cpuid_bit X86_FEATURE_HYPERVISOR, edx)
         else if leaf = 4 then (0, 0, 0, 0)
         else if leaf = 0x40000000 then (0x40000001, 0x4b4d564b, 0x564b4d56, 0x4d)
         else if leaf = 0x40000001 then (0, 0, 0, 0)
         else (eax, ebx, ecx, edx))"

definition kvm_emulate_cpuid :: "cpu \<Rightarrow> machine \<Rightarrow> stop + machine" where
  "kvm_emulate_cpuid c s =
     (let leaf = ucast (kvm_register_read VCPU_REGS_RAX s);
          (eax, ebx, ecx, edx) = cpuid_result c leaf (ucast (kvm_register_read VCPU_REGS_RCX s))
      in kvm_skip_emulated_instruction c
           (kvm_register_write VCPU_REGS_RDX (ucast edx)
             (kvm_register_write VCPU_REGS_RCX (ucast ecx)
               (kvm_register_write VCPU_REGS_RBX (ucast ebx)
                 (kvm_register_write VCPU_REGS_RAX (ucast eax) s)))))"

section \<open>Dispatch\<close>

text \<open>\<open>vmx_exit_handlers\<close>: an array of 49 entries, null where no handler is given.\<close>

definition vmx_exit_handlers :: "cpu \<Rightarrow> layout \<Rightarrow> u8 \<times> u8 \<Rightarrow> u32 \<Rightarrow> (machine \<Rightarrow> stop + machine) option" where
  "vmx_exit_handlers c L avl reason =
     (if reason = 0 then Some (handle_exception_nmi c avl)
      else if reason = 28 then Some (handle_cr c)
      else if reason = 10 then Some (kvm_emulate_cpuid c)
      else if reason = 31 then Some handle_rdmsr
      else if reason = 32 then Some (handle_wrmsr c)
      else if reason = 16 then Some (handle_rdtsc c)
      else if reason = 48 then Some (vmx_handle_ept_violation L)
      else None)"

definition vmx_handle_exit :: "cpu \<Rightarrow> layout \<Rightarrow> u8 \<times> u8 \<Rightarrow> machine \<Rightarrow> stop + machine" where
  "vmx_handle_exit c L avl s =
     (let exit_reason = vmcs_read32 VM_EXIT_REASON s
      in if exit_reason < 49 then
           (case vmx_exit_handlers c L avl exit_reason of
              Some h \<Rightarrow> h s
            | None \<Rightarrow> Inl (PANIC ''vmx: unexpected exit reason''))
         else Inl (PANIC ''vmx: unexpected exit reason''))"

section \<open>Starting the guest\<close>

definition create_vcpu :: "cpu \<Rightarrow> layout \<Rightarrow> machine \<Rightarrow> stop + machine" where
  "create_vcpu c L = run_steps
     [vmx_vcpu_enable c, vmx_vcpu_setup c, vmx_set_tdp c (ept_pml4 L), \<lambda>s. Inr (s\<lparr>ept_handler := True\<rparr>)]"

definition run_vcpu_cs :: "u32 \<Rightarrow> kvm_segment" where
  "run_vcpu_cs start_ip =
     (let base = ucast (start_ip AND 0xffff0000) :: u64
      in \<lparr>seg_base = base, seg_limit = 0xffff, seg_selector = ucast (drop_bit 4 base), seg_type = 11,
          seg_present = 1, seg_dpl = 0, seg_db = 0, seg_s = 1, seg_l = 0, seg_g = 0, seg_avl = 0, seg_unusable = 0\<rparr>)"

text \<open>\<open>run_vcpu\<close> up to its endless loop.\<close>

definition run_vcpu_start :: "cpu \<Rightarrow> u32 \<Rightarrow> machine \<Rightarrow> stop + machine" where
  "run_vcpu_start c start_ip = run_steps
     [vmx_set_segment c (run_vcpu_cs start_ip) VCPU_SREG_CS, vmx_set_rip c (ucast (start_ip AND 0xffff))]"

section \<open>What a handler can change\<close>

text \<open>
  \<open>keeps F s s'\<close>: between the two states only guest registers, MSRs and the VMCS fields in \<open>F\<close>
  differ.
\<close>

definition keeps :: "u32 set \<Rightarrow> machine \<Rightarrow> machine \<Rightarrow> bool" where
  "keeps F s s' \<longleftrightarrow> s' = s\<lparr>vmcs := vmcs s', regs := regs s', msrs := msrs s'\<rparr> \<and> (\<forall>f. f \<notin> F \<longrightarrow> vmcs s' f = vmcs s f)"

lemma keeps_trans: "keeps F s s1 \<Longrightarrow> keeps F s1 s2 \<Longrightarrow> keeps F s s2"
  by (cases s; cases s1; cases s2) (simp add: keeps_def)

lemma keeps_mono: "keeps F s s' \<Longrightarrow> F \<subseteq> G \<Longrightarrow> keeps G s s'"
  by (auto simp: keeps_def)

lemma keeps_refl: "keeps F s s"
  by (simp add: keeps_def)

lemma keeps_register: "keeps F s (kvm_register_write r v s)"
  by (simp add: keeps_def kvm_register_write_def)

lemma keeps_wrmsr: "keeps F s (wrmsrl msr v s)"
  by (simp add: keeps_def)

lemma keeps_vmcs_write: "vmcs_write c f v s = Inr s' \<Longrightarrow> f \<in> F \<Longrightarrow> keeps F s s'"
  by (auto simp: keeps_def vmcs_write_Inr)

lemma keeps_run_steps:
  assumes "\<And>f s s'. f \<in> set fs \<Longrightarrow> f s = Inr s' \<Longrightarrow> keeps F s s'" "run_steps fs s = Inr s'"
  shows "keeps F s s'"
  using run_steps_inv[where P = "keeps F s", OF _ keeps_refl assms(2)] assms(1) keeps_trans by blast

lemma keeps_cr0:
  assumes "vmx_set_cr0 c cr0 s = Inr s'"
  shows "keeps {GUEST_CR0, GUEST_IA32_EFER, VM_ENTRY_CONTROLS, GUEST_TR_AR_BYTES} s s'"
proof -
  obtain v where v: "s' = s\<lparr>vmcs := v\<rparr>" using vmx_set_cr0_value(4)[OF assms] by (auto simp: only_vmcs_def)
  then show ?thesis using vmx_set_cr0_value(2)[OF assms]
    by (auto simp: keeps_def)
qed

definition segment_fields :: "u32 set" where
  "segment_fields = {GUEST_CS_SELECTOR, GUEST_CS_BASE, GUEST_CS_LIMIT, GUEST_CS_AR_BYTES,
     GUEST_SS_SELECTOR, GUEST_SS_BASE, GUEST_SS_LIMIT, GUEST_SS_AR_BYTES}"

lemma keeps_segment:
  assumes "vmx_set_segment c var seg s = Inr s'" "seg = VCPU_SREG_CS \<or> seg = VCPU_SREG_SS"
  shows "keeps segment_fields s s'"
proof (rule keeps_run_steps)
  show "run_steps [vmcs_write c (fst (snd (kvm_vmx_segment_fields seg))) (seg_base var),
         vmcs_write c (fst (snd (snd (kvm_vmx_segment_fields seg)))) (ucast (seg_limit var)),
         vmcs_write c (fst (kvm_vmx_segment_fields seg)) (ucast (seg_selector var)),
         vmcs_write c (snd (snd (snd (kvm_vmx_segment_fields seg)))) (ucast (vmx_segment_access_rights var))] s = Inr s'"
    using assms(1) by (simp add: vmx_set_segment_def split_def Let_def)
qed (use assms(2) in \<open>auto elim!: keeps_vmcs_write simp: segment_fields_def\<close>)

text \<open>
  The fields every emulated instruction may write, and those a handler of an exit writes at all.
\<close>

definition user_fields :: "u32 set" where
  "user_fields = {GUEST_RIP, GUEST_INTERRUPTIBILITY_INFO, GUEST_RFLAGS} \<union> segment_fields"

definition handler_fields :: "u32 set" where
  "handler_fields = {GUEST_CR0, GUEST_CR3, GUEST_CR4, GUEST_IA32_EFER, VM_ENTRY_CONTROLS, GUEST_TR_AR_BYTES} \<union> user_fields"

lemma field_sets:
  "segment_fields \<subseteq> user_fields" "user_fields \<subseteq> handler_fields" "GUEST_RIP \<in> user_fields" "GUEST_RFLAGS \<in> user_fields"
  "GUEST_CR3 \<in> handler_fields" "GUEST_CR4 \<in> handler_fields" "GUEST_IA32_EFER \<in> handler_fields"
  "{GUEST_RIP, GUEST_INTERRUPTIBILITY_INFO} \<subseteq> user_fields"
  "{GUEST_CR0, GUEST_IA32_EFER, VM_ENTRY_CONTROLS, GUEST_TR_AR_BYTES} \<subseteq> handler_fields"
  by (auto simp: handler_fields_def user_fields_def)

lemmas keeps_user = keeps_mono[OF _ field_sets(2)]

lemma keeps_skip:
  assumes "kvm_skip_emulated_instruction c s = Inr s'"
  shows "keeps {GUEST_RIP, GUEST_INTERRUPTIBILITY_INFO} s s'"
  using assms unfolding kvm_skip_emulated_instruction_def vmx_skip_emulated_instruction_def
  by (rule keeps_run_steps[rotated]) (auto simp: vmx_set_rip_def vmcs_writes elim!: keeps_vmcs_write)

lemma skip_keeps: "kvm_skip_emulated_instruction c s = Inr s' \<Longrightarrow> keeps user_fields s s'"
  by (rule keeps_mono[OF keeps_skip field_sets(8)])

lemma segment_keeps:
  "vmx_set_segment c var VCPU_SREG_CS s = Inr s' \<Longrightarrow> keeps user_fields s s'"
  "vmx_set_segment c var VCPU_SREG_SS s = Inr s' \<Longrightarrow> keeps user_fields s s'"
  using keeps_mono[OF keeps_segment field_sets(1), of c var VCPU_SREG_CS s s']
    keeps_mono[OF keeps_segment field_sets(1), of c var VCPU_SREG_SS s s'] by simp_all

lemma cr0_keeps: "vmx_set_cr0 c cr0 s = Inr s' \<Longrightarrow> keeps handler_fields s s'"
  by (rule keeps_mono[OF keeps_cr0 field_sets(9)])

lemma edx_eax_keeps: "keeps F s (kvm_write_edx_eax v s)"
  unfolding kvm_write_edx_eax_def by (rule keeps_trans[OF keeps_register keeps_register])

lemma handle_rdtsc_keeps: "handle_rdtsc c s = Inr s' \<Longrightarrow> keeps user_fields s s'"
  unfolding handle_rdtsc_def by (rule keeps_trans[OF edx_eax_keeps skip_keeps])

lemma handle_cr_keeps: "handle_cr c s = Inr s' \<Longrightarrow> keeps handler_fields s s'"
  by (auto simp: handle_cr_def Let_def and_then_eq_Inr vmx_set_cr3_def vmx_set_cr4_def vmcs_writes split: if_splits
      intro: keeps_trans[OF cr0_keeps keeps_user[OF skip_keeps]] field_sets
        keeps_trans[OF keeps_vmcs_write keeps_user[OF skip_keeps]])

lemma handle_wrmsr_keeps: "handle_wrmsr c s = Inr s' \<Longrightarrow> keeps (insert GUEST_IA32_EFER user_fields) s s'"
proof -
  have k: "kvm_skip_emulated_instruction c t = Inr s' \<Longrightarrow> keeps (insert GUEST_IA32_EFER user_fields) t s'" for t
    by (rule keeps_mono[OF skip_keeps]) auto
  show "handle_wrmsr c s = Inr s' \<Longrightarrow> keeps (insert GUEST_IA32_EFER user_fields) s s'"
    by (auto simp: handle_wrmsr_def Let_def and_then_eq_Inr vmcs_writes split: if_splits simp del: wrmsrl_upd
      intro: keeps_trans[OF keeps_wrmsr k] keeps_trans[OF keeps_vmcs_write k] k)
qed

lemma handle_syscall_keeps: "handle_syscall c avl s = Inr s' \<Longrightarrow> keeps user_fields s s'"
  unfolding handle_syscall_def Let_def
  by (erule keeps_run_steps[rotated])
    (auto simp: vmx_set_rip_def vmx_set_rflags_def vmcs_writes
      intro: skip_keeps keeps_register keeps_vmcs_write segment_keeps field_sets)

lemma handle_sysret_keeps: "handle_sysret c avl s = Inr s' \<Longrightarrow> keeps user_fields s s'"
  unfolding handle_sysret_def
  by (erule keeps_run_steps[rotated])
    (auto simp: vmx_set_rip_def vmx_set_rflags_def vmcs_writes intro: segment_keeps keeps_vmcs_write field_sets)

lemma keeps_register_write: "keeps F s s' \<Longrightarrow> keeps F s (kvm_register_write r v s')"
  by (rule keeps_trans[OF _ keeps_register])

lemma kvm_emulate_cpuid_keeps:
  assumes "kvm_emulate_cpuid c s = Inr s'"
  shows "keeps user_fields s s'"
proof -
  have k: "keeps user_fields s (kvm_register_write VCPU_REGS_RDX d (kvm_register_write VCPU_REGS_RCX x
      (kvm_register_write VCPU_REGS_RBX b (kvm_register_write VCPU_REGS_RAX a s))))" for a b x d
    by (intro keeps_register_write keeps_refl)
  show ?thesis using assms keeps_trans[OF k skip_keeps] by (auto simp: kvm_emulate_cpuid_def Let_def split_def)
qed

text \<open>The exits by what they change.\<close>

lemma handle_exit_cases:
  assumes "vmx_handle_exit c L avl s = Inr s'"
  obtains (user) "keeps user_fields s s'" | (cr) "handle_cr c s = Inr s'" | (wrmsr) "handle_wrmsr c s = Inr s'"
    | (ept) "vmx_handle_ept_violation L s = Inr s'"
  using assms
  by (auto simp: vmx_handle_exit_def Let_def vmx_exit_handlers_def handle_exception_nmi_def handle_rdmsr_def and_then_eq_Inr
      split: if_splits dest: handle_rdtsc_keeps handle_syscall_keeps handle_sysret_keeps kvm_emulate_cpuid_keeps)

section \<open>The guest's control state\<close>

text \<open>
  What holds of the guest's registers at every exit: CR0 and CR4 carry the bits the VMM keeps
  on, and \<open>EFER.SCE\<close> is off, so that \<open>syscall\<close> and \<open>sysret\<close> fault and reach the VMM.
\<close>

definition guest_regs_ok :: "machine \<Rightarrow> bool" where
  "guest_regs_ok s \<longleftrightarrow>
     vmcs s GUEST_CR0 AND KVM_GUEST_CR0_ALWAYS_ON = KVM_GUEST_CR0_ALWAYS_ON \<and>
     vmcs s GUEST_CR4 AND KVM_GUEST_CR4_ALWAYS_ON = KVM_GUEST_CR4_ALWAYS_ON \<and>
     vmcs s GUEST_IA32_EFER AND EFER_SCE = 0"

lemma control_fields_kept:
  "GUEST_CR0 \<notin> user_fields" "GUEST_CR4 \<notin> user_fields" "GUEST_IA32_EFER \<notin> user_fields" "EPT_POINTER \<notin> handler_fields"
  by (simp_all add: user_fields_def segment_fields_def handler_fields_def)

lemma or_and_self: "(x OR y) AND y = (y :: u64)"
  by (rule bit_word_eqI) (auto simp: bit_simps)

lemma handle_cr_regs:
  assumes "handle_cr c s = Inr s'" "guest_regs_ok s"
  shows "guest_regs_ok s'"
proof -
  obtain t val where skip: "kvm_skip_emulated_instruction c t = Inr s'"
    and t: "vmx_set_cr0 c val s = Inr t \<or> vmx_set_cr3 c val s = Inr t \<or> vmx_set_cr4 c val s = Inr t"
    using assms(1) by (auto simp: handle_cr_def Let_def and_then_eq_Inr split: if_splits)
  have "guest_regs_ok t" using t
  proof (elim disjE)
    assume c: "vmx_set_cr0 c val s = Inr t"
    show ?thesis using vmx_set_cr0_value(1)[OF c] vmx_set_cr0_value(2)[OF c, of GUEST_CR4] vmx_set_cr0_value(3)[OF c, of 0] assms(2)
      by (simp add: guest_regs_ok_def or_and_self vmcs_reads EFER_SCE_def del: bit_0)
  qed (use assms(2) in \<open>simp_all add: vmx_set_cr3_def vmx_set_cr4_def vmcs_writes vmcs_write_Inr guest_regs_ok_def or_and_self\<close>)
  moreover have "vmcs s' f = vmcs t f" if "f \<notin> user_fields" for f
    using skip_keeps[OF skip] that by (simp add: keeps_def)
  ultimately show ?thesis using control_fields_kept(1-3) by (simp add: guest_regs_ok_def)
qed

lemma handle_wrmsr_regs:
  assumes "handle_wrmsr c s = Inr s'" "guest_regs_ok s"
  shows "guest_regs_ok s'"
proof -
  obtain t where skip: "kvm_skip_emulated_instruction c t = Inr s'"
    and t: "t = s \<or> (\<exists>msr v. t = wrmsrl msr v s) \<or> (\<exists>v. vmcs_write c GUEST_IA32_EFER (v AND NOT EFER_SCE) s = Inr t)"
    using assms(1) by (auto simp: handle_wrmsr_def Let_def and_then_eq_Inr vmcs_writes split: if_splits simp del: wrmsrl_upd)
  have "(v AND NOT EFER_SCE) AND EFER_SCE = 0" for v by (rule bit_word_eqI) (auto simp: bit_simps)
  then have "guest_regs_ok t" using t assms(2) by (auto simp: guest_regs_ok_def vmcs_write_Inr)
  moreover have "vmcs s' f = vmcs t f" if "f \<notin> user_fields" for f
    using skip_keeps[OF skip] that by (simp add: keeps_def)
  ultimately show ?thesis using control_fields_kept(1-3) by (simp add: guest_regs_ok_def)
qed

section \<open>Every exit keeps the machine safe\<close>

text \<open>
  The state between two runs of the guest: the extended page tables are in order and the VMCS
  points at them, and the guest's registers are as the VMM keeps them.
\<close>

definition vm_ok :: "layout \<Rightarrow> machine \<Rightarrow> bool" where
  "vm_ok L s \<longleftrightarrow> ept_ok L (pml4_0_512g_initialized s) (memory s) \<and>
     vmcs s EPT_POINTER = ept_pml4 L OR 6 OR push_bit 3 3 \<and> guest_regs_ok s"

lemma vm_ok_keeps:
  assumes "keeps handler_fields s s'" "vm_ok L s" "guest_regs_ok s'"
  shows "vm_ok L s'"
proof -
  obtain v r ms where "s' = s\<lparr>vmcs := v, regs := r, msrs := ms\<rparr>" using assms(1) by (auto simp: keeps_def)
  moreover have "vmcs s' EPT_POINTER = vmcs s EPT_POINTER" using assms(1) control_fields_kept(4) by (simp add: keeps_def)
  ultimately show ?thesis using assms(2,3) by (simp add: vm_ok_def)
qed

lemma handle_exit_vm_ok:
  assumes h: "vmx_handle_exit c L avl s = Inr s'" and L: "layout_ok L" and ok: "vm_ok L s"
  shows "vm_ok L s'"
  using h
proof (cases rule: handle_exit_cases)
  case user
  then have "guest_regs_ok s'" using ok control_fields_kept(1-3) by (simp add: vm_ok_def guest_regs_ok_def keeps_def)
  then show ?thesis using vm_ok_keeps[OF keeps_user[OF user] ok] by simp
next
  case cr
  then show ?thesis using vm_ok_keeps[OF handle_cr_keeps[OF cr] ok] handle_cr_regs ok by (simp add: vm_ok_def)
next
  case wrmsr
  have "insert GUEST_IA32_EFER user_fields \<subseteq> handler_fields" by (auto simp: handler_fields_def)
  then show ?thesis
    using vm_ok_keeps[OF keeps_mono[OF handle_wrmsr_keeps[OF wrmsr]] ok] handle_wrmsr_regs[OF wrmsr] ok by (simp add: vm_ok_def)
next
  case ept
  then have e: "handle_ept_violation L (vmcs_read64 GUEST_PHYSICAL_ADDRESS s) s = Inr s'"
    by (auto simp: vmx_handle_ept_violation_def and_then_eq_Inr)
  have inv: "ept_ok L (pml4_0_512g_initialized s) (memory s)" using ok by (simp add: vm_ok_def)
  obtain m where "s' = s\<lparr>memory := m, pml4_0_512g_initialized := True\<rparr>" using handle_ept_violation_ok(6)[OF L inv e] by blast
  then show ?thesis using ok handle_ept_violation_ok(1)[OF L inv e] by (simp add: vm_ok_def guest_regs_ok_def)
qed

lemma handle_exit_keeps:
  assumes "vmx_handle_exit c L avl s = Inr s'"
  shows "keeps handler_fields s s' \<or> vmx_handle_ept_violation L s = Inr s'"
  using assms
proof (cases rule: handle_exit_cases)
  case wrmsr
  have "insert GUEST_IA32_EFER user_fields \<subseteq> handler_fields" by (auto simp: handler_fields_def)
  then show ?thesis using keeps_mono[OF handle_wrmsr_keeps[OF wrmsr]] by blast
qed (use keeps_user handle_cr_keeps in blast)+

section \<open>System calls\<close>

lemma skip_effect:
  assumes "kvm_skip_emulated_instruction c s = Inr s'"
  shows "vmx_get_rip s' = vmx_get_rip s + ucast (vmcs_read32 VM_EXIT_INSTRUCTION_LEN s)"
    "regs s' = regs s" "vmx_get_rflags s' = vmx_get_rflags s" "autoload_guest s' = autoload_guest s"
  using assms by (auto simp: kvm_skip_emulated_instruction_def vmx_skip_emulated_instruction_def vmx_set_rip_def vmx_get_rip_def
      vmx_get_rflags_def stop_simps)

text \<open>Only the lowest bit of \<open>avl\<close> is used, so a segment is read back with that bit.\<close>

lemma segment_avl:
  assumes "vmx_set_segment c v seg s = Inr s'" "usable_segment (v\<lparr>seg_avl := 0\<rparr>)"
  shows "vmx_get_segment seg s' = v\<lparr>seg_avl := seg_avl v AND 1\<rparr>"
proof (rule segment_round_trip)
  have "vmx_segment_access_rights (v\<lparr>seg_avl := seg_avl v AND 1\<rparr>) = vmx_segment_access_rights v"
    by (simp add: vmx_segment_access_rights_def)
  then show "vmx_set_segment c (v\<lparr>seg_avl := seg_avl v AND 1\<rparr>) seg s = Inr s'"
    using assms(1) by (simp add: vmx_set_segment_def)
  have "seg_avl v AND 1 \<le> 1" by (rule word_and_le1)
  then have "seg_avl v AND 1 < 2" by (simp add: word_le_nat_alt word_less_nat_alt)
  then show "usable_segment (v\<lparr>seg_avl := seg_avl v AND 1\<rparr>)" using assms(2) by (simp add: usable_segment_def)
qed

lemma set_segments:
  assumes "vmx_set_segment c cs VCPU_SREG_CS s = Inr t" "vmx_set_segment c ss VCPU_SREG_SS t = Inr s'"
    and "usable_segment (cs\<lparr>seg_avl := 0\<rparr>)" "usable_segment (ss\<lparr>seg_avl := 0\<rparr>)"
  shows "vmx_get_segment VCPU_SREG_CS s' = cs\<lparr>seg_avl := seg_avl cs AND 1\<rparr>"
    "vmx_get_segment VCPU_SREG_SS s' = ss\<lparr>seg_avl := seg_avl ss AND 1\<rparr>"
    "vmx_get_rip s' = vmx_get_rip s" "vmx_get_rflags s' = vmx_get_rflags s" "regs s' = regs s" "autoload_guest s' = autoload_guest s"
proof -
  have v: "vmcs s' f = vmcs t f" if "f \<notin> {GUEST_SS_SELECTOR, GUEST_SS_BASE, GUEST_SS_LIMIT, GUEST_SS_AR_BYTES}" for f
    using assms(2) that by (auto simp: vmx_set_segment_def stop_simps)
  have "vmx_get_segment VCPU_SREG_CS s' = vmx_get_segment VCPU_SREG_CS t"
    by (simp add: vmx_get_segment_def vmcs_read_def v)
  then show "vmx_get_segment VCPU_SREG_CS s' = cs\<lparr>seg_avl := seg_avl cs AND 1\<rparr>" using segment_avl[OF assms(1,3)] by simp
  show "vmx_get_segment VCPU_SREG_SS s' = ss\<lparr>seg_avl := seg_avl ss AND 1\<rparr>" by (rule segment_avl[OF assms(2,4)])
  show "vmx_get_rip s' = vmx_get_rip s" "vmx_get_rflags s' = vmx_get_rflags s" "regs s' = regs s" "autoload_guest s' = autoload_guest s"
    using assms(1,2) by (auto simp: vmx_set_segment_def stop_simps vmx_get_rip_def vmx_get_rflags_def)
qed

lemma syscall_effect:
  assumes "handle_syscall c avl s = Inr s'"
  defines "star \<equiv> SAVED_MSR SAVED_MSR_STAR s"
  shows "vmx_get_rip s' = SAVED_MSR SAVED_MSR_LSTAR s"
    "regs s' = (regs s)(VCPU_REGS_RCX := vmx_get_rip s + ucast (vmcs_read32 VM_EXIT_INSTRUCTION_LEN s), VCPU_REGS_R11 := vmx_get_rflags s)"
    "vmx_get_rflags s' = vmx_get_rflags s AND NOT (SAVED_MSR SAVED_MSR_SYSCALL_MASK s)"
    "vmx_get_segment VCPU_SREG_CS s' = (syscall_cs star (fst avl AND 1))" "vmx_get_segment VCPU_SREG_SS s' = (syscall_ss star (snd avl AND 1))"
    "autoload_guest s' = autoload_guest s"
proof -
  obtain a b d where a: "kvm_skip_emulated_instruction c s = Inr a"
    and b: "run_steps [\<lambda>s. Inr (kvm_register_write VCPU_REGS_RCX (vmx_get_rip s) s), vmx_set_rip c (SAVED_MSR SAVED_MSR_LSTAR s),
       \<lambda>s. Inr (kvm_register_write VCPU_REGS_R11 (vmx_get_rflags s) s),
       \<lambda>s. vmx_set_rflags c (vmx_get_rflags s AND NOT (SAVED_MSR SAVED_MSR_SYSCALL_MASK s)) s] a = Inr b"
    and d: "vmx_set_segment c (syscall_cs (SAVED_MSR SAVED_MSR_STAR b) (fst avl)) VCPU_SREG_CS b = Inr d"
       "vmx_set_segment c (syscall_ss (SAVED_MSR SAVED_MSR_STAR d) (snd avl)) VCPU_SREG_SS d = Inr s'"
    using assms(1) by (auto simp: handle_syscall_def and_then_eq_Inr)
  note A = skip_effect[OF a]
  have B: "vmx_get_rip b = SAVED_MSR SAVED_MSR_LSTAR s" "vmx_get_rflags b = vmx_get_rflags a AND NOT (SAVED_MSR SAVED_MSR_SYSCALL_MASK a)"
    "regs b = (regs a)(VCPU_REGS_RCX := vmx_get_rip a, VCPU_REGS_R11 := vmx_get_rflags a)" "autoload_guest b = autoload_guest a"
    using b by (auto simp: stop_simps vmx_set_rip_def vmx_set_rflags_def vmx_get_rip_def vmx_get_rflags_def kvm_register_write_def SAVED_MSR_def)
  have "autoload_guest d = autoload_guest b" using d(1) by (auto simp: vmx_set_segment_def stop_simps)
  then have st: "SAVED_MSR SAVED_MSR_STAR b = star" "SAVED_MSR SAVED_MSR_STAR d = star"
    "SAVED_MSR SAVED_MSR_SYSCALL_MASK a = SAVED_MSR SAVED_MSR_SYSCALL_MASK s"
    using A B by (simp_all add: star_def SAVED_MSR_def)
  have "usable_segment ((syscall_cs star x)\<lparr>seg_avl := 0\<rparr>)" "usable_segment ((syscall_ss star x)\<lparr>seg_avl := 0\<rparr>)" for x
    by (simp_all add: usable_segment_def syscall_cs_def syscall_ss_def)
  note S = set_segments[OF d[unfolded st] this]
  show "vmx_get_rip s' = SAVED_MSR SAVED_MSR_LSTAR s"
    "regs s' = (regs s)(VCPU_REGS_RCX := vmx_get_rip s + ucast (vmcs_read32 VM_EXIT_INSTRUCTION_LEN s), VCPU_REGS_R11 := vmx_get_rflags s)"
    "vmx_get_rflags s' = vmx_get_rflags s AND NOT (SAVED_MSR SAVED_MSR_SYSCALL_MASK s)"
    "vmx_get_segment VCPU_SREG_CS s' = (syscall_cs star (fst avl AND 1))" "vmx_get_segment VCPU_SREG_SS s' = (syscall_ss star (snd avl AND 1))"
    "autoload_guest s' = autoload_guest s"
    using A B S st by (simp_all add: syscall_cs_def syscall_ss_def)
qed

lemma sysret_effect:
  assumes "handle_sysret c avl s = Inr s'"
  defines "star \<equiv> SAVED_MSR SAVED_MSR_STAR s"
  shows "vmx_get_rip s' = regs s VCPU_REGS_RCX" "vmx_get_rflags s' = (regs s VCPU_REGS_R11 AND 0x3c7fd7) OR 2"
    "vmx_get_segment VCPU_SREG_CS s' = (sysret_cs star (fst avl AND 1))" "vmx_get_segment VCPU_SREG_SS s' = (sysret_ss star (snd avl AND 1))"
    "regs s' = regs s"
proof -
  obtain b d where b: "run_steps [\<lambda>s. vmx_set_rip c (kvm_register_read VCPU_REGS_RCX s) s,
      \<lambda>s. vmx_set_rflags c ((kvm_register_read VCPU_REGS_R11 s AND 0x3c7fd7) OR 2) s] s = Inr b"
    and d: "vmx_set_segment c (sysret_cs (SAVED_MSR SAVED_MSR_STAR b) (fst avl)) VCPU_SREG_CS b = Inr d"
       "vmx_set_segment c (sysret_ss (SAVED_MSR SAVED_MSR_STAR d) (snd avl)) VCPU_SREG_SS d = Inr s'"
    using assms(1) by (auto simp: handle_sysret_def and_then_eq_Inr)
  have B: "vmx_get_rip b = regs s VCPU_REGS_RCX" "vmx_get_rflags b = (regs s VCPU_REGS_R11 AND 0x3c7fd7) OR 2"
    "regs b = regs s" "autoload_guest b = autoload_guest s"
    using b by (auto simp: stop_simps vmx_set_rip_def vmx_set_rflags_def vmx_get_rip_def vmx_get_rflags_def kvm_register_read_def)
  have "autoload_guest d = autoload_guest b" using d(1) by (auto simp: vmx_set_segment_def stop_simps)
  then have st: "SAVED_MSR SAVED_MSR_STAR b = star" "SAVED_MSR SAVED_MSR_STAR d = star"
    using B by (simp_all add: star_def SAVED_MSR_def)
  have "usable_segment ((sysret_cs star x)\<lparr>seg_avl := 0\<rparr>)" "usable_segment ((sysret_ss star x)\<lparr>seg_avl := 0\<rparr>)" for x
    by (simp_all add: usable_segment_def sysret_cs_def sysret_ss_def)
  note S = set_segments[OF d[unfolded st] this]
  show "vmx_get_rip s' = regs s VCPU_REGS_RCX" "vmx_get_rflags s' = (regs s VCPU_REGS_R11 AND 0x3c7fd7) OR 2"
    "vmx_get_segment VCPU_SREG_CS s' = (sysret_cs star (fst avl AND 1))" "vmx_get_segment VCPU_SREG_SS s' = (sysret_ss star (snd avl AND 1))"
    "regs s' = regs s"
    using B S by (simp_all add: sysret_cs_def sysret_ss_def)
qed

section \<open>Properties\<close>

text \<open>C14: emulated system calls. \<open>handle_syscall\<close> enters the kernel as the instruction would: at
  \<open>LSTAR\<close> in ring 0, the return address in \<open>RCX\<close>, the flags in \<open>R11\<close> and masked; \<open>handle_sysret\<close>
  on the state it leaves goes back to the instruction after the \<open>syscall\<close>, in ring 3, with the
  flags of the caller restricted to those a user may have.\<close>

theorem syscall_sysret_round_trip:
  assumes "handle_syscall c a s = Inr s1" "handle_sysret c b s1 = Inr s2"
  shows "vmx_get_rip s1 = SAVED_MSR SAVED_MSR_LSTAR s \<and>
    vmx_get_rflags s1 = vmx_get_rflags s AND NOT (SAVED_MSR SAVED_MSR_SYSCALL_MASK s) \<and>
    seg_dpl (vmx_get_segment VCPU_SREG_CS s1) = 0 \<and> seg_dpl (vmx_get_segment VCPU_SREG_SS s1) = 0 \<and>
    (\<forall>r. r \<noteq> VCPU_REGS_RCX \<longrightarrow> r \<noteq> VCPU_REGS_R11 \<longrightarrow> regs s2 r = regs s r) \<and>
    vmx_get_rip s2 = vmx_get_rip s + ucast (vmcs_read32 VM_EXIT_INSTRUCTION_LEN s) \<and>
    vmx_get_rflags s2 = (vmx_get_rflags s AND 0x3c7fd7) OR 2 \<and>
    seg_dpl (vmx_get_segment VCPU_SREG_CS s2) = 3 \<and> seg_dpl (vmx_get_segment VCPU_SREG_SS s2) = 3"
  using syscall_effect[OF assms(1)] sysret_effect[OF assms(2)]
  by (simp add: syscall_cs_def syscall_ss_def sysret_cs_def sysret_ss_def)

theorem syscall_sysret_round_trip_witness:
  "\<exists>s1 s2. handle_syscall open_cpu (0, 0) zero_machine = Inr s1 \<and> handle_sysret open_cpu (0, 0) s1 = Inr s2 \<and>
     vmx_get_rflags s2 = 2 \<and> seg_dpl (vmx_get_segment VCPU_SREG_SS s2) = 3"
proof -
  have w: "vmwrite_ok open_cpu f" for f by (simp add: open_cpu_def)
  obtain s1 where s1: "handle_syscall open_cpu (0, 0) zero_machine = Inr s1"
    by (simp add: handle_syscall_def kvm_skip_emulated_instruction_def vmx_skip_emulated_instruction_def vmx_set_rip_def
        vmx_set_rflags_def vmx_set_segment_def vmcs_writes vmcs_write_def w Let_def)
  moreover obtain s2 where s2: "handle_sysret open_cpu (0, 0) s1 = Inr s2"
    by (simp add: handle_sysret_def vmx_set_rip_def vmx_set_rflags_def vmx_set_segment_def vmcs_writes vmcs_write_def w Let_def)
  moreover have "vmx_get_rflags zero_machine = 0" by (simp add: vmx_get_rflags_def zero_machine_def vmcs_reads)
  ultimately show ?thesis using syscall_sysret_round_trip[OF s1 s2] by auto
qed

text \<open>CPUID. Leaf 1 is the processor's with VMX hidden and the x2APIC and hypervisor bits set;
  leaf 4 and the KVM feature leaf are empty; the registers get the results and the instruction is
  skipped.\<close>

theorem cpuid_emulation:
  assumes "kvm_emulate_cpuid c s = Inr s'"
  defines "fn \<equiv> ucast (regs s VCPU_REGS_RAX) :: u32" and "sub \<equiv> ucast (regs s VCPU_REGS_RCX) :: u32"
  shows "(regs s' VCPU_REGS_RAX, regs s' VCPU_REGS_RBX, regs s' VCPU_REGS_RCX, regs s' VCPU_REGS_RDX) =
      (case cpuid_result c fn sub of (a, b, x, d) \<Rightarrow> (ucast a, ucast b, ucast x, ucast d)) \<and>
    (fn = 1 \<longrightarrow> (\<forall>i<32. bit (regs s' VCPU_REGS_RCX) i \<longleftrightarrow>
       i \<noteq> 5 \<and> (i = 21 \<or> i = 31 \<or> bit (fst (snd (snd (cpuid c fn sub)))) i))) \<and>
    vmx_get_rip s' = vmx_get_rip s + ucast (vmcs_read32 VM_EXIT_INSTRUCTION_LEN s)"
proof -
  obtain ea eb ec ed where r: "cpuid_result c fn sub = (ea, eb, ec, ed)" by (metis surj_pair)
  have "kvm_skip_emulated_instruction c (kvm_register_write VCPU_REGS_RDX (ucast ed) (kvm_register_write VCPU_REGS_RCX (ucast ec)
      (kvm_register_write VCPU_REGS_RBX (ucast eb) (kvm_register_write VCPU_REGS_RAX (ucast ea) s)))) = Inr s'"
    using assms(1) r by (simp add: kvm_emulate_cpuid_def kvm_register_read_def fn_def sub_def)
  note e = skip_effect[OF this, unfolded kvm_register_write_def]
  have "bit ec i \<longleftrightarrow> i \<noteq> 5 \<and> (i = 21 \<or> i = 31 \<or> bit (fst (snd (snd (cpuid c fn sub)))) i)" if "fn = 1" "i < 32" for i
  proof -
    have "ec = ((fst (snd (snd (cpuid c fn sub))) AND NOT (BIT_32 5)) OR BIT_32 21) OR BIT_32 31"
      using r that(1) by (auto simp: cpuid_result_def split_def cpuid_bit_def BIT_32_def Let_def)
    then show ?thesis using that(2) by (auto simp: bit_simps bit_BIT_32)
  qed
  then show ?thesis using e r
    by (auto simp: vmx_get_rip_def vmcs_reads bit_simps)
qed

theorem cpuid_emulation_witness:
  "\<exists>s'. kvm_emulate_cpuid open_cpu (zero_machine\<lparr>regs := (\<lambda>_. 1)\<rparr>) = Inr s' \<and> \<not> bit (regs s' VCPU_REGS_RCX) 5 \<and> bit (regs s' VCPU_REGS_RCX) 31"
proof -
  obtain s' where s': "kvm_emulate_cpuid open_cpu (zero_machine\<lparr>regs := (\<lambda>_. 1)\<rparr>) = Inr s'"
    by (simp add: kvm_emulate_cpuid_def kvm_skip_emulated_instruction_def vmx_skip_emulated_instruction_def vmx_set_rip_def
        vmcs_writes vmcs_write_def open_cpu_def split_def Let_def)
  then show ?thesis using cpuid_emulation[OF s'] by auto
qed

text \<open>C13: writes to MSRs. \<open>handle_wrmsr\<close> returns only for the three intercepted MSRs: \<open>EFER\<close> is
  stored for the guest without \<open>SCE\<close>, INIT and start-up IPIs are dropped, everything else reaches
  the MSR; \<open>IA32_APIC_BASE\<close> must keep the APIC enabled.\<close>

theorem wrmsr_emulation:
  assumes "handle_wrmsr c s = Inr s'"
  defines "msr \<equiv> ucast (regs s VCPU_REGS_RCX) :: u32" and "val \<equiv> kvm_read_edx_eax s"
  shows "(msr = MSR_IA32_APICBASE \<or> msr = APIC_ICR_MSR \<or> msr = MSR_EFER) \<and>
    (msr = MSR_IA32_APICBASE \<longrightarrow> bit val 11) \<and>
    msrs s' = (if msr = MSR_EFER \<or> msr = APIC_ICR_MSR \<and> (val AND 0x700 = 0x500 \<or> val AND 0x700 = 0x600)
      then msrs s else (msrs s)(msr := val)) \<and>
    vmcs s' GUEST_IA32_EFER = (if msr = MSR_EFER then val AND NOT EFER_SCE else vmcs s GUEST_IA32_EFER) \<and>
    vmx_get_rip s' = vmx_get_rip s + ucast (vmcs_read32 VM_EXIT_INSTRUCTION_LEN s)"
proof -
  have k: "kvm_skip_emulated_instruction c t = Inr s' \<Longrightarrow> msrs s' = msrs t \<and> vmcs s' GUEST_IA32_EFER = vmcs t GUEST_IA32_EFER \<and>
      vmx_get_rip s' = vmx_get_rip t + ucast (vmcs_read32 VM_EXIT_INSTRUCTION_LEN t)" for t
    using skip_effect(1)[of c t s']
    by (auto simp: kvm_skip_emulated_instruction_def vmx_skip_emulated_instruction_def vmx_set_rip_def stop_simps)
  note d = assms(1)[unfolded handle_wrmsr_def Let_def kvm_register_read_def msr_def[symmetric] val_def[symmetric]]
  consider "msr = MSR_IA32_APICBASE" | "msr = APIC_ICR_MSR" | "msr = MSR_EFER"
    using d by (auto split: if_splits simp: and_then_eq_Inr)
  then show ?thesis
    using d by cases (auto simp: and_then_eq_Inr vmcs_writes vmcs_write_Inr MSR_IA32_APICBASE_ENABLE_def
        vmx_get_rip_def vmcs_reads split: if_splits dest!: k)
qed

theorem wrmsr_emulation_witness:
  "\<exists>s'. handle_wrmsr open_cpu (zero_machine\<lparr>regs := (\<lambda>r. if r = 1 then 0xC0000080 else 1)\<rparr>) = Inr s' \<and>
     vmcs s' GUEST_IA32_EFER = 0x100000000"
proof -
  define s where "s = zero_machine\<lparr>regs := (\<lambda>r. if r = 1 then 0xC0000080 else 1)\<rparr>"
  have v: "kvm_read_edx_eax s = 0x100000001" by (simp add: kvm_read_edx_eax_def kvm_register_read_def s_def)
  obtain s' where s': "handle_wrmsr open_cpu s = Inr s'"
    by (simp add: handle_wrmsr_def kvm_register_read_def s_def kvm_skip_emulated_instruction_def vmx_skip_emulated_instruction_def
        vmx_set_rip_def vmcs_writes vmcs_write_def open_cpu_def Let_def)
  have "ucast (regs s VCPU_REGS_RCX) = (0xC0000080 :: u32)" by (simp add: s_def)
  then have "vmcs s' GUEST_IA32_EFER = 0x100000000" using wrmsr_emulation[OF s'] by (simp add: v EFER_SCE_def BIT_64_def)
  then show ?thesis using s' unfolding s_def by blast
qed





end
