(* ===== verification/Kvm_Loop.thy ===== *)
theory Kvm_Loop
  imports Vmx_Exit
begin

unbundle bit_operations_syntax

text \<open>
  The endless loop of vmm/kvm.c: run the guest, handle its exit, again. The loop is written
  against the operations of \<open>struct kvm_x86_ops\<close>; the locale \<open>kvm_x86_ops\<close> states what it relies
  on, and is interpreted with the operations of vmm/vmx.c. The guest and the processor between
  a VM entry and the next exit are a relation on machines, \<open>guest_effect\<close>, restricted only by
  what the processor enforces.
\<close>

section \<open>The loop\<close>

inductive kvm_loop :: "('s \<Rightarrow> 's \<Rightarrow> bool) \<Rightarrow> ('s \<Rightarrow> 's \<Rightarrow> bool) \<Rightarrow> 's \<Rightarrow> 's \<Rightarrow> bool"
  for run handle_exit where
  loop_start: "kvm_loop run handle_exit s s"
| loop_round: "kvm_loop run handle_exit s t \<Longrightarrow> run t u \<Longrightarrow> handle_exit u v \<Longrightarrow> kvm_loop run handle_exit s v"

locale kvm_x86_ops =
  fixes run :: "'s \<Rightarrow> 's \<Rightarrow> bool" and handle_exit :: "'s \<Rightarrow> 's \<Rightarrow> bool"
    and ready :: "'s \<Rightarrow> bool" and stable :: "'s \<Rightarrow> 's \<Rightarrow> bool"
  assumes run_ready: "ready s \<Longrightarrow> run s t \<Longrightarrow> ready t"
    and handle_exit_ready: "ready t \<Longrightarrow> handle_exit t u \<Longrightarrow> ready u"
    and run_stable: "ready s \<Longrightarrow> run s t \<Longrightarrow> stable s t"
    and handle_exit_stable: "ready t \<Longrightarrow> handle_exit t u \<Longrightarrow> stable t u"
    and stable_refl: "stable s s"
    and stable_trans: "stable s t \<Longrightarrow> stable t u \<Longrightarrow> stable s u"
begin

lemma loop_ready: "kvm_loop run handle_exit s t \<Longrightarrow> ready s \<Longrightarrow> ready t"
  by (induction rule: kvm_loop.induct) (auto intro: run_ready handle_exit_ready)

lemma loop_stable: "kvm_loop run handle_exit s t \<Longrightarrow> ready s \<Longrightarrow> stable s t"
proof (induction rule: kvm_loop.induct)
  case (loop_round s t u v)
  then have t: "ready t" by (blast intro: loop_ready)
  then have "ready u" by (rule run_ready) (rule loop_round.hyps)
  then have "stable t v" using t loop_round.hyps by (blast intro: stable_trans run_stable handle_exit_stable)
  then show ?case using loop_round by (blast intro: stable_trans)
qed (rule stable_refl)

end

section \<open>The guest\<close>

text \<open>
  The fields of the VMCS the processor may change while the guest runs and when it exits: the
  guest-state area, the read-only exit information, and of the controls only the IA-32e bit of
  the entry controls and the event injected on entry.
\<close>

definition guest_field :: "u32 \<Rightarrow> bool" where
  "guest_field f \<longleftrightarrow> f AND 0xc00 = 0x800 \<or> f AND 0xc00 = 0x400 \<or> f = VM_ENTRY_CONTROLS \<or> f = VM_ENTRY_INTR_INFO_FIELD"

text \<open>Stores of the guest, one byte after the other, each through the tables as they are then.\<close>

inductive guest_stores :: "u64 \<Rightarrow> mem \<Rightarrow> mem \<Rightarrow> bool" for eptp where
  no_store: "guest_stores eptp m m"
| store: "guest_stores eptp m m' \<Longrightarrow> ept_translate m' eptp gpa = Some a \<Longrightarrow> guest_stores eptp m (m'(a := b))"

text \<open>
  What may differ between VM entry and exit. Memory: only what the extended page tables let
  the guest address. CR0 and CR4: not the bits owned by the host. \<open>EFER\<close>: only \<open>LMA\<close>, when
  writes of the MSR exit. The variables of the VMM are those of the state at entry.
\<close>

definition guest_effect :: "machine \<Rightarrow> machine \<Rightarrow> bool" where
  "guest_effect s t \<longleftrightarrow>
     guest_stores (vmcs s EPT_POINTER) (memory s) (memory t) \<and>
     (\<forall>f. \<not> guest_field f \<longrightarrow> vmcs t f = vmcs s f) \<and>
     vmcs t GUEST_CR0 AND vmcs s CR0_GUEST_HOST_MASK = vmcs s GUEST_CR0 AND vmcs s CR0_GUEST_HOST_MASK \<and>
     vmcs t GUEST_CR4 AND vmcs s CR4_GUEST_HOST_MASK = vmcs s GUEST_CR4 AND vmcs s CR4_GUEST_HOST_MASK \<and>
     (exits_on_write (msr_bitmap s) MSR_EFER \<longrightarrow>
        vmcs t GUEST_IA32_EFER AND NOT EFER_LMA = vmcs s GUEST_IA32_EFER AND NOT EFER_LMA) \<and>
     msr_bitmap t = msr_bitmap s \<and> pml4_0_512g_initialized t = pml4_0_512g_initialized s \<and> ept_handler t = ept_handler s"

text \<open>One call of \<open>run\<close>: the world switch around a run of the guest; the stack pointer may be any.\<close>

definition vmx_run :: "cpu \<Rightarrow> machine \<Rightarrow> machine \<Rightarrow> bool" where
  "vmx_run c s t \<longleftrightarrow> (\<exists>hw rsp. (\<forall>op r s. guest_effect s (out_machine (hw op r s))) \<and> t = vmx_vcpu_run hw c rsp s)"

definition vmx_exit :: "cpu \<Rightarrow> layout \<Rightarrow> machine \<Rightarrow> machine \<Rightarrow> bool" where
  "vmx_exit c L t u \<longleftrightarrow> (\<exists>avl. vmx_handle_exit c L avl t = Inr u)"

section \<open>The loop with the operations of vmm/vmx.c\<close>

definition vmm_ready :: "layout \<Rightarrow> machine \<Rightarrow> bool" where
  "vmm_ready L s \<longleftrightarrow> layout_ok L \<and> vm_ok L s \<and>
     vmcs s CR0_GUEST_HOST_MASK = KVM_GUEST_CR0_ALWAYS_ON \<and> vmcs s CR4_GUEST_HOST_MASK = KVM_GUEST_CR4_ALWAYS_ON \<and>
     exits_on_write (msr_bitmap s) MSR_EFER"

text \<open>The bytes of the image that belong to the tables.\<close>

definition in_tables :: "layout \<Rightarrow> u64 \<Rightarrow> bool" where
  "in_tables L a \<longleftrightarrow> (\<exists>(T, n) \<in> tables L. unat (a - T) < 8 * n)"

definition image_kept :: "layout \<Rightarrow> machine \<Rightarrow> machine \<Rightarrow> bool" where
  "image_kept L s t \<longleftrightarrow> (\<forall>a. \<not> outside_image L (unat a) \<longrightarrow> \<not> in_tables L a \<longrightarrow> memory t a = memory s a)"

lemma guest_stores_isolated:
  assumes "guest_stores eptp m m'" "layout_ok L" "ept_ok L linked m" "take_bit 52 eptp AND NOT 0xfff = ept_pml4 L"
  shows "ept_ok L linked m' \<and> (\<forall>a. \<not> outside_image L (unat a) \<longrightarrow> m' a = m a)"
  using assms
proof (induction rule: guest_stores.induct)
  case (store m m' gpa a b)
  then have ok: "ept_ok L linked m'" and same: "\<And>x. \<not> outside_image L (unat x) \<Longrightarrow> m' x = m x" by auto
  have "outside_image L (unat a)" using ept_ok_isolates[OF store.prems(1) ok store.prems(3) store.hyps(2)] by simp
  then have "\<not> outside_image L (unat x) \<Longrightarrow> (m'(a := b)) x = m' x" for x by auto
  then show ?case using same ept_ok_frame[OF store.prems(1) _ ok, of "m'(a := b)"] by metis
qed simp

lemma guest_effect_fields:
  assumes "guest_effect s t"
  shows "vmcs t EPT_POINTER = vmcs s EPT_POINTER" "vmcs t CR0_GUEST_HOST_MASK = vmcs s CR0_GUEST_HOST_MASK"
    "vmcs t CR4_GUEST_HOST_MASK = vmcs s CR4_GUEST_HOST_MASK"
  using assms by (auto simp: guest_effect_def guest_field_def)

lemma guest_effect_ready:
  assumes e: "guest_effect s t" and r: "vmm_ready L s"
  shows "vmm_ready L t" "image_kept L s t"
proof -
  have L: "layout_ok L" and ok: "ept_ok L (pml4_0_512g_initialized s) (memory s)"
    and p: "vmcs s EPT_POINTER = ept_pml4 L OR 6 OR push_bit 3 3" and g: "guest_regs_ok s"
    using r by (simp_all add: vmm_ready_def vm_ok_def)
  have "guest_stores (ept_pml4 L OR 6 OR push_bit 3 3) (memory s) (memory t)" using e p by (simp add: guest_effect_def)
  note M = guest_stores_isolated[OF this L ok vmx_eptp(1)[OF L]]
  have sce: "vmcs t GUEST_IA32_EFER AND EFER_SCE = 0"
  proof -
    have x: "vmcs t GUEST_IA32_EFER AND NOT EFER_LMA = vmcs s GUEST_IA32_EFER AND NOT EFER_LMA"
      using e r by (simp add: guest_effect_def vmm_ready_def)
    have m: "NOT EFER_LMA AND EFER_SCE = EFER_SCE"
      by (rule bit_word_eqI) (auto simp: bit_names bit_simps bit_BIT_64)
    have "v AND EFER_SCE = (v AND NOT EFER_LMA) AND EFER_SCE" for v by (simp only: and.assoc m)
    then show ?thesis using x g by (metis guest_regs_ok_def)
  qed
  have "guest_regs_ok t" using e r g sce by (simp add: guest_effect_def vmm_ready_def guest_regs_ok_def)
  then show "vmm_ready L t" using e r M p by (simp add: vmm_ready_def vm_ok_def guest_effect_fields[OF e] guest_effect_def)
  show "image_kept L s t" using M by (simp add: image_kept_def)
qed

lemma vmm_ready_cong:
  assumes "memory t = memory s" "pml4_0_512g_initialized t = pml4_0_512g_initialized s" "msr_bitmap t = msr_bitmap s"
    and "\<And>f. f \<noteq> HOST_RSP \<Longrightarrow> vmcs t f = vmcs s f"
  shows "vmm_ready L t \<longleftrightarrow> vmm_ready L s"
  using assms by (simp add: vmm_ready_def vm_ok_def guest_regs_ok_def)

lemma vcpu_enter_frame:
  assumes "vcpu_enter c rsp s = (op, s1)"
  shows "memory s1 = memory s" "pml4_0_512g_initialized s1 = pml4_0_512g_initialized s" "msr_bitmap s1 = msr_bitmap s"
    "f \<noteq> HOST_RSP \<Longrightarrow> vmcs s1 f = vmcs s f" "op = (if launched s then VMRESUME else VMLAUNCH)" "regs s1 = regs s"
  using assms by (auto simp: vcpu_enter_def Let_def split: if_splits)

lemma vmx_run_ready:
  assumes "vmm_ready L s" "vmx_run c s t"
  shows "vmm_ready L t" "image_kept L s t"
proof -
  obtain hw rsp op s1 where e: "guest_effect s1 (out_machine (hw op (regs s1) s1))" and en: "vcpu_enter c rsp s = (op, s1)"
    and t: "t = vcpu_leave (regs s1) (hw op (regs s1) s1)"
    using assms(2) by (auto simp: vmx_run_def vmx_vcpu_run_def split_def) (metis prod.collapse)
  define m where "m = out_machine (hw op (regs s1) s1)"
  note f = vcpu_enter_frame[OF en]
  have s1: "vmm_ready L s1" using vmm_ready_cong[of s1 s L] f assms(1) by simp
  note m = guest_effect_ready[OF e[folded m_def] s1]
  have tm: "memory t = memory m" "pml4_0_512g_initialized t = pml4_0_512g_initialized m" "msr_bitmap t = msr_bitmap m" "vmcs t = vmcs m"
    by (simp_all add: t vcpu_leave_def m_def)
  show "vmm_ready L t" using vmm_ready_cong[of t m L] tm m(1) by simp
  show "image_kept L s t" using m(2) by (simp add: image_kept_def tm f)
qed

lemma keeps_ready:
  assumes "keeps handler_fields s s'"
  shows "memory s' = memory s" "msr_bitmap s' = msr_bitmap s" "pml4_0_512g_initialized s' = pml4_0_512g_initialized s"
    "f \<notin> handler_fields \<Longrightarrow> vmcs s' f = vmcs s f"
proof -
  have "s' = s\<lparr>vmcs := vmcs s', regs := regs s', msrs := msrs s'\<rparr>" using assms by (simp add: keeps_def)
  then have "memory s' = memory (s\<lparr>vmcs := vmcs s', regs := regs s', msrs := msrs s'\<rparr>)"
    "msr_bitmap s' = msr_bitmap (s\<lparr>vmcs := vmcs s', regs := regs s', msrs := msrs s'\<rparr>)"
    "pml4_0_512g_initialized s' = pml4_0_512g_initialized (s\<lparr>vmcs := vmcs s', regs := regs s', msrs := msrs s'\<rparr>)" by (rule arg_cong)+
  then show "memory s' = memory s" "msr_bitmap s' = msr_bitmap s" "pml4_0_512g_initialized s' = pml4_0_512g_initialized s" by simp_all
  show "f \<notin> handler_fields \<Longrightarrow> vmcs s' f = vmcs s f" using assms by (simp add: keeps_def)
qed

lemma vmx_exit_ready:
  assumes "vmm_ready L t" "vmx_exit c L t u"
  shows "vmm_ready L u" "image_kept L t u"
proof -
  obtain avl where h: "vmx_handle_exit c L avl t = Inr u" using assms(2) by (auto simp: vmx_exit_def)
  have L: "layout_ok L" and ok: "vm_ok L t" using assms(1) by (simp_all add: vmm_ready_def)
  have "keeps handler_fields t u \<or> vmx_handle_ept_violation L t = Inr u" by (rule handle_exit_keeps[OF h])
  then have "vmcs u CR0_GUEST_HOST_MASK = vmcs t CR0_GUEST_HOST_MASK \<and> vmcs u CR4_GUEST_HOST_MASK = vmcs t CR4_GUEST_HOST_MASK \<and>
    msr_bitmap u = msr_bitmap t \<and> image_kept L t u"
  proof
    assume k: "keeps handler_fields t u"
    have "CR0_GUEST_HOST_MASK \<notin> handler_fields" "CR4_GUEST_HOST_MASK \<notin> handler_fields"
      by (simp_all add: handler_fields_def user_fields_def segment_fields_def)
    then show ?thesis using keeps_ready[OF k] by (simp add: image_kept_def)
  next
    assume "vmx_handle_ept_violation L t = Inr u"
    then have e: "handle_ept_violation L (vmcs_read64 GUEST_PHYSICAL_ADDRESS t) t = Inr u"
      by (auto simp: vmx_handle_ept_violation_def and_then_eq_Inr)
    have "ept_ok L (pml4_0_512g_initialized t) (memory t)" using ok by (simp add: vm_ok_def)
    then obtain m where "u = t\<lparr>memory := m, pml4_0_512g_initialized := True\<rparr>" using handle_ept_violation_ok(6)[OF L _ e] by blast
    moreover have "image_kept L t u" using handle_ept_violation_tables[OF L e] by (fastforce simp: image_kept_def in_tables_def not_less)
    ultimately show ?thesis by simp
  qed
  then show "vmm_ready L u" "image_kept L t u" using handle_exit_vm_ok[OF h L ok] assms(1) by (simp_all add: vmm_ready_def)
qed

interpretation vmx: kvm_x86_ops "vmx_run c" "vmx_exit c L" "vmm_ready L" "image_kept L" for c L
proof
  show "image_kept L s s" for s by (simp add: image_kept_def)
  show "image_kept L s t \<Longrightarrow> image_kept L t u \<Longrightarrow> image_kept L s u" for s t u by (simp add: image_kept_def)
qed (auto intro: vmx_run_ready vmx_exit_ready)

section \<open>Booting the virtual CPU\<close>

definition FIRMWARE_START :: u32 where "FIRMWARE_START = 0x1000"

text \<open>\<open>kvm_bsp_run\<close> up to the loop.\<close>

definition kvm_bsp_start :: "cpu \<Rightarrow> layout \<Rightarrow> machine \<Rightarrow> stop + machine" where
  "kvm_bsp_start c L = run_steps [create_vcpu c L, run_vcpu_start c FIRMWARE_START]"

text \<open>
  What the image guarantees before the virtual CPU is created: tables empty, the VMXON and VMCS
  regions elsewhere, writes of \<open>EFER\<close> intercepted (by \<open>vmx_hardware_setup\<close>), the arrays for the
  switched MSRs at their size, and \<open>SCE\<close> clear in the \<open>EFER\<close> field, which the setup never writes.
\<close>

definition boot_ok :: "cpu \<Rightarrow> layout \<Rightarrow> machine \<Rightarrow> bool" where
  "boot_ok c L s \<longleftrightarrow> layout_ok L \<and> ept_ok L False (memory s) \<and> \<not> pml4_0_512g_initialized s \<and>
     (\<forall>(T, n) \<in> tables L. apart (vmxarea_addr c) 4 T (8 * n) \<and> apart (current_vmcs_addr c) 4 T (8 * n)) \<and>
     exits_on_write (msr_bitmap s) MSR_EFER \<and> vmcs s GUEST_IA32_EFER AND EFER_SCE = 0 \<and>
     length (autoload_guest s) = NR_AUTOLOAD_MSRS \<and> length (autoload_host s) = NR_AUTOLOAD_MSRS"

lemma write_apart_tables:
  assumes "apart a 4 T (8 * n)" "n \<le> 2048" "i < n"
  shows "read64 (write32 m a v) (slot T i) = read64 m (slot T i)"
proof (rule read64_cong)
  fix j :: nat assume j: "j < 8"
  have "slot T i + of_nat j = T + of_nat (8 * i + j)" by (simp add: slot_def)
  moreover have "4 \<le> unat (T + of_nat (8 * i + j) - a)" by (rule apart_offset[OF assms(1)]) (use assms(3) j in linarith)
  ultimately show "write32 m a v (slot T i + of_nat j) = m (slot T i + of_nat j)"
    by (simp only: write32_def write_bytes_other length_le_bytes)
qed

lemma write_apart_ept_ok:
  assumes L: "layout_ok L" and a: "\<And>T n. (T, n) \<in> tables L \<Longrightarrow> apart a 4 T (8 * n)" and m: "ept_ok L linked m"
  shows "ept_ok L linked (write32 m a v)"
proof -
  note e = write_apart_tables[OF a table_facts(2)[OF L]]
  show ?thesis using m
    by (simp add: ept_ok_def e[OF table_members(1) table_members(1)] e[OF table_members(2) table_members(2)]
        e[OF table_members(3) table_members(3)])
qed

lemma vcpu_enable_frame:
  assumes "vmx_vcpu_enable c s = Inr s'"
  shows "vmcs s' = vmcs s" "msr_bitmap s' = msr_bitmap s" "pml4_0_512g_initialized s' = pml4_0_512g_initialized s"
    "autoload_guest s' = autoload_guest s" "autoload_host s' = autoload_host s"
    "memory s' = write32 (write32 (memory s) (vmxarea_addr c) (revision_id (config s))) (current_vmcs_addr c) (revision_id (config s))"
  using assms by (auto simp: vmx_vcpu_enable_def vmcs_load_def Let_def and_then_eq_Inr split: if_splits)

lemma create_vcpu_ready:
  assumes b: "boot_ok c L s" and h: "create_vcpu c L s = Inr s'"
  shows "vmm_ready L s'"
proof -
  obtain s1 s2 where 1: "vmx_vcpu_enable c s = Inr s1" and 2: "vmx_vcpu_setup c s1 = Inr s2"
    and s': "vmwrite_ok c EPT_POINTER" "s' = s2\<lparr>vmcs := (vmcs s2)(EPT_POINTER := ept_pml4 L OR 6 OR push_bit 3 3), ept_handler := True\<rparr>"
    using h by (auto simp: create_vcpu_def stop_simps vmx_set_tdp_def)
  note f = vcpu_enable_frame[OF 1]
  have L: "layout_ok L" and m: "ept_ok L False (memory s)" and i: "\<not> pml4_0_512g_initialized s"
    and a: "\<And>T n. (T, n) \<in> tables L \<Longrightarrow> apart (vmxarea_addr c) 4 T (8 * n)"
      "\<And>T n. (T, n) \<in> tables L \<Longrightarrow> apart (current_vmcs_addr c) 4 T (8 * n)"
    and x: "exits_on_write (msr_bitmap s) MSR_EFER" "vmcs s GUEST_IA32_EFER AND EFER_SCE = 0"
    and len: "length (autoload_guest s1) = NR_AUTOLOAD_MSRS" "length (autoload_host s1) = NR_AUTOLOAD_MSRS"
    using b by (auto simp: boot_ok_def f)
  note g = vcpu_setup_frame[OF 2 len] and e = vcpu_setup_efer[OF 2 _ len, of 0]
  have "ept_ok L False (memory s1)" unfolding f by (intro write_apart_ept_ok[OF L] a m)
  then have mem: "ept_ok L (pml4_0_512g_initialized s') (memory s')" using i f g s' by simp
  have "\<not> bit (vmcs s2 GUEST_IA32_EFER) 0" using e x(2) f by (simp add: EFER_SCE_def del: bit_0)
  moreover have "(x OR y OR z OR w) AND w = w" for x y z w :: u64 by (rule bit_word_eqI) (auto simp: bit_simps)
  ultimately have "guest_regs_ok s'" using g s' by (simp add: guest_regs_ok_def EFER_SCE_def del: bit_0)
  then show ?thesis using L mem g x(1) f s' by (simp add: vmm_ready_def vm_ok_def)
qed

lemma run_vcpu_start_ready:
  assumes r: "vmm_ready L s" and h: "run_vcpu_start c ip s = Inr s'"
  shows "vmm_ready L s'"
proof -
  have k: "keeps user_fields s s'"
    using h unfolding run_vcpu_start_def
    by (rule keeps_run_steps[rotated]) (auto simp: vmx_set_rip_def vmcs_writes intro: segment_keeps keeps_vmcs_write field_sets)
  note f = keeps_ready[OF keeps_user[OF k]]
  have v: "f \<notin> user_fields \<Longrightarrow> vmcs s' f = vmcs s f" for f using k by (simp add: keeps_def)
  have "EPT_POINTER \<notin> user_fields" "CR0_GUEST_HOST_MASK \<notin> user_fields" "CR4_GUEST_HOST_MASK \<notin> user_fields"
    by (simp_all add: user_fields_def segment_fields_def)
  then show ?thesis using r f(1,2,3) v control_fields_kept by (simp add: vmm_ready_def vm_ok_def guest_regs_ok_def)
qed

lemma bsp_start_ready:
  assumes "boot_ok c L s" "kvm_bsp_start c L s = Inr s'"
  shows "vmm_ready L s'"
  using assms by (auto simp: kvm_bsp_start_def and_then_eq_Inr intro: run_vcpu_start_ready[OF create_vcpu_ready])

section \<open>What holds for ever\<close>

text \<open>C3: isolation. In every state the loop reaches from boot, whatever the guest did in between,
  the tables the processor translates guest addresses with give only identity mappings below
  4 GB outside the VMM's image, and the image itself is unchanged apart from the tables.\<close>

theorem guest_isolation:
  assumes "boot_ok c L s0" "kvm_bsp_start c L s0 = Inr s1" "kvm_loop (vmx_run c) (vmx_exit c L) s1 s"
  shows "(\<forall>gpa hpa. ept_translate (memory s) (vmcs s EPT_POINTER) gpa = Some hpa \<longrightarrow>
      hpa = gpa \<and> unat gpa < 2 ^ 32 \<and> outside_image L (unat gpa)) \<and>
    image_kept L s1 s"
proof -
  have r1: "vmm_ready L s1" by (rule bsp_start_ready[OF assms(1,2)])
  have r: "vmm_ready L s" by (rule vmx.loop_ready[OF assms(3) r1])
  then have L: "layout_ok L" and m: "ept_ok L (pml4_0_512g_initialized s) (memory s)"
    and p: "vmcs s EPT_POINTER = ept_pml4 L OR 6 OR push_bit 3 3" by (simp_all add: vmm_ready_def vm_ok_def)
  show ?thesis using ept_ok_isolates[OF L m vmx_eptp(1)[OF L]] vmx.loop_stable[OF assms(3) r1] unfolding p by blast
qed

text \<open>C4: in every state the loop reaches, the guest runs with the control-register bits the VMM
  keeps on, with \<open>syscall\<close> disabled in \<open>EFER\<close>, and with its writes of \<open>EFER\<close> intercepted.\<close>

theorem guest_control_state:
  assumes "boot_ok c L s0" "kvm_bsp_start c L s0 = Inr s1" "kvm_loop (vmx_run c) (vmx_exit c L) s1 s"
  shows "bit (vmcs s GUEST_CR0) 16 \<and> bit (vmcs s GUEST_CR0) 5 \<and> bit (vmcs s GUEST_CR4) 13 \<and>
    \<not> bit (vmcs s GUEST_IA32_EFER) 0 \<and> exits_on_write (msr_bitmap s) MSR_EFER"
proof -
  have r: "vmm_ready L s" by (rule vmx.loop_ready[OF assms(3) bsp_start_ready[OF assms(1,2)]])
  have on: "bit v n" if "v AND k = k" "bit k n" for v k :: u64 and n using that by (metis bit_and_iff)
  have b: "bit KVM_GUEST_CR0_ALWAYS_ON 16" "bit KVM_GUEST_CR0_ALWAYS_ON 5" "bit KVM_GUEST_CR4_ALWAYS_ON 13"
    by (simp_all add: KVM_GUEST_CR0_ALWAYS_ON_def KVM_GUEST_CR4_ALWAYS_ON_def bit_names bit_or_iff bit_BIT_64)
  have "\<not> bit (vmcs s GUEST_IA32_EFER) 0"
    using r by (simp add: vmm_ready_def vm_ok_def guest_regs_ok_def EFER_SCE_def del: bit_0)
  then show ?thesis using r b on unfolding vmm_ready_def vm_ok_def guest_regs_ok_def by blast
qed

section \<open>A boot\<close>

text \<open>A machine on which the virtual CPU starts: \<open>tss_machine\<close> with writes of \<open>EFER\<close> intercepted.\<close>

definition boot_machine :: machine where
  "boot_machine = tss_machine\<lparr>msr_bitmap := set_msr_interception' MSR_EFER False True (replicate 512 0)\<rparr>"

lemma empty_tables:
  assumes "\<And>x. 0x10001000 \<le> unat x \<Longrightarrow> unat x < 0x10007000 \<Longrightarrow> m x = 0"
  shows "ept_ok small_layout False m"
proof -
  have "read64 m (slot T i) = read64 (\<lambda>_. 0) (slot T i)" if "(T, n) \<in> tables small_layout" "i < n" for T n i
  proof (rule read64_cong)
    fix j :: nat assume j: "j < 8"
    have "0x10001000 \<le> unat T + 8 * i + j" "unat T + 8 * i + j < 0x10007000" using that j by (auto simp: tables_def small_layout_def)
    then show "m (slot T i + of_nat j) = 0" using unat_slot_byte[OF small_layout_ok that j] assms by metis
  qed
  note e = this
  show ?thesis by (simp add: ept_ok_def e[OF table_members(1)] e[OF table_members(2)] e[OF table_members(3)] read64_zero)
qed

lemma boot_machine_tables: "ept_ok small_layout False (memory boot_machine)"
  by (rule empty_tables) (auto simp: boot_machine_def tss_machine_def)

lemma boot_machine_ok: "boot_ok open_cpu small_layout boot_machine"
proof -
  have "exits_on_write (msr_bitmap boot_machine) MSR_EFER"
    using set_msr_interception_exits(2)[of "replicate 512 0" MSR_EFER False True MSR_EFER]
    by (simp add: boot_machine_def high_msr_def)
  then show ?thesis using small_layout_ok boot_machine_tables
    by (simp add: boot_ok_def tables_def boot_machine_def tss_machine_def zero_machine_def NR_AUTOLOAD_MSRS_def apart_def
        small_layout_def open_cpu_def)
qed

lemma open_cpuid_starts:
  fixes f :: "u32 \<Rightarrow> u32 \<Rightarrow> u32 \<times> u32 \<times> u32 \<times> u32"
  defines "c \<equiv> open_cpu\<lparr>cpuid := f\<rparr>"
  assumes "host_ok c s" "hw_cr4 s = 0"
  shows "\<exists>s'. kvm_bsp_start c small_layout s = Inr s'"
proof -
  obtain s1 where e: "vmx_vcpu_enable c s = Inr s1"
    using assms(3) by (simp add: vmx_vcpu_enable_def c_def open_cpu_def vmcs_load_def Let_def panic_if_def)
  have "host_ok c s1"
    using assms(2) vcpu_enable_frame(6)[OF e] by (simp add: host_ok_def c_def open_cpu_def write32_def write_bytes_other)
  then obtain s2 where s2: "vmx_vcpu_setup c s1 = Inr s2" "host_ok c s2"
    using vcpu_setup_returns by (auto simp: returning_def)
  have w: "vmwrite_ok c f" for f by (simp add: c_def open_cpu_def)
  show ?thesis
    by (simp add: kvm_bsp_start_def create_vcpu_def run_vcpu_start_def e s2 vmx_set_tdp_def vmx_set_segment_def vmx_set_rip_def
        vmcs_writes vmcs_write_def w)
qed

lemma open_cpu_starts: "host_ok open_cpu s \<Longrightarrow> hw_cr4 s = 0 \<Longrightarrow> \<exists>s'. kvm_bsp_start open_cpu small_layout s = Inr s'"
  using open_cpuid_starts[of "cpuid open_cpu" s] by simp

lemma boot_machine_starts: "\<exists>s. kvm_bsp_start open_cpu small_layout boot_machine = Inr s"
  using tss_machine_host by (intro open_cpu_starts) (simp_all add: host_ok_def boot_machine_def tss_machine_def zero_machine_def)

text \<open>One round: the guest touches an unmapped page, and the VMM maps it.\<close>

definition faulting_guest :: "vm_op \<Rightarrow> (nat \<Rightarrow> u64) \<Rightarrow> machine \<Rightarrow> vm_return" where
  "faulting_guest op r s = \<lparr>entry_failed = False, out_regs = r,
     out_machine = s\<lparr>vmcs := (vmcs s)(VM_EXIT_REASON := 48, GUEST_PHYSICAL_ADDRESS := 0x5000)\<rparr>\<rparr>"

lemma faulting_guest_effect: "guest_effect s (out_machine (faulting_guest op r s))"
  by (simp add: guest_effect_def faulting_guest_def guest_field_def no_store)

lemma one_round:
  obtains s t where "kvm_bsp_start open_cpu small_layout boot_machine = Inr s"
    "kvm_loop (vmx_run open_cpu) (vmx_exit open_cpu small_layout) s t" "pml4_0_512g_initialized t"
proof -
  obtain s where s: "kvm_bsp_start open_cpu small_layout boot_machine = Inr s" using boot_machine_starts by blast
  define u where "u = vmx_vcpu_run faulting_guest open_cpu 0 s"
  have h: "ept_handler s" using s
    by (auto simp: kvm_bsp_start_def create_vcpu_def run_vcpu_start_def stop_simps vmx_set_segment_def vmx_set_rip_def)
  have "ept_handler u" "vmcs u VM_EXIT_REASON = 48" "vmcs u GUEST_PHYSICAL_ADDRESS = 0x5000"
    using h by (auto simp: u_def vmx_vcpu_run_def vcpu_enter_def vcpu_leave_def faulting_guest_def Let_def)
  then obtain t where t: "vmx_handle_exit open_cpu small_layout (0, 0) u = Inr t" "pml4_0_512g_initialized t"
    by (auto simp: vmx_handle_exit_def vmx_exit_handlers_def vmx_handle_ept_violation_def handle_ept_violation_def vmcs_reads
        small_layout_def panic_if_def SZ_4G_def Let_def)
  have "vmx_run open_cpu s u" unfolding vmx_run_def u_def using faulting_guest_effect by blast
  moreover have "vmx_exit open_cpu small_layout u t" unfolding vmx_exit_def using t(1) by blast
  ultimately show ?thesis using that[OF s loop_round[OF loop_start] t(2)] by blast
qed

theorem guest_isolation_witness:
  "\<exists>s (t :: machine). kvm_bsp_start open_cpu small_layout boot_machine = Inr s \<and> pml4_0_512g_initialized t \<and>
     image_kept small_layout s t \<and> ept_translate (memory t) (vmcs t EPT_POINTER) 0x10001000 \<noteq> Some 0x10001000"
proof -
  obtain s t where s: "kvm_bsp_start open_cpu small_layout boot_machine = Inr s" and t: "pml4_0_512g_initialized t"
    and l: "kvm_loop (vmx_run open_cpu) (vmx_exit open_cpu small_layout) s t" by (rule one_round)
  have "\<not> outside_image small_layout (unat (0x10001000 :: u64))" by (simp add: outside_image_def small_layout_def)
  then show ?thesis using s t guest_isolation[OF boot_machine_ok s l] by blast
qed

theorem guest_control_state_witness:
  "\<exists>s (t :: machine). kvm_bsp_start open_cpu small_layout boot_machine = Inr s \<and> pml4_0_512g_initialized t \<and>
     bit (vmcs t GUEST_CR0) 16 \<and> \<not> bit (vmcs t GUEST_IA32_EFER) 0"
proof -
  obtain s t where s: "kvm_bsp_start open_cpu small_layout boot_machine = Inr s" and t: "pml4_0_512g_initialized t"
    and l: "kvm_loop (vmx_run open_cpu) (vmx_exit open_cpu small_layout) s t" by (rule one_round)
  show ?thesis using s t guest_control_state[OF boot_machine_ok s l] by (intro exI[of _ s] exI[of _ t]) simp
qed

end
