(* ===== verification/C_String.thy ===== *)
theory C_String
  imports Memory
begin

unbundle bit_operations_syntax

text \<open>
  The character classes of lib/ctype.c and include/sys/ctype.h, the string routines of
  lib/string.c with the word-at-a-time tricks of include/asm/word-at-a-time.h, and the
  hexadecimal conversions of lib/hexdump.c and include/sys/types.h.

  A C string is a place in memory: \<open>c_string m a xs\<close> says that the bytes \<open>xs\<close>, none of them
  NUL, stand at \<open>a\<close> with a NUL behind them. A scan for the NUL is a loop that need not end, so
  the scanning routines are partial functions: \<open>None\<close> is a scan that never returns. Pointers
  are addresses, \<open>NULL\<close> is 0.
\<close>

section \<open>Character classes\<close>

abbreviation (input) "CT_U \<equiv> (0x01 :: u8)"
abbreviation (input) "CT_L \<equiv> (0x02 :: u8)"
abbreviation (input) "CT_D \<equiv> (0x04 :: u8)"
abbreviation (input) "CT_C \<equiv> (0x08 :: u8)"
abbreviation (input) "CT_P \<equiv> (0x10 :: u8)"
abbreviation (input) "CT_S \<equiv> (0x20 :: u8)"
abbreviation (input) "CT_X \<equiv> (0x40 :: u8)"
abbreviation (input) "CT_SP \<equiv> (0x80 :: u8)"

definition ctype :: "u8 list" where
  "ctype = [
    CT_C, CT_C, CT_C, CT_C, CT_C, CT_C, CT_C, CT_C,
    CT_C, CT_C OR CT_S, CT_C OR CT_S, CT_C OR CT_S, CT_C OR CT_S, CT_C OR CT_S, CT_C, CT_C,
    CT_C, CT_C, CT_C, CT_C, CT_C, CT_C, CT_C, CT_C,
    CT_C, CT_C, CT_C, CT_C, CT_C, CT_C, CT_C, CT_C,
    CT_S OR CT_SP, CT_P, CT_P, CT_P, CT_P, CT_P, CT_P, CT_P,
    CT_P, CT_P, CT_P, CT_P, CT_P, CT_P, CT_P, CT_P,
    CT_D, CT_D, CT_D, CT_D, CT_D, CT_D, CT_D, CT_D,
    CT_D, CT_D, CT_P, CT_P, CT_P, CT_P, CT_P, CT_P,
    CT_P, CT_U OR CT_X, CT_U OR CT_X, CT_U OR CT_X, CT_U OR CT_X, CT_U OR CT_X, CT_U OR CT_X, CT_U,
    CT_U, CT_U, CT_U, CT_U, CT_U, CT_U, CT_U, CT_U,
    CT_U, CT_U, CT_U, CT_U, CT_U, CT_U, CT_U, CT_U,
    CT_U, CT_U, CT_U, CT_P, CT_P, CT_P, CT_P, CT_P,
    CT_P, CT_L OR CT_X, CT_L OR CT_X, CT_L OR CT_X, CT_L OR CT_X, CT_L OR CT_X, CT_L OR CT_X, CT_L,
    CT_L, CT_L, CT_L, CT_L, CT_L, CT_L, CT_L, CT_L,
    CT_L, CT_L, CT_L, CT_L, CT_L, CT_L, CT_L, CT_L,
    CT_L, CT_L, CT_L, CT_P, CT_P, CT_P, CT_P, CT_C,
    0, 0, 0, 0, 0, 0, 0, 0, 0, 0, 0, 0, 0, 0, 0, 0,
    0, 0, 0, 0, 0, 0, 0, 0, 0, 0, 0, 0, 0, 0, 0, 0,
    CT_S OR CT_SP, CT_P, CT_P, CT_P, CT_P, CT_P, CT_P, CT_P, CT_P, CT_P, CT_P, CT_P, CT_P, CT_P, CT_P, CT_P,
    CT_P, CT_P, CT_P, CT_P, CT_P, CT_P, CT_P, CT_P, CT_P, CT_P, CT_P, CT_P, CT_P, CT_P, CT_P, CT_P,
    CT_U, CT_U, CT_U, CT_U, CT_U, CT_U, CT_U, CT_U, CT_U, CT_U, CT_U, CT_U, CT_U, CT_U, CT_U, CT_U,
    CT_U, CT_U, CT_U, CT_U, CT_U, CT_U, CT_U, CT_P, CT_U, CT_U, CT_U, CT_U, CT_U, CT_U, CT_U, CT_L,
    CT_L, CT_L, CT_L, CT_L, CT_L, CT_L, CT_L, CT_L, CT_L, CT_L, CT_L, CT_L, CT_L, CT_L, CT_L, CT_L,
    CT_L, CT_L, CT_L, CT_L, CT_L, CT_L, CT_L, CT_P, CT_L, CT_L, CT_L, CT_L, CT_L, CT_L, CT_L, CT_L]"

definition ismask :: "u8 \<Rightarrow> u8" where
  "ismask c = ctype ! unat c"

definition isalnum :: "u8 \<Rightarrow> bool" where
  "isalnum c \<longleftrightarrow> ismask c AND (CT_U OR CT_L OR CT_D) \<noteq> 0"

definition isalpha :: "u8 \<Rightarrow> bool" where
  "isalpha c \<longleftrightarrow> ismask c AND (CT_U OR CT_L) \<noteq> 0"

definition iscntrl :: "u8 \<Rightarrow> bool" where
  "iscntrl c \<longleftrightarrow> ismask c AND CT_C \<noteq> 0"

definition isdigit :: "u8 \<Rightarrow> bool" where
  "isdigit c \<longleftrightarrow> 0x30 \<le> c \<and> c \<le> 0x39"

definition isgraph :: "u8 \<Rightarrow> bool" where
  "isgraph c \<longleftrightarrow> ismask c AND (CT_P OR CT_U OR CT_L OR CT_D) \<noteq> 0"

definition islower :: "u8 \<Rightarrow> bool" where
  "islower c \<longleftrightarrow> ismask c AND CT_L \<noteq> 0"

definition isprint :: "u8 \<Rightarrow> bool" where
  "isprint c \<longleftrightarrow> ismask c AND (CT_P OR CT_U OR CT_L OR CT_D OR CT_SP) \<noteq> 0"

definition ispunct :: "u8 \<Rightarrow> bool" where
  "ispunct c \<longleftrightarrow> ismask c AND CT_P \<noteq> 0"

definition isspace :: "u8 \<Rightarrow> bool" where
  "isspace c \<longleftrightarrow> ismask c AND CT_S \<noteq> 0"

definition isupper :: "u8 \<Rightarrow> bool" where
  "isupper c \<longleftrightarrow> ismask c AND CT_U \<noteq> 0"

definition isxdigit :: "u8 \<Rightarrow> bool" where
  "isxdigit c \<longleftrightarrow> ismask c AND (CT_D OR CT_X) \<noteq> 0"

definition isascii :: "u8 \<Rightarrow> bool" where
  "isascii c \<longleftrightarrow> c \<le> 0x7f"

definition toascii :: "u8 \<Rightarrow> u8" where
  "toascii c = c AND 0x7f"

text \<open>\<open>c -= 'A' - 'a'\<close> and \<open>c -= 'a' - 'A'\<close> on \<open>unsigned char\<close>.\<close>

definition tolower :: "u8 \<Rightarrow> u8" where
  "tolower c = (if isupper c then c - (0x41 - 0x61) else c)"

definition toupper :: "u8 \<Rightarrow> u8" where
  "toupper c = (if islower c then c - (0x61 - 0x41) else c)"

definition fast_tolower :: "u8 \<Rightarrow> u8" where
  "fast_tolower c = c OR 0x20"

definition isodigit :: "u8 \<Rightarrow> bool" where
  "isodigit c \<longleftrightarrow> 0x30 \<le> c \<and> c \<le> 0x37"

section \<open>Hexadecimal conversions\<close>

definition hex_asc :: "u8 list" where
  "hex_asc = [0x30, 0x31, 0x32, 0x33, 0x34, 0x35, 0x36, 0x37, 0x38, 0x39, 0x61, 0x62, 0x63, 0x64, 0x65, 0x66]"

definition hex_asc_upper :: "u8 list" where
  "hex_asc_upper = [0x30, 0x31, 0x32, 0x33, 0x34, 0x35, 0x36, 0x37, 0x38, 0x39, 0x41, 0x42, 0x43, 0x44, 0x45, 0x46]"

definition hex_asc_lo :: "u8 \<Rightarrow> u8" where
  "hex_asc_lo x = hex_asc ! unat (x AND 0x0f)"

definition hex_asc_hi :: "u8 \<Rightarrow> u8" where
  "hex_asc_hi x = hex_asc ! unat (drop_bit 4 (x AND 0xf0))"

definition hex_byte_pack :: "mem \<Rightarrow> u64 \<Rightarrow> u8 \<Rightarrow> mem \<times> u64" where
  "hex_byte_pack m buf byte =
     (let m = m(buf := hex_asc_hi byte); buf = buf + 1;
          m = m(buf := hex_asc_lo byte); buf = buf + 1
      in (m, buf))"

definition EINVAL :: int where
  "EINVAL = 22"

definition E2BIG :: int where
  "E2BIG = 7"

definition hex_to_bin :: "u8 \<Rightarrow> int" where
  "hex_to_bin ch =
     (if 0x30 \<le> ch \<and> ch \<le> 0x39 then int (unat (ch - 0x30))
      else let ch = tolower ch
           in if 0x61 \<le> ch \<and> ch \<le> 0x66 then int (unat (ch - 0x61)) + 10 else - 1)"

fun hex2bin :: "mem \<Rightarrow> u64 \<Rightarrow> u64 \<Rightarrow> nat \<Rightarrow> mem \<times> int" where
  "hex2bin m dst src 0 = (m, 0)"
| "hex2bin m dst src (Suc cnt) =
     (let hi = hex_to_bin (m src); lo = hex_to_bin (m (src + 1))
      in if hi < 0 \<or> lo < 0 then (m, - EINVAL)
         else hex2bin (m(dst := push_bit 4 (of_int hi) OR of_int lo)) (dst + 1) (src + 2) cnt)"

fun bin2hex :: "mem \<Rightarrow> u64 \<Rightarrow> u64 \<Rightarrow> nat \<Rightarrow> mem \<times> u64" where
  "bin2hex m dst src 0 = (m, dst)"
| "bin2hex m dst src (Suc cnt) =
     (let (m, dst) = hex_byte_pack m dst (m src) in bin2hex m dst (src + 1) cnt)"

section \<open>String routines\<close>

partial_function (option) strchr :: "mem \<Rightarrow> u64 \<Rightarrow> u32 \<Rightarrow> u64 option" where
  "strchr m s c =
     (if m s \<noteq> ucast c then if m s = 0 then Some 0 else strchr m (s + 1) c else Some s)"

partial_function (option) strcmp :: "mem \<Rightarrow> u64 \<Rightarrow> u64 \<Rightarrow> int option" where
  "strcmp m cs ct =
     (let c1 = m cs; c2 = m ct
      in if c1 \<noteq> c2 then Some (if c1 < c2 then - 1 else 1)
         else if c1 = 0 then Some 0
         else strcmp m (cs + 1) (ct + 1))"

fun strncmp :: "mem \<Rightarrow> u64 \<Rightarrow> u64 \<Rightarrow> nat \<Rightarrow> int" where
  "strncmp m cs ct 0 = 0"
| "strncmp m cs ct (Suc cnt) =
     (let c1 = m cs; c2 = m ct
      in if c1 \<noteq> c2 then (if c1 < c2 then - 1 else 1)
         else if c1 = 0 then 0
         else strncmp m (cs + 1) (ct + 1) cnt)"

partial_function (option) strlen_loop :: "mem \<Rightarrow> u64 \<Rightarrow> u64 option" where
  "strlen_loop m sc = (if m sc \<noteq> 0 then strlen_loop m (sc + 1) else Some sc)"

definition strlen :: "mem \<Rightarrow> u64 \<Rightarrow> u64 option" where
  "strlen m s = map_option (\<lambda>sc. sc - s) (strlen_loop m s)"

fun strnlen_loop :: "mem \<Rightarrow> u64 \<Rightarrow> nat \<Rightarrow> u64" where
  "strnlen_loop m sc 0 = sc"
| "strnlen_loop m sc (Suc cnt) = (if m sc \<noteq> 0 then strnlen_loop m (sc + 1) cnt else sc)"

definition strnlen :: "mem \<Rightarrow> u64 \<Rightarrow> u64 \<Rightarrow> u64" where
  "strnlen m s cnt = strnlen_loop m s (unat cnt) - s"

partial_function (option) strrchr_loop :: "mem \<Rightarrow> u64 \<Rightarrow> u32 \<Rightarrow> u64 \<Rightarrow> u64 option" where
  "strrchr_loop m s c found =
     (let found = (if m s = ucast c then s else found)
      in if m s \<noteq> 0 then strrchr_loop m (s + 1) c found else Some found)"

definition strrchr :: "mem \<Rightarrow> u64 \<Rightarrow> u32 \<Rightarrow> u64 option" where
  "strrchr m s c = strrchr_loop m s c 0"

partial_function (option) strstr_loop :: "mem \<Rightarrow> u64 \<Rightarrow> u64 \<Rightarrow> u64 \<Rightarrow> u64 \<Rightarrow> u64 option" where
  "strstr_loop m s1 s2 l1 l2 =
     (if l2 \<le> l1
      then if memcmp m s1 s2 l2 = 0 then Some s1 else strstr_loop m (s1 + 1) s2 (l1 - 1) l2
      else Some 0)"

definition strstr :: "mem \<Rightarrow> u64 \<Rightarrow> u64 \<Rightarrow> u64 option" where
  "strstr m s1 s2 =
     (case strlen m s2 of None \<Rightarrow> None
      | Some l2 \<Rightarrow> if l2 = 0 then Some s1
          else (case strlen m s1 of None \<Rightarrow> None | Some l1 \<Rightarrow> strstr_loop m s1 s2 l1 l2))"

section \<open>Word-at-a-time copying\<close>

definition REPEAT_BYTE :: "u64 \<Rightarrow> u64" where
  "REPEAT_BYTE x = (NOT 0 div 0xff) * x"

definition one_bits :: u64 where
  "one_bits = REPEAT_BYTE 0x01"

definition high_bits :: u64 where
  "high_bits = REPEAT_BYTE 0x80"

definition count_masked_bytes :: "u64 \<Rightarrow> u64" where
  "count_masked_bytes msk = drop_bit 56 (msk * 0x0001020304050608)"

definition has_zero :: "u64 \<Rightarrow> u64" where
  "has_zero a = ((a - one_bits) AND NOT a) AND high_bits"

definition prep_zero_mask :: "u64 \<Rightarrow> u64 \<Rightarrow> u64" where
  "prep_zero_mask a bits = bits"

definition create_zero_mask :: "u64 \<Rightarrow> u64" where
  "create_zero_mask bits = drop_bit 7 ((bits - 1) AND NOT bits)"

definition zero_bytemask :: "u64 \<Rightarrow> u64" where
  "zero_bytemask msk = msk"

definition find_zero :: "u64 \<Rightarrow> u64" where
  "find_zero msk = count_masked_bytes msk"

text \<open>The first loop of \<open>strscpy\<close>: it returns from the routine (\<open>Inl\<close>) at a word with a NUL, or goes on
  to the byte loop (\<open>Inr\<close>) with \<open>res\<close> and \<open>count\<close>.\<close>

function strscpy_words :: "mem \<Rightarrow> u64 \<Rightarrow> u64 \<Rightarrow> nat \<Rightarrow> nat \<Rightarrow> nat \<Rightarrow> (mem \<times> int) + (mem \<times> nat \<times> nat)" where
  "strscpy_words m dest src res cnt mx =
     (if 8 \<le> mx
      then let c = read64 m (src + of_nat res); data = has_zero c
           in if data \<noteq> 0
              then let data = create_zero_mask (prep_zero_mask c data)
                   in Inl (write64 m (dest + of_nat res) (c AND zero_bytemask data), int res + int (unat (find_zero data)))
              else strscpy_words (write64 m (dest + of_nat res) c) dest src (res + 8) (cnt - 8) (mx - 8)
      else Inr (m, res, cnt))"
  by pat_completeness auto
termination by (relation "measure (\<lambda>(m, dest, src, res, cnt, mx). mx)") auto

declare strscpy_words.simps [simp del]

fun strscpy_bytes :: "mem \<Rightarrow> u64 \<Rightarrow> u64 \<Rightarrow> nat \<Rightarrow> nat \<Rightarrow> mem \<times> int" where
  "strscpy_bytes m dest src res 0 =
     ((if res \<noteq> 0 then m(dest + of_nat res - 1 := 0) else m), - E2BIG)"
| "strscpy_bytes m dest src res (Suc cnt) =
     (let c = m (src + of_nat res); m = m(dest + of_nat res := c)
      in if c = 0 then (m, int res) else strscpy_bytes m dest src (res + 1) cnt)"

definition strscpy :: "mem \<Rightarrow> u64 \<Rightarrow> u64 \<Rightarrow> u64 \<Rightarrow> mem \<times> int" where
  "strscpy m dest src cnt =
     (if cnt = 0 then (m, - E2BIG)
      else let mx = (if (dest OR src) AND (8 - 1) \<noteq> 0 then 0 else cnt)
           in case strscpy_words m dest src 0 (unat cnt) (unat mx) of
                Inl r \<Rightarrow> r
              | Inr (m, res, cnt) \<Rightarrow> strscpy_bytes m dest src res cnt)"

section \<open>C strings in memory\<close>

primrec c_string :: "mem \<Rightarrow> u64 \<Rightarrow> u8 list \<Rightarrow> bool" where
  "c_string m a [] \<longleftrightarrow> m a = 0"
| "c_string m a (x # xs) \<longleftrightarrow> m a = x \<and> x \<noteq> 0 \<and> c_string m (a + 1) xs"

lemma c_string_bytes:
  "c_string m a xs \<longleftrightarrow> 0 \<notin> set xs \<and> read_bytes m a (length xs) = xs \<and> m (a + of_nat (length xs)) = 0"
  by (induction xs arbitrary: a) (auto simp: read_bytes_Suc ac_simps)

lemma strlen_loop_end: "c_string m a xs \<Longrightarrow> strlen_loop m a = Some (a + of_nat (length xs))"
  by (induction xs arbitrary: a) (simp_all add: strlen_loop.simps ac_simps)

lemma strlen_length: "c_string m a xs \<Longrightarrow> strlen m a = Some (of_nat (length xs))"
  by (simp add: strlen_def strlen_loop_end)

lemma strnlen_loop_end: "c_string m a xs \<Longrightarrow> strnlen_loop m a n = a + of_nat (min n (length xs))"
proof (induction xs arbitrary: a n)
  case Nil
  then show ?case by (cases n) simp_all
next
  case (Cons x xs)
  then show ?case by (cases n) (simp_all add: ac_simps)
qed

text \<open>The first and the last position of a byte in a string; the NUL counts as part of it.\<close>

primrec first_pos :: "u8 \<Rightarrow> u8 list \<Rightarrow> nat option" where
  "first_pos c [] = None"
| "first_pos c (x # xs) = (if x = c then Some 0 else map_option Suc (first_pos c xs))"

lemma first_pos_Some:
  "first_pos c xs = Some i \<longleftrightarrow> i < length xs \<and> xs ! i = c \<and> c \<notin> set (take i xs)"
proof (induction xs arbitrary: i)
  case (Cons x xs)
  then show ?case by (cases i) auto
qed simp

lemma first_pos_None: "first_pos c xs = None \<longleftrightarrow> c \<notin> set xs"
  by (induction xs) auto

lemma strchr_first:
  "c_string m a xs \<Longrightarrow>
   strchr m a c = Some (case first_pos (ucast c) (xs @ [0]) of None \<Rightarrow> 0 | Some i \<Rightarrow> a + of_nat i)"
proof (induction xs arbitrary: a)
  case (Cons x xs)
  then have "strchr m (a + 1) c = Some (case first_pos (ucast c) (xs @ [0]) of None \<Rightarrow> 0 | Some i \<Rightarrow> a + 1 + of_nat i)"
    by simp
  then show ?case using Cons.prems by (auto simp: strchr.simps ac_simps split: option.splits)
qed (simp add: strchr.simps)

primrec last_pos :: "u8 \<Rightarrow> u8 list \<Rightarrow> nat option" where
  "last_pos c [] = None"
| "last_pos c (x # xs) = (case last_pos c xs of None \<Rightarrow> if x = c then Some 0 else None | Some i \<Rightarrow> Some (Suc i))"

lemma last_pos_None: "last_pos c xs = None \<longleftrightarrow> c \<notin> set xs"
  by (induction xs) (auto split: option.splits)

lemma last_pos_Some: "last_pos c xs = Some i \<longleftrightarrow> i < length xs \<and> xs ! i = c \<and> c \<notin> set (drop (Suc i) xs)"
proof (induction xs arbitrary: i)
  case (Cons x xs)
  show ?case
  proof (cases "last_pos c xs")
    case None
    then show ?thesis using last_pos_None[of c xs] nth_mem[of _ xs] by (cases i) auto
  next
    case (Some j)
    then have "c \<in> set xs" using last_pos_None[of c xs] by auto
    moreover have "last_pos c (x # xs) = Some (Suc j)" using Some by simp
    ultimately show ?thesis using Some by (cases i) (simp_all add: Cons.IH[symmetric] del: last_pos.simps)
  qed
qed simp

lemma strrchr_loop_last:
  "c_string m a xs \<Longrightarrow>
   strrchr_loop m a c f = Some (case last_pos (ucast c) (xs @ [0]) of None \<Rightarrow> f | Some i \<Rightarrow> a + of_nat i)"
proof (induction xs arbitrary: a f)
  case Nil
  then show ?case by (simp add: strrchr_loop.simps)
next
  case (Cons x xs)
  then have "strrchr_loop m (a + 1) c g = Some (case last_pos (ucast c) (xs @ [0]) of None \<Rightarrow> g | Some i \<Rightarrow> a + 1 + of_nat i)" for g
    by simp
  then show ?case using Cons.prems
    by (auto simp: strrchr_loop.simps[of m a] ac_simps split: option.splits)
qed

lemma strcmp_order:
  "c_string m a xs \<Longrightarrow> c_string m b ys \<Longrightarrow>
   strcmp m a b = Some (if xs = ys then 0 else if ord_class.lexordp xs ys then - 1 else 1)"
proof (induction xs arbitrary: a b ys)
  case Nil
  then show ?case by (cases ys) (auto simp: strcmp.simps word_gt_0)
next
  case (Cons x xs)
  then show ?case by (cases ys) (auto simp: strcmp.simps[of m a b] word_gt_0)
qed

lemma strncmp_order:
  "c_string m a xs \<Longrightarrow> c_string m b ys \<Longrightarrow>
   strncmp m a b n = (if take n xs = take n ys then 0 else if ord_class.lexordp (take n xs) (take n ys) then - 1 else 1)"
proof (induction xs arbitrary: a b ys n)
  case Nil
  then show ?case by (cases ys; cases n) (auto simp: word_gt_0)
next
  case (Cons x xs)
  then show ?case by (cases ys; cases n) (auto simp: word_gt_0)
qed

section \<open>Searching a substring\<close>

text \<open>\<open>occurs ys xs i\<close>: \<open>ys\<close> stands at position \<open>i\<close> of \<open>xs\<close>.\<close>

definition occurs :: "u8 list \<Rightarrow> u8 list \<Rightarrow> nat \<Rightarrow> bool" where
  "occurs ys xs i \<longleftrightarrow> i + length ys \<le> length xs \<and> take (length ys) (drop i xs) = ys"

definition first_occurrence :: "u8 list \<Rightarrow> u8 list \<Rightarrow> nat option" where
  "first_occurrence ys xs = List.find (occurs ys xs) [0..<Suc (length xs)]"

lemma first_occurrence_step:
  "first_occurrence ys (x # xs) =
     (if occurs ys (x # xs) 0 then Some 0 else map_option Suc (first_occurrence ys xs))"
proof -
  have "[0..<Suc (length (x # xs))] = 0 # map Suc [0..<Suc (length xs)]"
    by (simp add: map_Suc_upt upt_conv_Cons del: upt_Suc)
  moreover have "List.find (occurs ys (x # xs)) (map Suc js) = map_option Suc (List.find (occurs ys xs) js)" for js
    by (induction js) (auto simp: occurs_def)
  ultimately show ?thesis by (simp only: first_occurrence_def find.simps)
qed

lemma memcmp_string:
  assumes "c_string m a xs" "c_string m b ys" "length ys \<le> length xs" "length ys < 2 ^ 64"
  shows "memcmp m a b (of_nat (length ys)) = 0 \<longleftrightarrow> occurs ys xs 0"
proof -
  have "read_bytes m b (length ys) = ys" "read_bytes m a (length xs) = xs"
    using assms(1,2) by (simp_all add: c_string_bytes)
  moreover have "read_bytes m a (length ys) = take (length ys) (read_bytes m a (length xs))"
    using assms(3) by (auto intro: nth_equalityI)
  ultimately show ?thesis using assms(3,4) by (auto simp: memcmp_def memcmp_loop_eq occurs_def)
qed

lemma first_occurrence_none: "length xs < length ys \<Longrightarrow> first_occurrence ys xs = None"
  by (auto simp: first_occurrence_def occurs_def find_None_iff)

lemma strstr_loop_first:
  assumes "c_string m b ys" "ys \<noteq> []" "length ys < 2 ^ 64" "c_string m a xs" "length xs < 2 ^ 64"
  shows "strstr_loop m a b (of_nat (length xs)) (of_nat (length ys)) =
    Some (case first_occurrence ys xs of None \<Rightarrow> 0 | Some i \<Rightarrow> a + of_nat i)"
  using assms(4,5)
proof (induction xs arbitrary: a)
  case Nil
  then show ?case using assms(2,3)
    by (simp add: strstr_loop.simps first_occurrence_none word_le_nat_alt word_unat_eq_iff)
next
  case (Cons x xs)
  have le: "(of_nat (length ys) :: u64) \<le> of_nat (length (x # xs)) \<longleftrightarrow> length ys \<le> length (x # xs)"
    using assms(3) Cons.prems(2) unat_offset[of "length (x # xs)"] by (simp add: word_le_nat_alt)
  show ?case
  proof (cases "length ys \<le> length (x # xs)")
    case True
    have "strstr_loop m (a + 1) b (of_nat (length xs)) (of_nat (length ys)) =
        Some (case first_occurrence ys xs of None \<Rightarrow> 0 | Some i \<Rightarrow> a + 1 + of_nat i)"
      using Cons by simp
    then show ?thesis using True le memcmp_string[OF Cons.prems(1) assms(1) True assms(3)]
      by (auto simp: strstr_loop.simps[of m a] first_occurrence_step ac_simps split: option.splits)
  next
    case False
    then show ?thesis using le by (auto simp: strstr_loop.simps[of m a] first_occurrence_none)
  qed
qed

section \<open>Finding the NUL of a word\<close>

lemma le_word_Cons_add: "(le_word (b # bs) :: u64) = ucast b + 256 * le_word bs"
proof -
  have "(ucast b :: u64) AND push_bit 8 (le_word bs) = 0"
    by (rule bit_word_eqI) (auto simp: bit_simps dest: bit_imp_le_length)
  then show ?thesis by (simp add: disjunctive_add_eq_or[symmetric] push_bit_eq_mult)
qed

text \<open>Bit \<open>8 j + 7\<close> of \<open>(w - 0x01...01) & ~w\<close> tells whether byte \<open>j\<close> is the NUL, when no byte below is.\<close>

lemma borrow_step:
  fixes y r :: u64
  assumes "b \<noteq> (0 :: u8)" "8 + k < 64"
  shows "bit ((ucast b + 256 * y) - (1 + 256 * r)) (8 + k) \<longleftrightarrow> bit (y - r) k"
proof -
  have b1: "(ucast b :: u64) - 1 = ucast (b - 1)"
  proof -
    have "unat (b - 1) = unat b - 1" "0 < unat b" using assms(1) by (simp_all add: unat_minus_one unat_gt_0)
    moreover have "unat (ucast b :: u64) = unat b" "unat (ucast (b - 1) :: u64) = unat (b - 1)"
      using unat_lt_pow[of b] unat_lt_pow[of "b - 1"]
      by (simp_all add: unsigned_ucast_eq take_bit_nat_eq_self del: unsigned_less)
    ultimately show ?thesis by (simp add: word_unat_eq_iff[where 'a = 64] unat_minus_one word_unat_eq_iff[where 'a = 64, of _ 0])
  qed
  have d: "(ucast b + 256 * y) - (1 + 256 * r) = ucast (b - 1) + push_bit 8 (y - r)"
    using b1 by (simp add: push_bit_eq_mult algebra_simps)
  have "(ucast (b - 1) :: u64) AND push_bit 8 (y - r) = 0"
    by (rule bit_word_eqI) (auto simp: bit_simps dest: bit_imp_le_length)
  then have "ucast (b - 1) + push_bit 8 (y - r) = (ucast (b - 1) :: u64) OR push_bit 8 (y - r)"
    by (simp add: disjunctive_add_eq_or)
  then show ?thesis using assms(2) bit_imp_le_length[of "b - 1" "8 + k"] by (auto simp: d bit_simps)
qed

lemma low_byte_zero:
  fixes w r :: u64
  shows "bit (ucast b + 256 * w - (1 + 256 * r) :: u64) 7 \<and> \<not> bit b 7 \<longleftrightarrow> (b :: u8) = 0"
proof -
  let ?d = "ucast b + 256 * w - (1 + 256 * r) :: u64"
  have "ucast ?d = b - (1 :: u8)"
  proof (rule word_uint_eqI)
    have "256 * uint w - 256 * uint r = 256 * (uint w - uint r)" by simp
    then have e: "uint b + 256 * uint w - (1 + 256 * uint r) = (uint b - 1) + 256 * (uint w - uint r)" by simp
    have "uint (ucast ?d :: u8) = (uint b + 256 * uint w - (1 + 256 * uint r)) mod 18446744073709551616 mod 256"
      by (simp add: uint_word_ariths mod_simps unsigned_ucast_eq take_bit_eq_mod)
    also have "\<dots> = (uint b + 256 * uint w - (1 + 256 * uint r)) mod 256"
      by (rule mod_mod_cancel) simp
    also have "\<dots> = (uint b - 1) mod 256" unfolding e by (simp only: mod_mult_self2)
    finally show "uint (ucast ?d :: u8) = uint (b - 1)" by (simp add: uint_word_ariths)
  qed
  then have "bit ?d 7 \<longleftrightarrow> bit (b - 1) 7" using bit_ucast_iff[of ?d 7, where 'a = 8] by simp
  moreover have "bit (b - 1) 7 \<and> \<not> bit b 7 \<longleftrightarrow> b = 0"
  proof -
    have bit7: "bit w 7 \<longleftrightarrow> 128 \<le> unat w" for w :: u8
    proof -
      have "bit w 7 \<longleftrightarrow> odd (unat w div 128)"
        using bit_unsigned_iff[of w 7, where 'a = nat] by (simp add: bit_iff_odd)
      moreover have "unat w < 256" using unat_lt_pow[of w] by simp
      then have "unat w div 128 = (if 128 \<le> unat w then 1 else 0)" by (auto intro: div_nat_eqI)
      ultimately show ?thesis by simp
    qed
    have "unat b < 256" using unat_lt_pow[of b] by simp
    then show ?thesis
      by (cases "b = 0") (auto simp: bit7 unat_minus_one unsigned_minus_1_eq_mask mask_eq_exp_minus_1)
  qed
  ultimately show ?thesis by simp
qed

lemma nul_bit:
  assumes "j < length bs" "length bs \<le> 8" "\<forall>i<j. bs ! i \<noteq> 0"
  shows "bit (le_word bs - le_word (replicate (length bs) 1) :: u64) (8 * j + 7) \<and> \<not> bit (bs ! j) 7 \<longleftrightarrow> bs ! j = 0"
  using assms
proof (induction bs arbitrary: j)
  case (Cons b bs)
  have w: "(le_word (replicate (length (b # bs)) 1) :: u64) = 1 + 256 * le_word (replicate (length bs) 1)"
    using le_word_Cons_add[of 1 "replicate (length bs) 1"] by simp
  show ?case
  proof (cases j)
    case 0
    then show ?thesis using low_byte_zero[of b] unfolding w le_word_Cons_add by simp
  next
    case (Suc i)
    have "b \<noteq> 0" using Cons.prems(3) Suc by force
    moreover have "8 + (8 * i + 7) < 64" using Cons.prems Suc by auto
    ultimately have "bit ((ucast b + 256 * le_word bs) - (1 + 256 * le_word (replicate (length bs) 1)) :: u64) (8 + (8 * i + 7)) \<longleftrightarrow>
        bit (le_word bs - le_word (replicate (length bs) 1) :: u64) (8 * i + 7)" by (rule borrow_step)
    moreover have "\<forall>k<i. bs ! k \<noteq> 0" using Cons.prems(3) Suc by force
    moreover have "8 * j + 7 = 8 + (8 * i + 7)" using Suc by simp
    ultimately show ?thesis using Cons.IH[of i] Cons.prems Suc unfolding w le_word_Cons_add by simp
  qed
qed simp

lemma replicate_8: "replicate 8 x = [x, x, x, x, x, x, x, x]"
  by (simp add: numeral_eq_Suc)

lemma one_bits_bytes: "one_bits = le_word (replicate 8 1)"
  by (simp add: one_bits_def REPEAT_BYTE_def replicate_8)

lemma bit_le_word_replicate:
  "bit (le_word (replicate k b) :: 'a::len word) n \<longleftrightarrow> n < LENGTH('a) \<and> n div 8 < k \<and> bit b (n mod 8)"
  by (auto simp: bit_le_word)

lemma bit_high_bits: "bit high_bits n \<longleftrightarrow> n < 64 \<and> n mod 8 = 7"
proof -
  have h: "high_bits = le_word (replicate 8 0x80)" by (simp add: high_bits_def REPEAT_BYTE_def replicate_8)
  have b: "bit (0x80 :: u8) k \<longleftrightarrow> k = 7" for k using bit_push_bit_1[of 7 k, where 'a = 8] by simp
  show ?thesis unfolding h bit_le_word_replicate b by auto
qed

lemma has_zero_bit:
  assumes "length bs = 8" "j < 8" "\<forall>i<j. bs ! i \<noteq> 0"
  shows "bit (has_zero (le_word bs)) (8 * j + 7) \<longleftrightarrow> bs ! j = 0"
proof -
  have "bit (le_word bs :: u64) (8 * j + 7) \<longleftrightarrow> bit (bs ! j) 7" using assms(1,2) by (simp add: bit_le_word)
  then show ?thesis using nul_bit[of j bs] assms by (auto simp: has_zero_def one_bits_bytes bit_simps bit_high_bits)
qed

lemma has_zero_bits: "bit (has_zero w) n \<Longrightarrow> n < 64 \<and> n mod 8 = 7"
  by (simp add: has_zero_def bit_simps bit_high_bits)

lemma has_zero_none:
  assumes "length bs = 8" "0 \<notin> set bs"
  shows "has_zero (le_word bs) = 0"
proof (rule ccontr)
  assume "has_zero (le_word bs) \<noteq> 0"
  then obtain n where n: "bit (has_zero (le_word bs)) n" by (auto simp: word_nonzero_bit)
  then have "n < 64" "n = 8 * (n div 8) + 7" using has_zero_bits[OF n] mult_div_mod_eq[of 8 n] by simp_all
  moreover have "\<forall>i<8. bs ! i \<noteq> 0" using assms by (metis nth_mem)
  ultimately show False using n has_zero_bit[of bs "n div 8"] assms(1) by auto
qed

text \<open>The lowest set bit \<open>l\<close> of a word turns into the mask of the bits below it.\<close>

lemma below_lowest:
  fixes w :: u64
  assumes "bit w l" "\<forall>i<l. \<not> bit w i"
  shows "(w - 1) AND NOT w = mask l"
proof -
  have l: "l < 64" using assms(1) bit_imp_le_length by fastforce
  define y where "y = drop_bit l w"
  have w: "w = push_bit l y"
  proof (rule bit_word_eqI)
    show "bit w n = bit (push_bit l y) n" for n
      using assms(2) bit_imp_le_length[of w n] by (cases "n < l") (auto simp: y_def bit_simps)
  qed
  have y: "odd y" using assms(1) l by (simp add: y_def even_drop_bit_iff_not_bit)
  have "push_bit l y - 1 = push_bit l (y - 1) + mask l"
    by (simp add: push_bit_eq_mult mask_eq_exp_minus_1 algebra_simps)
  also have "\<dots> = push_bit l (y - 1) OR mask l"
    by (rule disjunctive_add_eq_or) (auto simp: bit_simps intro!: bit_word_eqI)
  finally have m: "w - 1 = push_bit l (y - 1) OR mask l" using w by simp
  show ?thesis
  proof (rule bit_word_eqI)
    fix n
    assume n: "n < LENGTH(64)"
    have "bit (y - 1) k \<longrightarrow> bit y k" for k
      using y even_bit_succ_iff[of "y - 1" k] by simp
    moreover have "bit w n \<longleftrightarrow> l \<le> n \<and> bit y (n - l)" using n by (subst w) (simp add: bit_simps)
    ultimately show "bit ((w - 1) AND NOT w) n = bit (mask l :: u64) n"
      using n by (auto simp: m bit_simps)
  qed
qed

lemma first_nul:
  assumes "length bs = 8" "k < 8" "bs ! k = 0" "\<forall>i<k. bs ! i \<noteq> 0"
  shows "has_zero (le_word bs) \<noteq> 0"
    "create_zero_mask (has_zero (le_word bs)) = mask (8 * k)"
    "le_word bs AND mask (8 * k) = (le_word (take k bs @ replicate (8 - k) 0) :: u64)"
proof -
  have z: "bit (has_zero (le_word bs)) (8 * k + 7)" using assms has_zero_bit by blast
  then show "has_zero (le_word bs) \<noteq> 0" by (auto simp: word_nonzero_bit)
  have "\<not> bit (has_zero (le_word bs)) n" if n: "n < 8 * k + 7" for n
  proof
    assume b: "bit (has_zero (le_word bs)) n"
    then have e: "n = 8 * (n div 8) + 7" using has_zero_bits[OF b] mult_div_mod_eq[of 8 n] by simp
    then have "n div 8 < k" using n by simp
    then show False using b e has_zero_bit[of bs "n div 8"] assms by auto
  qed
  then have "(has_zero (le_word bs) - 1) AND NOT (has_zero (le_word bs)) = mask (8 * k + 7)"
    using z below_lowest by blast
  then show "create_zero_mask (has_zero (le_word bs)) = mask (8 * k)"
    using assms(2) by (auto simp: create_zero_mask_def bit_simps intro!: bit_word_eqI)
  show "le_word bs AND mask (8 * k) = (le_word (take k bs @ replicate (8 - k) 0) :: u64)"
  proof (rule bit_word_eqI)
    fix n assume n: "n < LENGTH(64)"
    have "n < 8 * k \<longleftrightarrow> n div 8 < k" by auto
    then show "bit (le_word bs AND mask (8 * k) :: u64) n = bit (le_word (take k bs @ replicate (8 - k) 0) :: u64) n"
      using n assms(1,2) by (auto simp: bit_simps bit_le_word nth_append)
  qed
qed

lemma find_zero_mask: "k < 8 \<Longrightarrow> find_zero (mask (8 * k)) = of_nat k"
proof -
  have "\<forall>k\<in>set [0..<8]. find_zero (mask (8 * k)) = of_nat k"
    by (simp add: find_zero_def count_masked_bytes_def mask_eq_exp_minus_1 upt_rec)
  then show "k < 8 \<Longrightarrow> find_zero (mask (8 * k)) = of_nat k" by simp
qed

section \<open>Correctness of \<open>strscpy\<close>\<close>

lemma write_bytes_append:
  assumes "length xs + length ys \<le> 2 ^ 64"
  shows "write_bytes (write_bytes m a xs) (a + of_nat (length xs)) ys = write_bytes m a (xs @ ys)"
proof
  fix x
  define u where "u = x - a"
  have e: "x - (a + of_nat (length xs)) = u - of_nat (length xs)" by (simp add: u_def)
  show "write_bytes (write_bytes m a xs) (a + of_nat (length xs)) ys x = write_bytes m a (xs @ ys) x"
  proof (cases "ys = []")
    case False
    then have "length xs < 2 ^ 64" using assms by (cases ys) auto
    then have "unat (u - of_nat (length xs)) =
        (if length xs \<le> unat u then unat u - length xs else unat u + 2 ^ 64 - length xs)"
      by (simp add: unat_sub_if')
    then show ?thesis using assms
      by (auto simp: write_bytes_def e u_def[symmetric] nth_append)
  qed simp
qed

text \<open>\<open>copied m dest bs k m'\<close>: memory \<open>m'\<close> is \<open>m\<close> with the first \<open>k\<close> of the bytes \<open>bs\<close> and a NUL at \<open>dest\<close>,
  and nothing written past the length of \<open>bs\<close>.\<close>

definition copied :: "mem \<Rightarrow> u64 \<Rightarrow> u8 list \<Rightarrow> nat \<Rightarrow> mem \<Rightarrow> bool" where
  "copied m dest bs k m' \<longleftrightarrow>
     (\<exists>zs. m' = write_bytes m dest (take k bs @ 0 # zs) \<and> k < length bs \<and> Suc k + length zs \<le> length bs)"

definition strscpy_ok :: "mem \<Rightarrow> u64 \<Rightarrow> u8 list \<Rightarrow> mem \<times> int \<Rightarrow> bool" where
  "strscpy_ok m dest bs r \<longleftrightarrow>
     (case first_pos 0 bs of
        Some k \<Rightarrow> snd r = int k \<and> copied m dest bs k (fst r)
      | None \<Rightarrow> snd r = - E2BIG \<and> copied m dest bs (length bs - 1) (fst r))"

lemma read_source:
  assumes "apart dest n src n" "k \<le> n" "k + i \<le> n" "n < 2 ^ 64"
  shows "read_bytes (write_bytes m dest (take k (read_bytes m src n))) (src + of_nat k) i = take i (drop k (read_bytes m src n))"
proof (rule nth_equalityI)
  fix j assume "j < length (read_bytes (write_bytes m dest (take k (read_bytes m src n))) (src + of_nat k) i)"
  then have j: "j < i" by simp
  have "n \<le> unat (src + of_nat (k + j) - dest)" using apart_offset[OF assms(1), of "k + j"] assms(3) j by simp
  then show "read_bytes (write_bytes m dest (take k (read_bytes m src n))) (src + of_nat k) i ! j =
      take i (drop k (read_bytes m src n)) ! j"
    using j assms by (simp add: write_bytes_other ac_simps)
qed (use assms in simp)

lemma take_append_chunk: "take k xs @ take i (drop k xs) = take (k + i) xs"
  by (simp add: take_add)

lemma strscpy_bytes_ok:
  assumes "apart dest n src n" "n < 2 ^ 64" "0 < n" "k + i = n"
    and "0 \<notin> set (take k (read_bytes m src n))"
  shows "strscpy_ok m dest (read_bytes m src n)
    (strscpy_bytes (write_bytes m dest (take k (read_bytes m src n))) dest src k i)"
  using assms(4,5)
proof (induction i arbitrary: k)
  case 0
  let ?bs = "read_bytes m src n"
  have k: "k = n" "first_pos 0 ?bs = None" using 0 by (simp_all add: first_pos_None)
  have "(write_bytes m dest (xs @ [y]))(dest + of_nat (length xs) := 0) = write_bytes m dest (xs @ [0])" if "length xs < 2 ^ 64" for xs y
    using that write_bytes_append[of xs "[y]" m dest] write_bytes_append[of xs "[0]" m dest]
      write_bytes_Cons[of "[]" _ "dest + of_nat (length xs)"] by simp (metis fun_upd_upd)
  note upd = this[of "butlast ?bs" "last ?bs"]
  have b: "butlast ?bs @ [last ?bs] = ?bs" using assms(3) by (metis append_butlast_last_id length_0_conv length_read_bytes less_numeral_extra(3))
  have "of_nat n - 1 = (of_nat (n - 1) :: u64)" using assms(3) by (simp add: of_nat_diff)
  then have "(write_bytes m dest ?bs)(dest + of_nat n - 1 := 0) = write_bytes m dest (butlast ?bs @ [0])"
    using upd assms(2) unfolding b by (simp add: add_diff_eq[symmetric])
  then show ?case using k assms(3)
    by (auto simp: strscpy_ok_def copied_def butlast_conv_take intro!: exI[of _ "[]"])
next
  case (Suc i)
  let ?bs = "read_bytes m src n"
  let ?m = "write_bytes m dest (take k ?bs)"
  have kn: "k < n" using Suc.prems by simp
  have "read_bytes ?m (src + of_nat k) 1 = [?bs ! k]"
    using read_source[OF assms(1), of k 1 m] kn assms(2) by (simp add: take_Suc hd_drop_conv_nth)
  then have c: "?m (src + of_nat k) = ?bs ! k" by (simp add: read_bytes_def)
  have upd: "?m(dest + of_nat k := ?bs ! k) = write_bytes m dest (take (k + 1) ?bs)"
    using write_bytes_append[of "take k ?bs" "[?bs ! k]" m dest] kn assms(2) write_bytes_Cons[of "[]" ?m "dest + of_nat k" "?bs ! k"]
    by (simp add: take_Suc_conv_app_nth)
  show ?case
  proof (cases "?bs ! k = 0")
    case True
    have "first_pos 0 ?bs = Some k" using True kn Suc.prems(2) by (simp add: first_pos_Some)
    moreover have "take (Suc k) ?bs = take k ?bs @ 0 # []" using True kn by (simp add: take_Suc_conv_app_nth)
    ultimately show ?thesis using True upd kn
      by (auto simp: c strscpy_ok_def copied_def simp del: nth_read_bytes intro!: exI[of _ "[]"])
  next
    case False
    have "0 \<notin> set (take (k + 1) ?bs)" using Suc.prems(2) False kn by (simp add: take_Suc_conv_app_nth)
    then show ?thesis using Suc.IH[of "k + 1"] Suc.prems(1) False upd by (simp add: c Let_def del: nth_read_bytes)
  qed
qed

lemma strscpy_words_ok:
  assumes "apart dest n src n" "n < 2 ^ 64" "0 < n"
    and "k + i = n" "mx \<le> i" "0 \<notin> set (take k (read_bytes m src n))"
  shows "case strscpy_words (write_bytes m dest (take k (read_bytes m src n))) dest src k i mx of
      Inl r \<Rightarrow> strscpy_ok m dest (read_bytes m src n) r
    | Inr (m', k', i') \<Rightarrow> k' + i' = n \<and> m' = write_bytes m dest (take k' (read_bytes m src n)) \<and> 0 \<notin> set (take k' (read_bytes m src n))"
  using assms(4-6)
proof (induction mx arbitrary: k i rule: less_induct)
  case (less mx)
  let ?bs = "read_bytes m src n"
  let ?m = "write_bytes m dest (take k ?bs)"
  show ?case
  proof (cases "8 \<le> mx")
    case False
    then show ?thesis using less.prems by (simp add: strscpy_words.simps)
  next
    case True
    define w where "w = take 8 (drop k ?bs)"
    have w8: "length w = 8" "k + 8 \<le> n" using less.prems True by (simp_all add: w_def)
    have c: "read64 ?m (src + of_nat k) = le_word w"
      using read_source[OF assms(1), of k 8 m] w8 assms(2) by (simp add: read64_def w_def)
    have wr: "write64 ?m (dest + of_nat k) v = write_bytes m dest (take k ?bs @ le_bytes 8 v)" for v
      using write_bytes_append[of "take k ?bs" "le_bytes 8 v" m dest] w8(2) assms(2) by (simp add: write64_def del: le_bytes.simps)
    have chunk: "take k ?bs @ w = take (k + 8) ?bs" by (simp add: w_def take_append_chunk)
    show ?thesis
    proof (cases "0 \<in> set w")
      case False
      have "le_bytes 8 (le_word w :: u64) = w" using le_bytes_word[of w, where 'a = 64] w8 by simp
      then have "strscpy_words ?m dest src k i mx = strscpy_words (write_bytes m dest (take (k + 8) ?bs)) dest src (k + 8) (i - 8) (mx - 8)"
        using True w8 False chunk by (subst strscpy_words.simps) (simp add: c has_zero_none wr)
      moreover have "0 \<notin> set (take (k + 8) ?bs)" using False less.prems(3) chunk[symmetric] by simp
      ultimately show ?thesis using less.IH[of "mx - 8" "k + 8" "i - 8"] True less.prems by simp
    next
      case zero: True
      then obtain z where z: "first_pos 0 w = Some z" using first_pos_None[of 0 w] by auto
      then have zz: "z < 8" "w ! z = 0" "\<forall>j<z. w ! j \<noteq> 0"
        using w8 by (auto simp: first_pos_Some in_set_conv_nth)
      note f = first_nul[OF w8(1) zz]
      let ?o = "take z w @ replicate (8 - z) 0"
      have o: "le_bytes 8 (le_word ?o :: u64) = ?o" using le_bytes_word[of ?o, where 'a = 64] w8 zz(1) by simp
      have uz: "uint (of_nat z :: u64) = int z"
        using zz(1) by (simp add: unsigned_of_nat take_bit_eq_mod)
      have r: "strscpy_words ?m dest src k i mx = Inl (write_bytes m dest (take k ?bs @ ?o), int (k + z))"
        using True f zz(1) o uz by (subst strscpy_words.simps)
          (simp add: c wr prep_zero_mask_def zero_bytemask_def find_zero_mask del: le_bytes.simps replicate.simps)
      have tz: "take k ?bs @ take z w = take (k + z) ?bs" using zz(1) by (simp add: w_def take_append_chunk min_def)
      have "first_pos 0 ?bs = Some (k + z)"
      proof -
        have "?bs ! (k + z) = 0" using zz w8 by (simp add: w_def del: nth_read_bytes)
        moreover have "0 \<notin> set (take (k + z) ?bs)" using less.prems(3) zz(3) w8(1) zz(1)
          by (simp add: tz[symmetric] in_set_conv_nth)
        ultimately show ?thesis using w8 zz(1) by (simp add: first_pos_Some del: nth_read_bytes)
      qed
      moreover have "replicate (8 - z) 0 = 0 # replicate (7 - z) (0 :: u8)" using zz(1) by (simp add: Suc_diff_Suc flip: replicate_Suc)
      ultimately show ?thesis using r w8 zz(1) tz
        by (auto simp: strscpy_ok_def copied_def simp flip: append_assoc intro!: exI[of _ "replicate (7 - z) 0"])
    qed
  qed
qed

section \<open>Hexadecimal round trip\<close>

lemma hex_digit: "n < 16 \<Longrightarrow> hex_to_bin (hex_asc ! n) = int n"
proof -
  have "\<forall>n\<in>set [0..<16]. hex_to_bin (hex_asc ! n) = int n"
    by (simp add: upt_rec hex_asc_def hex_to_bin_def tolower_def isupper_def ismask_def ctype_def)
  then show "n < 16 \<Longrightarrow> hex_to_bin (hex_asc ! n) = int n" by simp
qed

lemma hex_halves:
  "hex_to_bin (hex_asc_hi b) = int (unat (drop_bit 4 (b AND 0xf0)))" "hex_to_bin (hex_asc_lo b) = int (unat (b AND 0x0f))"
  "push_bit 4 (drop_bit 4 (b AND 0xf0)) OR (b AND 0x0f) = b"
proof -
  have "unat (b AND mask 4) < 16" by (simp only: unat_and_mask) simp
  then show "hex_to_bin (hex_asc_lo b) = int (unat (b AND 0x0f))"
    by (simp add: hex_asc_lo_def hex_digit mask_eq_exp_minus_1)
  have "unat (drop_bit 4 w) < 16" for w :: u8
  proof -
    have "unat (drop_bit 4 w) = unat w div 16" by (simp only: unat_drop_bit_eq) (simp add: drop_bit_eq_div)
    then show ?thesis using unat_lt_pow[of w] by (simp add: less_mult_imp_div_less)
  qed
  then show "hex_to_bin (hex_asc_hi b) = int (unat (drop_bit 4 (b AND 0xf0)))"
    unfolding hex_asc_hi_def by (intro hex_digit)
  have f0: "(0xf0 :: u8) = NOT (mask 4)" "(0x0f :: u8) = mask 4" by (simp_all add: mask_eq_exp_minus_1)
  show "push_bit 4 (drop_bit 4 (b AND 0xf0)) OR (b AND 0x0f) = b"
    unfolding f0 by (rule bit_word_eqI) (auto simp: bit_simps)
qed

definition hex_text :: "u8 list \<Rightarrow> u8 list" where
  "hex_text bs = concat (map (\<lambda>b. [hex_asc_hi b, hex_asc_lo b]) bs)"

lemma length_hex_text [simp]: "length (hex_text bs) = 2 * length bs"
  by (simp add: hex_text_def length_concat sum_list_triv comp_def)

lemma hex_text_snoc: "hex_text (bs @ [b]) = hex_text bs @ [hex_asc_hi b, hex_asc_lo b]"
  by (simp add: hex_text_def)

lemma nth_hex_text:
  "i < length bs \<Longrightarrow> hex_text bs ! (2 * i) = hex_asc_hi (bs ! i) \<and> hex_text bs ! Suc (2 * i) = hex_asc_lo (bs ! i)"
proof (induction bs rule: rev_induct)
  case (snoc b bs)
  then show ?case by (cases "i < length bs") (auto simp: hex_text_snoc nth_append less_Suc_eq)
qed simp

lemma bin2hex_text:
  assumes "apart dst (2 * n) src n" "2 * n < 2 ^ 64" "k + i = n"
  shows "bin2hex (write_bytes m dst (hex_text (take k (read_bytes m src n)))) (dst + of_nat (2 * k)) (src + of_nat k) i =
    (write_bytes m dst (hex_text (read_bytes m src n)), dst + of_nat (2 * n))"
  using assms(3)
proof (induction i arbitrary: k)
  case (Suc i)
  let ?bs = "read_bytes m src n"
  let ?m = "write_bytes m dst (hex_text (take k ?bs))"
  have k: "k < n" using Suc.prems by simp
  have "2 * n \<le> unat (src + of_nat k - dst)" using apart_offset[OF assms(1)] k by simp
  then have c: "?m (src + of_nat k) = ?bs ! k" using k by (simp add: write_bytes_other)
  have "?m(dst + of_nat (2 * k) := x, dst + of_nat (2 * k) + 1 := y) = write_bytes m dst (hex_text (take k ?bs) @ [x, y])" for x y
    using write_bytes_append[of "hex_text (take k ?bs)" "[x, y]" m dst] k assms(2) by (simp add: write_bytes_Cons min_absorb2)
  then have p: "hex_byte_pack ?m (dst + of_nat (2 * k)) (?bs ! k) =
      (write_bytes m dst (hex_text (take (Suc k) ?bs)), dst + of_nat (2 * Suc k))"
    using k by (simp add: hex_byte_pack_def Let_def take_Suc_conv_app_nth hex_text_snoc ac_simps del: nth_read_bytes)
  then show ?case using Suc.IH[of "Suc k"] Suc.prems by (simp add: c ac_simps del: nth_read_bytes)
qed simp

lemma hex2bin_byte:
  assumes "m src = hex_asc_hi b" "m (src + 1) = hex_asc_lo b"
  shows "hex2bin m dst src (Suc i) = hex2bin (m(dst := b)) (dst + 1) (src + 2) i"
proof -
  define hi lo where "hi = drop_bit 4 (b AND 0xf0)" and "lo = b AND 0x0f"
  have "hex_to_bin (m src) = int (unat hi)" "hex_to_bin (m (src + 1)) = int (unat lo)" "push_bit 4 hi OR lo = b"
    using assms hex_halves[of b] by (simp_all only: hi_def lo_def)
  then show ?thesis by (simp add: Let_def)
qed

lemma hex2bin_text:
  assumes "apart dst n buf (2 * n)" "2 * n < 2 ^ 64" "length bs = n" "read_bytes m buf (2 * n) = hex_text bs" "k + i = n"
  shows "hex2bin (write_bytes m dst (take k bs)) (dst + of_nat k) (buf + of_nat (2 * k)) i = (write_bytes m dst bs, 0)"
  using assms(5)
proof (induction i arbitrary: k)
  case (Suc i)
  let ?m = "write_bytes m dst (take k bs)"
  have k: "k < n" using Suc.prems by simp
  have "?m (buf + of_nat j) = hex_text bs ! j" if j: "j < 2 * n" for j
  proof -
    have "n \<le> unat (buf + of_nat j - dst)" using apart_offset[OF assms(1)] j by simp
    moreover have "m (buf + of_nat j) = hex_text bs ! j" using assms(4) j nth_read_bytes by metis
    ultimately show ?thesis using k assms(3) by (simp add: write_bytes_other min_absorb2)
  qed
  from this[of "2 * k"] this[of "Suc (2 * k)"]
  have c: "?m (buf + of_nat (2 * k)) = hex_asc_hi (bs ! k)" "?m (buf + of_nat (2 * k) + 1) = hex_asc_lo (bs ! k)"
    using k assms(3) nth_hex_text[of k bs] by (simp_all add: ac_simps)
  have "?m(dst + of_nat k := bs ! k) = write_bytes m dst (take (Suc k) bs)"
    using write_bytes_append[of "take k bs" "[bs ! k]" m dst] k assms(2,3) by (simp add: write_bytes_Cons min_absorb2 take_Suc_conv_app_nth)
  with hex2bin_byte[OF c] have "hex2bin ?m (dst + of_nat k) (buf + of_nat (2 * k)) (Suc i) =
      hex2bin (write_bytes m dst (take (Suc k) bs)) (dst + of_nat k + 1) (buf + of_nat (2 * k) + 2) i"
    by metis
  moreover have "dst + of_nat k + 1 = dst + of_nat (Suc k)" "buf + of_nat (2 * k) + 2 = buf + of_nat (2 * Suc k)" by simp_all
  ultimately show ?case using Suc.IH[of "Suc k"] Suc.prems by (metis add_Suc_shift)
qed (use assms in simp)

section \<open>Properties\<close>

text \<open>Scanning and comparing strings. On NUL-terminated strings \<open>strlen\<close>, \<open>strchr\<close>, \<open>strrchr\<close> and
  \<open>strcmp\<close> return; \<open>strlen\<close> and \<open>strnlen\<close> give the length, \<open>strchr\<close> and \<open>strrchr\<close> the address of
  the first and last occurrence (the NUL included) or \<open>NULL\<close>, and \<open>strcmp\<close> and \<open>strncmp\<close> the
  lexicographic order of the strings, or of their first \<open>n\<close> bytes, as unsigned characters.\<close>

theorem string_scans:
  assumes "c_string m a xs" "c_string m b ys"
  shows "strlen m a = Some (of_nat (length xs)) \<and>
    strnlen m a n = of_nat (min (unat n) (length xs)) \<and>
    strchr m a c = Some (case first_pos (ucast c) (xs @ [0]) of None \<Rightarrow> 0 | Some i \<Rightarrow> a + of_nat i) \<and>
    strrchr m a c = Some (case last_pos (ucast c) (xs @ [0]) of None \<Rightarrow> 0 | Some i \<Rightarrow> a + of_nat i) \<and>
    strcmp m a b = Some (if xs = ys then 0 else if ord_class.lexordp xs ys then - 1 else 1) \<and>
    strncmp m a b k = (if take k xs = take k ys then 0 else if ord_class.lexordp (take k xs) (take k ys) then - 1 else 1)"
  using strlen_length[OF assms(1)] strnlen_loop_end[OF assms(1), of "unat n"] strchr_first[OF assms(1)]
    strrchr_loop_last[OF assms(1)] strcmp_order[OF assms] strncmp_order[OF assms]
  by (simp add: strnlen_def strrchr_def)

text \<open>A memory with the string \<open>abab\<close> at 0x100 and \<open>ba\<close> at 0x200.\<close>

definition sample_memory :: mem where
  "sample_memory = write_bytes (write_bytes (\<lambda>_. 0) 0x100 [0x61, 0x62, 0x61, 0x62]) 0x200 [0x62, 0x61]"

lemma sample_strings: "c_string sample_memory 0x100 [0x61, 0x62, 0x61, 0x62]" "c_string sample_memory 0x200 [0x62, 0x61]"
  by (simp_all add: sample_memory_def write_bytes_def)

theorem string_scans_witness:
  "strlen sample_memory 0x100 = Some 4 \<and> strchr sample_memory 0x100 0x62 = Some 0x101 \<and>
   strrchr sample_memory 0x100 0x62 = Some 0x103 \<and> strcmp sample_memory 0x100 0x200 = Some (- 1)"
  using string_scans[OF sample_strings, where c = "0x62"] by simp

text \<open>\<open>strstr\<close> returns, with the address of the first occurrence of the second string in the first,
  or \<open>NULL\<close> when there is none; the empty string is found at once.\<close>

theorem strstr_finds:
  assumes "c_string m a xs" "c_string m b ys" "length xs < 2 ^ 64" "length ys < 2 ^ 64"
  shows "strstr m a b = Some (case first_occurrence ys xs of None \<Rightarrow> 0 | Some i \<Rightarrow> a + of_nat i)"
proof (cases "ys = []")
  case True
  then have "first_occurrence ys xs = Some 0" by (simp add: first_occurrence_def occurs_def upt_conv_Cons del: upt_Suc)
  then show ?thesis using True strlen_length[OF assms(2)] by (simp add: strstr_def)
next
  case False
  then have "(of_nat (length ys) :: u64) \<noteq> 0" using assms(4) unat_offset[of "length ys"] by fastforce
  then show ?thesis using strlen_length[OF assms(1)] strlen_length[OF assms(2)]
      strstr_loop_first[OF assms(2) False assms(4,1,3)] by (simp add: strstr_def)
qed

theorem strstr_finds_witness: "strstr sample_memory 0x100 0x200 = Some 0x101"
  using strstr_finds[OF sample_strings] by (simp add: first_occurrence_def occurs_def upt_rec)

text \<open>C40: \<open>strscpy\<close>, copying words where it can, does what its comment promises for areas that do not
  overlap: if the first \<open>count\<close> bytes of the source hold a NUL, the string is at the destination
  and its length is returned; otherwise the first \<open>count - 1\<close> bytes are, terminated, and \<open>-E2BIG\<close>
  is returned. No byte outside the \<open>count\<close> bytes of the destination changes.\<close>

theorem strscpy_copies:
  fixes m :: mem
  assumes "apart dest (unat cnt) src (unat cnt)" "cnt \<noteq> 0"
  defines "bs \<equiv> read_bytes m src (unat cnt)"
  shows "(\<forall>x. unat cnt \<le> unat (x - dest) \<longrightarrow> fst (strscpy m dest src cnt) x = m x) \<and>
    (case first_pos 0 bs of
       Some k \<Rightarrow> snd (strscpy m dest src cnt) = int k \<and> c_string (fst (strscpy m dest src cnt)) dest (take k bs)
     | None \<Rightarrow> snd (strscpy m dest src cnt) = - E2BIG \<and> c_string (fst (strscpy m dest src cnt)) dest (butlast bs))"
proof -
  have n: "unat cnt < 2 ^ 64" "0 < unat cnt" using assms(2) unat_lt_64[of cnt] by (simp_all add: unat_gt_0)
  have words: "case strscpy_words m dest src 0 (unat cnt) mx of Inl r \<Rightarrow> strscpy_ok m dest bs r
      | Inr (m', k', i') \<Rightarrow> k' + i' = unat cnt \<and> m' = write_bytes m dest (take k' bs) \<and> 0 \<notin> set (take k' bs)" if "mx \<le> unat cnt" for mx
    unfolding bs_def using strscpy_words_ok[OF assms(1) n, of 0 "unat cnt" mx m] that by simp
  have ok: "strscpy_ok m dest bs (strscpy m dest src cnt)"
    using words[of "unat (if (dest OR src) AND (8 - 1) \<noteq> 0 then 0 else cnt)"] strscpy_bytes_ok[OF assms(1) n, of _ _ m] assms(2)
    by (auto simp: strscpy_def Let_def bs_def split: sum.splits prod.splits)
  have c: "c_string m' dest (take k bs) \<and> (\<forall>x. unat cnt \<le> unat (x - dest) \<longrightarrow> m' x = m x)"
    if c: "copied m dest bs k m'" and z: "0 \<notin> set (take k bs)" for k m'
  proof -
    obtain zs where m': "m' = write_bytes m dest (take k bs @ 0 # zs)" and k: "k < unat cnt" "Suc k + length zs \<le> unat cnt"
      using c by (auto simp: copied_def bs_def)
    have r: "read_bytes m' dest (Suc k + length zs) = take k bs @ 0 # zs"
      using read_write_same[of "take k bs @ 0 # zs" m dest] k n(1) by (simp add: m' bs_def min_absorb2)
    have "m' (dest + of_nat i) = (take k bs @ 0 # zs) ! i" if "i < Suc k + length zs" for i
      using r that nth_read_bytes by metis
    then have "read_bytes m' dest k = take k bs" "m' (dest + of_nat k) = 0"
      using k by (auto intro!: nth_equalityI simp: nth_append bs_def)
    moreover have "m' x = m x" if "unat cnt \<le> unat (x - dest)" for x
      using that k by (simp add: m' write_bytes_other bs_def min_absorb2)
    ultimately show ?thesis using z k by (simp add: c_string_bytes bs_def min_absorb2)
  qed
  show ?thesis
  proof (cases "first_pos 0 bs")
    case None
    then have "0 \<notin> set (take k bs)" for k by (auto simp: first_pos_None dest: in_set_takeD)
    then show ?thesis using None ok c[of "length bs - 1"] by (simp add: strscpy_ok_def butlast_conv_take)
  next
    case (Some k)
    then have "0 \<notin> set (take k bs)" by (simp add: first_pos_Some)
    then show ?thesis using Some ok c[of k] by (simp add: strscpy_ok_def)
  qed
qed

theorem strscpy_copies_witness:
  "snd (strscpy sample_memory 0x1000 0x100 8) = 4 \<and> c_string (fst (strscpy sample_memory 0x1000 0x100 8)) 0x1000 [0x61, 0x62, 0x61, 0x62]"
proof -
  have b: "read_bytes sample_memory 0x100 8 = [0x61, 0x62, 0x61, 0x62, 0, 0, 0, 0]"
    by (simp add: read_bytes_def sample_memory_def write_bytes_def upt_rec)
  have "apart (0x1000 :: u64) (unat (8 :: u64)) 0x100 (unat (8 :: u64))" by (simp add: apart_def)
  from strscpy_copies[OF this, of sample_memory] show ?thesis by (simp add: b)
qed

text \<open>Hexadecimal text. \<open>bin2hex\<close> writes two digits per byte and returns the end of the text, and
  \<open>hex2bin\<close> on that text succeeds and restores the bytes.\<close>

theorem hex_round_trip:
  assumes "apart buf (2 * n) src n" "apart dst n buf (2 * n)" "2 * n < 2 ^ 64"
  shows "\<exists>m1. bin2hex m buf src n = (m1, buf + of_nat (2 * n)) \<and>
    hex2bin m1 dst buf n = (write_bytes m1 dst (read_bytes m src n), 0)"
proof -
  let ?bs = "read_bytes m src n"
  let ?m1 = "write_bytes m buf (hex_text ?bs)"
  have "bin2hex m buf src n = (?m1, buf + of_nat (2 * n))"
    using bin2hex_text[OF assms(1,3), of 0 n m] by (simp add: hex_text_def)
  moreover have "read_bytes ?m1 buf (2 * n) = hex_text ?bs"
    using read_write_same[of "hex_text ?bs" m buf] assms(3) by simp
  then have "hex2bin ?m1 dst buf n = (write_bytes ?m1 dst ?bs, 0)"
    using hex2bin_text[OF assms(2,3), of ?bs ?m1 0 n] by simp
  ultimately show ?thesis by blast
qed

theorem hex_round_trip_witness:
  "\<exists>m1. bin2hex sample_memory 0x1000 0x100 2 = (m1, 0x1004) \<and> hex2bin m1 0x2000 0x1000 2 = (write_bytes m1 0x2000 [0x61, 0x62], 0)"
proof -
  have "apart (0x1000 :: u64) (2 * 2) 0x100 2" "apart (0x2000 :: u64) 2 0x1000 (2 * 2)" by (simp_all add: apart_def)
  from hex_round_trip[OF this, of sample_memory] show ?thesis
    by (simp add: read_bytes_def sample_memory_def write_bytes_def upt_rec)
qed

end
