(* ===== verification/Boot.thy ===== *)
theory Boot
  imports Kvm_Loop C_String E820 Find_Bit
begin

unbundle bit_operations_syntax

text \<open>
  How the guest gets its memory map. vmm/multiboot.c reads what the boot loader left (the
  memory map, the guest kernel and initrd as modules) into \<open>guest_params\<close> and takes the VMM's
  image out of the map; \<open>kvm_init\<close> of vmm/kvm.c checks the processor, copies the firmware to
  its place in guest memory and puts \<open>guest_params\<close> over its head. \<open>guest_params\<close> lies in byte
  memory at a link-time address; its packed fields are at the offsets 0 (magic), 8, 16, 24, 32
  (kernel and initrd), 40 (the command line), 1064 (number of entries) and 1068 (the table, 20
  bytes an entry), 3628 bytes in all.
\<close>

section \<open>The boot loader's information\<close>

definition MULTIBOOT_BOOTLOADER_MAGIC :: u32 where "MULTIBOOT_BOOTLOADER_MAGIC = 0x2BADB002"
definition MULTIBOOT_INFO_MEM_MAP :: u32 where "MULTIBOOT_INFO_MEM_MAP = 0x40"
definition CMDLINE_SIZE :: u64 where "CMDLINE_SIZE = 1024"
definition E820_MAX_ENTRIES_GUEST :: nat where "E820_MAX_ENTRIES_GUEST = 128"

text \<open>\<open>__va(FIRMWARE_START)\<close>.\<close>

definition firmware_va :: u64 where "firmware_va = ucast FIRMWARE_START"

lemma firmware_va: "firmware_va = 0x1000"
  by (simp add: firmware_va_def FIRMWARE_START_def)

definition gp_magic :: "u64 \<Rightarrow> u64" where "gp_magic gp = gp"
definition gp_kernel_start :: "u64 \<Rightarrow> u64" where "gp_kernel_start gp = gp + 8"
definition gp_kernel_end :: "u64 \<Rightarrow> u64" where "gp_kernel_end gp = gp + 16"
definition gp_initrd_start :: "u64 \<Rightarrow> u64" where "gp_initrd_start gp = gp + 24"
definition gp_initrd_end :: "u64 \<Rightarrow> u64" where "gp_initrd_end gp = gp + 32"
definition gp_cmdline :: "u64 \<Rightarrow> u64" where "gp_cmdline gp = gp + 40"
definition gp_e820_entries :: "u64 \<Rightarrow> u64" where "gp_e820_entries gp = gp + 1064"
definition gp_e820_table :: "u64 \<Rightarrow> u64" where "gp_e820_table gp = gp + 1068"
definition gp_size :: u64 where "gp_size = 3628"

definition mbi_flags :: "u64 \<Rightarrow> u64" where "mbi_flags p = p"
definition mbi_mods_count :: "u64 \<Rightarrow> u64" where "mbi_mods_count p = p + 20"
definition mbi_mods_addr :: "u64 \<Rightarrow> u64" where "mbi_mods_addr p = p + 24"
definition mbi_mmap_length :: "u64 \<Rightarrow> u64" where "mbi_mmap_length p = p + 44"
definition mbi_mmap_addr :: "u64 \<Rightarrow> u64" where "mbi_mmap_addr p = p + 48"

text \<open>\<open>&mods[i]\<close>: 16 bytes a module.\<close>

definition mod_start :: "u64 \<Rightarrow> nat \<Rightarrow> u64" where "mod_start mods i = mods + of_nat (16 * i)"
definition mod_end :: "u64 \<Rightarrow> nat \<Rightarrow> u64" where "mod_end mods i = mods + of_nat (16 * i) + 4"
definition mod_cmdline :: "u64 \<Rightarrow> nat \<Rightarrow> u64" where "mod_cmdline mods i = mods + of_nat (16 * i) + 8"

text \<open>Reading a 32-bit field into a 64-bit one or into a pointer.\<close>

definition read32x :: "mem \<Rightarrow> u64 \<Rightarrow> u64" where "read32x m a = ucast (read32 m a)"

definition copy_module :: "mem \<Rightarrow> u64 \<Rightarrow> nat \<Rightarrow> u64 \<Rightarrow> u64 \<Rightarrow> mem" where
  "copy_module m mods i start_field end_field =
     (let m = write64 m start_field (read32x m (mod_start mods i))
      in write64 m end_field (read32x m (mod_end mods i)))"

definition multiboot_modules :: "u64 \<Rightarrow> u64 \<Rightarrow> mem \<Rightarrow> stop + mem" where
  "multiboot_modules gp mbi m =
     and_then (panic_if (read32 m (mbi_mods_count mbi) = 0) ''no guest kernel loaded!'') (\<lambda>_.
     let mods = read32x m (mbi_mods_addr mbi);
         m = copy_module m mods 0 (gp_kernel_start gp) (gp_kernel_end gp);
         (m, ret) = strscpy m (gp_cmdline gp) (read32x m (mod_cmdline mods 0)) CMDLINE_SIZE
     in and_then (panic_if (ret < 0) ''kernel cmdline too long!'') (\<lambda>_.
     Inr (if read32 m (mbi_mods_count mbi) > 1
          then copy_module m mods 1 (gp_initrd_start gp) (gp_initrd_end gp) else m)))"

definition mask_out_vmm :: "layout \<Rightarrow> e820_state \<Rightarrow> stop + e820_state" where
  "mask_out_vmm L s =
     and_then (BUG_ON (img_start L mod SZ_2M \<noteq> 0)) (\<lambda>_.
     and_then (BUG_ON (img_end L mod SZ_2M \<noteq> 0)) (\<lambda>_.
     and_then (BUG_ON (\<not> e820_mapped_all (table s) (img_start L) (img_end L) E820_TYPE_RAM)) (\<lambda>_.
     and_then (e820_range_update s (img_start L) (img_end L - img_start L) E820_TYPE_RAM E820_TYPE_RESERVED) (\<lambda>(s, _).
     Inr s))))"

definition multiboot_init :: "layout \<Rightarrow> u64 \<Rightarrow> u32 \<Rightarrow> u64 \<Rightarrow> mem \<Rightarrow> e820_state \<Rightarrow> (stop + mem \<times> e820_state) option" where
  "multiboot_init L gp magic mbi m s =
     (if magic \<noteq> MULTIBOOT_BOOTLOADER_MAGIC then Some (Inl BUG)
      else if mbi = 0 then Some (Inl BUG)
      else if read32 m (mbi_flags mbi) AND MULTIBOOT_INFO_MEM_MAP = 0 then Some (Inl (PANIC ''no memory map!''))
      else map_option (\<lambda>r.
        and_then r (\<lambda>s.
        and_then (multiboot_modules gp mbi m) (\<lambda>m.
        and_then (mask_out_vmm L s) (\<lambda>s.
        Inr (m, s)))))
        (e820_range_add_multiboot m (read32x m (mbi_mmap_addr mbi)) (read32 m (mbi_mmap_length mbi)) s))"

section \<open>Preparing the guest\<close>

definition X86_FEATURE_VMX :: nat where "X86_FEATURE_VMX = 4 * 32 + 5"

text \<open>The capability words of the CPU, \<open>x86_capability\<close>, as the 64-bit words \<open>test_bit\<close> reads.\<close>

definition vmx_cpu_has_kvm_support :: "u64 list \<Rightarrow> bool" where
  "vmx_cpu_has_kvm_support x86_capability = bm_test x86_capability X86_FEATURE_VMX"

text \<open>The bytes of \<open>struct e820_entry\<close>; the table of the kernel lies outside byte memory.\<close>

definition entry_bytes :: "e820_entry \<Rightarrow> u8 list" where
  "entry_bytes e = le_bytes 8 (e_addr e) @ le_bytes 8 (e_size e) @ le_bytes 4 (e_type e)"

definition copy_e820 :: "u64 \<Rightarrow> e820_table \<Rightarrow> mem \<Rightarrow> stop + mem" where
  "copy_e820 gp t m =
     and_then (BUG_ON (E820_MAX_ENTRIES_GUEST < nr_entries t)) (\<lambda>_.
     let m = write_bytes m (gp_e820_table gp) (concat (map entry_bytes (used t)))
     in Inr (write32 m (gp_e820_entries gp) (of_nat (nr_entries t))))"

definition write_magic :: "u64 \<Rightarrow> mem \<Rightarrow> mem" where
  "write_magic gp m =
     (let m = m(gp_magic gp := 0xe9);
          m = m(gp_magic gp + 1 := ucast ((gp_size - 3) AND 0xff))
      in m(gp_magic gp + 2 := ucast (drop_bit 8 (gp_size - 3) AND 0xff)))"

definition copy_guest_params :: "u64 \<Rightarrow> u64 \<Rightarrow> u64 \<Rightarrow> e820_table \<Rightarrow> mem \<Rightarrow> stop + mem" where
  "copy_guest_params gp fw_start fw_end t m =
     and_then (copy_e820 gp t (memcpy m firmware_va fw_start (fw_end - fw_start))) (\<lambda>m.
     let m = write_magic gp m
     in and_then (panic_if (memcmp m (gp_magic gp) firmware_va 8 \<noteq> 0) ''firmware magic doesn't match!'') (\<lambda>_.
     Inr (memcpy m firmware_va gp gp_size)))"

definition kvm_init :: "u64 \<Rightarrow> u64 \<Rightarrow> u64 \<Rightarrow> u64 list \<Rightarrow> e820_table \<Rightarrow> machine \<Rightarrow> stop + machine" where
  "kvm_init gp fw_start fw_end x86_capability t s =
     and_then (panic_if (\<not> vmx_cpu_has_kvm_support x86_capability) ''kvm: no hardware support'') (\<lambda>_.
     and_then (panic_if (vmx_disabled_by_bios s) ''kvm: disabled by bios'') (\<lambda>_.
     and_then (vmx_hardware_setup s) (\<lambda>s.
     and_then (copy_guest_params gp fw_start fw_end t (memory s)) (\<lambda>m.
     Inr (s\<lparr>memory := m\<rparr>)))))"

section \<open>Tables in memory\<close>

definition entry_of :: "u8 list \<Rightarrow> e820_entry" where
  "entry_of bs = \<lparr>e_addr = le_word (take 8 bs), e_size = le_word (take 8 (drop 8 bs)), e_type = le_word (take 4 (drop 16 bs))\<rparr>"

text \<open>The table in the \<open>guest_params\<close> at an address.\<close>

definition read_table :: "mem \<Rightarrow> u64 \<Rightarrow> e820_entry list" where
  "read_table m gp = map (\<lambda>i. entry_of (read_bytes m (gp_e820_table gp + of_nat (20 * i)) 20))
     [0..<unat (read32 m (gp_e820_entries gp))]"

lemma length_entry_bytes [simp]: "length (entry_bytes e) = 20"
  by (simp add: entry_bytes_def)

lemma entry_of_bytes [simp]: "entry_of (entry_bytes e) = e"
  by (simp add: entry_of_def entry_bytes_def le_word_bytes del: le_bytes.simps)

lemma length_concat_blocks: "(\<And>x. length (f x) = k) \<Longrightarrow> length (concat (map f xs)) = k * length xs"
  by (induction xs) simp_all

lemma concat_block:
  "(\<And>x. length (f x) = k) \<Longrightarrow> i < length xs \<Longrightarrow> take k (drop (k * i) (concat (map f xs))) = f (xs ! i)"
proof (induction xs arbitrary: i)
  case (Cons x xs)
  then show ?case by (cases i) simp_all
qed simp

lemma read_bytes_part:
  "k + j \<le> n \<Longrightarrow> read_bytes m (a + of_nat k) j = take j (drop k (read_bytes m a n))"
  by (rule nth_equalityI) (simp_all add: ac_simps)

lemma read_table_entries:
  assumes "read32 m (gp_e820_entries gp) = of_nat (length es)" "length es \<le> E820_MAX_ENTRIES_GUEST"
    and "read_bytes m (gp_e820_table gp) (20 * length es) = concat (map entry_bytes es)"
  shows "read_table m gp = es"
proof -
  have n: "unat (read32 m (gp_e820_entries gp)) = length es"
    using assms(1,2) by (simp add: unat_of_nat E820_MAX_ENTRIES_GUEST_def)
  have "read_bytes m (gp_e820_table gp + of_nat (20 * i)) 20 = entry_bytes (es ! i)" if "i < length es" for i
    using read_bytes_part[of "20 * i" 20 "20 * length es"] that assms(3) concat_block[of entry_bytes 20 i es] by simp
  then show ?thesis by (simp add: read_table_def n) (rule nth_equalityI, simp_all)
qed

text \<open>The table depends on the bytes of \<open>guest_params\<close> from its field \<open>e820_entries\<close> on only.\<close>

lemma read_table_cong:
  assumes "\<And>k. 1064 \<le> k \<Longrightarrow> k < 3628 \<Longrightarrow> m (gp + of_nat k) = m' (gp' + of_nat k)"
    and "unat (read32 m (gp_e820_entries gp)) \<le> E820_MAX_ENTRIES_GUEST"
  shows "read_table m gp = read_table m' gp'"
proof -
  have part: "read_bytes m (gp + of_nat k) n = read_bytes m' (gp' + of_nat k) n" if "1064 \<le> k" "k + n \<le> 3628" for k n
  proof (rule nth_equalityI)
    fix i assume "i < length (read_bytes m (gp + of_nat k) n)"
    then show "read_bytes m (gp + of_nat k) n ! i = read_bytes m' (gp' + of_nat k) n ! i"
      using assms(1)[of "k + i"] that by (simp add: ac_simps)
  qed simp
  have n: "read32 m (gp_e820_entries gp) = read32 m' (gp_e820_entries gp')"
    using part[of 1064 4] by (simp add: read32_def gp_e820_entries_def)
  have "read_bytes m (gp_e820_table gp + of_nat (20 * i)) 20 = read_bytes m' (gp_e820_table gp' + of_nat (20 * i)) 20"
    if "i < E820_MAX_ENTRIES_GUEST" for i
    using part[of "1068 + 20 * i" 20] that by (simp add: gp_e820_table_def E820_MAX_ENTRIES_GUEST_def add.assoc)
  then show ?thesis using assms(2) by (auto simp: read_table_def n)
qed

lemma copy_e820_table:
  assumes "copy_e820 gp t m = Inr m'" "valid_table t"
  shows "read_table m' gp = used t" "unat (read32 m' (gp_e820_entries gp)) \<le> E820_MAX_ENTRIES_GUEST"
proof -
  let ?bs = "concat (map entry_bytes (used t))"
  let ?m = "write_bytes m (gp_e820_table gp) ?bs"
  have nr: "nr_entries t \<le> 128" and len: "length (used t) = nr_entries t"
    using assms length_used[of t] by (auto simp: copy_e820_def and_then_eq_Inr E820_MAX_ENTRIES_GUEST_def)
  have m': "m' = write32 ?m (gp_e820_entries gp) (of_nat (nr_entries t))"
    using assms(1) by (auto simp: copy_e820_def and_then_eq_Inr)
  have lb: "length ?bs = 20 * nr_entries t" by (simp add: length_concat_blocks len)
  have "apart (gp_e820_entries gp) (length (le_bytes 4 (of_nat (nr_entries t) :: u32))) (gp_e820_table gp) (20 * nr_entries t)"
    using nr by (simp add: apart_def gp_e820_entries_def gp_e820_table_def)
  then have "read_bytes m' (gp_e820_table gp) (20 * nr_entries t) = ?bs"
    using read_write_same[of ?bs m "gp_e820_table gp"] nr lb by (simp add: m' write32_def read_write_apart)
  then show "read_table m' gp = used t"
    using nr len by (intro read_table_entries) (simp_all add: m' E820_MAX_ENTRIES_GUEST_def)
  show "unat (read32 m' (gp_e820_entries gp)) \<le> E820_MAX_ENTRIES_GUEST"
    using nr by (simp add: m' unat_of_nat E820_MAX_ENTRIES_GUEST_def)
qed

lemma copy_e820_other:
  assumes "copy_e820 gp t m = Inr m'" "valid_table t" "2564 \<le> unat (x - gp_e820_entries gp)"
  shows "m' x = m x"
proof -
  have nr: "nr_entries t \<le> 128" and len: "length (used t) = nr_entries t"
    using assms length_used[of t] by (auto simp: copy_e820_def and_then_eq_Inr E820_MAX_ENTRIES_GUEST_def)
  have sub: "unat (d - 4) = unat d - 4" if "2564 \<le> unat d" for d :: u64 using that by (simp add: unat_sub_if')
  have "x - gp_e820_table gp = (x - gp_e820_entries gp) - 4" by (simp add: gp_e820_table_def gp_e820_entries_def)
  then have "unat (x - gp_e820_table gp) = unat (x - gp_e820_entries gp) - 4" by (simp only: sub[OF assms(3)])
  then show ?thesis using assms nr
    by (auto simp: copy_e820_def and_then_eq_Inr write32_def write_bytes_other length_concat_blocks len)
qed

lemma write_magic_other: "3 \<le> unat (x - gp) \<Longrightarrow> write_magic gp m x = m x"
  by (auto simp: write_magic_def gp_magic_def)

lemma copy_guest_params_table:
  assumes "copy_guest_params gp fw_start fw_end t m = Inr m'" "valid_table t"
    and ap: "apart gp (unat gp_size) firmware_va (unat gp_size)"
  shows "read_table m' firmware_va = used t"
proof -
  obtain m1 where m1: "copy_e820 gp t (memcpy m firmware_va fw_start (fw_end - fw_start)) = Inr m1"
    and m': "m' = memcpy (write_magic gp m1) firmware_va gp gp_size"
    using assms(1) by (auto simp: copy_guest_params_def and_then_eq_Inr Let_def)
  note t1 = copy_e820_table[OF m1 assms(2)]
  have b: "m' = write_bytes (write_magic gp m1) firmware_va (read_bytes (write_magic gp m1) gp 3628)"
    using memcpy_write[OF ap] by (simp add: m' gp_size_def)
  have "m1 (gp + of_nat k) = m' (firmware_va + of_nat k)" if "1064 \<le> k" "k < 3628" for k
    using that by (simp add: b write_bytes_def write_magic_other)
  then show ?thesis using read_table_cong[of m1 gp m' firmware_va] t1 by simp
qed

section \<open>Masking out the VMM\<close>

lemma range_add_valid: "valid_state s \<Longrightarrow> valid_state (e820_range_add s start sz ty)"
  by (auto simp: valid_state_def valid_table_def e820_range_add_def e820_range_add'_def Let_def)

lemma multiboot_add_valid: "valid_state s \<Longrightarrow> valid_state (multiboot_add_loop m len i e s)"
proof (induction m len i e s rule: multiboot_add_loop.induct)
  case (1 m len i e s)
  then show ?case
    by (subst multiboot_add_loop.simps) (simp add: Let_def range_add_valid)
qed

lemma sanitized_reasonable: "sanitized es \<Longrightarrow> e \<in> set es \<Longrightarrow> reasonable e"
  by (auto simp: sanitized_def reasonable_def)

lemma clamp_size: "start \<le> en \<Longrightarrow> \<not> en - start > (- 1 :: u64) - start"
  using unat_lt_64[of en]
  by (simp add: word_less_nat_alt word_le_nat_alt unat_sub_if' unsigned_minus_1_eq_mask mask_eq_exp_minus_1)

lemma types_at_member: "x \<in># types_at es a \<longleftrightarrow> (\<exists>e\<in>set es. covers e a \<and> e_type e = x)"
  by (induction es) (auto simp: contrib_def)

text \<open>\<open>type_at\<close> is the largest type in \<open>types_at\<close>.\<close>

lemma type_at_types: "type_at es a = Max (insert 0 (set_mset (types_at es a)))"
proof (rule type_at_eqI)
  have fin: "finite (insert 0 (set_mset (types_at es a)))" by simp
  show "e_type e \<le> Max (insert 0 (set_mset (types_at es a)))" if "e \<in> set es" "covers e a" for e
    using that by (intro Max_ge[OF fin]) (auto simp: types_at_member)
  assume "Max (insert 0 (set_mset (types_at es a))) \<noteq> 0"
  then show "\<exists>e\<in>set es. covers e a \<and> e_type e = Max (insert 0 (set_mset (types_at es a)))"
    using Max_in[OF fin] by (auto simp: types_at_member)
qed

lemma mask_out_vmm_types:
  assumes "mask_out_vmm L s = Inr s'" "valid_state s" "sanitized (used (table s))" "img_start L \<le> img_end L"
  shows "valid_table (table s')"
    and "img_start L \<le> a \<Longrightarrow> a < img_end L \<Longrightarrow> E820_TYPE_RAM \<notin># types_at (used (table s')) a"
    and "nr_entries (table s') \<le> 3 * nr_entries (table s)"
    and "nr_entries (table s') < E820_MAX_ENTRIES \<Longrightarrow> type_at (used (table s')) a =
      (if img_start L \<le> a \<and> a < img_end L then E820_TYPE_RESERVED else type_at (used (table s)) a)"
proof -
  let ?sz = "img_end L - img_start L"
  have en: "img_start L + (if ?sz > - 1 - img_start L then - 1 - img_start L else ?sz) = img_end L"
    using clamp_size[OF assms(4)] by simp
  have v: "valid_table (table s)" using assms(2) by (simp add: valid_state_def)
  have ne: "E820_TYPE_RAM \<noteq> E820_TYPE_RESERVED" by (simp add: E820_TYPE_RAM_def E820_TYPE_RESERVED_def)
  have re: "\<forall>e\<in>set (used (table s)). reasonable e" using sanitized_reasonable[OF assms(3)] by blast
  obtain t r where t: "e820_range_update' (table s) (img_start L) ?sz E820_TYPE_RAM E820_TYPE_RESERVED = Inr (t, r)" "valid_table t"
    and sub: "\<And>a. types_at (used t) a \<subseteq># retype (img_start L) (img_end L) E820_TYPE_RAM E820_TYPE_RESERVED a (types_at (used (table s)) a)"
    and eq: "\<And>a. nr_entries t < E820_MAX_ENTRIES \<Longrightarrow>
      types_at (used t) a = retype (img_start L) (img_end L) E820_TYPE_RAM E820_TYPE_RESERVED a (types_at (used (table s)) a)" and nr: "nr_entries t \<le> 3 * nr_entries (table s)"
    using range_update_types[OF v re ne, of "img_start L" ?sz, unfolded en] by metis
  have s': "table s' = t" and all: "e820_mapped_all (table s) (img_start L) (img_end L) E820_TYPE_RAM"
    using assms(1) t(1) by (auto simp: mask_out_vmm_def and_then_eq_Inr e820_range_update_def)
  show "valid_table (table s')" "nr_entries (table s') \<le> 3 * nr_entries (table s)" using t(2) nr s' by simp_all
  show "E820_TYPE_RAM \<notin># types_at (used (table s')) a" if "img_start L \<le> a" "a < img_end L"
    using sub[of a] retype_old[OF ne that] by (metis mset_subset_eqD s')
  show "type_at (used (table s')) a =
      (if img_start L \<le> a \<and> a < img_end L then E820_TYPE_RESERVED else type_at (used (table s)) a)"
    if nr: "nr_entries (table s') < E820_MAX_ENTRIES"
  proof (cases "img_start L \<le> a \<and> a < img_end L")
    case True
    then obtain e where e: "e \<in> set (used (table s))" "covers e a" "e_type e = E820_TYPE_RAM"
      using mapped_all_loop_sound[OF all[unfolded e820_mapped_all_def], of a] by (auto simp: covered_by_def E820_TYPE_RAM_def)
    have only: "x = E820_TYPE_RAM" if "x \<in># types_at (used (table s)) a" for x
      using that sanitized_unique[OF assms(3) _ e(1) _ e(2)] e(3) by (auto simp: types_at_member)
    have "E820_TYPE_RAM \<in># types_at (used (table s)) a" using e by (auto simp: types_at_member)
    then have "set_mset (types_at (used t) a) = {E820_TYPE_RESERVED}"
      using True only eq[of a] nr s' by (auto simp: retype_def)
    then show ?thesis using True by (simp add: s' type_at_types E820_TYPE_RESERVED_def)
  next
    case False
    then have "types_at (used t) a = types_at (used (table s)) a" using eq[of a] nr s' by (auto simp: retype_def)
    then show ?thesis using False by (auto simp: s' type_at_types)
  qed
qed

section \<open>Ready to create the virtual CPU\<close>

lemma memcpy_other: "unat cnt \<le> unat (x - dest) \<Longrightarrow> memcpy m dest src cnt x = m x"
proof -
  have "memcpy_loop m d s n x = m x" if "n \<le> unat (x - d)" for m d s n
    using that
  proof (induction m d s n rule: memcpy_loop.induct)
    case (2 m d s n)
    have "unat (x - (d + 1)) = unat (x - d) - 1" using 2(2) unat_minus_one[of "x - d"] by (force simp: diff_diff_add)
    moreover have "x \<noteq> d" using 2(2) by auto
    ultimately show ?case using 2 by (simp del: fun_upd_apply) simp
  qed simp
  then show "unat cnt \<le> unat (x - dest) \<Longrightarrow> memcpy m dest src cnt x = m x" by (simp add: memcpy_def)
qed

lemma copy_guest_params_other:
  assumes "copy_guest_params gp fw_start fw_end t m = Inr m'" "valid_table t"
    and "unat (fw_end - fw_start) \<le> unat (x - firmware_va)" "unat gp_size \<le> unat (x - firmware_va)" "unat gp_size \<le> unat (x - gp)"
  shows "m' x = m x"
proof -
  obtain m1 where m1: "copy_e820 gp t (memcpy m firmware_va fw_start (fw_end - fw_start)) = Inr m1"
    and m': "m' = memcpy (write_magic gp m1) firmware_va gp gp_size"
    using assms(1) by (auto simp: copy_guest_params_def and_then_eq_Inr Let_def)
  have sub: "unat (d - 1064) = unat d - 1064" if "3628 \<le> unat d" for d :: u64 using that by (simp add: unat_sub_if')
  have "x - gp_e820_entries gp = (x - gp) - 1064" by (simp add: gp_e820_entries_def)
  then have "unat (x - gp_e820_entries gp) = unat (x - gp) - 1064" using sub[of "x - gp"] assms(5) by (simp only: gp_size_def) simp
  then have "m1 x = memcpy m firmware_va fw_start (fw_end - fw_start) x"
    using assms(5) by (intro copy_e820_other[OF m1 assms(2)]) (simp add: gp_size_def)
  then show ?thesis using assms(3-5) by (simp add: m' memcpy_other write_magic_other gp_size_def)
qed

text \<open>
  What the linked image and the processor give before \<open>kvm_init\<close>: \<open>boot_ok\<close> without the interception
  of \<open>EFER\<close>, an empty MSR bitmap, and page tables apart from all that \<open>kvm_init\<close> writes.
\<close>

definition image_ok :: "cpu \<Rightarrow> layout \<Rightarrow> u64 \<Rightarrow> nat \<Rightarrow> machine \<Rightarrow> bool" where
  "image_ok c L gp fw_size s \<longleftrightarrow> layout_ok L \<and> ept_ok L False (memory s) \<and> \<not> pml4_0_512g_initialized s \<and>
     (\<forall>(T, n) \<in> tables L. apart (vmxarea_addr c) 4 T (8 * n) \<and> apart (current_vmcs_addr c) 4 T (8 * n) \<and>
        apart firmware_va fw_size T (8 * n) \<and> apart firmware_va (unat gp_size) T (8 * n) \<and> apart gp (unat gp_size) T (8 * n)) \<and>
     msr_bitmap s = replicate 512 0 \<and> vmcs s GUEST_IA32_EFER AND EFER_SCE = 0 \<and>
     length (autoload_guest s) = NR_AUTOLOAD_MSRS \<and> length (autoload_host s) = NR_AUTOLOAD_MSRS"

lemma fold_msr_bitmap:
  "\<exists>bm. fold (\<lambda>i. set_msr_interception (g i) rd wr) is s = s\<lparr>msr_bitmap := bm\<rparr>"
proof (induction "is" arbitrary: s)
  case Nil
  then show ?case by (intro exI[of _ "msr_bitmap s"]) simp
next
  case (Cons i "is")
  then obtain bm where "fold (\<lambda>i. set_msr_interception (g i) rd wr) is (set_msr_interception (g i) rd wr s) =
      (set_msr_interception (g i) rd wr s)\<lparr>msr_bitmap := bm\<rparr>" by blast
  then show ?case by (intro exI[of _ bm]) (simp add: set_msr_interception_def[of _ _ _ s])
qed

lemma hardware_setup_frame:
  assumes "vmx_hardware_setup s = Inr s'"
  shows "memory s' = memory s" "vmcs s' = vmcs s" "pml4_0_512g_initialized s' = pml4_0_512g_initialized s"
    "autoload_guest s' = autoload_guest s" "autoload_host s' = autoload_host s" "hw_cr4 s' = hw_cr4 s"
proof -
  obtain s1 where s1: "setup_vmcs_config s = Inr s1" and s': "s' = intercept_msrs s1"
    using assms by (auto simp: vmx_hardware_setup_def and_then_eq_Inr)
  have f: "memory s1 = memory s" "vmcs s1 = vmcs s" "pml4_0_512g_initialized s1 = pml4_0_512g_initialized s"
    "autoload_guest s1 = autoload_guest s" "autoload_host s1 = autoload_host s" "hw_cr4 s1 = hw_cr4 s"
    using setup_vmcs_config_Inr[OF s1] by auto
  have "\<exists>bm. intercept_msrs s1 = s1\<lparr>msr_bitmap := bm\<rparr>"
    using fold_msr_bitmap[of "\<lambda>i. of_nat i" True True "[0x480..<0x492]"
        "set_msr_interception APIC_ICR_MSR False True (set_msr_interception MSR_IA32_APICBASE False True s1)"]
    unfolding intercept_msrs_def Let_def by (auto simp: set_msr_interception_def[of _ _ _ "_ \<lparr>msr_bitmap := _\<rparr>"] set_msr_interception_def[of _ _ _ s1])
  then show "memory s' = memory s" "vmcs s' = vmcs s" "pml4_0_512g_initialized s' = pml4_0_512g_initialized s"
    "autoload_guest s' = autoload_guest s" "autoload_host s' = autoload_host s" "hw_cr4 s' = hw_cr4 s"
    using f s' by auto
qed

lemma kvm_init_boot_ok:
  assumes "image_ok c L gp (unat (fw_end - fw_start)) s" "valid_table t"
    and "kvm_init gp fw_start fw_end x86_capability t s = Inr s'"
  shows "boot_ok c L s'"
proof -
  obtain h where h: "vmx_hardware_setup s = Inr h" and cp: "copy_guest_params gp fw_start fw_end t (memory h) = Inr (memory s')"
    and s': "s' = h\<lparr>memory := memory s'\<rparr>"
    using assms(3) by (auto simp: kvm_init_def and_then_eq_Inr)
  note f = hardware_setup_frame[OF h]
  have e: "read64 (memory s') (slot T i) = read64 (memory s) (slot T i)" if T: "(T, n) \<in> tables L" "i < n" for T n i
  proof (rule read64_cong)
    fix j :: nat assume "j < 8"
    then have k: "8 * i + j < 8 * n" using T(2) by linarith
    have ap: "apart firmware_va (unat (fw_end - fw_start)) T (8 * n)" "apart firmware_va (unat gp_size) T (8 * n)" "apart gp (unat gp_size) T (8 * n)"
      using assms(1) T(1) by (auto simp: image_ok_def)
    have "memory s' (T + of_nat (8 * i + j)) = memory h (T + of_nat (8 * i + j))"
      by (intro copy_guest_params_other[OF cp assms(2)] ap[THEN apart_offset] k)
    then show "memory s' (slot T i + of_nat j) = memory s (slot T i + of_nat j)" by (simp add: slot_def f add.assoc)
  qed
  have "ept_ok L False (memory s')" using assms(1)
    by (simp add: image_ok_def ept_ok_def e[OF table_members(1)] e[OF table_members(2)] e[OF table_members(3)])
  moreover have "exits_on_write (msr_bitmap h) MSR_EFER" using hardware_setup_exits[OF h] assms(1) by (simp add: image_ok_def)
  moreover have "msr_bitmap s' = msr_bitmap h" "vmcs s' = vmcs h" "pml4_0_512g_initialized s' = pml4_0_512g_initialized h"
    "autoload_guest s' = autoload_guest h" "autoload_host s' = autoload_host h" by (subst s', simp)+
  ultimately show ?thesis using assms(1) f by (auto simp: boot_ok_def image_ok_def)
qed

lemma kvm_init_table:
  assumes "kvm_init gp fw_start fw_end x86_capability t s = Inr s'" "valid_table t"
    and "apart gp (unat gp_size) firmware_va (unat gp_size)"
  shows "read_table (memory s') firmware_va = used t"
proof -
  obtain h where "copy_guest_params gp fw_start fw_end t (memory h) = Inr (memory s')"
    using assms(1) by (auto simp: kvm_init_def and_then_eq_Inr) (metis machine.select_convs machine.surjective machine.update_convs)
  then show ?thesis by (rule copy_guest_params_table[OF _ assms(2,3)])
qed

lemma multiboot_init_masks:
  assumes "valid_state s" "img_start L \<le> img_end L" "multiboot_init L gp magic mbi m s = Some (Inr (m1, s1))"
  shows "valid_table (table s1)"
    and "img_start L \<le> a \<Longrightarrow> a < img_end L \<Longrightarrow> E820_TYPE_RAM \<notin># types_at (used (table s1)) a"
proof -
  obtain len e s2 where s2: "e820_update_table (multiboot_add_loop m len 0 e s) = Some (Inr s2)" and mk: "mask_out_vmm L s2 = Inr s1"
    using assms(3) by (auto simp: multiboot_init_def e820_range_add_multiboot_def and_then_eq_Inr split: if_splits)
  note u = update_table_returns[OF multiboot_add_valid[OF assms(1)] s2]
  show "valid_table (table s1)"
    "img_start L \<le> a \<Longrightarrow> a < img_end L \<Longrightarrow> E820_TYPE_RAM \<notin># types_at (used (table s1)) a"
    using mask_out_vmm_types(1,2)[OF mk u(1,2) assms(2)] by auto
qed

section \<open>Properties\<close>

text \<open>C5: the memory map given to the guest. When \<open>multiboot_init\<close> and later \<open>kvm_init\<close> return, the map
  at the head of the firmware in guest memory is the VMM's own sanitized map, and no RAM entry of
  it covers an address of the VMM's image. When the boot loader's map has at most 21 entries
  it gives the image as reserved and every other address the type the boot loader's map gives it.\<close>

theorem guest_memory_map:
  assumes "valid_state s" "img_start L \<le> img_end L" "apart gp (unat gp_size) firmware_va (unat gp_size)"
    and init: "multiboot_init L gp magic mbi m s = Some (Inr (m1, s1))"
    and kvm: "kvm_init gp fw_start fw_end x86_capability (table s1) v = Inr v'"
  defines "boot \<equiv> multiboot_add_loop m (unat (read32 m (mbi_mmap_length mbi))) 0 (read32x m (mbi_mmap_addr mbi)) s"
    and "guest_map \<equiv> read_table (memory v') firmware_va"
  shows "guest_map = used (table s1) \<and>
    (\<forall>a. img_start L \<le> a \<longrightarrow> a < img_end L \<longrightarrow> E820_TYPE_RAM \<notin># types_at guest_map a) \<and>
    (6 * nr_entries (table boot) < E820_MAX_ENTRIES \<longrightarrow>
      (\<forall>a. type_at guest_map a =
        (if img_start L \<le> a \<and> a < img_end L then E820_TYPE_RESERVED else type_at (used (table boot)) a)))"
proof -
  obtain s2 where s2: "e820_update_table boot = Some (Inr s2)" and mk: "mask_out_vmm L s2 = Inr s1"
    using init by (auto simp: multiboot_init_def e820_range_add_multiboot_def and_then_eq_Inr boot_def split: if_splits)
  have "valid_state boot" unfolding boot_def by (rule multiboot_add_valid) (rule assms(1))
  note u = update_table_returns[OF this s2]
  note k = mask_out_vmm_types[OF mk u(1,2) assms(2)]
  have g: "guest_map = used (table s1)" unfolding guest_map_def by (rule kvm_init_table[OF kvm k(1) assms(3)])
  have "nr_entries (table s1) \<le> 6 * nr_entries (table boot)" using k(3) u(4) by linarith
  then show ?thesis using k(2,4) u(3) by (simp add: g)
qed

text \<open>
  A boot: two ranges of memory, one module without a command line, a firmware of eight bytes, and
  the descriptor of a TSS in the GDT.
\<close>

definition boot_bytes :: "(u64 \<times> u8) list" where
  "boot_bytes = [(0x9000, 0x40), (0x9014, 1), (0x9019, 0x91), (0x902c, 48), (0x9031, 0x92),
     (0x9102, 0x40), (0x9106, 0x50), (0x9109, 0x93),
     (0x9200, 20), (0x920d, 0xf0), (0x920e, 9), (0x9214, 1),
     (0x9218, 20), (0x921e, 0x10), (0x9226, 0xf0), (0x9227, 0x1f), (0x922c, 1)]"

definition boot_memory :: mem where
  "boot_memory x = (case map_of boot_bytes x of Some b \<Rightarrow> b | None \<Rightarrow> 0)"

definition boot_state :: e820_state where
  "boot_state = sample_state\<lparr>table := sample_table\<lparr>nr_entries := 0\<rparr>\<rparr>"

definition firmware_memory :: mem where
  "firmware_memory = (\<lambda>_. 0)(0x10200000 := 0xe9, 0x10200001 := 0x29, 0x10200002 := 0x0e, 0x10200045 := 0x80)"

lemmas boot_eval = boot_memory_def boot_bytes_def read32_def read64_def read_bytes_def upt_rec

text \<open>A memory that holds the boot loader's information there, whatever lies elsewhere.\<close>

definition boot_area :: "mem \<Rightarrow> bool" where
  "boot_area m \<longleftrightarrow> (\<forall>x. 0x9000 \<le> unat x \<longrightarrow> unat x < 0xa000 \<longrightarrow> m x = boot_memory x)"

lemma boot_reads:
  assumes "boot_area m" "0x9000 \<le> unat a" "unat a \<le> 0x9f00"
  shows "read32 m a = read32 boot_memory a" "read64 m a = read64 boot_memory a"
proof -
  have "m (a + of_nat i) = boot_memory (a + of_nat i)" if "i < 8" for i
  proof -
    have "unat (a + of_nat i) = unat a + i" using assms(3) that by (simp add: unat_word_ariths)
    then show ?thesis using assms that by (simp add: boot_area_def)
  qed
  then show "read32 m a = read32 boot_memory a" "read64 m a = read64 boot_memory a"
    unfolding read32_def read64_def by (intro arg_cong[OF read_bytes_cong]; simp)+
qed

lemma boot_fields:
  assumes "boot_area m"
  shows "read32 m 0x9000 = 0x40" "read32 m 0x9014 = 1" "read32 m 0x9018 = 0x9100" "read32 m 0x902c = 48" "read32 m 0x9030 = 0x9200"
  by (simp_all add: boot_reads[OF assms]) (simp_all add: boot_eval)

lemma boot_entries:
  assumes "boot_area m"
  shows "read32 m 0x9200 = 20" "read64 m 0x9204 = 0" "read64 m 0x920c = 0x9f000" "read32 m 0x9214 = 1" "read32 m 0x9218 = 20"
    "read64 m 0x921c = 0x100000" "read64 m 0x9224 = 0x1ff00000" "read32 m 0x922c = 1"
  by (simp_all add: boot_reads[OF assms]) (simp_all add: boot_eval)

definition boot_table :: e820_state where
  "boot_table = e820_range_add (e820_range_add boot_state 0 0x9f000 1) 0x100000 0x1ff00000 1"

lemma boot_added: "boot_area m \<Longrightarrow> multiboot_add_loop m 48 0 0x9200 boot_state = boot_table"
  by (simp add: multiboot_add_loop.simps[of m] boot_entries boot_table_def Let_def)

lemma boot_table_entries:
  "used (table boot_table) = [\<lparr>e_addr = 0, e_size = 0x9f000, e_type = 1\<rparr>, \<lparr>e_addr = 0x100000, e_size = 0x1ff00000, e_type = 1\<rparr>]"
  "nr_entries (table boot_table) = 2"
  by (simp_all add: boot_table_def boot_state_def e820_range_add_def e820_range_add'_def sample_state_def sample_table_def used_def)

lemma boot_table_valid: "valid_state boot_state" "valid_state boot_table"
proof -
  show "valid_state boot_state" using sample_valid(1) by (simp add: boot_state_def valid_state_def valid_table_def sample_state_def sample_table_def)
  then show "valid_state boot_table" by (simp add: boot_table_def range_add_valid)
qed

lemma boot_masks: "\<exists>s2 s1. e820_update_table boot_table = Some (Inr s2) \<and> mask_out_vmm small_layout s2 = Inr s1"
proof -
  have re: "reasonable e" if "e \<in> set (used (table boot_table))" for e
    using that by (auto simp: boot_table_entries reasonable_def)
  obtain s2 where s2: "e820_update_table' boot_table = Some (Inr (0, s2))" "valid_state s2" "sanitized (used (table s2))"
    "\<And>a. type_at (used (table s2)) a = type_at (used (table boot_table)) a \<or>
      nr_entries (table s2) = E820_MAX_ENTRIES \<and> E820_MAX_ENTRIES < 2 * nr_entries (table boot_table) \<and>
      e_addr (last (used (table s2))) + e_size (last (used (table s2))) \<le> a"
    by (rule update_table_result[OF boot_table_valid(2) _ re]) (simp_all add: boot_table_entries)
  have ty: "type_at (used (table s2)) a = 1" if "0x10000000 \<le> a" "a < 0x10400000" for a
  proof -
    have "0x100000 \<le> a" "a < 0x20000000" using that by (auto intro: order_trans[rotated] less_trans)
    then show ?thesis using s2(4)[of a] by (auto simp: boot_table_entries covers_def E820_MAX_ENTRIES_def)
  qed
  have "covered_by (used (table s2)) 1 a" if "0x10000000 \<le> a" "a < 0x10400000" for a
    using type_at_attained[of "used (table s2)" a] ty[OF that] by (auto simp: covered_by_def)
  then have all: "e820_mapped_all (table s2) 0x10000000 0x10400000 1"
    unfolding e820_mapped_all_def by (intro mapped_all_loop_complete s2(3)) simp_all
  have re2: "\<forall>e\<in>set (used (table s2)). reasonable e" using sanitized_reasonable[OF s2(3)] by blast
  have v2: "valid_table (table s2)" using s2(2) by (simp add: valid_state_def)
  have ne: "E820_TYPE_RAM \<noteq> E820_TYPE_RESERVED" by (simp add: E820_TYPE_RAM_def E820_TYPE_RESERVED_def)
  obtain t r where "e820_range_update' (table s2) 0x10000000 0x400000 E820_TYPE_RAM E820_TYPE_RESERVED = Inr (t, r)"
    by (rule range_update_types[OF v2 re2 ne])
  then show ?thesis using all s2(1)
    by (auto simp: mask_out_vmm_def small_layout_def SZ_2M_def e820_range_update_def e820_update_table_def E820_TYPE_RAM_def BUG_ON_def)
qed

lemma read32_write64_apart: "apart a 8 b 4 \<Longrightarrow> read32 (write64 m a v) b = read32 m b"
  by (simp add: read32_def write64_def read_write_apart)

lemma strscpy_empty: "read64 m 0x9300 = 0 \<Longrightarrow> snd (strscpy m 0x10100028 0x9300 1024) = 0"
proof -
  have "has_zero 0 = 0x8080808080808080" "create_zero_mask 0x8080808080808080 = 0" "find_zero 0 = 0" by code_simp+
  moreover assume "read64 m 0x9300 = 0"
  ultimately show ?thesis
    by (simp add: strscpy_def strscpy_words.simps[of _ _ _ _ 1024] prep_zero_mask_def Let_def)
qed

lemma boot_modules:
  assumes "boot_area m0"
  shows "\<exists>m1. multiboot_modules 0x10100000 0x9000 m0 = Inr m1"
proof -
  define m where "m = copy_module m0 0x9100 0 0x10100008 0x10100010"
  have ap: "apart 0x10100008 8 a k" "apart 0x10100010 8 a k" if "a \<le> 0x9400" "k \<le> 8" for a k
    using apart_ranges[of a k "0x10100008" 8] apart_ranges[of a k "0x10100010" 8] that by (simp_all add: apart_sym[of _ 8] word_le_nat_alt)
  have r: "read32 m a = read32 m0 a" if "a \<le> 0x9400" for a
    using ap[OF that, of 4] by (simp add: m_def copy_module_def Let_def read32_write64_apart)
  have "read32 m0 0x9108 = 0x9300" by (simp add: boot_reads[OF assms]) (simp add: boot_eval)
  moreover have "read64 m0 0x9300 = 0" by (simp add: boot_reads[OF assms]) (simp add: boot_eval)
  then have "read64 m 0x9300 = 0" using ap[of "0x9300" 8] by (simp add: m_def copy_module_def Let_def read64_write64_apart)
  note strscpy_empty[OF this]
  ultimately show ?thesis
    by (simp add: multiboot_modules_def boot_fields[OF assms] mbi_mods_count_def mbi_mods_addr_def panic_if_def gp_kernel_start_def gp_cmdline_def CMDLINE_SIZE_def
        mod_cmdline_def gp_kernel_end_def read32x_def Let_def split_def r flip: m_def)
qed

lemma boot_returns:
  assumes "boot_area m"
  obtains m1 s1 where "multiboot_init small_layout 0x10100000 0x2BADB002 0x9000 m boot_state = Some (Inr (m1, s1))"
    "E820_TYPE_RAM \<in># types_at (used (table s1)) 0x200000" "valid_table (table s1)"
proof -
  obtain s2 s1 where s: "e820_update_table boot_table = Some (Inr s2)" "mask_out_vmm small_layout s2 = Inr s1" using boot_masks by blast
  obtain m1 where "multiboot_modules 0x10100000 0x9000 m = Inr m1" using boot_modules[OF assms] by blast
  then have init: "multiboot_init small_layout 0x10100000 0x2BADB002 0x9000 m boot_state = Some (Inr (m1, s1))"
    using s by (simp add: multiboot_init_def e820_range_add_multiboot_def mbi_flags_def mbi_mmap_addr_def mbi_mmap_length_def read32x_def
        boot_fields[OF assms] boot_added[OF assms] MULTIBOOT_INFO_MEM_MAP_def MULTIBOOT_BOOTLOADER_MAGIC_def)
  have im: "img_start small_layout \<le> img_end small_layout" by (simp add: small_layout_def)
  note u = update_table_returns[OF boot_table_valid(2) s(1)]
  note k = mask_out_vmm_types[OF s(2) u(1,2) im]
  have "type_at (used (table boot_table)) 0x200000 = 1" by (simp add: boot_table_entries covers_def)
  then have "type_at (used (table s1)) 0x200000 = 1"
    using k(3) k(4)[of "0x200000"] u(3)[of "0x200000"] u(4) by (simp add: boot_table_entries E820_MAX_ENTRIES_def small_layout_def)
  then have "E820_TYPE_RAM \<in># types_at (used (table s1)) 0x200000"
    using type_at_attained[of "used (table s1)" "0x200000"] by (auto simp: types_at_member E820_TYPE_RAM_def)
  then show thesis using that init k(1) by blast
qed

definition firmware_area :: "mem \<Rightarrow> bool" where
  "firmware_area m \<longleftrightarrow> (\<forall>x. 0x10100000 \<le> x \<and> x < 0x10100008 \<or> 0x10200000 \<le> x \<and> x < 0x10200008 \<longrightarrow> m x = firmware_memory x)"

lemma firmware_copied:
  assumes "valid_table t" "firmware_area m0"
  shows "\<exists>m'. copy_guest_params 0x10100000 0x10200000 0x10200008 t m0 = Inr m'"
proof -
  have f: "m0 x = firmware_memory x" if "0x10100000 \<le> x \<and> x < 0x10100008 \<or> 0x10200000 \<le> x \<and> x < 0x10200008" for x
    using assms(2) that unfolding firmware_area_def by blast
  define m where "m = memcpy m0 firmware_va 0x10200000 8"
  have "apart 0x10200000 (unat (8 :: u64)) firmware_va (unat (8 :: u64))" by (simp add: apart_def firmware_va)
  then have m: "m = write_bytes m0 firmware_va [0xe9, 0x29, 0x0e, 0, 0, 0, 0, 0]"
    using memcpy_write by (simp add: m_def read_bytes_def f firmware_memory_def upt_rec)
  obtain m1 where m1: "copy_e820 0x10100000 t m = Inr m1"
    using assms by (auto simp: copy_e820_def BUG_ON_def valid_table_def E820_MAX_ENTRIES_def E820_MAX_ENTRIES_GUEST_def)
  have head: "m1 x = m x" if "unat x < 0x10100400" for x
    using that copy_e820_other[OF m1 assms(1), of x] by (simp add: gp_e820_entries_def unat_sub_if')
  have "read_bytes (write_magic 0x10100000 m1) 0x10100000 8 = read_bytes (write_magic 0x10100000 m1) firmware_va 8"
    by (simp add: read_bytes_def upt_rec write_magic_def gp_magic_def gp_size_def firmware_va head m write_bytes_def f firmware_memory_def)
  then have "memcmp (write_magic 0x10100000 m1) 0x10100000 firmware_va 8 = 0" by (simp add: memcmp_def memcmp_loop_eq)
  then show ?thesis using m1 by (simp add: copy_guest_params_def m_def panic_if_def gp_magic_def Let_def)
qed

text \<open>A processor that has all of VMX, as far as its MSRs tell.\<close>

lemma capable_kvm_init:
  assumes "firmware_area m" "valid_table t" "bm_test caps X86_FEATURE_VMX"
    and ms: "\<And>i. i = 0x3a \<or> 0x480 \<le> i \<and> i < 0x492 \<Longrightarrow> ms i = msrs capable_machine i"
  shows "\<exists>v. kvm_init 0x10100000 0x10200000 0x10200008 caps t (capable_machine\<lparr>memory := m, msrs := ms\<rparr>) = Inr v"
proof -
  let ?s = "capable_machine\<lparr>memory := m, msrs := ms\<rparr>"
  obtain v where v: "vmx_hardware_setup ?s = Inr v" "memory v = m"
    by (simp add: vmx_hardware_setup_def setup_vmcs_config_def adjust_vmx_controls_def ms)
       (simp add: capable_machine_def zero_machine_def rdmsr_def panic_if_def BUG_ON_def Let_def cpu_has_vmx_ept_2m_page_def cpu_has_vmx_ept_4levels_def
         intercept_msrs_def set_msr_interception_def ms)
  have "\<not> vmx_disabled_by_bios ?s"
    by (simp add: vmx_disabled_by_bios_def rdmsrl_def ms) (simp add: capable_machine_def FEATURE_CONTROL_VMXON_ENABLED_OUTSIDE_SMX_def BIT_64_def)
  then show ?thesis using v assms(3) firmware_copied[OF assms(2,1)]
    by (auto simp: kvm_init_def vmx_cpu_has_kvm_support_def panic_if_def)
qed

definition sample_machine :: machine where
  "sample_machine = capable_machine\<lparr>memory := firmware_memory\<rparr>"

lemma sample_boot:
  obtains m1 s1 v' where "multiboot_init small_layout 0x10100000 0x2BADB002 0x9000 boot_memory boot_state = Some (Inr (m1, s1))"
    "kvm_init 0x10100000 0x10200000 0x10200008 [0, 0, BIT_64 5] (table s1) sample_machine = Inr v'"
    "E820_TYPE_RAM \<in># types_at (used (table s1)) 0x200000" "valid_table (table s1)"
proof -
  have "boot_area boot_memory" by (simp add: boot_area_def)
  then obtain m1 s1 where s1: "multiboot_init small_layout 0x10100000 0x2BADB002 0x9000 boot_memory boot_state = Some (Inr (m1, s1))"
    "E820_TYPE_RAM \<in># types_at (used (table s1)) 0x200000" "valid_table (table s1)" by (rule boot_returns)
  have c: "bm_test [0, 0, BIT_64 5] X86_FEATURE_VMX" "firmware_area firmware_memory"
    by (simp_all add: bm_test_def X86_FEATURE_VMX_def BIT_64_def firmware_area_def)
  have m: "capable_machine\<lparr>memory := firmware_memory, msrs := msrs capable_machine\<rparr> = sample_machine"
    by (simp add: sample_machine_def capable_machine_def)
  show thesis using that s1 capable_kvm_init[OF c(2) s1(3) c(1), of "msrs capable_machine"] unfolding m by blast
qed

lemma sample_apart: "apart (0x10100000 :: u64) (unat gp_size) firmware_va (unat gp_size)"
  by (simp add: apart_def gp_size_def firmware_va)

theorem guest_memory_map_witness:
  "\<exists>m1 s1 v'. multiboot_init small_layout 0x10100000 0x2BADB002 0x9000 boot_memory boot_state = Some (Inr (m1, s1)) \<and>
     kvm_init 0x10100000 0x10200000 0x10200008 [0, 0, BIT_64 5] (table s1) sample_machine = Inr v' \<and>
     E820_TYPE_RAM \<notin># types_at (read_table (memory v') firmware_va) 0x10000000"
proof -
  obtain m1 s1 v' where init: "multiboot_init small_layout 0x10100000 0x2BADB002 0x9000 boot_memory boot_state = Some (Inr (m1, s1))"
    and kvm: "kvm_init 0x10100000 0x10200000 0x10200008 [0, 0, BIT_64 5] (table s1) sample_machine = Inr v'" by (rule sample_boot)
  have im: "img_start small_layout \<le> img_end small_layout" by (simp add: small_layout_def)
  from guest_memory_map[OF boot_table_valid(1) im sample_apart init kvm] show ?thesis
    using init kvm by (auto simp: small_layout_def)
qed

end
