(* ===== verification/Firmware.thy ===== *)
theory Firmware
  imports Boot
begin

unbundle bit_operations_syntax

text \<open>
  The firmware that runs first in the guest (firmware/main.c): it looks for a multiboot header in
  the kernel image, loads the kernel (as the header says or as an ELF file, firmware/elfload.h),
  describes the machine in a \<open>multiboot_info\<close> and starts the kernel. The locale \<open>elf_format\<close> is
  what loading needs of a class of ELF files; the two classes are interpretations of it. The
  firmware runs in 64-bit mode with identity-mapped memory. Output is left out.
\<close>

section \<open>ELF files\<close>

definition read16 :: "mem \<Rightarrow> u64 \<Rightarrow> u16" where
  "read16 m a = le_word (read_bytes m a 2)"

record phdr =
  p_type :: u32
  p_offset :: u64
  p_vaddr :: u64
  p_paddr :: u64
  p_filesz :: u64
  p_memsz :: u64

text \<open>
  What differs between \<open>load_elf32\<close> and \<open>load_elf64\<close>, the two expansions of elfload.h: the layout
  of the headers, and that the difference of two sizes is computed in 32 bits for the first.
\<close>

record elf_class =
  e_entry :: "mem \<Rightarrow> u64 \<Rightarrow> u32"
  e_phoff :: "mem \<Rightarrow> u64 \<Rightarrow> u64"
  e_phnum :: "mem \<Rightarrow> u64 \<Rightarrow> u16"
  phdr_at :: "mem \<Rightarrow> u64 \<Rightarrow> phdr"
  phdr_size :: nat
  size_diff :: "u64 \<Rightarrow> u64 \<Rightarrow> u64"

definition elf32_phdr :: "mem \<Rightarrow> u64 \<Rightarrow> phdr" where
  "elf32_phdr m a = \<lparr>p_type = read32 m a, p_offset = read32x m (a + 4), p_vaddr = read32x m (a + 8),
     p_paddr = read32x m (a + 12), p_filesz = read32x m (a + 16), p_memsz = read32x m (a + 20)\<rparr>"

definition elf64_phdr :: "mem \<Rightarrow> u64 \<Rightarrow> phdr" where
  "elf64_phdr m a = \<lparr>p_type = read32 m a, p_offset = read64 m (a + 8), p_vaddr = read64 m (a + 16),
     p_paddr = read64 m (a + 24), p_filesz = read64 m (a + 32), p_memsz = read64 m (a + 40)\<rparr>"

definition elf32 :: elf_class where
  "elf32 = \<lparr>e_entry = (\<lambda>m hdr. read32 m (hdr + 24)), e_phoff = (\<lambda>m hdr. read32x m (hdr + 28)),
     e_phnum = (\<lambda>m hdr. read16 m (hdr + 44)), phdr_at = elf32_phdr, phdr_size = 32,
     size_diff = (\<lambda>x y. ucast (ucast x - ucast y :: u32))\<rparr>"

definition elf64 :: elf_class where
  "elf64 = \<lparr>e_entry = (\<lambda>m hdr. ucast (read64 m (hdr + 24))), e_phoff = (\<lambda>m hdr. read64 m (hdr + 32)),
     e_phnum = (\<lambda>m hdr. read16 m (hdr + 56)), phdr_at = elf64_phdr, phdr_size = 56, size_diff = (-)\<rparr>"

definition PT_LOAD :: u32 where "PT_LOAD = 1"

definition relocate :: "phdr \<Rightarrow> u32 \<Rightarrow> u32" where
  "relocate p entry =
     (if ucast entry \<ge> p_vaddr p \<and> ucast entry - p_vaddr p < p_memsz p
      then ucast (p_paddr p + (ucast entry - p_vaddr p)) else entry)"

text \<open>One program header; its fields are read again after each write to memory.\<close>

definition load_segment :: "elf_class \<Rightarrow> u64 \<Rightarrow> u64 \<Rightarrow> mem \<times> u32 \<Rightarrow> mem \<times> u32" where
  "load_segment c hdr a st =
     (let (m, entry) = st; p = phdr_at c m a
      in if p_type p \<noteq> PT_LOAD then (m, entry)
         else
           let dest = p_paddr p;
               m = memcpy m dest (hdr + p_offset p) (p_filesz p);
               p = phdr_at c m a;
               m = memset m (dest + p_filesz p) 0 (size_diff c (p_memsz p) (p_filesz p))
           in (m, relocate (phdr_at c m a) entry))"

definition phdr_addr :: "elf_class \<Rightarrow> u64 \<Rightarrow> u64 \<Rightarrow> nat \<Rightarrow> u64" where
  "phdr_addr c hdr phoff i = hdr + phoff + of_nat (i * phdr_size c)"

definition load_elf :: "elf_class \<Rightarrow> u64 \<Rightarrow> mem \<Rightarrow> mem \<times> u32" where
  "load_elf c hdr m =
     fold (\<lambda>i. load_segment c hdr (phdr_addr c hdr (e_phoff c m hdr) i)) [0..<unat (e_phnum c m hdr)] (m, e_entry c m hdr)"

section \<open>Multiboot kernels\<close>

definition MULTIBOOT_SEARCH :: u64 where "MULTIBOOT_SEARCH = 8192"
definition MULTIBOOT_HEADER_MAGIC :: u32 where "MULTIBOOT_HEADER_MAGIC = 0x1BADB002"
definition MULTIBOOT_AOUT_KLUDGE :: u32 where "MULTIBOOT_AOUT_KLUDGE = 0x10000"
definition MULTIBOOT_INFO_MEMORY :: u32 where "MULTIBOOT_INFO_MEMORY = 1"
definition MULTIBOOT_INFO_CMDLINE :: u32 where "MULTIBOOT_INFO_CMDLINE = 4"
definition MULTIBOOT_INFO_MODS :: u32 where "MULTIBOOT_INFO_MODS = 8"
definition VMM_START :: u32 where "VMM_START = 0x10000000"

text \<open>The addresses of the firmware's static objects.\<close>

record fw_objects =
  fw_info :: u64
  fw_mod_list :: u64
  fw_mmap :: u64
  fw_initrd_name :: u64

text \<open>The number of words searched; \<open>struct multiboot_info\<close> has 120 bytes. The image lies below 4 GB, so that
  the end of the search does not wrap around.\<close>

definition search_words :: nat where
  "search_words = unat ((MULTIBOOT_SEARCH - 120) div 4)"

definition find_multiboot_header :: "mem \<Rightarrow> u64 \<Rightarrow> u64 option" where
  "find_multiboot_header m base =
     map_option (\<lambda>i. base + of_nat (4 * i))
       (List.find (\<lambda>i. read32 m (base + of_nat (4 * i)) = MULTIBOOT_HEADER_MAGIC) [0..<search_words])"

definition load_addresses :: "u64 \<Rightarrow> u64 \<Rightarrow> mem \<Rightarrow> mem \<times> u32" where
  "load_addresses img header m =
     (let m = memcpy m (read32x m (header + 16)) img (ucast (read32 m (header + 20) - read32 m (header + 16)));
          m = memset m (read32x m (header + 20)) 0 (ucast (read32 m (header + 24) - read32 m (header + 20)))
      in (m, read32 m (header + 28)))"

text \<open>The string \<open>ELFMAG\<close>; \<open>memcmp\<close> against it is a comparison of bytes.\<close>

definition elf_magic :: "u8 list" where "elf_magic = [0x7f, 0x45, 0x4c, 0x46]"

definition load_kernel :: "u64 \<Rightarrow> u64 \<Rightarrow> mem \<Rightarrow> (mem \<times> u32) option" where
  "load_kernel img header m =
     (if read32 m (header + 4) AND MULTIBOOT_AOUT_KLUDGE \<noteq> 0 then Some (load_addresses img header m)
      else if read_bytes m img 4 \<noteq> elf_magic then None
      else if m (img + 4) = 1 then Some (load_elf elf32 img m)
      else if m (img + 4) = 2 then Some (load_elf elf64 img m)
      else None)"

definition fill_initrd :: "fw_objects \<Rightarrow> u64 \<Rightarrow> mem \<Rightarrow> mem" where
  "fill_initrd f gp m =
     (if read64 m (gp_initrd_start gp) < read64 m (gp_initrd_end gp) then
        let m = write32 m (mbi_mods_count (fw_info f)) 1;
            m = write32 m (fw_mod_list f) (ucast (read64 m (gp_initrd_start gp)));
            m = write32 m (fw_mod_list f + 4) (ucast (read64 m (gp_initrd_end gp)));
            m = write32 m (fw_mod_list f + 8) (ucast (fw_initrd_name f))
        in write32 m (mbi_mods_addr (fw_info f)) (ucast (fw_mod_list f))
      else m)"

definition fill_mmap_entry :: "fw_objects \<Rightarrow> u64 \<Rightarrow> nat \<Rightarrow> mem \<Rightarrow> mem" where
  "fill_mmap_entry f gp i m =
     (let e = gp_e820_table gp + of_nat (20 * i); a = fw_mmap f + of_nat (24 * i);
          m = write32 m a (24 - 4);
          m = write64 m (a + 4) (read64 m e);
          m = write64 m (a + 12) (read64 m (e + 8))
      in write32 m (a + 20) (read32 m (e + 16)))"

definition fill_head :: "fw_objects \<Rightarrow> u64 \<Rightarrow> mem \<Rightarrow> mem" where
  "fill_head f gp m =
     (let m = write32 m (mbi_flags (fw_info f))
            (MULTIBOOT_INFO_MEMORY OR MULTIBOOT_INFO_CMDLINE OR MULTIBOOT_INFO_MODS OR MULTIBOOT_INFO_MEM_MAP);
          m = write32 m (fw_info f + 4) 0;
          m = write32 m (fw_info f + 8) ((VMM_START - 0x100000) div 0x400)
      in write32 m (fw_info f + 16) (ucast (gp_cmdline gp)))"

definition fill_info :: "fw_objects \<Rightarrow> u64 \<Rightarrow> mem \<Rightarrow> mem" where
  "fill_info f gp m =
     (let m = fill_initrd f gp (fill_head f gp m);
          n = read32 m (gp_e820_entries gp);
          m = fold (fill_mmap_entry f gp) [0..<nat (sint n)] m;
          m = write32 m (mbi_mmap_addr (fw_info f)) (ucast (fw_mmap f))
      in write32 m (mbi_mmap_length (fw_info f)) (n * 24))"

text \<open>\<open>load_multiboot\<close> returns when it cannot load the image, or starts the kernel for good.\<close>

datatype firmware_outcome = Returned mem | Started mem u32 u64

definition load_multiboot :: "fw_objects \<Rightarrow> u64 \<Rightarrow> mem \<Rightarrow> firmware_outcome" where
  "load_multiboot f gp m =
     (let img = read64 m (gp_kernel_start gp)
      in case find_multiboot_header m img of
           None \<Rightarrow> Returned m
         | Some header \<Rightarrow>
             (case load_kernel img header m of
                None \<Rightarrow> Returned m
              | Some (m, entry) \<Rightarrow> Started (fill_info f gp m) entry (fw_info f)))"

text \<open>\<open>load_linux\<close> only prints; after both return \<open>main\<close> reports an unknown format and dies (\<open>None\<close>).\<close>

definition load_linux :: "u64 \<Rightarrow> mem \<Rightarrow> mem" where
  "load_linux gp m = m"

definition firmware_main :: "fw_objects \<Rightarrow> u64 \<Rightarrow> mem \<Rightarrow> (mem \<times> u32 \<times> u64) option" where
  "firmware_main f gp m =
     (case load_multiboot f gp m of
        Started m entry info \<Rightarrow> Some (m, entry, info)
      | Returned m \<Rightarrow> let m = load_linux gp m in None)"

section \<open>Loading an ELF file\<close>

definition phdrs :: "elf_class \<Rightarrow> u64 \<Rightarrow> mem \<Rightarrow> phdr list" where
  "phdrs c hdr m = map (\<lambda>i. phdr_at c m (phdr_addr c hdr (e_phoff c m hdr) i)) [0..<unat (e_phnum c m hdr)]"

text \<open>What a segment holds once loaded: its bytes in the file, then zeros.\<close>

definition segment_bytes :: "mem \<Rightarrow> u64 \<Rightarrow> phdr \<Rightarrow> u8 list" where
  "segment_bytes m hdr p =
     read_bytes m (hdr + p_offset p) (unat (p_filesz p)) @ replicate (unat (p_memsz p) - unat (p_filesz p)) 0"

definition loadable :: "phdr list \<Rightarrow> phdr list" where
  "loadable ps = filter (\<lambda>p. p_type p = PT_LOAD) ps"

definition place :: "mem \<Rightarrow> u64 \<Rightarrow> phdr \<Rightarrow> mem \<Rightarrow> mem" where
  "place m hdr p m' = write_bytes m' (p_paddr p) (segment_bytes m hdr p)"

text \<open>A segment whose file part lies in the \<open>len\<close> bytes of the file, and which is not loaded over it.\<close>

definition segment_ok :: "u64 \<Rightarrow> nat \<Rightarrow> phdr \<Rightarrow> bool" where
  "segment_ok hdr len p \<longleftrightarrow> p_filesz p \<le> p_memsz p \<and> unat (p_offset p) + unat (p_filesz p) \<le> len \<and>
     apart (p_paddr p) (unat (p_memsz p)) hdr len"

definition elf_ok :: "elf_class \<Rightarrow> u64 \<Rightarrow> nat \<Rightarrow> mem \<Rightarrow> bool" where
  "elf_ok c hdr len m \<longleftrightarrow> len < 2 ^ 64 \<and>
     unat (e_phoff c m hdr) + unat (e_phnum c m hdr) * phdr_size c \<le> len \<and>
     (\<forall>p\<in>set (loadable (phdrs c hdr m)). segment_ok hdr len p)"

definition same_bytes :: "u64 \<Rightarrow> nat \<Rightarrow> mem \<Rightarrow> mem \<Rightarrow> bool" where
  "same_bytes hdr len m m' \<longleftrightarrow> (\<forall>k<len. m' (hdr + of_nat k) = m (hdr + of_nat k))"

lemma apart_sub:
  assumes "apart a n b k" "i + j \<le> k" "n' \<le> n"
  shows "apart a n' (b + of_nat i) j"
proof (cases "n' = 0 \<or> j = 0")
  case False
  with assms have na: "n \<le> unat (b - a)" and kb: "k \<le> unat (a - b)" by (auto simp: apart_def)
  have "a \<noteq> b" using kb assms(2) False by auto
  then have sum: "unat (b - a) + unat (a - b) = 2 ^ 64"
    using unat_lt_64[of a] unat_lt_64[of b] by (auto simp: unat_sub_if' word_unat_eq_iff simp del: unsigned_less)
  have i: "unat (of_nat i :: u64) = i" using kb assms(2) unat_lt_64[of "a - b"] by (intro unat_offset) linarith
  have e: "b + of_nat i - a = (b - a) + of_nat i" "a - (b + of_nat i) = (a - b) - of_nat i" by simp_all
  have "unat (b + of_nat i - a) = unat (b - a) + i"
    unfolding e using sum kb assms(2) False i by (subst unat_word_ariths) simp
  moreover have "unat (a - (b + of_nat i)) = unat (a - b) - i"
    unfolding e using kb assms(2) i by (subst unat_sub_if') simp
  ultimately show ?thesis using na kb assms(2,3) by (auto simp: apart_def)
qed (auto simp: apart_def)

lemma same_bytes_write:
  assumes "same_bytes hdr len m m'" "apart a (length bs) hdr len"
  shows "same_bytes hdr len m (write_bytes m' a bs)"
  using assms apart_offset[OF assms(2)] by (simp add: same_bytes_def write_bytes_other)

lemma same_bytes_read:
  assumes "same_bytes hdr len m m'" "unat off + n \<le> len"
  shows "read_bytes m' (hdr + off) n = read_bytes m (hdr + off) n"
proof (rule read_bytes_cong)
  fix i assume "i < n"
  then have "unat off + i < len" using assms(2) by simp
  then have "m' (hdr + of_nat (unat off + i)) = m (hdr + of_nat (unat off + i))"
    using assms(1) unfolding same_bytes_def by blast
  then show "m' (hdr + off + of_nat i) = m (hdr + off + of_nat i)" by (simp add: add.assoc)
qed

text \<open>What loading needs of a class of files.\<close>

locale elf_format =
  fixes c :: elf_class
  assumes phdr_cong: "(\<And>k. k < phdr_size c \<Longrightarrow> m (a + of_nat k) = m' (a + of_nat k)) \<Longrightarrow> phdr_at c m a = phdr_at c m' a"
    and size_diff_sub: "p_filesz (phdr_at c m a) \<le> p_memsz (phdr_at c m a) \<Longrightarrow>
      size_diff c (p_memsz (phdr_at c m a)) (p_filesz (phdr_at c m a)) = p_memsz (phdr_at c m a) - p_filesz (phdr_at c m a)"
begin

lemma same_phdr:
  assumes "same_bytes hdr len m m'" "unat off + phdr_size c \<le> len"
  shows "phdr_at c m' (hdr + off) = phdr_at c m (hdr + off)"
proof (rule phdr_cong)
  fix k assume "k < phdr_size c"
  then show "m' (hdr + off + of_nat k) = m (hdr + off + of_nat k)"
    using arg_cong[OF same_bytes_read[OF assms], of "\<lambda>bs. bs ! k"] by simp
qed

lemma load_segment_places:
  assumes same: "same_bytes hdr len m m'" and off: "unat off + phdr_size c \<le> len"
    and p: "p = phdr_at c m (hdr + off)" and ok: "p_type p = PT_LOAD \<Longrightarrow> segment_ok hdr len p"
  shows "load_segment c hdr (hdr + off) (m', entry) =
      (if p_type p = PT_LOAD then (place m hdr p m', relocate p entry) else (m', entry))"
    and "p_type p = PT_LOAD \<Longrightarrow> same_bytes hdr len m (place m hdr p m')"
proof -
  note ph = same_phdr[OF _ off]
  have places: "load_segment c hdr (hdr + off) (m', entry) = (place m hdr p m', relocate p entry)"
    and kept: "same_bytes hdr len m (place m hdr p m')" if t: "p_type p = PT_LOAD"
  proof -
    let ?n = "unat (p_filesz p)" and ?k = "unat (p_memsz p)"
    have le: "?n \<le> ?k" and src: "unat (p_offset p) + ?n \<le> len" and ap: "apart (p_paddr p) ?k hdr len"
      using ok[OF t] by (auto simp: segment_ok_def word_le_nat_alt)
    have k: "?k < 2 ^ 64" by (rule unat_lt_64)
    have ap2: "apart (p_paddr p) ?n (hdr + p_offset p) ?n" using apart_sub[OF ap src le] by simp
    let ?file = "read_bytes m (hdr + p_offset p) ?n"
    have cp: "memcpy m' (p_paddr p) (hdr + p_offset p) (p_filesz p) = write_bytes m' (p_paddr p) ?file"
      using memcpy_write[OF apart_sym[THEN iffD1, OF ap2]] same_bytes_read[OF same src] by simp
    have ap3: "apart (p_paddr p) ?n hdr len" using apart_sub[OF ap, of 0 len ?n] le by simp
    have s1: "same_bytes hdr len m (write_bytes m' (p_paddr p) ?file)" using same ap3 by (intro same_bytes_write) simp_all
    have sz: "size_diff c (p_memsz p) (p_filesz p) = p_memsz p - p_filesz p" using size_diff_sub[of m "hdr + off"] ok[OF t] p by (simp add: segment_ok_def)
    have cnt: "unat (p_memsz p - p_filesz p) = ?k - ?n" using le by (simp add: unat_sub_if')
    have "memset (write_bytes m' (p_paddr p) ?file) (p_paddr p + p_filesz p) 0 (p_memsz p - p_filesz p) = place m hdr p m'"
      using write_bytes_append[of ?file "replicate (?k - ?n) 0" m' "p_paddr p"] le k
      by (simp add: memset_def memset_loop_write cnt place_def segment_bytes_def)
    moreover show kept: "same_bytes hdr len m (place m hdr p m')"
      unfolding place_def using same ap le by (intro same_bytes_write) (simp_all add: segment_bytes_def)
    ultimately show "load_segment c hdr (hdr + off) (m', entry) = (place m hdr p m', relocate p entry)"
      using t cp sz by (simp add: load_segment_def Let_def ph[OF same] ph[OF s1] ph[OF kept] flip: p)
  qed
  show "p_type p = PT_LOAD \<Longrightarrow> same_bytes hdr len m (place m hdr p m')" by (rule kept)
  show "load_segment c hdr (hdr + off) (m', entry) =
      (if p_type p = PT_LOAD then (place m hdr p m', relocate p entry) else (m', entry))"
    using places by (cases "p_type p = PT_LOAD") (simp_all, simp add: load_segment_def Let_def ph[OF same] flip: p)
qed

lemma load_elf_places:
  assumes "elf_ok c hdr len m"
  shows "load_elf c hdr m = (fold (place m hdr) (loadable (phdrs c hdr m)) m, fold relocate (loadable (phdrs c hdr m)) (e_entry c m hdr))"
proof -
  let ?addr = "phdr_addr c hdr (e_phoff c m hdr)" and ?n = "unat (e_phnum c m hdr)"
  have "\<exists>m'. fold (\<lambda>i. load_segment c hdr (?addr i)) [0..<k] (m, e_entry c m hdr) =
      (m', fold relocate (loadable (take k (phdrs c hdr m))) (e_entry c m hdr)) \<and>
      m' = fold (place m hdr) (loadable (take k (phdrs c hdr m))) m \<and> same_bytes hdr len m m'" if "k \<le> ?n" for k
    using that
  proof (induction k)
    case 0
    then show ?case by (simp add: loadable_def same_bytes_def)
  next
    case (Suc k)
    then obtain m' entry where m': "fold (\<lambda>i. load_segment c hdr (?addr i)) [0..<k] (m, e_entry c m hdr) = (m', entry)"
      "entry = fold relocate (loadable (take k (phdrs c hdr m))) (e_entry c m hdr)"
      "m' = fold (place m hdr) (loadable (take k (phdrs c hdr m))) m" "same_bytes hdr len m m'" by auto
    let ?p = "phdr_at c m (?addr k)"
    have tk: "take (Suc k) (phdrs c hdr m) = take k (phdrs c hdr m) @ [?p]"
      using Suc.prems by (simp add: phdrs_def take_Suc_conv_app_nth)
    have mem: "?p \<in> set (phdrs c hdr m)" using Suc.prems by (auto simp: phdrs_def)
    let ?o = "e_phoff c m hdr + of_nat (k * phdr_size c)"
    have ad: "?addr k = hdr + ?o" by (simp add: phdr_addr_def)
    have bound: "unat (e_phoff c m hdr) + Suc k * phdr_size c \<le> len" "len < 2 ^ 64"
      using assms Suc.prems mult_le_mono1[of "Suc k" ?n "phdr_size c"] by (auto simp: elf_ok_def)
    then have "unat (of_nat (k * phdr_size c) :: u64) = k * phdr_size c" by (intro unat_offset) simp
    then have "unat ?o = unat (e_phoff c m hdr) + k * phdr_size c"
      using bound by (subst unat_word_ariths) (simp del: of_nat_mult)
    then have o: "unat ?o + phdr_size c \<le> len" using bound by simp
    have ok: "p_type ?p = PT_LOAD \<Longrightarrow> segment_ok hdr len ?p" using assms mem by (auto simp: elf_ok_def loadable_def)
    note P = load_segment_places[OF m'(4) o, folded ad, OF refl ok]
    show ?case using P m'(2-4) by (cases "p_type ?p = PT_LOAD") (simp_all add: tk loadable_def m'(1))
  qed
  from this[of ?n] show ?thesis by (auto simp: load_elf_def phdrs_def)
qed

end

lemma offset_cong:
  assumes "read_bytes m a n = read_bytes m' a n" "i + 8 \<le> n"
  shows "read32 m (a + of_nat i) = read32 m' (a + of_nat i)" "read64 m (a + of_nat i) = read64 m' (a + of_nat i)"
  using assms read_bytes_part[of i 4 n] read_bytes_part[of i 8 n] by (simp_all add: read32_def read64_def)

lemma unat_u32: "unat (ucast (x :: u32) :: u64) = unat x"
  using unat_lt_pow[of x] by (simp add: unsigned_ucast_eq take_bit_nat_eq_self_iff del: unsigned_less)

interpretation elf32_file: elf_format elf32
proof unfold_locales
  fix m m' :: mem and a
  assume "\<And>k. k < phdr_size elf32 \<Longrightarrow> m (a + of_nat k) = m' (a + of_nat k)"
  then have eq: "read_bytes m a (phdr_size elf32) = read_bytes m' a (phdr_size elf32)" by (rule read_bytes_cong)
  show "phdr_at elf32 m a = phdr_at elf32 m' a"
    using offset_cong[OF eq, of 0] offset_cong[OF eq, of 4] offset_cong[OF eq, of 8] offset_cong[OF eq, of 12]
      offset_cong[OF eq, of 16] offset_cong[OF eq, of 20]
    by (simp add: elf32_def elf32_phdr_def read32x_def)
next
  fix m a
  have "ucast x - ucast y = (ucast (x - y) :: u64)" if "(ucast y :: u64) \<le> ucast x" for x y :: u32
    using that by (simp add: word_unat_eq_iff unat_sub_if' word_le_nat_alt unat_u32)
  moreover have "ucast (ucast x :: u64) = x" for x :: u32 by (rule bit_word_eqI) (simp add: bit_simps)
  ultimately show "p_filesz (phdr_at elf32 m a) \<le> p_memsz (phdr_at elf32 m a) \<Longrightarrow>
      size_diff elf32 (p_memsz (phdr_at elf32 m a)) (p_filesz (phdr_at elf32 m a)) = p_memsz (phdr_at elf32 m a) - p_filesz (phdr_at elf32 m a)"
    by (simp add: elf32_def elf32_phdr_def read32x_def)
qed

interpretation elf64_file: elf_format elf64
proof unfold_locales
  fix m m' :: mem and a
  assume "\<And>k. k < phdr_size elf64 \<Longrightarrow> m (a + of_nat k) = m' (a + of_nat k)"
  then have eq: "read_bytes m a (phdr_size elf64) = read_bytes m' a (phdr_size elf64)" by (rule read_bytes_cong)
  show "phdr_at elf64 m a = phdr_at elf64 m' a"
    using offset_cong[OF eq, of 0] offset_cong[OF eq, of 8] offset_cong[OF eq, of 16] offset_cong[OF eq, of 24]
      offset_cong[OF eq, of 32] offset_cong[OF eq, of 40]
    by (simp add: elf64_def elf64_phdr_def)
qed (simp add: elf64_def)

lemma fold_place_read:
  assumes "sorted_wrt (\<lambda>p q. apart (p_paddr p) (unat (p_memsz p)) (p_paddr q) (unat (p_memsz q))) ps"
    and "\<forall>p\<in>set ps. p_filesz p \<le> p_memsz p" "p \<in> set ps"
  shows "read_bytes (fold (place m hdr) ps m0) (p_paddr p) (unat (p_memsz p)) = segment_bytes m hdr p"
  using assms
proof (induction ps rule: rev_induct)
  case (snoc q ps)
  have len: "length (segment_bytes m hdr r) = unat (p_memsz r)" if "r \<in> set (ps @ [q])" for r
    using snoc.prems(2) that by (auto simp: segment_bytes_def word_le_nat_alt)
  show ?case
  proof (cases "p = q")
    case True
    then show ?thesis using len[of q] read_write_same[of "segment_bytes m hdr q" _ "p_paddr q"] unat_lt_64[of "p_memsz q"]
      by (simp add: place_def)
  next
    case False
    then have p: "p \<in> set ps" using snoc.prems(3) by simp
    then have "apart (p_paddr q) (unat (p_memsz q)) (p_paddr p) (unat (p_memsz p))"
      using snoc.prems(1) by (auto simp: sorted_wrt_append apart_sym)
    then have "read_bytes (place m hdr q m') (p_paddr p) (unat (p_memsz p)) = read_bytes m' (p_paddr p) (unat (p_memsz p))" for m'
      using len[of q] by (simp add: place_def read_write_apart)
    then show ?thesis using snoc p by (simp add: sorted_wrt_append)
  qed
qed simp

section \<open>Describing the machine\<close>

definition mmap_bytes :: "e820_entry \<Rightarrow> u8 list" where
  "mmap_bytes e = le_bytes 4 (20 :: u32) @ entry_bytes e"

text \<open>The static objects of the firmware lie below 4 GB, apart from each other and from \<open>guest_params\<close>.\<close>

definition objects_ok :: "fw_objects \<Rightarrow> u64 \<Rightarrow> bool" where
  "objects_ok f gp \<longleftrightarrow> apart gp 3628 (fw_info f) 120 \<and> apart gp 3628 (fw_mod_list f) 16 \<and> apart gp 3628 (fw_mmap f) 3072 \<and>
     apart (fw_info f) 120 (fw_mod_list f) 16 \<and> apart (fw_info f) 120 (fw_mmap f) 3072 \<and>
     unat (fw_mmap f) < 2 ^ 32"

lemma same_bytes_refl: "same_bytes a n m m"
  by (simp add: same_bytes_def)

lemma same_bytes_part:
  assumes "same_bytes a n m m'" "apart a n b k" "i + length bs \<le> k"
  shows "same_bytes a n m (write_bytes m' (b + of_nat i) bs)"
  using assms(1) apart_sub[OF assms(2,3), of n] by (intro same_bytes_write) (simp_all add: apart_sym)

lemma same_bytes_32: "same_bytes a n m m' \<Longrightarrow> apart a n b k \<Longrightarrow> i + 4 \<le> k \<Longrightarrow> same_bytes a n m (write32 m' (b + of_nat i) v)"
  unfolding write32_def by (rule same_bytes_part) simp_all

lemma same_bytes_reads:
  assumes "same_bytes a n m m'" 
  shows "i + k \<le> n \<Longrightarrow> n < 2 ^ 64 \<Longrightarrow> read_bytes m' (a + of_nat i) k = read_bytes m (a + of_nat i) k"
  using same_bytes_read[OF assms, of "of_nat i" k] by simp

lemma fill_mmap_entry_write:
  assumes ok: "objects_ok f gp" and i: "i < 128"
  shows "fill_mmap_entry f gp i m =
    write_bytes m (fw_mmap f + of_nat (24 * i)) (mmap_bytes (entry_of (read_bytes m (gp_e820_table gp + of_nat (20 * i)) 20)))"
proof -
  define a where "a = fw_mmap f + of_nat (24 * i)"
  define e where "e = gp + of_nat (1068 + 20 * i)"
  have ap: "apart gp 3628 (fw_mmap f) 3072" using ok by (simp add: objects_ok_def)
  let ?e = "entry_of (read_bytes m e 20)"
  have keep: "read_bytes (write_bytes m a bs) (e + of_nat j) k = take k (drop j (read_bytes m e 20))"
    if "length bs \<le> 24" "j + k \<le> 20" for bs j k
  proof -
    have "same_bytes gp 3628 m (write_bytes m a bs)"
      unfolding a_def using i that(1) by (intro same_bytes_part[OF same_bytes_refl ap]) simp
    then have "read_bytes (write_bytes m a bs) (e + of_nat j) k = read_bytes m (e + of_nat j) k"
      using same_bytes_reads[of gp 3628 m _ "1068 + 20 * i + j" k] that i by (simp add: e_def add.assoc)
    then show ?thesis using read_bytes_part[OF that(2)] by simp
  qed
  have e1: "e_addr ?e = le_word (take 8 (read_bytes m e 20))" "e_size ?e = le_word (take 8 (drop 8 (read_bytes m e 20)))"
    "e_type ?e = le_word (take 4 (drop 16 (read_bytes m e 20)))" by (simp_all add: entry_of_def)
  define m1 where "m1 = write_bytes m a (le_bytes 4 (20 :: u32))"
  define m2 where "m2 = write_bytes m a (le_bytes 4 (20 :: u32) @ le_bytes 8 (e_addr ?e))"
  define m3 where "m3 = write_bytes m a (le_bytes 4 (20 :: u32) @ le_bytes 8 (e_addr ?e) @ le_bytes 8 (e_size ?e))"
  have r: "read64 m1 e = e_addr ?e" "read64 m2 (e + 8) = e_size ?e" "read32 m3 (e + 16) = e_type ?e"
    using keep[of _ 0 8] keep[of _ 8 8] keep[of _ 16 4]
    by (simp_all add: m1_def m2_def m3_def e1 read64_def read32_def del: le_bytes.simps)
  have w: "write64 m1 (a + 4) (e_addr ?e) = m2" "write64 m2 (a + 12) (e_size ?e) = m3"
    "write32 m3 (a + 20) (e_type ?e) = write_bytes m a (mmap_bytes ?e)"
    using write_bytes_append[of "le_bytes 4 (20 :: u32)" "le_bytes 8 (e_addr ?e)" m a]
      write_bytes_append[of "le_bytes 4 (20 :: u32) @ le_bytes 8 (e_addr ?e)" "le_bytes 8 (e_size ?e)" m a]
      write_bytes_append[of "le_bytes 4 (20 :: u32) @ le_bytes 8 (e_addr ?e) @ le_bytes 8 (e_size ?e)" "le_bytes 4 (e_type ?e)" m a]
    by (simp_all add: m1_def m2_def m3_def write32_def write64_def mmap_bytes_def entry_bytes_def del: le_bytes.simps)
  have "gp_e820_table gp + of_nat (20 * i) = e" by (simp add: e_def gp_e820_table_def)
  then show ?thesis by (simp add: fill_mmap_entry_def Let_def r w write32_def[of m] flip: a_def m1_def del: le_bytes.simps of_nat_mult)
qed

lemma length_mmap_bytes [simp]: "length (mmap_bytes e) = 24"
  by (simp add: mmap_bytes_def)

lemma fill_mmap_write:
  assumes ok: "objects_ok f gp" and n: "n \<le> 128"
    and es: "es = map (\<lambda>i. entry_of (read_bytes m (gp_e820_table gp + of_nat (20 * i)) 20)) [0..<n]"
  shows "fold (fill_mmap_entry f gp) [0..<n] m = write_bytes m (fw_mmap f) (concat (map mmap_bytes es))"
proof -
  have ap: "apart gp 3628 (fw_mmap f) 3072" using ok by (simp add: objects_ok_def)
  have "fold (fill_mmap_entry f gp) [0..<k] m = write_bytes m (fw_mmap f) (concat (map mmap_bytes (take k es)))" if "k \<le> n" for k
    using that
  proof (induction k)
    case (Suc k)
    let ?bs = "concat (map mmap_bytes (take k es))"
    have lb: "length ?bs = 24 * k" using Suc.prems by (simp add: length_concat_blocks es)
    have "same_bytes gp 3628 m (write_bytes m (fw_mmap f + of_nat 0) ?bs)"
      using Suc.prems n lb by (intro same_bytes_part[OF same_bytes_refl ap]) simp
    then have "read_bytes (write_bytes m (fw_mmap f) ?bs) (gp + of_nat (1068 + 20 * k)) 20 = read_bytes m (gp + of_nat (1068 + 20 * k)) 20"
      using Suc.prems n by (intro same_bytes_reads[of gp 3628]) simp_all
    then have "entry_of (read_bytes (write_bytes m (fw_mmap f) ?bs) (gp_e820_table gp + of_nat (20 * k)) 20) = es ! k"
      using Suc.prems by (simp add: gp_e820_table_def es add.assoc)
    moreover have "take (Suc k) es = take k es @ [es ! k]" using Suc.prems by (simp add: take_Suc_conv_app_nth es)
    ultimately show ?case
      using Suc fill_mmap_entry_write[OF ok, of k] n write_bytes_append[of ?bs "mmap_bytes (es ! k)" m "fw_mmap f"] lb
      by (simp del: of_nat_mult)
  qed simp
  from this[of n] show ?thesis by (simp add: es)
qed

definition add_entry :: "e820_entry \<Rightarrow> e820_state \<Rightarrow> e820_state" where
  "add_entry e s = e820_range_add s (e_addr e) (e_size e) (e_type e)"

lemma multiboot_add_mmap:
  "read_bytes m a (24 * length es) = concat (map mmap_bytes es) \<Longrightarrow> len = 24 * length es + i \<Longrightarrow>
   multiboot_add_loop m len i a s = fold add_entry es s"
proof (induction es arbitrary: a i s)
  case Nil
  then show ?case by (simp add: multiboot_add_loop.simps)
next
  case (Cons e es)
  have split: "read_bytes m a (24 + 24 * length es) = read_bytes m a 24 @ read_bytes m (a + of_nat 24) (24 * length es)"
    by (rule read_bytes_add)
  then have e: "read_bytes m a 24 = mmap_bytes e" and rest: "read_bytes m (a + 24) (24 * length es) = concat (map mmap_bytes es)"
    using Cons.prems(1) by (simp_all add: append_eq_append_conv)
  have f: "read_bytes m (a + of_nat i) k = take k (drop i (mmap_bytes e))" if "i + k \<le> 24" for i k
    using read_bytes_part[OF that, of m a] e by simp
  have "read32 m a = 20" "read64 m (a + 4) = e_addr e" "read64 m (a + 12) = e_size e" "read32 m (a + 20) = e_type e"
    using f[of 0 4] f[of 4 8] f[of 12 8] f[of 20 4]
    by (simp_all add: read32_def read64_def mmap_bytes_def entry_bytes_def le_word_bytes del: le_bytes.simps)
  then show ?case using Cons.IH[OF rest, of "i + 24" "add_entry e s"] Cons.prems(2)
    by (subst multiboot_add_loop.simps) (simp add: Let_def flip: add_entry_def)
qed

text \<open>Writes to the other objects keep \<open>guest_params\<close>, and the flags once written.\<close>

lemma info_fields:
  "apart a 4 (a + 4) 4" "apart a 4 (a + 8) 4" "apart a 4 (a + 16) 4" "apart a 4 (a + 20) 4" "apart a 4 (a + 24) 4"
  "apart a 4 (a + 44) 4" "apart a 4 (a + 48) 4"
  by (simp_all add: apart_def)

lemma same_bytes_field: "same_bytes a n m m' \<Longrightarrow> apart a n b 4 \<Longrightarrow> same_bytes a n m (write32 m' b v)"
  using same_bytes_32[of a n m m' b 4 0 v] by simp

lemma objects_fields:
  assumes "objects_ok f gp"
  shows "apart gp 3628 (fw_info f) 4" "apart gp 3628 (fw_info f + 4) 4" "apart gp 3628 (fw_info f + 8) 4" "apart gp 3628 (fw_info f + 16) 4"
    "apart gp 3628 (fw_info f + 20) 4" "apart gp 3628 (fw_info f + 24) 4" "apart gp 3628 (fw_mod_list f) 4"
    "apart gp 3628 (fw_mod_list f + 4) 4" "apart gp 3628 (fw_mod_list f + 8) 4" "apart (fw_info f) 4 (fw_mod_list f) 4"
    "apart (fw_info f) 4 (fw_mod_list f + 4) 4" "apart (fw_info f) 4 (fw_mod_list f + 8) 4"
proof -
  have ap: "apart gp 3628 (fw_info f) 120" "apart gp 3628 (fw_mod_list f) 16" "apart (fw_info f) 120 (fw_mod_list f) 16"
    using assms by (simp_all add: objects_ok_def)
  show "apart gp 3628 (fw_info f) 4" "apart gp 3628 (fw_info f + 4) 4" "apart gp 3628 (fw_info f + 8) 4" "apart gp 3628 (fw_info f + 16) 4"
    "apart gp 3628 (fw_info f + 20) 4" "apart gp 3628 (fw_info f + 24) 4"
    using apart_sub[OF ap(1), of 0 4 3628] apart_sub[OF ap(1), of 4 4 3628] apart_sub[OF ap(1), of 8 4 3628]
      apart_sub[OF ap(1), of 16 4 3628] apart_sub[OF ap(1), of 20 4 3628] apart_sub[OF ap(1), of 24 4 3628] by simp_all
  show "apart gp 3628 (fw_mod_list f) 4" "apart gp 3628 (fw_mod_list f + 4) 4" "apart gp 3628 (fw_mod_list f + 8) 4"
    using apart_sub[OF ap(2), of 0 4 3628] apart_sub[OF ap(2), of 4 4 3628] apart_sub[OF ap(2), of 8 4 3628] by simp_all
  show "apart (fw_info f) 4 (fw_mod_list f) 4" "apart (fw_info f) 4 (fw_mod_list f + 4) 4" "apart (fw_info f) 4 (fw_mod_list f + 8) 4"
    using apart_sub[OF ap(3), of 0 4 4] apart_sub[OF ap(3), of 4 4 4] apart_sub[OF ap(3), of 8 4 4] by simp_all
qed

lemmas info_addresses = mbi_flags_def mbi_mods_count_def mbi_mods_addr_def mbi_mmap_addr_def mbi_mmap_length_def

lemma fill_keeps_params:
  assumes "objects_ok f gp"
  shows "same_bytes gp 3628 m (fill_initrd f gp (fill_head f gp m))"
  unfolding fill_initrd_def fill_head_def Let_def info_addresses
  by (auto intro!: same_bytes_field same_bytes_refl objects_fields[OF assms])

lemma fill_initrd_flags: "objects_ok f gp \<Longrightarrow> same_bytes (fw_info f) 4 m (fill_initrd f gp m)"
  unfolding fill_initrd_def Let_def info_addresses
  by (auto intro!: same_bytes_field same_bytes_refl info_fields objects_fields)

lemma fill_head_flags: "read32 (fill_head f gp m) (fw_info f) = 0x4d"
proof -
  define m1 where "m1 = write32 m (mbi_flags (fw_info f)) (MULTIBOOT_INFO_MEMORY OR MULTIBOOT_INFO_CMDLINE OR MULTIBOOT_INFO_MODS OR MULTIBOOT_INFO_MEM_MAP)"
  have "same_bytes (fw_info f) 4 m1 (fill_head f gp m)"
    unfolding fill_head_def Let_def m1_def by (intro same_bytes_field same_bytes_refl info_fields)
  then have "read32 (fill_head f gp m) (fw_info f) = read32 m1 (fw_info f)"
    using same_bytes_read[of "fw_info f" 4 _ _ 0 4] by (simp add: read32_def)
  then show ?thesis by (simp add: m1_def mbi_flags_def MULTIBOOT_INFO_MEMORY_def MULTIBOOT_INFO_CMDLINE_def MULTIBOOT_INFO_MODS_def MULTIBOOT_INFO_MEM_MAP_def)
qed

lemma same_bytes_trans: "same_bytes a n m m1 \<Longrightarrow> same_bytes a n m1 m2 \<Longrightarrow> same_bytes a n m m2"
  by (simp add: same_bytes_def)

lemma read_table_same:
  assumes "same_bytes gp 3628 m m'" "unat (read32 m (gp_e820_entries gp)) \<le> 128"
  shows "read_table m' gp = read_table m gp" "read32 m' (gp_e820_entries gp) = read32 m (gp_e820_entries gp)"
  using assms read_table_cong[of m gp m' gp] same_bytes_reads[OF assms(1), of 1064 4]
  by (simp_all add: same_bytes_def E820_MAX_ENTRIES_GUEST_def read32_def gp_e820_entries_def)

lemma fill_info_map:
  assumes ok: "objects_ok f gp" and n: "unat (read32 m (gp_e820_entries gp)) \<le> 128"
  defines "m' \<equiv> fill_info f gp m"
  shows "read32 m' (mbi_flags (fw_info f)) = 0x4d"
    and "multiboot_add_loop m' (unat (read32 m' (mbi_mmap_length (fw_info f)))) 0 (read32x m' (mbi_mmap_addr (fw_info f))) s =
      fold add_entry (read_table m gp) s"
proof -
  define m1 where "m1 = fill_initrd f gp (fill_head f gp m)"
  define es where "es = read_table m gp"
  define m2 where "m2 = write_bytes m1 (fw_mmap f) (concat (map mmap_bytes es))"
  define k where "k = read32 m (gp_e820_entries gp)"
  have le: "length es = unat k" by (simp add: es_def read_table_def k_def)
  have k: "unat k \<le> 128" using n by (simp add: k_def)
  have s1: "same_bytes gp 3628 m m1" unfolding m1_def by (rule fill_keeps_params[OF ok])
  note t1 = read_table_same[OF s1 n]
  have sk: "nat (sint k) = unat k"
  proof -
    have "int (unat k) < 2147483648" using k by linarith
    then have "uint k < 2147483648" by (simp only: uint_nat)
    then have "sint k = uint k" by (simp add: sint_uint signed_take_bit_int_eq_self order_trans[of _ 0])
    then show ?thesis by (simp add: nat_uint_eq)
  qed
  have "fold (fill_mmap_entry f gp) [0..<unat k] m1 = m2"
    unfolding m2_def using t1 by (intro fill_mmap_write[OF ok k]) (simp add: es_def read_table_def k_def)
  then have m': "m' = write32 (write32 m2 (fw_info f + 48) (ucast (fw_mmap f))) (fw_info f + 44) (k * 24)"
    using t1(2) sk by (simp add: m'_def fill_info_def Let_def mbi_mmap_addr_def mbi_mmap_length_def flip: m1_def k_def)
  have ap: "apart (fw_info f) 120 (fw_mmap f) 3072" and low: "unat (fw_mmap f) < 2 ^ 32" using ok by (simp_all add: objects_ok_def)
  have lb: "length (concat (map mmap_bytes es)) = 24 * unat k" by (simp add: length_concat_blocks le)
  have apm: "apart (fw_mmap f) (24 * unat k) (fw_info f + of_nat i) 4" if "i + 4 \<le> 120" for i
    using apart_sub[OF apart_sym[THEN iffD1, OF ap] that, of "24 * unat k"] k by simp
  have "same_bytes (fw_mmap f) (24 * unat k) m2 m'"
    using apm[of 44] apm[of 48] by (auto simp: m' intro!: same_bytes_field same_bytes_refl)
  then have "read_bytes m' (fw_mmap f) (24 * unat k) = read_bytes m2 (fw_mmap f) (24 * unat k)"
    using same_bytes_read[of _ "24 * unat k" m2 m' 0 "24 * unat k"] by simp
  then have map: "read_bytes m' (fw_mmap f) (24 * length es) = concat (map mmap_bytes es)"
    using read_write_same[of "concat (map mmap_bytes es)" m1 "fw_mmap f"] lb k le by (simp add: m2_def)
  have "read32 m' (mbi_mmap_length (fw_info f)) = k * 24" by (simp add: m' mbi_mmap_length_def)
  then have len: "unat (read32 m' (mbi_mmap_length (fw_info f))) = 24 * length es"
    using k by (simp add: le unat_word_ariths)
  have "apart (fw_info f + 44) 4 (fw_info f + 48) 4" using info_fields(1)[of "fw_info f + 44"] by (simp add: add.assoc)
  then have "read32 m' (fw_info f + 48) = ucast (fw_mmap f)"
    by (simp add: m' read32_write32_apart)
  then have addr: "read32x m' (mbi_mmap_addr (fw_info f)) = fw_mmap f"
    using low by (simp add: read32x_def mbi_mmap_addr_def word_unat_eq_iff unat_u32 unsigned_ucast_eq take_bit_nat_eq_self_iff)
  show "multiboot_add_loop m' (unat (read32 m' (mbi_mmap_length (fw_info f)))) 0 (read32x m' (mbi_mmap_addr (fw_info f))) s =
      fold add_entry (read_table m gp) s"
    unfolding len addr es_def[symmetric] by (rule multiboot_add_mmap[OF map]) simp
  have "same_bytes (fw_info f) 4 m1 m2"
    unfolding m2_def using lb k apm[of 0] by (intro same_bytes_write same_bytes_refl) simp
  then have "same_bytes (fw_info f) 4 m1 m'" unfolding m' by (intro same_bytes_field info_fields)
  then have "same_bytes (fw_info f) 4 (fill_head f gp m) m'"
    using fill_initrd_flags[OF ok, of "fill_head f gp m"] same_bytes_trans by (metis m1_def)
  then have "read32 m' (fw_info f) = read32 (fill_head f gp m) (fw_info f)"
    using same_bytes_read[of "fw_info f" 4 _ _ 0 4] by (simp add: read32_def)
  then show "read32 m' (mbi_flags (fw_info f)) = 0x4d" by (simp add: mbi_flags_def fill_head_flags)
qed

section \<open>Properties\<close>

text \<open>C20: \<open>load_elf32\<close> and \<open>load_elf64\<close>. For a file whose headers and segments lie inside its \<open>len\<close> bytes
  and whose segments are not loaded over it, loading is placing the bytes of each \<open>PT_LOAD\<close>
  segment, filled up with zeros, at its physical address, in the order of the headers, and the
  entry point is translated by the segments that contain it. Segments that do not overlap are
  all in memory at the end.\<close>

theorem load_elf_loads:
  assumes "c = elf32 \<or> c = elf64" "elf_ok c hdr len m"
  defines "ps \<equiv> loadable (phdrs c hdr m)"
  shows "load_elf c hdr m = (fold (place m hdr) ps m, fold relocate ps (e_entry c m hdr)) \<and>
    (sorted_wrt (\<lambda>p q. apart (p_paddr p) (unat (p_memsz p)) (p_paddr q) (unat (p_memsz q))) ps \<longrightarrow>
      (\<forall>p\<in>set ps. read_bytes (fst (load_elf c hdr m)) (p_paddr p) (unat (p_memsz p)) = segment_bytes m hdr p))"
proof -
  have l: "load_elf c hdr m = (fold (place m hdr) ps m, fold relocate ps (e_entry c m hdr))"
    using assms(1,2) elf32_file.load_elf_places elf64_file.load_elf_places by (auto simp: ps_def)
  moreover have "\<forall>p\<in>set ps. p_filesz p \<le> p_memsz p" using assms(2) by (auto simp: elf_ok_def segment_ok_def ps_def)
  ultimately show ?thesis using fold_place_read[of ps _ m hdr m] by simp
qed

text \<open>A 64-bit file at 0x4000: one segment of two bytes in a page of four, with the entry point in it.\<close>

definition elf_bytes :: "(u64 \<times> u8) list" where
  "elf_bytes = [(0x4000, 0x7f), (0x4001, 0x45), (0x4002, 0x4c), (0x4003, 0x46), (0x4004, 2),
     (0x4018, 1), (0x401a, 0x80), (0x4020, 64), (0x4038, 1),
     (0x4040, 1), (0x4048, 0x78), (0x4052, 0x80), (0x405a, 0x10), (0x4060, 2), (0x4068, 4), (0x4078, 0xfa), (0x4079, 0xf4),
     (0x100002, 0xcc)]"

definition elf_memory :: mem where
  "elf_memory x = (case map_of elf_bytes x of Some b \<Rightarrow> b | None \<Rightarrow> 0)"

definition elf_segment :: phdr where
  "elf_segment = \<lparr>p_type = 1, p_offset = 0x78, p_vaddr = 0x800000, p_paddr = 0x100000, p_filesz = 2, p_memsz = 4\<rparr>"

lemma elf_sample:
  "e_phoff elf64 elf_memory 0x4000 = 64" "e_phnum elf64 elf_memory 0x4000 = 1" "e_entry elf64 elf_memory 0x4000 = 0x800001"
  "phdr_at elf64 elf_memory 0x4040 = elf_segment"
  by (simp_all add: elf64_def elf64_phdr_def elf_segment_def elf_memory_def elf_bytes_def read16_def read32_def read64_def read_bytes_def upt_rec)

lemma elf_sample_phdrs: "loadable (phdrs elf64 0x4000 elf_memory) = [elf_segment]"
  by (simp add: phdrs_def elf_sample phdr_addr_def loadable_def PT_LOAD_def) (simp add: elf_segment_def)

lemma elf_sample_ok: "elf_ok elf64 0x4000 122 elf_memory"
proof -
  have "phdr_size elf64 = 56" by (simp add: elf64_def)
  then show ?thesis by (simp add: elf_ok_def elf_sample elf_sample_phdrs) (simp add: segment_ok_def elf_segment_def apart_def)
qed

theorem load_elf_loads_witness:
  "snd (load_elf elf64 0x4000 elf_memory) = 0x100001 \<and> read_bytes (fst (load_elf elf64 0x4000 elf_memory)) 0x100000 4 = [0xfa, 0xf4, 0, 0]"
proof -
  have "relocate elf_segment 0x800001 = 0x100001" by (simp add: relocate_def elf_segment_def)
  moreover have "segment_bytes elf_memory 0x4000 elf_segment = [0xfa, 0xf4, 0, 0]"
    by (simp add: segment_bytes_def elf_segment_def read_bytes_def upt_rec elf_memory_def elf_bytes_def) (simp add: numeral_2_eq_2)
  moreover have "p_paddr elf_segment = 0x100000" "unat (p_memsz elf_segment) = 4" by (simp_all add: elf_segment_def)
  moreover note L = load_elf_loads[OF disjI2[OF refl] elf_sample_ok, unfolded elf_sample_phdrs elf_sample]
  from L have "snd (load_elf elf64 0x4000 elf_memory) = relocate elf_segment 0x800001" by simp
  moreover from L have "read_bytes (fst (load_elf elf64 0x4000 elf_memory)) (p_paddr elf_segment) (unat (p_memsz elf_segment)) =
      segment_bytes elf_memory 0x4000 elf_segment" by (elim conjE) (simp only: sorted_wrt1 simp_thms list.set insert_iff ball_simps)
  ultimately show ?thesis by simp
qed

text \<open>C21: the map reaches the kernel in the guest. When the firmware starts a kernel that is not loaded over
  \<open>guest_params\<close>, the multiboot information says that there is a memory map, and adding it the
  way \<open>e820_range_add_multiboot\<close> does adds exactly the entries of the table in \<open>guest_params\<close>, in
  order: what \<open>kvm_init\<close> wrote is what the kernel reads.\<close>

theorem firmware_passes_map:
  assumes "objects_ok f gp" "load_multiboot f gp m = Started m' entry info"
    and "\<And>header m1. find_multiboot_header m (read64 m (gp_kernel_start gp)) = Some header \<Longrightarrow>
      load_kernel (read64 m (gp_kernel_start gp)) header m = Some (m1, entry) \<Longrightarrow> same_bytes gp 3628 m m1"
    and "unat (read32 m (gp_e820_entries gp)) \<le> E820_MAX_ENTRIES_GUEST"
  shows "read32 m' (mbi_flags info) AND MULTIBOOT_INFO_MEM_MAP \<noteq> 0 \<and>
    multiboot_add_loop m' (unat (read32 m' (mbi_mmap_length info))) 0 (read32x m' (mbi_mmap_addr info)) s =
      fold (\<lambda>e s. e820_range_add s (e_addr e) (e_size e) (e_type e)) (read_table m gp) s"
proof -
  obtain header m1 where "find_multiboot_header m (read64 m (gp_kernel_start gp)) = Some header"
    "load_kernel (read64 m (gp_kernel_start gp)) header m = Some (m1, entry)" and m': "m' = fill_info f gp m1" "info = fw_info f"
    using assms(2) by (auto simp: load_multiboot_def Let_def split: option.splits)
  then have same: "same_bytes gp 3628 m m1" using assms(3) by blast
  note t = read_table_same[OF same assms(4)[unfolded E820_MAX_ENTRIES_GUEST_def]]
  have n: "unat (read32 m1 (gp_e820_entries gp)) \<le> 128" using assms(4) t(2) by (simp add: E820_MAX_ENTRIES_GUEST_def)
  show ?thesis using fill_info_map(1)[OF assms(1) n] fill_info_map(2)[OF assms(1) n, of s] by (simp add: m' t(1) add_entry_def[abs_def] MULTIBOOT_INFO_MEM_MAP_def)
qed

text \<open>A kernel whose header says where to load its first four bytes, and a map of one entry.\<close>

definition kernel_bytes :: "(u64 \<times> u8) list" where
  "kernel_bytes = [(0x1009, 0x40), (0x1428, 1), (0x1435, 0xf0), (0x1436, 9), (0x143c, 1),
     (0x4000, 0x02), (0x4001, 0xb0), (0x4002, 0xad), (0x4003, 0x1b), (0x4006, 1),
     (0x4012, 0x10), (0x4014, 4), (0x4016, 0x10), (0x4018, 8), (0x401a, 0x10), (0x401e, 0x10)]"

definition kernel_memory :: mem where
  "kernel_memory x = (case map_of kernel_bytes x of Some b \<Rightarrow> b | None \<Rightarrow> 0)"

definition kernel_objects :: fw_objects where
  "kernel_objects = \<lparr>fw_info = 0x3000, fw_mod_list = 0x3100, fw_mmap = 0x3200, fw_initrd_name = 0x3f00\<rparr>"

lemmas kernel_eval = kernel_memory_def kernel_bytes_def read32_def read64_def read_bytes_def upt_rec

lemma kernel_fields:
  "read64 kernel_memory 0x1008 = 0x4000" "read32 kernel_memory 0x1428 = 1" "read32 kernel_memory 0x4000 = 0x1BADB002"
  "read32 kernel_memory 0x4004 = 0x10000" "read32 kernel_memory 0x4010 = 0x100000" "read32 kernel_memory 0x4014 = 0x100004"
  "read32 kernel_memory 0x4018 = 0x100008" "read32 kernel_memory 0x401c = 0x100000"
  by (simp_all add: kernel_eval)

lemma kernel_header: "find_multiboot_header kernel_memory 0x4000 = Some 0x4000"
proof -
  have "[0..<search_words] = 0 # [Suc 0..<search_words]"
    by (rule upt_conv_Cons) (simp add: search_words_def MULTIBOOT_SEARCH_def)
  then show ?thesis by (simp add: find_multiboot_header_def MULTIBOOT_HEADER_MAGIC_def kernel_fields)
qed

lemma kernel_table: "read_table kernel_memory 0x1000 = [\<lparr>e_addr = 0, e_size = 0x9f000, e_type = 1\<rparr>]"
  by (simp add: read_table_def gp_e820_entries_def gp_e820_table_def kernel_fields)
    (simp add: entry_of_def kernel_memory_def kernel_bytes_def read_bytes_def upt_rec)

lemma kernel_loads:
  "\<exists>m1. load_kernel 0x4000 0x4000 kernel_memory = Some (m1, 0x100000) \<and> same_bytes 0x1000 3628 kernel_memory m1"
proof -
  have "apart (0x4000 :: u64) (unat (4 :: u64)) 0x100000 (unat (4 :: u64))" by (simp add: apart_def)
  note c = memcpy_write[OF this, of kernel_memory]
  define m1 where "m1 = memcpy kernel_memory 0x100000 0x4000 4"
  define m2 where "m2 = memset m1 0x100004 0 4"
  have m2: "m2 = write_bytes m1 0x100004 (replicate 4 0)" by (simp add: m2_def memset_def memset_loop_write)
  have ap: "apart 0x100000 4 (0x1000 :: u64) 3628" "apart 0x100004 4 (0x1000 :: u64) 3628" by (simp_all add: apart_def)
  have "same_bytes 0x1000 3628 kernel_memory m1" unfolding m1_def c using ap by (intro same_bytes_write same_bytes_refl) simp
  then have "same_bytes 0x1000 3628 kernel_memory m2" unfolding m2 using ap by (intro same_bytes_write) simp_all
  moreover have "read32 m1 a = read32 kernel_memory a" "read32 m2 a = read32 kernel_memory a" if "a \<in> {0x4014, 0x4018, 0x401c}" for a
    using that by (auto simp: m2 m1_def c read32_def read_write_apart apart_def)
  then have "load_kernel 0x4000 0x4000 kernel_memory = Some (m2, 0x100000)"
    by (simp add: load_kernel_def load_addresses_def kernel_fields MULTIBOOT_AOUT_KLUDGE_def read32x_def Let_def flip: m1_def m2_def)
  ultimately show ?thesis by blast
qed

theorem firmware_passes_map_witness:
  "\<exists>m'. load_multiboot kernel_objects 0x1000 kernel_memory = Started m' 0x100000 0x3000 \<and>
     multiboot_add_loop m' (unat (read32 m' (mbi_mmap_length 0x3000))) 0 (read32x m' (mbi_mmap_addr 0x3000)) boot_state =
       e820_range_add boot_state 0 0x9f000 1"
proof -
  have ok: "objects_ok kernel_objects 0x1000" by (simp add: objects_ok_def kernel_objects_def apart_def)
  obtain m1 where m1: "load_kernel 0x4000 0x4000 kernel_memory = Some (m1, 0x100000)" "same_bytes 0x1000 3628 kernel_memory m1"
    using kernel_loads by blast
  define m' where "m' = fill_info kernel_objects 0x1000 m1"
  have l: "load_multiboot kernel_objects 0x1000 kernel_memory = Started m' 0x100000 0x3000"
    by (simp add: load_multiboot_def gp_kernel_start_def kernel_fields kernel_header m1 m'_def) (simp add: kernel_objects_def)
  have same: "same_bytes 0x1000 3628 kernel_memory m2"
    if "find_multiboot_header kernel_memory (read64 kernel_memory (gp_kernel_start 0x1000)) = Some header"
      "load_kernel (read64 kernel_memory (gp_kernel_start 0x1000)) header kernel_memory = Some (m2, 0x100000)" for header m2
    using that m1 by (simp add: gp_kernel_start_def kernel_fields kernel_header)
  have "unat (read32 kernel_memory (gp_e820_entries 0x1000)) \<le> E820_MAX_ENTRIES_GUEST"
    by (simp add: gp_e820_entries_def kernel_fields E820_MAX_ENTRIES_GUEST_def)
  from firmware_passes_map[OF ok l same this, where s = boot_state] show ?thesis using l by (simp add: kernel_table)
qed

end
