(* ===== verification/Acpi.thy ===== *)
theory Acpi
  imports C_String
begin

unbundle bit_operations_syntax

text \<open>
  The ACPI tables of the firmware, read in place: checksums (kernel/acpica/tbprint.c), the search
  for the root pointer (kernel/acpica/tbxfroot.c), the root table and the walk over the subtables of
  a table (kernel/acpi.c). A pointer is an address, 0 is \<open>NULL\<close>; \<open>__va\<close> is the identity. The
  structures are packed: in the root pointer the revision is at 15, the addresses of RSDT and XSDT
  at 16 and 24; a table header has 36 bytes, its length at 4. What is printed is in theory Reports,
  the cleaned copy of a header that is printed is here.
\<close>

section \<open>Names and checksums\<close>

datatype acpi_status = AE_OK | AE_NOT_FOUND | AE_BAD_SIGNATURE | AE_BAD_CHECKSUM | AE_INVALID_TABLE_LENGTH

definition ACPI_SIG_RSDP :: "u8 list" where "ACPI_SIG_RSDP = [0x52, 0x53, 0x44, 0x20, 0x50, 0x54, 0x52, 0x20]"
definition ACPI_SIG_FACS :: "u8 list" where "ACPI_SIG_FACS = [0x46, 0x41, 0x43, 0x53]"
definition ACPI_SIG_S3PT :: "u8 list" where "ACPI_SIG_S3PT = [0x53, 0x33, 0x50, 0x54]"
definition ACPI_SIG_MADT :: "u8 list" where "ACPI_SIG_MADT = [0x41, 0x50, 0x49, 0x43]"

text \<open>
  The names compared with are string literals of four characters, none of them NUL, so the bounded
  comparison \<open>strncmp\<close> is one of four bytes (see \<open>strncmp_name\<close>).
\<close>

definition ACPI_COMPARE_NAME :: "mem \<Rightarrow> u64 \<Rightarrow> u8 list \<Rightarrow> bool" where
  "ACPI_COMPARE_NAME m a name \<longleftrightarrow> read_bytes m a 4 = name"

definition ACPI_VALIDATE_RSDP_SIG :: "mem \<Rightarrow> u64 \<Rightarrow> bool" where
  "ACPI_VALIDATE_RSDP_SIG m a \<longleftrightarrow> read_bytes m a 8 = ACPI_SIG_RSDP"

function checksum_loop :: "mem \<Rightarrow> u64 \<Rightarrow> u64 \<Rightarrow> u8 \<Rightarrow> u8" where
  "checksum_loop m buffer en acc = (if buffer < en then checksum_loop m (buffer + 1) en (acc + m buffer) else acc)"
  by pat_completeness auto
termination
proof (relation "measure (\<lambda>(m, buffer, en, acc). unat (en - buffer))", goal_cases)
  case (2 m buffer en acc)
  then have "en - buffer \<noteq> 0" by auto
  then have "unat (en - buffer - 1) < unat (en - buffer)" by (simp add: unat_minus_one unat_gt_0)
  then show ?case by (simp add: diff_diff_add)
qed simp

declare checksum_loop.simps [simp del]

definition acpi_tb_checksum :: "mem \<Rightarrow> u64 \<Rightarrow> u32 \<Rightarrow> u8" where
  "acpi_tb_checksum m buffer len = checksum_loop m buffer (buffer + ucast len) 0"

definition acpi_tb_verify_checksum :: "mem \<Rightarrow> u64 \<Rightarrow> u32 \<Rightarrow> acpi_status" where
  "acpi_tb_verify_checksum m table len =
     (if ACPI_COMPARE_NAME m table ACPI_SIG_S3PT \<or> ACPI_COMPARE_NAME m table ACPI_SIG_FACS then AE_OK
      else if acpi_tb_checksum m table len \<noteq> 0 then AE_BAD_CHECKSUM else AE_OK)"

fun acpi_tb_fix_string :: "mem \<Rightarrow> u64 \<Rightarrow> nat \<Rightarrow> mem" where
  "acpi_tb_fix_string m s 0 = m"
| "acpi_tb_fix_string m s (Suc len) =
     (if m s = 0 then m
      else acpi_tb_fix_string (if \<not> isprint (m s) then m(s := 0x3f) else m) (s + 1) len)"

definition acpi_tb_cleanup_table_header :: "mem \<Rightarrow> u64 \<Rightarrow> u64 \<Rightarrow> mem" where
  "acpi_tb_cleanup_table_header m out_header header =
     (let m = memcpy m out_header header 36;
          m = acpi_tb_fix_string m out_header 4;
          m = acpi_tb_fix_string m (out_header + 10) 6;
          m = acpi_tb_fix_string m (out_header + 16) 8
      in acpi_tb_fix_string m (out_header + 28) 4)"

section \<open>The root pointer\<close>

definition rsdp_revision :: "mem \<Rightarrow> u64 \<Rightarrow> u8" where "rsdp_revision m p = m (p + 15)"
definition rsdt_physical_address :: "mem \<Rightarrow> u64 \<Rightarrow> u32" where "rsdt_physical_address m p = read32 m (p + 16)"
definition xsdt_physical_address :: "mem \<Rightarrow> u64 \<Rightarrow> u64" where "xsdt_physical_address m p = read64 m (p + 24)"

definition acpi_tb_validate_rsdp :: "mem \<Rightarrow> u64 \<Rightarrow> acpi_status" where
  "acpi_tb_validate_rsdp m rsdp =
     (if \<not> ACPI_VALIDATE_RSDP_SIG m rsdp then AE_BAD_SIGNATURE
      else if acpi_tb_checksum m rsdp 20 \<noteq> 0 then AE_BAD_CHECKSUM
      else if rsdp_revision m rsdp \<ge> 2 \<and> acpi_tb_checksum m rsdp 36 \<noteq> 0 then AE_BAD_CHECKSUM
      else AE_OK)"

text \<open>The areas scanned end far below \<open>2 ^ 64\<close>: the pointers do not wrap around.\<close>

definition ACPI_RSDP_SCAN_STEP :: nat where "ACPI_RSDP_SCAN_STEP = 16"

function scan_loop :: "mem \<Rightarrow> u64 \<Rightarrow> nat \<Rightarrow> nat \<Rightarrow> u64" where
  "scan_loop m start len i =
     (if i < len then
        if acpi_tb_validate_rsdp m (start + of_nat i) = AE_OK then start + of_nat i
        else scan_loop m start len (i + ACPI_RSDP_SCAN_STEP)
      else 0)"
  by pat_completeness auto
termination by (relation "measure (\<lambda>(m, start, len, i). len - i)") (auto simp: ACPI_RSDP_SCAN_STEP_def)

declare scan_loop.simps [simp del]

definition acpi_tb_scan_memory_for_rsdp :: "mem \<Rightarrow> u64 \<Rightarrow> u32 \<Rightarrow> u64" where
  "acpi_tb_scan_memory_for_rsdp m start_address len = scan_loop m start_address (unat len) 0"

definition ACPI_EBDA_PTR_LOCATION :: u32 where "ACPI_EBDA_PTR_LOCATION = 0x40E"
definition ACPI_EBDA_WINDOW_SIZE :: u32 where "ACPI_EBDA_WINDOW_SIZE = 1024"
definition ACPI_HI_RSDP_WINDOW_BASE :: u64 where "ACPI_HI_RSDP_WINDOW_BASE = 0xE0000"
definition ACPI_HI_RSDP_WINDOW_SIZE :: u32 where "ACPI_HI_RSDP_WINDOW_SIZE = 0x20000"

text \<open>The segment taken is \<open>ACPI_EBDA_PTR_LOCATION\<close> itself, not what is stored there.\<close>

definition acpi_find_root_pointer :: "mem \<Rightarrow> acpi_status + u64" where
  "acpi_find_root_pointer m =
     (let physical_address = push_bit 4 ACPI_EBDA_PTR_LOCATION;
          table_ptr = ucast physical_address;
          mem_rover = (if physical_address > 0x400 then acpi_tb_scan_memory_for_rsdp m table_ptr ACPI_EBDA_WINDOW_SIZE else 0)
      in if mem_rover \<noteq> 0 then Inr (ucast (physical_address + ucast (mem_rover - table_ptr)))
         else
           let table_ptr = ACPI_HI_RSDP_WINDOW_BASE;
               mem_rover = acpi_tb_scan_memory_for_rsdp m table_ptr ACPI_HI_RSDP_WINDOW_SIZE
           in if mem_rover \<noteq> 0 then Inr (ACPI_HI_RSDP_WINDOW_BASE + (mem_rover - table_ptr))
              else Inl AE_NOT_FOUND)"

section \<open>The root table\<close>

definition ACPI_MAX_TABLES :: nat where "ACPI_MAX_TABLES = 128"

definition header_length :: "mem \<Rightarrow> u64 \<Rightarrow> u32" where "header_length m table = read32 m (table + 4)"

definition acpi_tb_get_root_table_entry :: "mem \<Rightarrow> u64 \<Rightarrow> u32 \<Rightarrow> u64" where
  "acpi_tb_get_root_table_entry m table_entry table_entry_size =
     (if table_entry_size = 4 then ucast (read32 m table_entry) else read64 m table_entry)"

text \<open>The loop over the entries, \<open>n\<close> of them left; it breaks off when the array of tables is full.\<close>

fun root_table_loop :: "mem \<Rightarrow> u32 \<Rightarrow> nat \<Rightarrow> u64 \<Rightarrow> nat \<Rightarrow> u64 list \<Rightarrow> u64 list" where
  "root_table_loop m sz 0 table_entry table_index initial_tables = initial_tables"
| "root_table_loop m sz (Suc n) table_entry table_index initial_tables =
     (let address = acpi_tb_get_root_table_entry m table_entry sz; next_entry = table_entry + ucast sz
      in if address = 0 then root_table_loop m sz n next_entry table_index initial_tables
         else if acpi_tb_verify_checksum m address (header_length m address) \<noteq> AE_OK
         then root_table_loop m sz n next_entry table_index initial_tables
         else
           let initial_tables = initial_tables[table_index := address]; table_index = table_index + 1
           in if table_index = ACPI_MAX_TABLES then initial_tables
              else root_table_loop m sz n next_entry table_index initial_tables)"

definition root_table :: "mem \<Rightarrow> u64 \<Rightarrow> u64 \<times> u32" where
  "root_table m rsdp =
     (if rsdp_revision m rsdp > 1 \<and> xsdt_physical_address m rsdp \<noteq> 0
      then (xsdt_physical_address m rsdp, 8) else (ucast (rsdt_physical_address m rsdp), 4))"

definition acpi_tb_parse_root_table :: "mem \<Rightarrow> u64 \<Rightarrow> u64 list \<Rightarrow> acpi_status \<times> u64 list" where
  "acpi_tb_parse_root_table m rsdp_address initial_tables =
     (let (table, table_entry_size) = root_table m rsdp_address;
          len = header_length m table
      in if len < 36 + table_entry_size then (AE_INVALID_TABLE_LENGTH, initial_tables)
         else if acpi_tb_verify_checksum m table len \<noteq> AE_OK then (acpi_tb_verify_checksum m table len, initial_tables)
         else
           let table_count = (header_length m table - 36) div table_entry_size
           in (AE_OK, root_table_loop m table_entry_size (unat table_count) (table + 36) 0 initial_tables))"

definition acpi_table_init :: "mem \<Rightarrow> stop + u64 list" where
  "acpi_table_init m =
     (let initial_tables = replicate ACPI_MAX_TABLES 0
      in case acpi_find_root_pointer m of
           Inl status \<Rightarrow> Inl (PANIC ''A valid RSDP was not found'')
         | Inr rsdp_address \<Rightarrow>
             (let (status, initial_tables) = acpi_tb_parse_root_table m rsdp_address initial_tables
              in if status \<noteq> AE_OK then Inl (PANIC ''Parsing RSDP failed'') else Inr initial_tables))"

section \<open>Tables by name\<close>

text \<open>The unused slots hold \<open>NULL\<close>, and the loop reads through them: the name at address 0.\<close>

definition acpi_find_table :: "mem \<Rightarrow> u64 list \<Rightarrow> u8 list \<Rightarrow> u64" where
  "acpi_find_table m initial_tables name =
     (case List.find (\<lambda>table_header. ACPI_COMPARE_NAME m table_header name) initial_tables of
        None \<Rightarrow> 0 | Some table_header \<Rightarrow> table_header)"

definition ENODEV :: int where "ENODEV = 19"

definition acpi_table_parse :: "mem \<Rightarrow> u64 list \<Rightarrow> u8 list \<Rightarrow> (u64 \<Rightarrow> 's \<Rightarrow> 's) \<Rightarrow> 's \<Rightarrow> int \<times> 's" where
  "acpi_table_parse m initial_tables name handler s =
     (let table = acpi_find_table m initial_tables name
      in if table = 0 then (- ENODEV, s) else (0, handler table s))"

text \<open>
  \<open>struct acpi_subtable_proc\<close>: a handler can stop the machine, or return a status and a new state
  of its own; it gets the entry and the end of the table.
\<close>

record 's acpi_subtable_proc =
  proc_id :: u8
  proc_handler :: "u64 \<Rightarrow> u64 \<Rightarrow> 's \<Rightarrow> stop + int \<times> 's"
  proc_count :: nat

text \<open>The inner loop: the position of the first processor for the entry, which is run; \<open>proc_num\<close> if none.\<close>

fun run_proc :: "'s acpi_subtable_proc list \<Rightarrow> u8 \<Rightarrow> u64 \<Rightarrow> u64 \<Rightarrow> 's \<Rightarrow> stop + bool \<times> 's acpi_subtable_proc list \<times> 's" where
  "run_proc [] ty entry table_end s = Inr (False, [], s)"
| "run_proc (p # ps) ty entry table_end s =
     (if ty \<noteq> proc_id p
      then and_then (run_proc ps ty entry table_end s) (\<lambda>(hit, ps, s). Inr (hit, p # ps, s))
      else and_then (proc_handler p entry table_end s) (\<lambda>(r, s).
           if r \<noteq> 0 then Inl (PANIC ''acpi: parsing error'')
           else Inr (True, p\<lparr>proc_count := proc_count p + 1\<rparr> # ps, s)))"

text \<open>The walk may not end when the entries wrap around the address space: then it is \<open>None\<close>.\<close>

partial_function (option) subtable_loop ::
  "mem \<Rightarrow> u64 \<Rightarrow> nat \<Rightarrow> u64 \<Rightarrow> nat \<Rightarrow> 's acpi_subtable_proc list \<Rightarrow> 's \<Rightarrow> (stop + nat \<times> 's acpi_subtable_proc list \<times> 's) option" where
  "subtable_loop m table_end max_entries entry cnt procs s =
     (if \<not> entry + 2 < table_end \<or> (max_entries \<noteq> 0 \<and> cnt \<ge> max_entries) then Some (Inr (cnt, procs, s))
      else case run_proc procs (m entry) entry table_end s of
             Inl e \<Rightarrow> Some (Inl e)
           | Inr (hit, procs', s') \<Rightarrow>
               (if m (entry + 1) = 0 then Some (Inl BUG)
                else subtable_loop m table_end max_entries (entry + ucast (m (entry + 1))) (if hit then cnt + 1 else cnt) procs' s'))"

definition acpi_table_parse_entries_array ::
  "mem \<Rightarrow> u64 list \<Rightarrow> u8 list \<Rightarrow> u64 \<Rightarrow> 's acpi_subtable_proc list \<Rightarrow> nat \<Rightarrow> 's \<Rightarrow>
   (stop + int \<times> 's acpi_subtable_proc list \<times> 's) option" where
  "acpi_table_parse_entries_array m initial_tables name table_size procs max_entries s =
     (let table_header = acpi_find_table m initial_tables name
      in if table_header = 0 then Some (Inr (- ENODEV, procs, s))
         else
           map_option (\<lambda>r. and_then r (\<lambda>(cnt, procs, s). Inr (int cnt, procs, s)))
             (subtable_loop m (table_header + ucast (header_length m table_header)) max_entries (table_header + table_size) 0 procs s))"

section \<open>Names and checksums: what they compute\<close>

lemma strncmp_bytes: "0 \<notin> set (read_bytes m b n) \<Longrightarrow> strncmp m a b n = 0 \<longleftrightarrow> read_bytes m a n = read_bytes m b n"
  by (induction n arbitrary: a b) (auto simp: read_bytes_Suc Let_def)

lemma strncmp_name:
  "read_bytes m b 4 = name \<Longrightarrow> 0 \<notin> set name \<Longrightarrow> strncmp m a b 4 = 0 \<longleftrightarrow> ACPI_COMPARE_NAME m a name"
  using strncmp_bytes[of m b 4 a] by (auto simp: ACPI_COMPARE_NAME_def)

lemma memcmp_rsdp: "read_bytes m b 8 = ACPI_SIG_RSDP \<Longrightarrow> memcmp m a b 8 = 0 \<longleftrightarrow> ACPI_VALIDATE_RSDP_SIG m a"
  by (simp add: memcmp_def memcmp_loop_eq ACPI_VALIDATE_RSDP_SIG_def)

lemma checksum_loop_sum:
  "unat b + n < 2 ^ 64 \<Longrightarrow> checksum_loop m b (b + of_nat n) acc = acc + sum_list (read_bytes m b n)"
proof (induction n arbitrary: b acc)
  case 0
  then show ?case by (simp add: checksum_loop.simps)
next
  case (Suc n)
  have lt: "b < b + of_nat (Suc n)" using Suc.prems unat_offset[of "Suc n"] by (simp add: word_less_nat_alt unat_word_ariths del: of_nat_Suc)
  have "unat (b + 1) = unat b + 1" using Suc.prems by (simp add: unat_word_ariths)
  then have "checksum_loop m (b + 1) (b + 1 + of_nat n) (acc + m b) = acc + m b + sum_list (read_bytes m (b + 1) n)"
    using Suc.prems by (intro Suc.IH) simp
  moreover have "b + of_nat (Suc n) = b + 1 + of_nat n" by simp
  ultimately show ?case using lt by (subst checksum_loop.simps) (simp add: read_bytes_Suc add.assoc)
qed

lemma checksum_sum:
  assumes "unat b + unat len < 2 ^ 64"
  shows "acpi_tb_checksum m b len = sum_list (read_bytes m b (unat len))"
proof -
  have "(of_nat (unat len) :: u64) = ucast len" by simp
  then show ?thesis using checksum_loop_sum[of b "unat len" m 0] assms by (simp add: acpi_tb_checksum_def)
qed

section \<open>The search as a scan\<close>

text \<open>A root pointer: its signature, its checksum and from revision 2 on the extended one.\<close>

definition rsdp_ok :: "mem \<Rightarrow> u64 \<Rightarrow> bool" where
  "rsdp_ok m a \<longleftrightarrow> read_bytes m a 8 = ACPI_SIG_RSDP \<and> sum_list (read_bytes m a 20) = 0 \<and>
     (2 \<le> rsdp_revision m a \<longrightarrow> sum_list (read_bytes m a 36) = 0)"

lemma validate_rsdp_ok: "unat a + 36 < 2 ^ 64 \<Longrightarrow> acpi_tb_validate_rsdp m a = AE_OK \<longleftrightarrow> rsdp_ok m a"
  by (auto simp: acpi_tb_validate_rsdp_def rsdp_ok_def ACPI_VALIDATE_RSDP_SIG_def checksum_sum)

definition first_or_null :: "u64 option \<Rightarrow> u64" where
  "first_or_null r = (case r of None \<Rightarrow> 0 | Some a \<Rightarrow> a)"

definition paragraphs :: "u64 \<Rightarrow> nat \<Rightarrow> u64 list" where
  "paragraphs start k = map (\<lambda>j. start + of_nat (16 * j)) [0..<k]"

lemma scan_loop_find:
  "scan_loop m start (16 * k) (16 * i) =
   first_or_null (List.find (\<lambda>a. acpi_tb_validate_rsdp m a = AE_OK) (map (\<lambda>j. start + of_nat (16 * j)) [i..<k]))"
proof (induction "k - i" arbitrary: i)
  case 0
  then show ?case by (simp add: scan_loop.simps first_or_null_def)
next
  case (Suc n)
  then have i: "i < k" and n: "n = k - Suc i" by simp_all
  have "16 * i + ACPI_RSDP_SCAN_STEP = 16 * Suc i" by (simp add: ACPI_RSDP_SCAN_STEP_def)
  then show ?case using i Suc(1)[OF n]
    by (subst scan_loop.simps) (simp add: upt_conv_Cons first_or_null_def del: mult_Suc_right)
qed

lemma scan_find:
  assumes "unat start + 16 * k + 36 < 2 ^ 64" "unat len = 16 * k"
  shows "acpi_tb_scan_memory_for_rsdp m start len = first_or_null (List.find (rsdp_ok m) (paragraphs start k))"
proof -
  have "unat (start + of_nat (16 * j)) + 36 < 2 ^ 64" if "j < k" for j
    using that assms(1) unat_offset[of "16 * j"] by (simp add: unat_word_ariths del: of_nat_mult)
  then have "List.find (\<lambda>a. acpi_tb_validate_rsdp m a = AE_OK) (paragraphs start k) = List.find (rsdp_ok m) (paragraphs start k)"
    by (intro find_cong) (auto simp: paragraphs_def validate_rsdp_ok simp del: of_nat_mult)
  then show ?thesis using scan_loop_find[of m start k 0] by (simp add: acpi_tb_scan_memory_for_rsdp_def assms(2) paragraphs_def)
qed

lemma paragraphs_member: "a \<in> set (paragraphs start k) \<longleftrightarrow> (\<exists>j<k. a = start + of_nat (16 * j))"
  by (auto simp: paragraphs_def simp del: of_nat_mult)

lemma paragraphs_nonzero: "0 < unat start \<Longrightarrow> unat start + 16 * k < 2 ^ 64 \<Longrightarrow> 0 \<notin> set (paragraphs start k)"
proof
  assume s: "0 < unat start" "unat start + 16 * k < 2 ^ 64" and "0 \<in> set (paragraphs start k)"
  then obtain j where j: "j < k" "start + of_nat (16 * j) = 0" unfolding paragraphs_member by metis
  have "unat (start + of_nat (16 * j)) = unat start + 16 * j"
    using s j(1) unat_offset[of "16 * j"] by (subst unat_word_ariths) (simp del: of_nat_mult)
  then show False using s(1) j(2) by (metis add_is_0 less_irrefl unat_0)
qed

section \<open>The root table as a list\<close>

definition table_ok :: "mem \<Rightarrow> u64 \<Rightarrow> bool" where
  "table_ok m a \<longleftrightarrow> a \<noteq> 0 \<and> acpi_tb_verify_checksum m a (header_length m a) = AE_OK"

definition root_count :: "mem \<Rightarrow> u64 \<Rightarrow> nat" where
  "root_count m rsdp = (case root_table m rsdp of (t, sz) \<Rightarrow> unat ((header_length m t - 36) div sz))"

definition root_entries :: "mem \<Rightarrow> u64 \<Rightarrow> u64 list" where
  "root_entries m rsdp =
     (case root_table m rsdp of (t, sz) \<Rightarrow>
        map (\<lambda>i. acpi_tb_get_root_table_entry m (t + 36 + of_nat i * ucast sz) sz) [0..<root_count m rsdp])"

definition root_ok :: "mem \<Rightarrow> u64 \<Rightarrow> bool" where
  "root_ok m rsdp \<longleftrightarrow>
     (case root_table m rsdp of (t, sz) \<Rightarrow> 36 + sz \<le> header_length m t \<and> acpi_tb_verify_checksum m t (header_length m t) = AE_OK)"

text \<open>The first 128 good tables of the root table.\<close>

definition good_tables :: "mem \<Rightarrow> u64 \<Rightarrow> u64 list" where
  "good_tables m rsdp = take ACPI_MAX_TABLES (filter (table_ok m) (root_entries m rsdp))"

definition null_padded :: "u64 list \<Rightarrow> u64 list" where
  "null_padded ts = ts @ replicate (ACPI_MAX_TABLES - length ts) 0"

lemma root_table_loop_filter:
  fixes m :: mem and sz :: u32 and e :: u64
  defines "es \<equiv> \<lambda>n (e :: u64). map (\<lambda>i. acpi_tb_get_root_table_entry m (e + of_nat i * ucast sz) sz) [0..<n]"
  assumes "length ts = k" "k < ACPI_MAX_TABLES"
  shows "root_table_loop m sz n e k (null_padded ts) = null_padded (take ACPI_MAX_TABLES (ts @ filter (table_ok m) (es n e)))"
  using assms(2,3)
proof (induction n arbitrary: e k ts)
  case 0
  then show ?case by (simp add: es_def)
next
  case (Suc n)
  let ?a = "acpi_tb_get_root_table_entry m e sz"
  have es: "es (Suc n) e = ?a # es n (e + ucast sz)"
    unfolding es_def by (simp add: upt_conv_Cons map_Suc_upt[symmetric] algebra_simps del: upt_Suc)
  show ?case
  proof (cases "table_ok m ?a")
    case False
    then have "root_table_loop m sz (Suc n) e k (null_padded ts) = root_table_loop m sz n (e + ucast sz) k (null_padded ts)"
      by (auto simp: table_ok_def Let_def)
    then show ?thesis using Suc.IH[OF Suc.prems, of "e + ucast sz"] False es by simp
  next
    case True
    have "null_padded ts = ts @ 0 # replicate (ACPI_MAX_TABLES - Suc k) 0"
      using Suc.prems by (simp add: null_padded_def Suc_diff_Suc flip: replicate_Suc)
    then have upd: "(null_padded ts)[k := ?a] = null_padded (ts @ [?a])"
      using Suc.prems by (simp add: null_padded_def list_update_append)
    show ?thesis
    proof (cases "Suc k = ACPI_MAX_TABLES")
      case full: True
      then have "ACPI_MAX_TABLES - k = 1" by simp
      then show ?thesis using full True es upd Suc.prems by (simp add: table_ok_def[of m ?a] Let_def)
    next
      case more: False
      then have "root_table_loop m sz n (e + ucast sz) (Suc k) (null_padded (ts @ [?a])) =
          null_padded (take ACPI_MAX_TABLES ((ts @ [?a]) @ filter (table_ok m) (es n (e + ucast sz))))"
        using Suc.prems by (intro Suc.IH) simp_all
      then show ?thesis using True more es upd by (simp add: table_ok_def[of m ?a] Let_def)
    qed
  qed
qed

lemma parse_root_table_good:
  "acpi_tb_parse_root_table m rsdp (null_padded []) =
     (if root_ok m rsdp then (AE_OK, null_padded (good_tables m rsdp))
      else (fst (acpi_tb_parse_root_table m rsdp (null_padded [])), null_padded []))"
  "root_ok m rsdp \<longleftrightarrow> fst (acpi_tb_parse_root_table m rsdp (null_padded [])) = AE_OK"
proof -
  obtain t sz where t: "root_table m rsdp = (t, sz)" by force
  note L = root_table_loop_filter[of "[]" 0 m sz "root_count m rsdp" "t + 36"]
  show "acpi_tb_parse_root_table m rsdp (null_padded []) =
     (if root_ok m rsdp then (AE_OK, null_padded (good_tables m rsdp))
      else (fst (acpi_tb_parse_root_table m rsdp (null_padded [])), null_padded []))"
    using L by (auto simp: acpi_tb_parse_root_table_def t root_ok_def good_tables_def root_entries_def root_count_def Let_def not_less ACPI_MAX_TABLES_def)
  show "root_ok m rsdp \<longleftrightarrow> fst (acpi_tb_parse_root_table m rsdp (null_padded [])) = AE_OK"
    by (auto simp: acpi_tb_parse_root_table_def t root_ok_def Let_def not_less)
qed

lemma find_padded:
  assumes "\<not> P 0"
  shows "List.find P (null_padded ts) = List.find P ts"
proof -
  have "List.find P (replicate n 0) = None" for n using assms by (auto simp: find_None_iff)
  then show ?thesis by (simp add: null_padded_def find_append split: option.split)
qed

section \<open>The walk over the subtables\<close>

text \<open>
  The entries of a table when their lengths lead from one to the next up to the end; then the walk
  runs the processors over them in order. A walk that does not wrap around always ends.
\<close>

fun entry_chain :: "mem \<Rightarrow> u64 \<Rightarrow> u64 \<Rightarrow> u64 list \<Rightarrow> bool" where
  "entry_chain m table_end a [] \<longleftrightarrow> \<not> a + 2 < table_end"
| "entry_chain m table_end a (e # es) \<longleftrightarrow>
     e = a \<and> a + 2 < table_end \<and> m (a + 1) \<noteq> 0 \<and> entry_chain m table_end (a + ucast (m (a + 1))) es"

fun run_entries :: "mem \<Rightarrow> u64 \<Rightarrow> u64 list \<Rightarrow> nat \<Rightarrow> 's acpi_subtable_proc list \<Rightarrow> 's \<Rightarrow> stop + nat \<times> 's acpi_subtable_proc list \<times> 's" where
  "run_entries m table_end [] cnt procs s = Inr (cnt, procs, s)"
| "run_entries m table_end (e # es) cnt procs s =
     and_then (run_proc procs (m e) e table_end s) (\<lambda>(hit, procs, s).
       run_entries m table_end es (if hit then cnt + 1 else cnt) procs s)"

lemma subtable_loop_chain:
  assumes "entry_chain m table_end a es" "cnt + length es \<le> max_entries"
  shows "subtable_loop m table_end max_entries a cnt procs s = Some (run_entries m table_end es cnt procs s)"
  using assms
proof (induction es arbitrary: a cnt procs s)
  case (Cons e es)
  then have less: "\<not> max_entries \<le> cnt" "e = a" "a + 2 < table_end" "m (a + 1) \<noteq> 0" by auto
  show ?case
    using Cons less by (subst subtable_loop.simps) (auto simp: and_then_def split: sum.split)
qed (simp add: subtable_loop.simps)

lemma subtable_loop_ends:
  fixes procs :: "'s acpi_subtable_proc list"
  assumes "unat table_end + 257 \<le> 2 ^ 64" "unat a + 2 < 2 ^ 64"
  shows "\<exists>r. subtable_loop m table_end max_entries a cnt procs s = Some r"
  using assms(2)
proof (induction "unat table_end - unat a" arbitrary: a cnt procs s rule: less_induct)
  case less
  show ?case
  proof (cases "a + 2 < table_end \<and> \<not> (max_entries \<noteq> 0 \<and> cnt \<ge> max_entries) \<and> m (a + 1) \<noteq> 0")
    case False
    then show ?thesis by (subst subtable_loop.simps) (auto split: sum.splits)
  next
    case True
    let ?l = "m (a + 1)"
    have l: "unat ?l < 2 ^ 8" "0 < unat ?l" using True unat_lt_pow[of ?l] by (auto simp: unat_gt_0)
    have lt: "unat a + 2 < unat table_end" using True less.prems by (auto simp: word_less_nat_alt unat_word_ariths)
    then have u: "unat (a + ucast ?l) = unat a + unat ?l"
      using l assms(1) by (simp add: unat_word_ariths unsigned_ucast_eq take_bit_nat_eq_self)
    have "\<exists>r. subtable_loop m table_end max_entries (a + ucast ?l) c ps s' = Some r" for c and ps :: "'s acpi_subtable_proc list" and s'
      by (rule less.hyps) (use lt u l assms(1) in simp_all)
    then show ?thesis using True by (subst subtable_loop.simps) (auto split: sum.splits)
  qed
qed

text \<open>What every handler keeps, the walk keeps.\<close>

definition handler_keeps :: "('s \<Rightarrow> bool) \<Rightarrow> (u64 \<Rightarrow> u64 \<Rightarrow> 's \<Rightarrow> stop + int \<times> 's) \<Rightarrow> bool" where
  "handler_keeps I h \<longleftrightarrow> (\<forall>entry table_end s r s'. I s \<longrightarrow> h entry table_end s = Inr (r, s') \<longrightarrow> I s')"

definition handlers_keep :: "('s \<Rightarrow> bool) \<Rightarrow> 's acpi_subtable_proc list \<Rightarrow> bool" where
  "handlers_keep I procs \<longleftrightarrow> list_all (\<lambda>p. handler_keeps I (proc_handler p)) procs"

lemma run_proc_keeps:
  "handlers_keep I procs \<Longrightarrow> I s \<Longrightarrow> run_proc procs ty entry table_end s = Inr (hit, procs', s') \<Longrightarrow> handlers_keep I procs' \<and> I s'"
proof (induction procs arbitrary: procs')
  case (Cons p ps)
  have K: "handlers_keep I ps" "handler_keeps I (proc_handler p)" using Cons.prems(1) by (simp_all add: handlers_keep_def)
  show ?case
  proof (cases "ty = proc_id p")
    case True
    then obtain r where "proc_handler p entry table_end s = Inr (r, s')" "procs' = p\<lparr>proc_count := proc_count p + 1\<rparr> # ps"
      using Cons.prems(3) by (auto simp: and_then_eq_Inr split: if_splits)
    moreover from this(1) have "I s'" using K(2) Cons.prems(2) unfolding handler_keeps_def by blast
    ultimately show ?thesis using K by (simp add: handlers_keep_def)
  next
    case False
    then obtain qs where "run_proc ps ty entry table_end s = Inr (hit, qs, s')" "procs' = p # qs"
      using Cons.prems(3) by (auto simp: and_then_eq_Inr split: if_splits)
    then show ?thesis using Cons.IH[OF K(1) Cons.prems(2)] K(2) by (simp add: handlers_keep_def)
  qed
qed simp

lemma subtable_loop_keeps:
  assumes "subtable_loop m table_end max_entries entry cnt procs s = Some (Inr (cnt', procs', s'))" "handlers_keep I procs" "I s"
  shows "I s'"
proof -
  have "\<forall>cnt' procs' s'. y = Inr (cnt', procs', s') \<longrightarrow> handlers_keep I procs \<longrightarrow> I s \<longrightarrow> I s'"
    if "subtable_loop m table_end max_entries entry cnt procs s = Some y" for y
  proof (rule subtable_loop.raw_induct[OF _ that], goal_cases)
    case (1 f m te mx e c ps s y)
    then show ?case using run_proc_keeps[of I ps s "m e" e te] by (auto split: if_splits sum.splits)
  qed
  then show ?thesis using assms by blast
qed

section \<open>Properties\<close>


lemma acpi_table_init_good:
  "acpi_table_init m =
     (case acpi_find_root_pointer m of
        Inl status \<Rightarrow> Inl (PANIC ''A valid RSDP was not found'')
      | Inr rsdp \<Rightarrow> if root_ok m rsdp then Inr (null_padded (good_tables m rsdp)) else Inl (PANIC ''Parsing RSDP failed''))"
proof (cases "acpi_find_root_pointer m")
  case (Inr r)
  have z: "replicate ACPI_MAX_TABLES 0 = null_padded []" by (simp add: null_padded_def)
  show ?thesis unfolding acpi_table_init_def z Let_def using Inr
    by (subst parse_root_table_good(1)) (auto simp: parse_root_table_good(2)[of m r])
qed (simp add: acpi_table_init_def)

text \<open>C28: reading the tables. \<open>acpi_table_init\<close> panics when there is no root pointer or the root table is too
  short or has a bad checksum; otherwise it keeps the first 128 addresses of the root table (XSDT
  when present, else RSDT) that are not \<open>NULL\<close> and name a table with a good checksum, in order, and
  the search by name then finds the first of them with the name, as long as the bytes at address
  0, which the search reads through the unused slots, do not spell it.\<close>

theorem acpi_tables_found:
  "acpi_table_init m =
     (case acpi_find_root_pointer m of
        Inl status \<Rightarrow> Inl (PANIC ''A valid RSDP was not found'')
      | Inr rsdp \<Rightarrow> if root_ok m rsdp then Inr (null_padded (good_tables m rsdp)) else Inl (PANIC ''Parsing RSDP failed'')) \<and>
   (\<not> ACPI_COMPARE_NAME m 0 name \<longrightarrow>
      acpi_find_table m (null_padded (good_tables m rsdp)) name =
        first_or_null (List.find (\<lambda>a. ACPI_COMPARE_NAME m a name) (good_tables m rsdp)))"
  by (simp add: acpi_table_init_good acpi_find_table_def find_padded first_or_null_def)

text \<open>
  Tables as firmware leaves them: a root pointer at 0x40E0, an RSDT at 0x5000 with one entry, and a
  MADT at 0x6000 with one local APIC of id 0.
\<close>

definition acpi_bytes :: "(u64 \<times> u8) list" where
  "acpi_bytes =
     [(0x40E0, 0x52), (0x40E1, 0x53), (0x40E2, 0x44), (0x40E3, 0x20), (0x40E4, 0x50), (0x40E5, 0x54), (0x40E6, 0x52), (0x40E7, 0x20),
      (0x40E8, 0x91), (0x40F1, 0x50),
      (0x5000, 0x52), (0x5001, 0x53), (0x5002, 0x44), (0x5003, 0x54), (0x5004, 40), (0x5009, 59), (0x5025, 0x60),
      (0x6000, 0x41), (0x6001, 0x50), (0x6002, 0x49), (0x6003, 0x43), (0x6004, 52), (0x6009, 200), (0x6026, 0xe0), (0x6027, 0xfe),
      (0x602d, 8), (0x6030, 1)]"

definition acpi_memory :: mem where
  "acpi_memory x = (case map_of acpi_bytes x of Some b \<Rightarrow> b | None \<Rightarrow> 0)"

lemmas acpi_eval = acpi_memory_def acpi_bytes_def read_bytes_def upt_rec

text \<open>A memory with these tables, whatever lies above them.\<close>

definition acpi_area :: "mem \<Rightarrow> bool" where
  "acpi_area m \<longleftrightarrow> (\<forall>x < 0x8000. m x = acpi_memory x)"

lemma acpi_area_byte: "acpi_area m \<Longrightarrow> x < 0x8000 \<Longrightarrow> m x = acpi_memory x"
  by (simp add: acpi_area_def)

lemma acpi_memory_rsdp:
  assumes "acpi_area m"
  shows "acpi_find_root_pointer m = Inr 0x40E0"
proof -
  have "rsdp_ok m 0x40E0"
    by (simp add: rsdp_ok_def ACPI_SIG_RSDP_def rsdp_revision_def acpi_area_byte[OF assms] acpi_eval)
  then have "acpi_tb_validate_rsdp m 0x40E0 = AE_OK" by (simp add: validate_rsdp_ok)
  then have "acpi_tb_scan_memory_for_rsdp m 0x40E0 0x400 = 0x40E0"
    by (simp add: acpi_tb_scan_memory_for_rsdp_def scan_loop.simps)
  then show ?thesis
    by (simp add: acpi_find_root_pointer_def ACPI_EBDA_PTR_LOCATION_def ACPI_EBDA_WINDOW_SIZE_def Let_def)
qed

lemma acpi_memory_tables:
  assumes "acpi_area m"
  shows "root_ok m 0x40E0" "good_tables m 0x40E0 = [0x6000]"
proof -
  note byte = acpi_area_byte[OF assms]
  have r: "root_table m 0x40E0 = (0x5000, 4)"
    by (simp add: root_table_def rsdp_revision_def rsdt_physical_address_def read32_def byte acpi_eval)
  have len: "header_length m 0x5000 = 40" "header_length m 0x6000 = 52"
    by (simp_all add: header_length_def read32_def byte acpi_eval)
  have "acpi_tb_checksum m 0x5000 40 = 0" "acpi_tb_checksum m 0x6000 52 = 0"
    by (simp_all add: checksum_sum byte acpi_eval)
  then have ok: "acpi_tb_verify_checksum m 0x5000 40 = AE_OK" "acpi_tb_verify_checksum m 0x6000 52 = AE_OK"
    by (simp_all add: acpi_tb_verify_checksum_def)
  have e: "acpi_tb_get_root_table_entry m 0x5024 4 = 0x6000"
    by (simp add: acpi_tb_get_root_table_entry_def read32_def byte acpi_eval)
  show "root_ok m 0x40E0" by (simp add: root_ok_def r len ok)
  show "good_tables m 0x40E0 = [0x6000]"
    by (simp add: good_tables_def root_entries_def root_count_def r len e table_ok_def ok ACPI_MAX_TABLES_def)
qed

lemma acpi_memory_init: "acpi_area m \<Longrightarrow> acpi_table_init m = Inr (null_padded [0x6000])"
  by (simp add: acpi_table_init_good acpi_memory_rsdp acpi_memory_tables)

theorem acpi_tables_found_witness:
  "acpi_table_init acpi_memory = Inr (null_padded [0x6000]) \<and>
   acpi_find_table acpi_memory (null_padded [0x6000]) ACPI_SIG_MADT = 0x6000"
proof -
  have a: "acpi_area acpi_memory" by (simp add: acpi_area_def)
  have "ACPI_COMPARE_NAME acpi_memory 0x6000 ACPI_SIG_MADT" "\<not> ACPI_COMPARE_NAME acpi_memory 0 ACPI_SIG_MADT"
    by (simp_all add: ACPI_COMPARE_NAME_def ACPI_SIG_MADT_def acpi_eval)
  then show ?thesis
    using acpi_tables_found[of acpi_memory ACPI_SIG_MADT "0x40E0"] acpi_memory_tables[OF a] by (simp add: acpi_memory_rsdp[OF a] first_or_null_def)
qed

end
