(* ===== verification/Apic.thy ===== *)
theory Apic
  imports Acpi Vmx_Machine Find_Bit
begin

unbundle bit_operations_syntax

text \<open>
  The local APIC of kernel/apic.c and its two drivers, kernel/xapic.c (registers in memory at
  \<open>acpi_lapic_addr\<close>) and kernel/x2apic.c (registers as MSRs): choosing the driver, reading the
  processors from the MADT, and bringing the APIC into a known state. The registers are storage
  that keeps what is written; \<open>NR_CPUS\<close>, the number of the running processor and its capability
  words are parameters. What is printed is left out.
\<close>

section \<open>Registers and drivers\<close>

abbreviation (input) APIC_ID :: u32 where "APIC_ID \<equiv> 0x20"
abbreviation (input) APIC_LVR :: u32 where "APIC_LVR \<equiv> 0x30"
abbreviation (input) APIC_TASKPRI :: u32 where "APIC_TASKPRI \<equiv> 0x80"
abbreviation (input) APIC_EOI :: u32 where "APIC_EOI \<equiv> 0xB0"
abbreviation (input) APIC_LDR :: u32 where "APIC_LDR \<equiv> 0xD0"
abbreviation (input) APIC_DFR :: u32 where "APIC_DFR \<equiv> 0xE0"
abbreviation (input) APIC_SPIV :: u32 where "APIC_SPIV \<equiv> 0xF0"
abbreviation (input) APIC_ESR :: u32 where "APIC_ESR \<equiv> 0x280"
abbreviation (input) APIC_ICR :: u32 where "APIC_ICR \<equiv> 0x300"
abbreviation (input) APIC_ICR2 :: u32 where "APIC_ICR2 \<equiv> 0x310"
abbreviation (input) APIC_LVTT :: u32 where "APIC_LVTT \<equiv> 0x320"
abbreviation (input) APIC_LVTPC :: u32 where "APIC_LVTPC \<equiv> 0x340"
abbreviation (input) APIC_LVT0 :: u32 where "APIC_LVT0 \<equiv> 0x350"
abbreviation (input) APIC_LVT1 :: u32 where "APIC_LVT1 \<equiv> 0x360"
abbreviation (input) APIC_LVTERR :: u32 where "APIC_LVTERR \<equiv> 0x370"
abbreviation (input) APIC_TMICT :: u32 where "APIC_TMICT \<equiv> 0x380"
abbreviation (input) APIC_TDCR :: u32 where "APIC_TDCR \<equiv> 0x3E0"

definition APIC_LVT_MASKED :: u32 where "APIC_LVT_MASKED = BIT_32 16"
definition APIC_LVT_TIMER_PERIODIC :: u32 where "APIC_LVT_TIMER_PERIODIC = BIT_32 17"
definition APIC_SPIV_APIC_ENABLED :: u32 where "APIC_SPIV_APIC_ENABLED = BIT_32 8"
definition SPURIOUS_APIC_VECTOR :: u32 where "SPURIOUS_APIC_VECTOR = 0xff"
definition ERROR_APIC_VECTOR :: u32 where "ERROR_APIC_VECTOR = 0xfe"
definition LOCAL_TIMER_VECTOR :: u32 where "LOCAL_TIMER_VECTOR = 0xee"
definition BAD_APICID :: u32 where "BAD_APICID = 0xFFFF"
definition MAX_LOCAL_APIC :: nat where "MAX_LOCAL_APIC = 32768"

text \<open>The pointer \<open>apic\<close> is \<open>NULL\<close> or names one of the two drivers.\<close>

datatype apic_ptr = NULL | XAPIC | X2APIC

record apic_state =
  hardware :: machine
  apic :: apic_ptr
  acpi_lapic_addr :: u64
  nr_logical_cpuids :: nat
  cpuid_to_apicid :: "u32 list"
  boot_cpu_physical_apicid :: u32

text \<open>
  \<open>struct apic\<close>. The wait for the interrupt command register takes the values that successive
  reads of the register return.
\<close>

record apic_ops =
  op_eoi_write :: "u32 \<Rightarrow> u32 \<Rightarrow> apic_state \<Rightarrow> apic_state"
  op_init_apic_ldr :: "nat \<Rightarrow> apic_state \<Rightarrow> apic_state"
  op_get_apic_id :: "u64 \<Rightarrow> u32"
  op_read :: "u32 \<Rightarrow> apic_state \<Rightarrow> u32"
  op_write :: "u32 \<Rightarrow> u32 \<Rightarrow> apic_state \<Rightarrow> apic_state"
  op_icr_read :: "apic_state \<Rightarrow> u64"
  op_icr_write :: "u32 \<Rightarrow> u32 \<Rightarrow> apic_state \<Rightarrow> apic_state"
  op_safe_wait_icr_idle :: "(nat \<Rightarrow> u32) \<Rightarrow> u32"

section \<open>kernel/xapic.c\<close>

definition xapic_read :: "u32 \<Rightarrow> apic_state \<Rightarrow> u32" where
  "xapic_read reg s = read32 (memory (hardware s)) (acpi_lapic_addr s + ucast reg)"

definition xapic_write :: "u32 \<Rightarrow> u32 \<Rightarrow> apic_state \<Rightarrow> apic_state" where
  "xapic_write reg v s =
     s\<lparr>hardware := (hardware s)\<lparr>memory := write32 (memory (hardware s)) (acpi_lapic_addr s + ucast reg) v\<rparr>\<rparr>"

text \<open>The routines below go through \<open>apic\<close>, which is this driver whenever they run.\<close>

definition xapic_init_apic_ldr :: "nat \<Rightarrow> apic_state \<Rightarrow> apic_state" where
  "xapic_init_apic_ldr num s =
     (let logical = push_bit num 1 :: u64;
          s = xapic_write APIC_DFR 0xFFFFFFFF s;
          val = ucast (xapic_read APIC_LDR s AND NOT (0xFF000000 :: u32));
          val = val OR push_bit 24 logical
      in xapic_write APIC_LDR (ucast val) s)"

definition xapic_get_apic_id :: "u64 \<Rightarrow> u32" where
  "xapic_get_apic_id x = ucast (drop_bit 24 x AND 0xFF)"

definition xapic_icr_read :: "apic_state \<Rightarrow> u64" where
  "xapic_icr_read s =
     (let icr2 = xapic_read APIC_ICR2 s; icr1 = xapic_read APIC_ICR s in ucast icr1 OR push_bit 32 (ucast icr2))"

definition xapic_icr_write :: "u32 \<Rightarrow> u32 \<Rightarrow> apic_state \<Rightarrow> apic_state" where
  "xapic_icr_write low apicid s = xapic_write APIC_ICR low (xapic_write APIC_ICR2 (push_bit 24 apicid) s)"

text \<open>The body of the loop runs at most 1001 times; \<open>n\<close> iterations are left, \<open>k\<close> reads are done.\<close>

fun wait_icr_loop :: "(nat \<Rightarrow> u32) \<Rightarrow> nat \<Rightarrow> nat \<Rightarrow> u32" where
  "wait_icr_loop icr k n =
     (let send_status = icr k AND 0x1000
      in if send_status = 0 then send_status
         else case n of 0 \<Rightarrow> send_status | Suc n \<Rightarrow> wait_icr_loop icr (k + 1) n)"

declare wait_icr_loop.simps [simp del]

definition xapic_safe_wait_icr_idle :: "(nat \<Rightarrow> u32) \<Rightarrow> u32" where
  "xapic_safe_wait_icr_idle icr = wait_icr_loop icr 0 1000"

definition xapic :: apic_ops where
  "xapic = \<lparr>op_eoi_write = xapic_write, op_init_apic_ldr = xapic_init_apic_ldr, op_get_apic_id = xapic_get_apic_id,
     op_read = xapic_read, op_write = xapic_write, op_icr_read = xapic_icr_read, op_icr_write = xapic_icr_write,
     op_safe_wait_icr_idle = xapic_safe_wait_icr_idle\<rparr>"

section \<open>kernel/x2apic.c\<close>

definition APIC_BASE_MSR :: u32 where "APIC_BASE_MSR = 0x800"

definition x2apic_eoi_write :: "u32 \<Rightarrow> u32 \<Rightarrow> apic_state \<Rightarrow> apic_state" where
  "x2apic_eoi_write reg v s = s\<lparr>hardware := wrmsr (APIC_BASE_MSR + drop_bit 4 APIC_EOI) 0 0 (hardware s)\<rparr>"

definition x2apic_init_apic_ldr :: "nat \<Rightarrow> apic_state \<Rightarrow> apic_state" where
  "x2apic_init_apic_ldr num s = s"

definition x2apic_get_apic_id :: "u64 \<Rightarrow> u32" where
  "x2apic_get_apic_id x = ucast x"

definition x2apic_read :: "u32 \<Rightarrow> apic_state \<Rightarrow> u32" where
  "x2apic_read reg s = (if reg = APIC_DFR then -1 else ucast (rdmsrl (APIC_BASE_MSR + drop_bit 4 reg) (hardware s)))"

definition x2apic_write :: "u32 \<Rightarrow> u32 \<Rightarrow> apic_state \<Rightarrow> apic_state" where
  "x2apic_write reg v s =
     (if reg \<in> {APIC_DFR, APIC_ID, APIC_LDR, APIC_LVR} then s
      else s\<lparr>hardware := wrmsr (APIC_BASE_MSR + drop_bit 4 reg) v 0 (hardware s)\<rparr>)"

definition x2apic_icr_read :: "apic_state \<Rightarrow> u64" where
  "x2apic_icr_read s = rdmsrl (APIC_BASE_MSR + drop_bit 4 APIC_ICR) (hardware s)"

definition x2apic_icr_write :: "u32 \<Rightarrow> u32 \<Rightarrow> apic_state \<Rightarrow> apic_state" where
  "x2apic_icr_write low apicid s =
     s\<lparr>hardware := wrmsrl (APIC_BASE_MSR + drop_bit 4 APIC_ICR) (push_bit 32 (ucast apicid) OR ucast low) (hardware s)\<rparr>"

definition x2apic_safe_wait_icr_idle :: "(nat \<Rightarrow> u32) \<Rightarrow> u32" where
  "x2apic_safe_wait_icr_idle icr = 0"

definition x2apic :: apic_ops where
  "x2apic = \<lparr>op_eoi_write = x2apic_eoi_write, op_init_apic_ldr = x2apic_init_apic_ldr, op_get_apic_id = x2apic_get_apic_id,
     op_read = x2apic_read, op_write = x2apic_write, op_icr_read = x2apic_icr_read, op_icr_write = x2apic_icr_write,
     op_safe_wait_icr_idle = x2apic_safe_wait_icr_idle\<rparr>"

text \<open>
  The driver behind the pointer; a call through \<open>NULL\<close> is a fault, which stops the machine. The
  inline functions of include/asm/apic.h call through it.
\<close>

definition driver :: "apic_ptr \<Rightarrow> stop + apic_ops" where
  "driver p = (case p of NULL \<Rightarrow> Inl BUG | XAPIC \<Rightarrow> Inr xapic | X2APIC \<Rightarrow> Inr x2apic)"

definition apic_read :: "apic_ops \<Rightarrow> u32 \<Rightarrow> apic_state \<Rightarrow> u32" where
  "apic_read d reg s = op_read d reg s"

definition apic_write :: "apic_ops \<Rightarrow> u32 \<Rightarrow> u32 \<Rightarrow> apic_state \<Rightarrow> apic_state" where
  "apic_write d reg val s = op_write d reg val s"

definition apic_eoi :: "apic_ops \<Rightarrow> apic_state \<Rightarrow> apic_state" where
  "apic_eoi d s = op_eoi_write d APIC_EOI 0 s"

definition apic_icr_read :: "apic_ops \<Rightarrow> apic_state \<Rightarrow> u64" where
  "apic_icr_read d s = op_icr_read d s"

definition apic_icr_write :: "apic_ops \<Rightarrow> u32 \<Rightarrow> u32 \<Rightarrow> apic_state \<Rightarrow> apic_state" where
  "apic_icr_write d low high s = op_icr_write d low high s"

definition safe_apic_wait_icr_idle :: "apic_ops \<Rightarrow> (nat \<Rightarrow> u32) \<Rightarrow> u32" where
  "safe_apic_wait_icr_idle d icr = op_safe_wait_icr_idle d icr"

definition read_apic_id :: "apic_ops \<Rightarrow> apic_state \<Rightarrow> u32" where
  "read_apic_id d s = op_get_apic_id d (ucast (apic_read d APIC_ID s))"

section \<open>The processors of the MADT\<close>

definition acpi_parse_madt :: "u64 \<Rightarrow> apic_state \<Rightarrow> apic_state" where
  "acpi_parse_madt table s = s\<lparr>acpi_lapic_addr := ucast (read32 (memory (hardware s)) (table + 36))\<rparr>"

text \<open>The loop over the first \<open>nr_logical_cpuids\<close> slots is a search; \<open>NR_CPUS\<close> is the length of the array.\<close>

definition acpi_register_lapic :: "nat \<Rightarrow> u32 \<Rightarrow> u8 \<Rightarrow> apic_state \<Rightarrow> stop + apic_state" where
  "acpi_register_lapic NR_CPUS apicid enabled s =
     and_then (panic_if (enabled = 0) ''no CPU hotplug support'') (\<lambda>_.
       if apicid = boot_cpu_physical_apicid s then Inr (s\<lparr>cpuid_to_apicid := (cpuid_to_apicid s)[0 := apicid]\<rparr>)
       else if \<exists>i\<in>set [0..<nr_logical_cpuids s]. cpuid_to_apicid s ! i = apicid then Inr s
       else and_then (panic_if (nr_logical_cpuids s \<ge> NR_CPUS) ''NR_CPUS limit reached'') (\<lambda>_.
         Inr (s\<lparr>cpuid_to_apicid := (cpuid_to_apicid s)[nr_logical_cpuids s := apicid],
                nr_logical_cpuids := nr_logical_cpuids s + 1\<rparr>)))"

definition BAD_MADT_ENTRY :: "mem \<Rightarrow> u64 \<Rightarrow> u64 \<Rightarrow> nat \<Rightarrow> bool" where
  "BAD_MADT_ENTRY m entry en sizeof_entry \<longleftrightarrow>
     entry = 0 \<or> entry + of_nat sizeof_entry > en \<or> unat (m (entry + 1)) < sizeof_entry"

definition acpi_parse_lapic :: "nat \<Rightarrow> u64 \<Rightarrow> u64 \<Rightarrow> apic_state \<Rightarrow> stop + int \<times> apic_state" where
  "acpi_parse_lapic NR_CPUS header en s =
     (let m = memory (hardware s)
      in and_then (BUG_ON (BAD_MADT_ENTRY m header en 8)) (\<lambda>_.
           let apicid = ucast (m (header + 3)); enabled = ucast (read32 m (header + 4) AND 1)
           in and_then (acpi_register_lapic NR_CPUS apicid enabled s) (\<lambda>s. Inr (0, s))))"

definition acpi_parse_x2apic :: "nat \<Rightarrow> u64 \<Rightarrow> u64 \<Rightarrow> apic_state \<Rightarrow> stop + int \<times> apic_state" where
  "acpi_parse_x2apic NR_CPUS header en s =
     (let m = memory (hardware s)
      in and_then (BUG_ON (BAD_MADT_ENTRY m header en 16)) (\<lambda>_.
           let apicid = read32 m (header + 4); enabled = ucast (read32 m (header + 8) AND 1)
           in and_then (acpi_register_lapic NR_CPUS apicid enabled s) (\<lambda>s. Inr (0, s))))"

definition madt_proc :: "nat \<Rightarrow> apic_state acpi_subtable_proc list" where
  "madt_proc NR_CPUS =
     [\<lparr>proc_id = 0, proc_handler = acpi_parse_lapic NR_CPUS, proc_count = 0\<rparr>,
      \<lparr>proc_id = 9, proc_handler = acpi_parse_x2apic NR_CPUS, proc_count = 0\<rparr>]"

definition acpi_parse_madt_lapic_entries :: "nat \<Rightarrow> u64 list \<Rightarrow> apic_state \<Rightarrow> (stop + int \<times> apic_state) option" where
  "acpi_parse_madt_lapic_entries NR_CPUS initial_tables s =
     map_option (\<lambda>r. and_then r (\<lambda>(n, procs, s). Inr (n, s)))
       (acpi_table_parse_entries_array (memory (hardware s)) initial_tables ACPI_SIG_MADT 44 (madt_proc NR_CPUS) MAX_LOCAL_APIC s)"

section \<open>Bringing the APIC up\<close>

definition X86_FEATURE_APIC :: nat where "X86_FEATURE_APIC = 0 * 32 + 9"
definition X86_FEATURE_X2APIC :: nat where "X86_FEATURE_X2APIC = 4 * 32 + 21"
definition MSR_IA32_APICBASE_X2APIC_ENABLE :: u64 where "MSR_IA32_APICBASE_X2APIC_ENABLE = BIT_64 10"
definition MSR_IA32_APICBASE_ENABLE :: u64 where "MSR_IA32_APICBASE_ENABLE = BIT_64 11"

definition x2apic_enable :: "apic_state \<Rightarrow> apic_state" where
  "x2apic_enable s =
     (let msr = rdmsrl MSR_IA32_APICBASE (hardware s)
      in if msr AND MSR_IA32_APICBASE_X2APIC_ENABLE \<noteq> 0 then s
         else s\<lparr>hardware := wrmsrl MSR_IA32_APICBASE (msr OR MSR_IA32_APICBASE_X2APIC_ENABLE) (hardware s)\<rparr>)"

definition verify_apic :: "u64 list \<Rightarrow> apic_state \<Rightarrow> stop + apic_state" where
  "verify_apic x86_capability s =
     and_then (BUG_ON (\<not> bm_test x86_capability X86_FEATURE_APIC)) (\<lambda>_.
       let msr = rdmsrl MSR_IA32_APICBASE (hardware s)
       in and_then (panic_if (msr AND MSR_IA32_APICBASE_ENABLE = 0) ''xapic disabled'') (\<lambda>_.
            if apic s = NULL
            then Inr (s\<lparr>apic := if msr AND MSR_IA32_APICBASE_X2APIC_ENABLE \<noteq> 0 then X2APIC else XAPIC\<rparr>)
            else if apic s = X2APIC
            then and_then (BUG_ON (\<not> bm_test x86_capability X86_FEATURE_X2APIC)) (\<lambda>_. Inr (x2apic_enable s))
            else Inr s))"

definition clear_local_apic :: "apic_ops \<Rightarrow> apic_state \<Rightarrow> apic_state" where
  "clear_local_apic d s =
     (let s = apic_write d APIC_LVTERR (ERROR_APIC_VECTOR OR APIC_LVT_MASKED) s;
          v = apic_read d APIC_LVTT s;
          s = apic_write d APIC_LVTT (v OR APIC_LVT_MASKED) s;
          v = apic_read d APIC_LVT0 s;
          s = apic_write d APIC_LVT0 (v OR APIC_LVT_MASKED) s;
          v = apic_read d APIC_LVT1 s;
          s = apic_write d APIC_LVT1 (v OR APIC_LVT_MASKED) s;
          v = apic_read d APIC_LVTPC s;
          s = apic_write d APIC_LVTPC (v OR APIC_LVT_MASKED) s;
          s = apic_write d APIC_LVTT APIC_LVT_MASKED s;
          s = apic_write d APIC_LVT0 APIC_LVT_MASKED s;
          s = apic_write d APIC_LVT1 APIC_LVT_MASKED s;
          s = apic_write d APIC_LVTERR APIC_LVT_MASKED s;
          s = apic_write d APIC_LVTPC APIC_LVT_MASKED s
      in apic_write d APIC_ESR 0 s)"

definition lapic_setup_esr :: "apic_ops \<Rightarrow> apic_state \<Rightarrow> apic_state" where
  "lapic_setup_esr d s =
     (let s = apic_write d APIC_ESR 0 s;
          s = apic_write d APIC_LVTERR ERROR_APIC_VECTOR s
      in apic_write d APIC_ESR 0 s)"

definition setup_local_apic :: "apic_ops \<Rightarrow> nat \<Rightarrow> apic_state \<Rightarrow> apic_state" where
  "setup_local_apic d num s =
     (let s = op_init_apic_ldr d num s;
          val = apic_read d APIC_TASKPRI s;
          s = apic_write d APIC_TASKPRI (val AND NOT 0xFF) s;
          val = apic_read d APIC_SPIV s;
          val = val AND NOT 0xFF;
          val = val OR APIC_SPIV_APIC_ENABLED;
          val = val OR SPURIOUS_APIC_VECTOR
      in apic_write d APIC_SPIV val s)"

text \<open>The part of \<open>apic_init\<close> that only the boot processor runs; the walk over the MADT may not end.\<close>

definition apic_init_bsp :: "nat \<Rightarrow> u64 list \<Rightarrow> apic_ops \<Rightarrow> apic_state \<Rightarrow> (stop + apic_state) option" where
  "apic_init_bsp NR_CPUS initial_tables d s =
     (case acpi_table_parse (memory (hardware s)) initial_tables ACPI_SIG_MADT acpi_parse_madt s of (r, s) \<Rightarrow>
        if r \<noteq> 0 then Some (Inl BUG)
        else
          let s = s\<lparr>boot_cpu_physical_apicid := read_apic_id d s\<rparr>
          in map_option (\<lambda>r. and_then r (\<lambda>(n, s).
               and_then (BUG_ON (n < 0)) (\<lambda>_.
               and_then (panic_if (cpuid_to_apicid s ! 0 \<noteq> boot_cpu_physical_apicid s) ''BIOS bug: boot cpu not detected!'') (\<lambda>_.
               Inr s))))
             (acpi_parse_madt_lapic_entries NR_CPUS initial_tables s))"

definition apic_init :: "nat \<Rightarrow> u64 list \<Rightarrow> nat \<Rightarrow> u64 list \<Rightarrow> apic_state \<Rightarrow> (stop + apic_state) option" where
  "apic_init NR_CPUS x86_capability num initial_tables s =
     (case verify_apic x86_capability s of
        Inl e \<Rightarrow> Some (Inl e)
      | Inr s \<Rightarrow>
          (case driver (apic s) of
             Inl e \<Rightarrow> Some (Inl e)
           | Inr d \<Rightarrow>
               map_option (\<lambda>r. and_then r (\<lambda>s.
                   Inr (lapic_setup_esr d (setup_local_apic d num (clear_local_apic d s)))))
                 (if boot_cpu_physical_apicid s = BAD_APICID then apic_init_bsp NR_CPUS initial_tables d s else Some (Inr s))))"

definition x2apic_init :: "u64 list \<Rightarrow> nat \<Rightarrow> apic_state \<Rightarrow> stop + apic_state" where
  "x2apic_init x86_capability num s =
     and_then (BUG_ON (num \<noteq> 0)) (\<lambda>_.
     and_then (BUG_ON (apic s \<noteq> XAPIC)) (\<lambda>_.
       if \<not> bm_test x86_capability X86_FEATURE_X2APIC then Inr s
       else Inr ((x2apic_enable s)\<lparr>apic := X2APIC\<rparr>)))"

definition lapic_timer_set_periodic :: "apic_ops \<Rightarrow> u32 \<Rightarrow> apic_state \<Rightarrow> apic_state" where
  "lapic_timer_set_periodic d clocks s =
     (let s = apic_write d APIC_LVTT (LOCAL_TIMER_VECTOR OR APIC_LVT_TIMER_PERIODIC) s;
          tmp_value = apic_read d APIC_TDCR s;
          s = apic_write d APIC_TDCR ((tmp_value AND NOT (0xB OR BIT_32 2)) OR 0x3) s
      in apic_write d APIC_TMICT (clocks div 16) s)"

section \<open>Registers that keep what is written\<close>

text \<open>
  The registers the code sets. The contract of a driver on them: a write is read back, and writing
  one register, or setting up the logical destination, changes no other; the kernel's own data stay.
\<close>

definition apic_regs :: "u32 set" where
  "apic_regs = {APIC_TASKPRI, APIC_SPIV, APIC_ESR, APIC_LVTT, APIC_LVTPC, APIC_LVT0, APIC_LVT1, APIC_LVTERR, APIC_TMICT, APIC_TDCR}"

lemma apic_regs_members [simp]:
  "APIC_TASKPRI \<in> apic_regs" "APIC_SPIV \<in> apic_regs" "APIC_ESR \<in> apic_regs" "APIC_LVTT \<in> apic_regs" "APIC_LVTPC \<in> apic_regs"
  "APIC_LVT0 \<in> apic_regs" "APIC_LVT1 \<in> apic_regs" "APIC_LVTERR \<in> apic_regs" "APIC_TMICT \<in> apic_regs" "APIC_TDCR \<in> apic_regs"
  by (simp_all add: apic_regs_def)

definition same_cpus :: "apic_state \<Rightarrow> apic_state \<Rightarrow> bool" where
  "same_cpus s s' \<longleftrightarrow> apic s' = apic s \<and> nr_logical_cpuids s' = nr_logical_cpuids s \<and>
     cpuid_to_apicid s' = cpuid_to_apicid s \<and> boot_cpu_physical_apicid s' = boot_cpu_physical_apicid s"

lemma same_cpus_refl [simp]: "same_cpus s s"
  by (simp add: same_cpus_def)

lemma same_cpus_trans: "same_cpus s s' \<Longrightarrow> same_cpus s' s'' \<Longrightarrow> same_cpus s s''"
  by (simp add: same_cpus_def)

locale apic_driver =
  fixes d :: apic_ops
  assumes read_written: "r \<in> apic_regs \<Longrightarrow> op_read d r (op_write d r v s) = v"
    and read_other: "r \<in> apic_regs \<Longrightarrow> r' \<in> apic_regs \<Longrightarrow> r' \<noteq> r \<Longrightarrow> op_read d r' (op_write d r v s) = op_read d r' s"
    and read_ldr: "r \<in> apic_regs \<Longrightarrow> op_read d r (op_init_apic_ldr d num s) = op_read d r s"
    and write_cpus: "same_cpus s (op_write d r v s)"
    and ldr_cpus: "same_cpus s (op_init_apic_ldr d num s)"
begin

lemma reads:
  "r \<in> apic_regs \<Longrightarrow> r' \<in> apic_regs \<Longrightarrow> apic_read d r' (apic_write d r v s) = (if r' = r then v else apic_read d r' s)"
  by (simp add: apic_read_def apic_write_def read_written read_other)

lemma reads_ldr: "r \<in> apic_regs \<Longrightarrow> apic_read d r (op_init_apic_ldr d num s) = apic_read d r s"
  by (simp add: apic_read_def read_ldr)

lemma writes_cpus: "same_cpus s s' \<Longrightarrow> same_cpus s (apic_write d r v s')"
  using write_cpus same_cpus_trans by (auto simp: apic_write_def)

lemma clear_reads:
  assumes "r \<in> apic_regs"
  shows "apic_read d r (clear_local_apic d s) =
    (if r \<in> {APIC_LVTT, APIC_LVT0, APIC_LVT1, APIC_LVTPC, APIC_LVTERR} then APIC_LVT_MASKED
     else if r = APIC_ESR then 0 else apic_read d r s)"
  using assms by (simp add: clear_local_apic_def Let_def reads)

lemma setup_reads:
  assumes "r \<in> apic_regs"
  shows "apic_read d r (setup_local_apic d num s) =
    (if r = APIC_TASKPRI then apic_read d r s AND NOT 0xFF
     else if r = APIC_SPIV then (apic_read d r s AND NOT 0xFF) OR APIC_SPIV_APIC_ENABLED OR SPURIOUS_APIC_VECTOR
     else apic_read d r s)"
  using assms by (simp add: setup_local_apic_def Let_def reads reads_ldr or.assoc)

lemma esr_reads:
  assumes "r \<in> apic_regs"
  shows "apic_read d r (lapic_setup_esr d s) =
    (if r = APIC_LVTERR then ERROR_APIC_VECTOR else if r = APIC_ESR then 0 else apic_read d r s)"
  using assms by (simp add: lapic_setup_esr_def Let_def reads)

lemma setup_cpus: "same_cpus s (lapic_setup_esr d (setup_local_apic d num (clear_local_apic d s)))"
  by (simp add: lapic_setup_esr_def setup_local_apic_def clear_local_apic_def Let_def)
    (intro writes_cpus same_cpus_refl | rule same_cpus_trans[OF _ ldr_cpus])+

lemma setup_quiet:
  assumes "s' = lapic_setup_esr d (setup_local_apic d num (clear_local_apic d s))"
  shows "(\<forall>r\<in>{APIC_LVTT, APIC_LVT0, APIC_LVT1, APIC_LVTPC}. apic_read d r s' = APIC_LVT_MASKED) \<and>
    apic_read d APIC_LVTERR s' = ERROR_APIC_VECTOR \<and> apic_read d APIC_ESR s' = 0 \<and>
    apic_read d APIC_TASKPRI s' = apic_read d APIC_TASKPRI s AND NOT 0xFF \<and>
    apic_read d APIC_SPIV s' = (apic_read d APIC_SPIV s AND NOT 0xFF) OR APIC_SPIV_APIC_ENABLED OR SPURIOUS_APIC_VECTOR"
  unfolding assms by (simp add: esr_reads setup_reads clear_reads)

lemma timer_reads:
  "apic_read d APIC_LVTT (lapic_timer_set_periodic d clocks s) = LOCAL_TIMER_VECTOR OR APIC_LVT_TIMER_PERIODIC"
  "apic_read d APIC_TMICT (lapic_timer_set_periodic d clocks s) = clocks div 16"
  "apic_read d APIC_TDCR (lapic_timer_set_periodic d clocks s) = (apic_read d APIC_TDCR s AND NOT 0xF) OR 0x3"
  by (simp_all add: lapic_timer_set_periodic_def Let_def reads BIT_32_def)

end

lemma apic_regs_apart:
  assumes "r \<in> apic_regs" "r' \<in> apic_regs \<union> {APIC_DFR, APIC_LDR}" "r' \<noteq> r"
  shows "apart (a + ucast r') 4 (a + ucast r) 4"
proof -
  have "\<forall>r\<in>apic_regs. \<forall>r'\<in>apic_regs \<union> {APIC_DFR, APIC_LDR}. r' = r \<or> 4 \<le> unat (ucast r - ucast r' :: u64)"
    by (simp add: apic_regs_def)
  moreover have "\<forall>r\<in>apic_regs. \<forall>r'\<in>apic_regs \<union> {APIC_DFR, APIC_LDR}. r' = r \<or> 4 \<le> unat (ucast r' - ucast r :: u64)"
    by (simp add: apic_regs_def)
  ultimately show ?thesis using assms by (auto simp: apart_def)
qed

lemma xapic_read_other:
  "r \<in> apic_regs \<Longrightarrow> r' \<in> apic_regs \<union> {APIC_DFR, APIC_LDR} \<Longrightarrow> r' \<noteq> r \<Longrightarrow> xapic_read r (xapic_write r' v s) = xapic_read r s"
  using apic_regs_apart by (simp add: xapic_read_def xapic_write_def read32_write32_apart)

interpretation xapic: apic_driver xapic
proof (unfold_locales, goal_cases)
  case (3 r num s)
  then have "r \<noteq> APIC_DFR" "r \<noteq> APIC_LDR" by (auto simp: apic_regs_def)
  with 3 show ?case by (simp add: xapic_def xapic_init_apic_ldr_def Let_def xapic_read_other)
qed (simp_all add: xapic_def xapic_read_other, simp_all add: xapic_read_def xapic_write_def xapic_init_apic_ldr_def Let_def same_cpus_def)

lemma x2apic_msr_eq: "r \<in> apic_regs \<Longrightarrow> r' \<in> apic_regs \<Longrightarrow> APIC_BASE_MSR + drop_bit 4 r = APIC_BASE_MSR + drop_bit 4 r' \<longleftrightarrow> r = r'"
proof -
  have "\<forall>r\<in>apic_regs. \<forall>r'\<in>apic_regs. drop_bit 4 r = drop_bit 4 r' \<longleftrightarrow> r = r'" by (simp add: apic_regs_def)
  then show "r \<in> apic_regs \<Longrightarrow> r' \<in> apic_regs \<Longrightarrow> ?thesis" by auto
qed

lemma ucast_up_down [simp]: "ucast (ucast (v :: u32) :: u64) = v"
  by (rule bit_word_eqI) (simp add: bit_simps)

lemma x2apic_plain:
  assumes "r \<in> apic_regs"
  shows "x2apic_read r s = ucast (msrs (hardware s) (APIC_BASE_MSR + drop_bit 4 r))"
    and "x2apic_write r v s = s\<lparr>hardware := (hardware s)\<lparr>msrs := (msrs (hardware s))(APIC_BASE_MSR + drop_bit 4 r := ucast v)\<rparr>\<rparr>"
proof -
  have "r \<notin> {APIC_DFR, APIC_ID, APIC_LDR, APIC_LVR}" using assms by (auto simp: apic_regs_def)
  then show "x2apic_read r s = ucast (msrs (hardware s) (APIC_BASE_MSR + drop_bit 4 r))"
    "x2apic_write r v s = s\<lparr>hardware := (hardware s)\<lparr>msrs := (msrs (hardware s))(APIC_BASE_MSR + drop_bit 4 r := ucast v)\<rparr>\<rparr>"
    by (simp_all add: x2apic_read_def x2apic_write_def wrmsr_def)
qed

interpretation x2apic: apic_driver x2apic
proof (unfold_locales, goal_cases)
  case (1 r v s)
  then show ?case by (simp add: x2apic_def x2apic_plain)
next
  case (2 r r' v s)
  then show ?case using x2apic_msr_eq[of r r'] by (simp add: x2apic_def x2apic_plain)
next
  case (4 s r v)
  then show ?case by (simp add: x2apic_def x2apic_write_def same_cpus_def)
qed (simp_all add: x2apic_def x2apic_init_apic_ldr_def)

section \<open>The processors as a list\<close>

text \<open>The id and the enabled flag of a processor entry, of either kind, and whether it is large enough.\<close>

definition madt_cpu :: "mem \<Rightarrow> u64 \<Rightarrow> (u32 \<times> bool) option" where
  "madt_cpu m e =
     (if m e = 0 then Some (ucast (m (e + 3)), bit (read32 m (e + 4)) 0)
      else if m e = 9 then Some (read32 m (e + 4), bit (read32 m (e + 8)) 0) else None)"

definition madt_entry_ok :: "mem \<Rightarrow> u64 \<Rightarrow> u64 \<Rightarrow> bool" where
  "madt_entry_ok m en e \<longleftrightarrow>
     (m e = 0 \<longrightarrow> \<not> BAD_MADT_ENTRY m e en 8) \<and> (m e = 9 \<longrightarrow> \<not> BAD_MADT_ENTRY m e en 16)"

fun register_all :: "nat \<Rightarrow> (u32 \<times> bool) list \<Rightarrow> apic_state \<Rightarrow> stop + apic_state" where
  "register_all NR_CPUS [] s = Inr s"
| "register_all NR_CPUS ((apicid, enabled) # cpus) s =
     and_then (acpi_register_lapic NR_CPUS apicid (if enabled then 1 else 0) s) (register_all NR_CPUS cpus)"

lemma register_all_append:
  "register_all N (xs @ ys) s = and_then (register_all N xs s) (register_all N ys)"
proof (induction xs arbitrary: s)
  case (Cons x xs)
  then show ?case by (cases x; cases "acpi_register_lapic N (fst x) (if snd x then 1 else 0) s") simp_all
qed simp

lemma register_hardware: "acpi_register_lapic N i en s = Inr s' \<Longrightarrow> hardware s' = hardware s"
  by (auto simp: acpi_register_lapic_def and_then_eq_Inr split: if_splits)

lemma low_bit_byte: "(ucast (w AND 1 :: u32) :: u8) = (if bit w 0 then 1 else 0)"
  by (simp add: and_one_eq odd_iff_mod_2_eq_one bit_0)

lemma run_proc_madt:
  assumes "map proc_id procs = [0, 9]" "map proc_handler procs = [acpi_parse_lapic N, acpi_parse_x2apic N]"
    and "memory (hardware s) = m" "madt_entry_ok m en e"
  shows "\<exists>procs'. map proc_id procs' = [0, 9] \<and> map proc_handler procs' = [acpi_parse_lapic N, acpi_parse_x2apic N] \<and>
    run_proc procs (m e) e en s =
      (case madt_cpu m e of None \<Rightarrow> Inr (False, procs', s)
       | Some (i, en) \<Rightarrow> and_then (acpi_register_lapic N i (if en then 1 else 0) s) (\<lambda>s. Inr (True, procs', s)))"
proof -
  obtain p q where pq: "procs = [p, q]" "proc_id p = 0" "proc_id q = 9" "proc_handler p = acpi_parse_lapic N" "proc_handler q = acpi_parse_x2apic N"
    using assms(1,2) by (auto simp: map_eq_Cons_conv)
  let ?c = "\<lambda>p. p\<lparr>proc_count := proc_count p + 1\<rparr>"
  consider "m e = 0" | "m e = 9" | "m e \<noteq> 0" "m e \<noteq> 9" by blast
  then show ?thesis
  proof cases
    case 1
    then show ?thesis using pq assms(3,4)
      by (intro exI[of _ "[?c p, q]"])
        (auto simp: madt_cpu_def madt_entry_ok_def acpi_parse_lapic_def Let_def BUG_ON_def low_bit_byte and_then_def split: sum.splits)
  next
    case 2
    then show ?thesis using pq assms(3,4)
      by (intro exI[of _ "[p, ?c q]"])
        (auto simp: madt_cpu_def madt_entry_ok_def acpi_parse_x2apic_def Let_def BUG_ON_def low_bit_byte and_then_def split: sum.splits)
  next
    case 3
    then show ?thesis using pq by (intro exI[of _ procs]) (simp add: madt_cpu_def)
  qed
qed

lemma run_entries_madt:
  assumes "map proc_id procs = [0, 9]" "map proc_handler procs = [acpi_parse_lapic N, acpi_parse_x2apic N]"
    and "memory (hardware s) = m" "\<forall>e\<in>set es. madt_entry_ok m en e"
  shows "\<exists>procs'. run_entries m en es cnt procs s =
    and_then (register_all N (List.map_filter (madt_cpu m) es) s)
      (\<lambda>s. Inr (cnt + length (List.map_filter (madt_cpu m) es), procs', s))"
  using assms
proof (induction es arbitrary: cnt procs s)
  case (Cons e es)
  have e: "madt_entry_ok m en e" using Cons.prems(4) by simp
  obtain ps where ps: "map proc_id ps = [0, 9]" "map proc_handler ps = [acpi_parse_lapic N, acpi_parse_x2apic N]"
    and run: "run_proc procs (m e) e en s =
      (case madt_cpu m e of None \<Rightarrow> Inr (False, ps, s)
       | Some (i, en) \<Rightarrow> and_then (acpi_register_lapic N i (if en then 1 else 0) s) (\<lambda>s. Inr (True, ps, s)))"
    using run_proc_madt[OF Cons.prems(1,2,3) e] by (elim exE conjE) (rule that)
  show ?case
  proof (cases "madt_cpu m e")
    case None
    then show ?thesis using run Cons.IH[OF ps Cons.prems(3), of cnt] Cons.prems(4) by (simp add: map_filter_simps)
  next
    case (Some c)
    obtain i f where c: "c = (i, f)" by force
    show ?thesis
    proof (cases "acpi_register_lapic N i (if f then 1 else 0) s")
      case (Inl a)
      then show ?thesis using run Some c by (simp add: map_filter_simps)
    next
      case (Inr s1)
      then have "memory (hardware s1) = m" using register_hardware Cons.prems(3) by metis
      then show ?thesis using run Some c Inr Cons.IH[OF ps, of s1 "cnt + 1"] Cons.prems(4) by (simp add: map_filter_simps)
    qed
  qed
qed (simp add: map_filter_simps)

text \<open>
  The slots after registration: slot 0 for the boot processor, the others in the order in which they
  are first named.
\<close>

definition new_ids :: "u32 \<Rightarrow> u32 list \<Rightarrow> u32 list" where
  "new_ids b ids = rev (remdups (rev (filter (\<lambda>i. i \<noteq> b) ids)))"

definition cpu_slots :: "nat \<Rightarrow> u32 \<Rightarrow> u32 list \<Rightarrow> u32 list" where
  "cpu_slots N b ids =
     (if b \<in> set ids then b else BAD_APICID) # new_ids b ids @ replicate (N - 1 - length (new_ids b ids)) BAD_APICID"

lemma new_ids_snoc: "new_ids b (ids @ [i]) = (if i = b \<or> i \<in> set ids then new_ids b ids else new_ids b ids @ [i])"
  by (auto simp: new_ids_def)

lemma new_ids_set: "set (new_ids b ids) = set ids - {b}" "distinct (new_ids b ids)"
  by (auto simp: new_ids_def)

text \<open>No processor is registered yet.\<close>

definition no_cpus :: "nat \<Rightarrow> apic_state \<Rightarrow> bool" where
  "no_cpus N s \<longleftrightarrow> 0 < N \<and> nr_logical_cpuids s = 1 \<and> cpuid_to_apicid s = replicate N BAD_APICID"

lemma search_take: "n \<le> length xs \<Longrightarrow> (\<exists>k\<in>set [0..<n]. xs ! k = i) \<longleftrightarrow> i \<in> set (take n xs)"
  by (auto simp: in_set_conv_nth)

lemma register_next:
  fixes b N ids
  defines "st s \<equiv> s\<lparr>nr_logical_cpuids := 1 + length (new_ids b ids), cpuid_to_apicid := cpu_slots N b ids\<rparr>"
  assumes "length (new_ids b ids) < N" "boot_cpu_physical_apicid s = b" "i \<noteq> BAD_APICID"
  shows "acpi_register_lapic N i 1 (st s) =
    (if length (new_ids b (ids @ [i])) < N
     then Inr (s\<lparr>nr_logical_cpuids := 1 + length (new_ids b (ids @ [i])), cpuid_to_apicid := cpu_slots N b (ids @ [i])\<rparr>)
     else Inl (PANIC ''NR_CPUS limit reached''))"
proof (cases "i = b")
  case True
  then show ?thesis using assms(2,3) by (simp add: acpi_register_lapic_def panic_if_def st_def new_ids_snoc cpu_slots_def)
next
  case False
  let ?n = "new_ids b ids"
  have used: "take (Suc (length ?n)) (cpu_slots N b ids) = (if b \<in> set ids then b else BAD_APICID) # ?n"
    by (simp add: cpu_slots_def)
  have "Suc (length ?n) \<le> length (cpu_slots N b ids)" by (simp add: cpu_slots_def)
  note search_take[OF this, of i]
  then have old: "(\<exists>k\<in>set [0..<Suc (length ?n)]. cpu_slots N b ids ! k = i) \<longleftrightarrow> i \<in> set ids"
    unfolding used using False assms(4) by (auto simp: new_ids_set)
  have "N - 1 - length ?n = Suc (N - 2 - length ?n)" if "Suc (length ?n) < N" using that by simp
  then have upd: "(cpu_slots N b ids)[Suc (length ?n) := i] = cpu_slots N b (ids @ [i])" if "i \<notin> set ids" "Suc (length ?n) < N"
    using that False by (simp add: cpu_slots_def new_ids_snoc list_update_append numeral_2_eq_2)
  show ?thesis
  proof (cases "i \<in> set ids")
    case True
    then have "cpu_slots N b (ids @ [i]) = cpu_slots N b ids" using False by (auto simp: cpu_slots_def new_ids_snoc)
    then show ?thesis using True False old assms(2,3)
      by (simp add: acpi_register_lapic_def panic_if_def st_def new_ids_snoc)
  next
    case new: False
    then show ?thesis using False old upd assms(2,3)
      by (auto simp: acpi_register_lapic_def panic_if_def st_def new_ids_snoc)
  qed
qed

lemma register_all_slots:
  assumes "no_cpus N s" "boot_cpu_physical_apicid s = b" "BAD_APICID \<notin> set ids"
  shows "register_all N (map (\<lambda>i. (i, True)) ids) s =
    (if length (new_ids b ids) < N
     then Inr (s\<lparr>nr_logical_cpuids := 1 + length (new_ids b ids), cpuid_to_apicid := cpu_slots N b ids\<rparr>)
     else Inl (PANIC ''NR_CPUS limit reached''))"
  using assms(3)
proof (induction ids rule: rev_induct)
  case Nil
  have "replicate N BAD_APICID = BAD_APICID # replicate (N - 1) BAD_APICID"
    using assms(1) by (simp add: no_cpus_def flip: replicate_Suc)
  then show ?case using assms(1) by (simp add: no_cpus_def new_ids_def cpu_slots_def)
next
  case (snoc i ids)
  show ?case
  proof (cases "length (new_ids b ids) < N")
    case True
    have "i \<noteq> BAD_APICID" using snoc.prems by auto
    then show ?thesis using snoc True register_next[OF True assms(2), of i] by (simp add: register_all_append)
  next
    case False
    then show ?thesis using snoc by (simp add: register_all_append new_ids_snoc)
  qed
qed

text \<open>The MADT at \<open>t\<close> lists the processors \<open>ids\<close>, all enabled.\<close>

definition madt_lists :: "mem \<Rightarrow> u64 \<Rightarrow> u64 list \<Rightarrow> u32 list \<Rightarrow> bool" where
  "madt_lists m t es ids \<longleftrightarrow>
     (let en = t + ucast (header_length m t)
      in t \<noteq> 0 \<and> entry_chain m en (t + 44) es \<and> length es \<le> MAX_LOCAL_APIC \<and> list_all (madt_entry_ok m en) es \<and>
         List.map_filter (madt_cpu m) es = map (\<lambda>i. (i, True)) ids \<and> BAD_APICID \<notin> set ids)"

lemma madt_entries_register:
  assumes "madt_lists (memory (hardware s)) t es ids" "acpi_find_table (memory (hardware s)) tables ACPI_SIG_MADT = t"
    and "no_cpus N s" "boot_cpu_physical_apicid s = b"
  shows "acpi_parse_madt_lapic_entries N tables s =
    Some (if length (new_ids b ids) < N
          then Inr (int (length ids), s\<lparr>nr_logical_cpuids := 1 + length (new_ids b ids), cpuid_to_apicid := cpu_slots N b ids\<rparr>)
          else Inl (PANIC ''NR_CPUS limit reached''))"
proof -
  define m where "m = memory (hardware s)"
  define en where "en = t + ucast (header_length m t)"
  have L: "t \<noteq> 0" "entry_chain m en (t + 44) es" "0 + length es \<le> MAX_LOCAL_APIC" "\<forall>e\<in>set es. madt_entry_ok m en e"
    "List.map_filter (madt_cpu m) es = map (\<lambda>i. (i, True)) ids" "BAD_APICID \<notin> set ids"
    using assms(1) by (auto simp: madt_lists_def Let_def list_all_iff simp flip: m_def en_def)
  have procs: "map proc_id (madt_proc N) = [0, 9]" "map proc_handler (madt_proc N) = [acpi_parse_lapic N, acpi_parse_x2apic N]"
    by (simp_all add: madt_proc_def)
  obtain procs' where "run_entries m en es 0 (madt_proc N) s =
      and_then (register_all N (map (\<lambda>i. (i, True)) ids) s) (\<lambda>s. Inr (length ids, procs', s))"
    using run_entries_madt[OF procs m_def[symmetric] L(4), of 0] unfolding L(5) by auto
  then show ?thesis
    using assms(2) L(1) subtable_loop_chain[OF L(2,3), of "madt_proc N" s] register_all_slots[OF assms(3,4) L(6)]
    by (simp add: acpi_parse_madt_lapic_entries_def acpi_table_parse_entries_array_def flip: m_def en_def)
qed

lemma madt_address_keeps [simp]:
  "hardware (acpi_parse_madt t s) = hardware s" "no_cpus N (acpi_parse_madt t s) = no_cpus N s"
  "apic (acpi_parse_madt t s) = apic s"
  by (simp_all add: acpi_parse_madt_def no_cpus_def)

lemma madt_handlers_keep: "handlers_keep (\<lambda>s. apic s = a) (madt_proc N)"
  by (auto simp: handlers_keep_def handler_keeps_def madt_proc_def acpi_parse_lapic_def acpi_parse_x2apic_def acpi_register_lapic_def Let_def and_then_eq_Inr split: if_splits)

lemma bsp_keeps:
  assumes "apic_init_bsp N tables d s = Some (Inr s')"
  shows "apic s' = apic s \<and> cpuid_to_apicid s' ! 0 = boot_cpu_physical_apicid s'"
proof -
  have keep: "apic s2 = apic s1" if "acpi_parse_madt_lapic_entries N tables s1 = Some (Inr (n, s2))" for s1 n s2
    using that subtable_loop_keeps[OF _ madt_handlers_keep[of "apic s1" N]]
    by (auto simp: acpi_parse_madt_lapic_entries_def acpi_table_parse_entries_array_def and_then_eq_Inr Let_def split: if_splits)
  show ?thesis using assms
    by (auto simp: apic_init_bsp_def acpi_table_parse_def and_then_eq_Inr Let_def split: if_splits dest!: keep)
qed

section \<open>Properties\<close>

text \<open>C26: the boot processor reads the MADT. Let it list the processors \<open>ids\<close>, all enabled, and \<open>b\<close> be the id that the
  local APIC reports at the address in the table. More than \<open>NR_CPUS\<close> processors panic, and so does
  a table without \<open>b\<close>; otherwise slot 0 is \<open>b\<close>, the next slots hold the other ids in the order in which they are
  first named, each once, the rest stay \<open>BAD_APICID\<close>, and \<open>nr_logical_cpuids\<close> counts the used slots.\<close>

theorem boot_processors:
  assumes "madt_lists (memory (hardware s)) t es ids" "acpi_find_table (memory (hardware s)) tables ACPI_SIG_MADT = t"
    and "no_cpus N s" "b = read_apic_id d (acpi_parse_madt t s)" "b \<noteq> BAD_APICID"
  shows "apic_init_bsp N tables d s =
      Some (if N \<le> length (new_ids b ids) then Inl (PANIC ''NR_CPUS limit reached'')
            else if b \<notin> set ids then Inl (PANIC ''BIOS bug: boot cpu not detected!'')
            else Inr (s\<lparr>acpi_lapic_addr := ucast (read32 (memory (hardware s)) (t + 36)), boot_cpu_physical_apicid := b,
                        nr_logical_cpuids := 1 + length (new_ids b ids),
                        cpuid_to_apicid := b # new_ids b ids @ replicate (N - 1 - length (new_ids b ids)) BAD_APICID\<rparr>)) \<and>
    distinct (new_ids b ids) \<and> set (new_ids b ids) = set ids - {b}"
proof -
  let ?s = "(acpi_parse_madt t s)\<lparr>boot_cpu_physical_apicid := b\<rparr>"
  have t: "t \<noteq> 0" using assms(1) by (simp add: madt_lists_def Let_def)
  have "no_cpus N ?s" using assms(3) by (simp add: no_cpus_def acpi_parse_madt_def)
  then have "acpi_parse_madt_lapic_entries N tables ?s =
      Some (if length (new_ids b ids) < N
            then Inr (int (length ids), ?s\<lparr>nr_logical_cpuids := 1 + length (new_ids b ids), cpuid_to_apicid := cpu_slots N b ids\<rparr>)
            else Inl (PANIC ''NR_CPUS limit reached''))"
    using assms(1,2) by (intro madt_entries_register) simp_all
  moreover have "apic_init_bsp N tables d s = map_option (\<lambda>r. and_then r (\<lambda>(n, s). and_then (BUG_ON (n < 0)) (\<lambda>_.
      and_then (panic_if (cpuid_to_apicid s ! 0 \<noteq> boot_cpu_physical_apicid s) ''BIOS bug: boot cpu not detected!'') (\<lambda>_. Inr s))))
      (acpi_parse_madt_lapic_entries N tables ?s)"
    using t assms(2,4) by (simp add: apic_init_bsp_def acpi_table_parse_def Let_def)
  ultimately show ?thesis
    using assms(5) by (auto simp: new_ids_set panic_if_def BUG_ON_def cpu_slots_def acpi_parse_madt_def)
qed

text \<open>A machine whose tables are those of \<open>acpi_memory\<close> and whose local APIC is enabled, without x2APIC mode.\<close>

definition sample_apic :: apic_state where
  "sample_apic = \<lparr>hardware = zero_machine\<lparr>msrs := (\<lambda>_. 0)(MSR_IA32_APICBASE := 0xfee00900), memory := acpi_memory\<rparr>,
     apic = XAPIC, acpi_lapic_addr = 0xfee00000, nr_logical_cpuids = 1, cpuid_to_apicid = [BAD_APICID],
     boot_cpu_physical_apicid = BAD_APICID\<rparr>"

lemma sample_area: "acpi_area acpi_memory"
  by (simp add: acpi_area_def)

lemma sample_madt:
  assumes "acpi_area m"
  shows "madt_lists m 0x6000 [0x602c] [0]"
proof -
  note byte = acpi_area_byte[OF assms]
  have "header_length m 0x6000 = 52" by (simp add: header_length_def read32_def byte acpi_eval)
  then show ?thesis
    by (simp add: madt_lists_def Let_def MAX_LOCAL_APIC_def madt_entry_ok_def BAD_MADT_ENTRY_def madt_cpu_def map_filter_simps
        BAD_APICID_def read32_def byte acpi_eval)
qed

lemma sample_madt_found: "acpi_area m \<Longrightarrow> acpi_find_table m (null_padded [0x6000]) ACPI_SIG_MADT = 0x6000"
  by (simp add: acpi_find_table_def null_padded_def ACPI_MAX_TABLES_def ACPI_COMPARE_NAME_def ACPI_SIG_MADT_def acpi_area_byte acpi_eval)

lemma sample_apic_id:
  assumes "acpi_area (memory (hardware s))" "read32 (memory (hardware s)) 0xfee00020 = 0"
  shows "read_apic_id xapic (acpi_parse_madt 0x6000 s) = 0"
proof -
  have "read32 (memory (hardware s)) 0x6024 = 0xfee00000" by (simp add: read32_def acpi_area_byte[OF assms(1)] acpi_eval)
  then show ?thesis using assms(2) by (simp add: read_apic_id_def apic_read_def xapic_def xapic_read_def xapic_get_apic_id_def acpi_parse_madt_def)
qed

lemma sample_apic_fields: "acpi_area (memory (hardware sample_apic))" "read32 (memory (hardware sample_apic)) 0xfee00020 = 0" "no_cpus 1 sample_apic"
  by (simp_all add: sample_apic_def sample_area no_cpus_def) (simp add: read32_def acpi_eval)

theorem boot_processors_witness:
  "\<exists>s'. apic_init_bsp 1 (null_padded [0x6000]) xapic sample_apic = Some (Inr s') \<and> cpuid_to_apicid s' = [0] \<and> nr_logical_cpuids s' = 1"
proof -
  note f = sample_apic_fields
  note boot_processors[OF sample_madt[OF f(1)] sample_madt_found[OF f(1)] f(3) sample_apic_id[OF f(1,2), symmetric]]
  then show ?thesis by (auto simp: new_ids_def BAD_APICID_def)
qed


lemma sample_bsp:
  assumes "acpi_area (memory (hardware s))" "read32 (memory (hardware s)) 0xfee00020 = 0" "no_cpus 1 s"
  shows "\<exists>s'. apic_init_bsp 1 (null_padded [0x6000]) xapic s = Some (Inr s')"
proof -
  let ?s = "(acpi_parse_madt 0x6000 s)\<lparr>boot_cpu_physical_apicid := 0\<rparr>"
  have f: "acpi_area (memory (hardware ?s))" "no_cpus 1 ?s" using assms by (simp_all add: acpi_parse_madt_def no_cpus_def)
  note madt_entries_register[OF sample_madt[OF f(1)] sample_madt_found[OF f(1)] f(2), of 0]
  then show ?thesis
    by (simp add: apic_init_bsp_def acpi_table_parse_def sample_madt_found[OF assms(1)] sample_apic_id[OF assms(1,2)] new_ids_def cpu_slots_def panic_if_def BUG_ON_def)
qed


section \<open>Interrupt commands\<close>

lemma icr_round_trip:
  "xapic_icr_read (xapic_icr_write low apicid s) = ucast low OR push_bit 32 (ucast (push_bit 24 apicid :: u32))"
  "x2apic_icr_read (x2apic_icr_write low apicid s) = push_bit 32 (ucast apicid) OR ucast low"
proof -
  have "apart (a + 0x310) 4 (a + 0x300) 4" "apart (a + 0x300) 4 (a + 0x310) 4" for a :: u64 by (simp_all add: apart_def)
  then show "xapic_icr_read (xapic_icr_write low apicid s) = ucast low OR push_bit 32 (ucast (push_bit 24 apicid :: u32))"
    by (simp add: xapic_icr_read_def xapic_icr_write_def xapic_read_def xapic_write_def read32_write32_apart Let_def)
  show "x2apic_icr_read (x2apic_icr_write low apicid s) = push_bit 32 (ucast apicid) OR ucast low"
    by (simp add: x2apic_icr_read_def x2apic_icr_write_def)
qed

lemma wait_icr_idle: "wait_icr_loop icr k n = 0 \<longleftrightarrow> (\<exists>j\<le>n. icr (k + j) AND 0x1000 = 0)"
proof (induction n arbitrary: k)
  case (Suc n)
  have "(\<exists>j\<le>Suc n. P j) \<longleftrightarrow> P 0 \<or> (\<exists>j\<le>n. P (Suc j))" for P by (metis Suc_le_mono le0 not0_implies_Suc)
  note this[of "\<lambda>j. icr (k + j) AND 0x1000 = 0"]
  then show ?case using Suc.IH[of "k + 1"] by (subst wait_icr_loop.simps) (simp add: Let_def)
qed (subst wait_icr_loop.simps, simp add: Let_def)

end
