(* ===== verification/Cpu.thy ===== *)
theory Cpu
  imports C_String Find_Bit
begin

unbundle bit_operations_syntax

text \<open>
  Identifying the processor, kernel/cpu.c: family, model and stepping, the vendor, the capability
  words and the brand string. CPUID is a parameter, a function from leaf and subleaf to the four
  registers; \<open>struct cpuinfo_x86\<close> is a record, its arrays are lists. What is printed is left out.
\<close>

type_synonym cpuid_fn = "u32 \<Rightarrow> u32 \<Rightarrow> u32 \<times> u32 \<times> u32 \<times> u32"

section \<open>Data\<close>

definition X86_VENDOR_INTEL :: u8 where "X86_VENDOR_INTEL = 0"
definition X86_VENDOR_AMD :: u8 where "X86_VENDOR_AMD = 2"
definition X86_VENDOR_UNKNOWN :: u8 where "X86_VENDOR_UNKNOWN = 0xff"
definition NCAPINTS :: nat where "NCAPINTS = 18"
definition NBUGINTS :: nat where "NBUGINTS = 1"

text \<open>\<open>enum cpuid_leafs\<close>: the position of a word in \<open>x86_capability\<close>.\<close>

abbreviation (input) CPUID_1_EDX :: nat where "CPUID_1_EDX \<equiv> 0"
abbreviation (input) CPUID_8000_0001_EDX :: nat where "CPUID_8000_0001_EDX \<equiv> 1"
abbreviation (input) CPUID_1_ECX :: nat where "CPUID_1_ECX \<equiv> 4"
abbreviation (input) CPUID_8000_0001_ECX :: nat where "CPUID_8000_0001_ECX \<equiv> 6"
abbreviation (input) CPUID_7_0_EBX :: nat where "CPUID_7_0_EBX \<equiv> 9"
abbreviation (input) CPUID_D_1_EAX :: nat where "CPUID_D_1_EAX \<equiv> 10"
abbreviation (input) CPUID_F_0_EDX :: nat where "CPUID_F_0_EDX \<equiv> 11"
abbreviation (input) CPUID_F_1_EDX :: nat where "CPUID_F_1_EDX \<equiv> 12"
abbreviation (input) CPUID_8000_0008_EBX :: nat where "CPUID_8000_0008_EBX \<equiv> 13"
abbreviation (input) CPUID_6_EAX :: nat where "CPUID_6_EAX \<equiv> 14"
abbreviation (input) CPUID_8000_000A_EDX :: nat where "CPUID_8000_000A_EDX \<equiv> 15"
abbreviation (input) CPUID_7_ECX :: nat where "CPUID_7_ECX \<equiv> 16"
abbreviation (input) CPUID_8000_0007_EBX :: nat where "CPUID_8000_0007_EBX \<equiv> 17"

record cpuinfo_x86 =
  x86 :: u8
  x86_vendor :: u8
  x86_model_nr :: u8
  x86_mask :: u8
  extended_cpuid_level :: u32
  cpuid_level :: u32
  x86_capability :: "u32 list"
  x86_vendor_id :: "u8 list"
  x86_model_id :: "u8 list"

text \<open>Per-CPU data start out as zero.\<close>

definition cpu_info :: cpuinfo_x86 where
  "cpu_info = \<lparr>x86 = 0, x86_vendor = 0, x86_model_nr = 0, x86_mask = 0, extended_cpuid_level = 0, cpuid_level = 0,
     x86_capability = replicate (NCAPINTS + NBUGINTS) 0, x86_vendor_id = replicate 16 0, x86_model_id = replicate 64 0\<rparr>"

record cpu_dev =
  c_ident :: "u8 list list"
  c_x86_vendor :: u8

definition intel_cpu_dev :: cpu_dev where
  "intel_cpu_dev = \<lparr>c_ident = [[0x47, 0x65, 0x6e, 0x75, 0x69, 0x6e, 0x65, 0x49, 0x6e, 0x74, 0x65, 0x6c]], c_x86_vendor = X86_VENDOR_INTEL\<rparr>"

definition amd_cpu_dev :: cpu_dev where
  "amd_cpu_dev = \<lparr>c_ident = [[0x41, 0x75, 0x74, 0x68, 0x65, 0x6e, 0x74, 0x69, 0x63, 0x41, 0x4d, 0x44]], c_x86_vendor = X86_VENDOR_AMD\<rparr>"

definition cpu_devs :: "cpu_dev list" where "cpu_devs = [intel_cpu_dev, amd_cpu_dev]"

section \<open>Operations\<close>

text \<open>
  \<open>test_bit\<close> reads the 32-bit words of \<open>x86_capability\<close> as 64-bit words; the last, odd one is
  completed by the bytes after the array, of which no feature is tested.
\<close>

fun capability_words :: "u32 list \<Rightarrow> u64 list" where
  "capability_words (a # b # ws) = (ucast a OR push_bit 32 (ucast b)) # capability_words ws"
| "capability_words [a] = [ucast a]"
| "capability_words [] = []"

definition cpu_has :: "cpuinfo_x86 \<Rightarrow> nat \<Rightarrow> bool" where
  "cpu_has c nr = bm_test (capability_words (x86_capability c)) nr"

definition x86_family :: "u32 \<Rightarrow> u32" where
  "x86_family sig =
     (let family = drop_bit 8 sig AND 0xf in if family = 0xf then family + (drop_bit 20 sig AND 0xff) else family)"

definition x86_model :: "u32 \<Rightarrow> u32" where
  "x86_model sig =
     (let fam = x86_family sig; model = drop_bit 4 sig AND 0xf
      in if fam \<ge> 0x6 then model + push_bit 4 (drop_bit 16 sig AND 0xf) else model)"

definition x86_stepping :: "u32 \<Rightarrow> u32" where
  "x86_stepping sig = sig AND 0xf"

text \<open>A 32-bit word stored at a position of a byte array; \<open>cpuid_level\<close> is an \<open>int\<close>, compared as signed.\<close>

definition put_word :: "u8 list \<Rightarrow> nat \<Rightarrow> u32 \<Rightarrow> u8 list" where
  "put_word bs i w = take i bs @ le_bytes 4 w @ drop (i + 4) bs"

definition cpu_detect :: "cpuid_fn \<Rightarrow> cpuinfo_x86 \<Rightarrow> cpuinfo_x86" where
  "cpu_detect cpuid c =
     (let (eax, ebx, ecx, edx) = cpuid 0 0;
          c = c\<lparr>cpuid_level := eax, x86_vendor_id := put_word (put_word (put_word (x86_vendor_id c) 0 ebx) 8 ecx) 4 edx, x86 := 4\<rparr>
      in if sint (cpuid_level c) \<ge> 1
         then let (tfms, _, _, _) = cpuid 1 0
              in c\<lparr>x86 := ucast (x86_family tfms), x86_model_nr := ucast (x86_model tfms), x86_mask := ucast (x86_stepping tfms)\<rparr>
         else c)"

text \<open>\<open>strcmp\<close> of the two strings is zero (compare \<open>string_scans\<close> for the routine itself).\<close>

definition same_string :: "u8 list \<Rightarrow> u8 list \<Rightarrow> bool" where
  "same_string v w \<longleftrightarrow> takeWhile (\<lambda>b. b \<noteq> 0) v = w"

definition get_cpu_vendor :: "cpuinfo_x86 \<Rightarrow> cpuinfo_x86" where
  "get_cpu_vendor c =
     c\<lparr>x86_vendor := (case List.find (\<lambda>dev. list_ex (same_string (x86_vendor_id c)) (c_ident dev)) cpu_devs of
         Some dev \<Rightarrow> c_x86_vendor dev | None \<Rightarrow> X86_VENDOR_UNKNOWN)\<rparr>"

definition cap_upd :: "nat \<Rightarrow> u32 \<Rightarrow> cpuinfo_x86 \<Rightarrow> cpuinfo_x86" where
  "cap_upd leaf w c = c\<lparr>x86_capability := (x86_capability c)[leaf := w]\<rparr>"

definition X86_FEATURE_CQM_LLC :: nat where "X86_FEATURE_CQM_LLC = 11 * 32 + 1"

definition cap_standard :: "cpuid_fn \<Rightarrow> cpuinfo_x86 \<Rightarrow> cpuinfo_x86" where
  "cap_standard cpuid c =
     (let c = (if sint (cpuid_level c) \<ge> 0x1
               then let (eax, ebx, ecx, edx) = cpuid 0x1 0 in cap_upd CPUID_1_EDX edx (cap_upd CPUID_1_ECX ecx c) else c);
          c = (if sint (cpuid_level c) \<ge> 0x6
               then let (eax, ebx, ecx, edx) = cpuid 0x6 0 in cap_upd CPUID_6_EAX eax c else c);
          c = (if sint (cpuid_level c) \<ge> 0x7
               then let (eax, ebx, ecx, edx) = cpuid 0x7 0 in cap_upd CPUID_7_ECX ecx (cap_upd CPUID_7_0_EBX ebx c) else c);
          c = (if sint (cpuid_level c) \<ge> 0xd
               then let (eax, ebx, ecx, edx) = cpuid 0xd 1 in cap_upd CPUID_D_1_EAX eax c else c)
      in if sint (cpuid_level c) \<ge> 0xf
         then let (eax, ebx, ecx, edx) = cpuid 0xf 0; c = cap_upd CPUID_F_0_EDX edx c
              in if cpu_has c X86_FEATURE_CQM_LLC
                 then let (eax, ebx, ecx, edx) = cpuid 0xf 1 in cap_upd CPUID_F_1_EDX edx c
                 else c
         else c)"

definition cap_extended :: "cpuid_fn \<Rightarrow> cpuinfo_x86 \<Rightarrow> cpuinfo_x86" where
  "cap_extended cpuid c =
     (let (eax, _, _, _) = cpuid 0x80000000 0;
          c = c\<lparr>extended_cpuid_level := eax\<rparr>;
          c = (if eax AND 0xffff0000 = 0x80000000 \<and> eax \<ge> 0x80000001
               then let (eax, ebx, ecx, edx) = cpuid 0x80000001 0 in cap_upd CPUID_8000_0001_EDX edx (cap_upd CPUID_8000_0001_ECX ecx c)
               else c);
          c = (if extended_cpuid_level c \<ge> 0x80000007
               then let (eax, ebx, ecx, edx) = cpuid 0x80000007 0 in cap_upd CPUID_8000_0007_EBX ebx c else c);
          c = (if extended_cpuid_level c \<ge> 0x80000008
               then let (eax, ebx, ecx, edx) = cpuid 0x80000008 0 in cap_upd CPUID_8000_0008_EBX ebx c else c)
      in if extended_cpuid_level c \<ge> 0x8000000a
         then let (eax, ebx, ecx, edx) = cpuid 0x8000000a 0 in cap_upd CPUID_8000_000A_EDX edx c else c)"

definition get_cpu_cap :: "cpuid_fn \<Rightarrow> cpuinfo_x86 \<Rightarrow> cpuinfo_x86" where
  "get_cpu_cap cpuid c = cap_extended cpuid (cap_standard cpuid c)"

text \<open>
  The two loops over the brand string. They stop at the NUL at position 48, so that the ends of
  the list, which bound the recursion here, are never reached (see \<open>model_name_trimmed\<close>).
\<close>

function skip_spaces :: "u8 list \<Rightarrow> nat \<Rightarrow> nat" where
  "skip_spaces bs p = (if p < length bs \<and> bs ! p = 0x20 then skip_spaces bs (p + 1) else p)"
  by pat_completeness auto
termination by (relation "measure (\<lambda>(bs, p). length bs - p)") auto

function copy_down :: "u8 list \<Rightarrow> nat \<Rightarrow> nat \<Rightarrow> nat \<Rightarrow> u8 list \<times> nat" where
  "copy_down bs p q s =
     (if p < length bs \<and> bs ! p \<noteq> 0
      then copy_down (bs[q := bs ! p]) (p + 1) (q + 1) (if \<not> isspace (bs ! p) then q else s)
      else (bs, s))"
  by pat_completeness auto
termination by (relation "measure (\<lambda>(bs, p, q, s). length bs - p)") auto

declare skip_spaces.simps [simp del] copy_down.simps [simp del]

definition put_regs :: "u8 list \<Rightarrow> nat \<Rightarrow> u32 \<times> u32 \<times> u32 \<times> u32 \<Rightarrow> u8 list" where
  "put_regs bs i r = (case r of (eax, ebx, ecx, edx) \<Rightarrow>
     put_word (put_word (put_word (put_word bs i eax) (i + 4) ebx) (i + 8) ecx) (i + 12) edx)"

definition get_model_name :: "cpuid_fn \<Rightarrow> cpuinfo_x86 \<Rightarrow> cpuinfo_x86" where
  "get_model_name cpuid c =
     (if extended_cpuid_level c < 0x80000004 then c
      else
        let v = put_regs (put_regs (put_regs (x86_model_id c) 0 (cpuid 0x80000002 0)) 16 (cpuid 0x80000003 0)) 32 (cpuid 0x80000004 0);
            v = v[48 := 0];
            p = skip_spaces v 0;
            (v, s) = copy_down v p 0 0
        in c\<lparr>x86_model_id := v[s + 1 := 0]\<rparr>)"

definition cpu_init :: "cpuid_fn \<Rightarrow> cpuinfo_x86 \<Rightarrow> cpuinfo_x86" where
  "cpu_init cpuid c = get_model_name cpuid (get_cpu_cap cpuid (get_cpu_vendor (cpu_detect cpuid c)))"

section \<open>Capability words\<close>

lemma capability_words_bit:
  "n div 32 < length ws \<Longrightarrow> bm_test (capability_words ws) n \<longleftrightarrow> bit (ws ! (n div 32)) (n mod 32)"
proof (induction ws arbitrary: n rule: capability_words.induct)
  case (1 a b ws)
  have pair: "bit (ucast a OR push_bit 32 (ucast b) :: u64) k \<longleftrightarrow> (if k < 32 then bit a k else bit b (k - 32))" if "k < 64" for k
    using that by (auto simp: bit_simps dest: bit_imp_le_length)
  show ?case
  proof (cases "n < 64")
    case True
    then have "n div 64 = 0" "n mod 64 = n" "n < 32 \<Longrightarrow> n div 32 = 0 \<and> n mod 32 = n" "\<not> n < 32 \<Longrightarrow> n div 32 = 1 \<and> n mod 32 = n - 32"
      by (auto simp: div_if mod_if)
    then show ?thesis using True pair[of n] by (cases "n < 32") (simp_all add: bm_test_bit)
  next
    case False
    then obtain k where k: "n = 64 + k" using le_Suc_ex not_less by blast
    have "(k + 2 * 32) div 32 = 2 + k div 32" "(k + 2 * 32) mod 32 = k mod 32" "(k + 1 * 64) div 64 = 1 + k div 64" "(k + 1 * 64) mod 64 = k mod 64"
      by (rule div_mult_self1 mod_mult_self1; simp)+
    then have "(64 + k) div 32 = Suc (Suc (k div 32))" "(64 + k) mod 32 = k mod 32" "(64 + k) div 64 = Suc (k div 64)" "(64 + k) mod 64 = k mod 64"
      by (simp_all add: add.commute)
    then show ?thesis using 1 k by (simp add: bm_test_bit)
  qed
next
  case (2 a)
  then have "n < 32" by (simp add: div_eq_0_iff)
  then show ?case by (simp add: bm_test_bit bit_simps)
qed simp

text \<open>The words that CPUID fills, each guarded by the leaf being there, in the order of \<open>enum cpuid_leafs\<close>.\<close>

definition reg_eax :: "u32 \<times> u32 \<times> u32 \<times> u32 \<Rightarrow> u32" where "reg_eax r = fst r"
definition reg_ebx :: "u32 \<times> u32 \<times> u32 \<times> u32 \<Rightarrow> u32" where "reg_ebx r = fst (snd r)"
definition reg_ecx :: "u32 \<times> u32 \<times> u32 \<times> u32 \<Rightarrow> u32" where "reg_ecx r = fst (snd (snd r))"
definition reg_edx :: "u32 \<times> u32 \<times> u32 \<times> u32 \<Rightarrow> u32" where "reg_edx r = snd (snd (snd r))"

definition word_if :: "bool \<Rightarrow> u32 \<Rightarrow> u32" where "word_if b w = (if b then w else 0)"

definition capability_spec :: "cpuid_fn \<Rightarrow> u32 list" where
  "capability_spec f =
     (let l = sint (reg_eax (f 0 0)); x = reg_eax (f 0x80000000 0);
          amd = (x AND 0xffff0000 = 0x80000000 \<and> 0x80000001 \<le> x)
      in [word_if (1 \<le> l) (reg_edx (f 1 0)), word_if amd (reg_edx (f 0x80000001 0)), 0, 0,
          word_if (1 \<le> l) (reg_ecx (f 1 0)), 0, word_if amd (reg_ecx (f 0x80000001 0)), 0, 0,
          word_if (7 \<le> l) (reg_ebx (f 7 0)), word_if (13 \<le> l) (reg_eax (f 13 1)),
          word_if (15 \<le> l) (reg_edx (f 15 0)), word_if (15 \<le> l \<and> bit (reg_edx (f 15 0)) 1) (reg_edx (f 15 1)),
          word_if (0x80000008 \<le> x) (reg_ebx (f 0x80000008 0)), word_if (6 \<le> l) (reg_eax (f 6 0)),
          word_if (0x8000000a \<le> x) (reg_edx (f 0x8000000a 0)), word_if (7 \<le> l) (reg_ecx (f 7 0)),
          word_if (0x80000007 \<le> x) (reg_ebx (f 0x80000007 0)), 0])"

lemmas reg_simps = reg_eax_def reg_ebx_def reg_ecx_def reg_edx_def word_if_def

lemma cap_upd_simps [simp]:
  "cpuid_level (cap_upd i w c) = cpuid_level c" "extended_cpuid_level (cap_upd i w c) = extended_cpuid_level c"
  "x86_capability (cap_upd i w c) = (x86_capability c)[i := w]" "x86_vendor_id (cap_upd i w c) = x86_vendor_id c"
  "x86_model_id (cap_upd i w c) = x86_model_id c" "x86_vendor (cap_upd i w c) = x86_vendor c" "x86 (cap_upd i w c) = x86 c"
  by (simp_all add: cap_upd_def)

lemma cqm_llc: "length (x86_capability c) = 19 \<Longrightarrow> cpu_has c X86_FEATURE_CQM_LLC \<longleftrightarrow> bit (x86_capability c ! 11) 1"
  using capability_words_bit[of X86_FEATURE_CQM_LLC "x86_capability c"] by (simp add: cpu_has_def X86_FEATURE_CQM_LLC_def)

lemma model_name_keeps [simp]: "x86_capability (get_model_name f c) = x86_capability c"
  by (simp add: get_model_name_def Let_def split: prod.split)

lemma cap_standard_words:
  assumes "x86_capability c = replicate 19 0" "cpuid_level c = reg_eax (f 0 0)"
  shows "x86_capability (cap_standard f c) = (capability_spec f)[1 := 0, 6 := 0, 13 := 0, 15 := 0, 17 := 0]"
    and "extended_cpuid_level (cap_standard f c) = extended_cpuid_level c"
proof -
  have r: "replicate 19 (0 :: u32) = [0,0,0,0,0,0,0,0,0,0,0,0,0,0,0,0,0,0,0]" by (simp add: numeral_eq_Suc)
  show "x86_capability (cap_standard f c) = (capability_spec f)[1 := 0, 6 := 0, 13 := 0, 15 := 0, 17 := 0]"
    using assms unfolding r
    by (auto simp: cap_standard_def capability_spec_def cqm_llc reg_simps Let_def split: prod.splits)
  show "extended_cpuid_level (cap_standard f c) = extended_cpuid_level c"
    by (auto simp: cap_standard_def Let_def split: prod.splits)
qed

lemma cap_extended_words:
  assumes "x86_capability c = (capability_spec f)[1 := 0, 6 := 0, 13 := 0, 15 := 0, 17 := 0]"
  shows "x86_capability (cap_extended f c) = capability_spec f"
    and "extended_cpuid_level (cap_extended f c) = reg_eax (f 0x80000000 0)"
  using assms by (simp_all add: cap_extended_def capability_spec_def reg_simps Let_def case_prod_unfold)

lemma detect_words:
  "cpuid_level (cpu_detect f c) = reg_eax (f 0 0)" "x86_capability (cpu_detect f c) = x86_capability c"
  "x86_model_id (cpu_detect f c) = x86_model_id c"
  by (auto simp: cpu_detect_def reg_simps Let_def split: prod.splits)

lemma vendor_keeps [simp]:
  "cpuid_level (get_cpu_vendor c) = cpuid_level c" "x86_capability (get_cpu_vendor c) = x86_capability c"
  "x86_model_id (get_cpu_vendor c) = x86_model_id c"
  by (simp_all add: get_cpu_vendor_def)

lemma cap_model_id: "x86_model_id (get_cpu_cap f c) = x86_model_id c"
  by (simp add: get_cpu_cap_def cap_extended_def cap_standard_def Let_def case_prod_unfold)

lemma init_capabilities: "x86_capability (cpu_init f cpu_info) = capability_spec f"
  by (simp add: cpu_init_def get_cpu_cap_def cap_extended_words cap_standard_words detect_words cpu_info_def NCAPINTS_def NBUGINTS_def)

lemma init_extended_level:
  "extended_cpuid_level (get_cpu_cap f (get_cpu_vendor (cpu_detect f cpu_info))) = reg_eax (f 0x80000000 0)"
  by (simp add: get_cpu_cap_def cap_extended_words cap_standard_words detect_words cpu_info_def NCAPINTS_def NBUGINTS_def)

section \<open>The brand string\<close>

definition strip_end :: "u8 list \<Rightarrow> u8 list" where
  "strip_end d = rev (dropWhile isspace (rev d))"

definition leaf_bytes :: "u32 \<times> u32 \<times> u32 \<times> u32 \<Rightarrow> u8 list" where
  "leaf_bytes r = (case r of (a, b, c, d) \<Rightarrow> concat (map (le_bytes 4) [a, b, c, d]))"

definition brand_block :: "cpuid_fn \<Rightarrow> u8 list" where
  "brand_block f = leaf_bytes (f 0x80000002 0) @ leaf_bytes (f 0x80000003 0) @ leaf_bytes (f 0x80000004 0)"

lemma length_leaf_bytes [simp]: "length (leaf_bytes r) = 16"
  by (simp add: leaf_bytes_def split: prod.split)

lemma length_brand_block [simp]: "length (brand_block f) = 48"
  by (simp add: brand_block_def)

definition brand :: "cpuid_fn \<Rightarrow> u8 list" where
  "brand f = takeWhile (\<lambda>b. b \<noteq> 0) (brand_block f)"

definition text_of :: "u8 list \<Rightarrow> u8 list" where
  "text_of bs = takeWhile (\<lambda>b. b \<noteq> 0) bs"

lemma strip_end_Cons: "strip_end (x # d) = (if strip_end d \<noteq> [] then x # strip_end d else if isspace x then [] else [x])"
proof -
  have "strip_end d = [] \<longleftrightarrow> (\<forall>y\<in>set d. isspace y)" by (simp add: strip_end_def dropWhile_eq_Nil_conv)
  then show ?thesis using dropWhile_append2[of "rev d" isspace "[x]"] by (auto simp: strip_end_def dropWhile_append1)
qed

lemma strip_end_take: "\<exists>n\<le>length d. strip_end d = take n d"
proof -
  have "rev d = takeWhile isspace (rev d) @ dropWhile isspace (rev d)" by simp
  then have "d = strip_end d @ rev (takeWhile isspace (rev d))" unfolding strip_end_def by (metis rev_append rev_rev_ident)
  then show ?thesis by (metis append_eq_conv_conj length_append le_add1)
qed

lemma skip_spaces_eq: "skip_spaces bs p = p + length (takeWhile (\<lambda>b. b = 0x20) (drop p bs))"
proof (induction bs p rule: skip_spaces.induct)
  case (1 bs p)
  show ?case
  proof (cases "p < length bs")
    case True
    then have "drop p bs = bs ! p # drop (Suc p) bs" by (simp add: Cons_nth_drop_Suc)
    then show ?thesis using 1 True by (subst skip_spaces.simps) simp
  qed (simp add: skip_spaces.simps)
qed

lemma copy_down_eq:
  assumes "q \<le> p" "p \<le> length bs" "d = takeWhile (\<lambda>b. b \<noteq> 0) (drop p bs)"
  shows "copy_down bs p q s = (take q bs @ d @ drop (q + length d) bs, if strip_end d \<noteq> [] then q + length (strip_end d) - 1 else s)"
  using assms
proof (induction d arbitrary: bs p q s)
  case Nil
  have "\<not> (p < length bs \<and> bs ! p \<noteq> 0)"
  proof
    assume p: "p < length bs \<and> bs ! p \<noteq> 0"
    then have "drop p bs = bs ! p # drop (Suc p) bs" by (simp add: Cons_nth_drop_Suc)
    then show False using p Nil.prems(3) by simp
  qed
  then have "copy_down bs p q s = (bs, s)" unfolding copy_down.simps[of bs] by (rule if_not_P)
  then show ?case by (simp add: strip_end_def)
next
  case (Cons x d)
  have p: "p < length bs" using Cons.prems by (cases "p < length bs") auto
  then have x: "bs ! p = x" "x \<noteq> 0" "d = takeWhile (\<lambda>b. b \<noteq> 0) (drop (Suc p) bs)"
    using Cons.prems(3) by (auto simp: Cons_nth_drop_Suc[symmetric] split: if_splits)
  let ?b = "bs[q := x]"
  have "copy_down ?b (Suc p) (Suc q) s' =
      (take (Suc q) ?b @ d @ drop (Suc q + length d) ?b, if strip_end d \<noteq> [] then Suc q + length (strip_end d) - 1 else s')" for s'
    using Cons.prems p x by (intro Cons.IH) simp_all
  moreover have "take (Suc q) ?b = take q bs @ [x]" using Cons.prems p by (simp add: take_Suc_conv_app_nth take_update_cancel)
  ultimately show ?case using p x by (subst copy_down.simps) (simp add: strip_end_Cons)
qed

lemma dropWhile_takeWhile: "takeWhile (\<lambda>b. b \<noteq> 0) (dropWhile (\<lambda>b. b = 0x20) bs) = dropWhile (\<lambda>b. b = 0x20) (takeWhile (\<lambda>b. b \<noteq> (0 :: u8)) bs)"
  by (induction bs) auto

lemma le_bytes_4: "le_bytes 4 w = [ucast w, ucast (drop_bit 8 w), ucast (drop_bit 16 w), ucast (drop_bit 24 w)]"
proof -
  have "le_bytes (Suc (Suc (Suc (Suc 0)))) w = [ucast w, ucast (drop_bit 8 w), ucast (drop_bit 16 w), ucast (drop_bit 24 w)]"
    by simp
  then show ?thesis by (simp add: numeral_eq_Suc)
qed

lemma put_word_append: "put_word (xs @ ys) (length xs) w = xs @ le_bytes 4 w @ drop 4 ys"
  by (simp add: put_word_def)

lemma put_regs_append:
  assumes "n = length xs"
  shows "put_regs (xs @ ys) n r = xs @ leaf_bytes r @ drop 16 ys"
proof -
  obtain a b c d where r: "r = (a, b, c, d)" by (cases r) auto
  have P: "put_word (zs @ us) k w = zs @ le_bytes 4 w @ drop 4 us" if "k = length zs" for zs us k w
    using that put_word_append by simp
  have "put_regs (xs @ ys) n r =
      put_word (put_word (put_word (xs @ le_bytes 4 a @ drop 4 ys) (n + 4) b) (n + 8) c) (n + 12) d"
    using P[OF assms] by (simp add: put_regs_def r del: le_bytes.simps)
  also have "\<dots> = (xs @ le_bytes 4 a @ le_bytes 4 b @ le_bytes 4 c) @ le_bytes 4 d @ drop 16 ys"
    using P[of "n + 4" "xs @ le_bytes 4 a"] P[of "n + 8" "xs @ le_bytes 4 a @ le_bytes 4 b"] P[of "n + 12" "xs @ le_bytes 4 a @ le_bytes 4 b @ le_bytes 4 c"] assms
    by (simp del: le_bytes.simps)
  finally show ?thesis by (simp add: r leaf_bytes_def del: le_bytes.simps)
qed

lemma brand_bytes:
  assumes "length v = 64"
  shows "(put_regs (put_regs (put_regs v 0 (f 0x80000002 0)) 16 (f 0x80000003 0)) 32 (f 0x80000004 0))[48 := 0] =
    brand_block f @ 0 # drop 49 v"
proof -
  let ?B = "\<lambda>leaf. leaf_bytes (f leaf 0)"
  have "put_regs v 0 (f 0x80000002 0) = ?B 0x80000002 @ drop 16 v" using put_regs_append[of 0 "[]" v] by simp
  then have "put_regs (put_regs (put_regs v 0 (f 0x80000002 0)) 16 (f 0x80000003 0)) 32 (f 0x80000004 0) =
      brand_block f @ drop 48 v"
    using put_regs_append[of 16 "?B 0x80000002"] put_regs_append[of 32 "?B 0x80000002 @ ?B 0x80000003"] by (simp add: brand_block_def)
  moreover have "drop 48 v = v ! 48 # drop 49 v" using assms(1) Cons_nth_drop_Suc[of 48 v] by simp
  ultimately show ?thesis by (simp add: list_update_append)
qed

text \<open>The string left by the three steps: the brand string without its leading and trailing blanks, or one blank.\<close>

lemma trimmed_string:
  assumes "v = bytes @ 0 # rest" "b = takeWhile (\<lambda>x. x \<noteq> 0) bytes" "d = dropWhile (\<lambda>x. x = 0x20) b"
    and "copy_down v (skip_spaces v 0) 0 0 = (v', k)" "1 < length v"
  shows "text_of (v'[k + 1 := 0]) = (if strip_end d \<noteq> [] then strip_end d else take 1 (if d = [] then b else d))" "length v' = length v"
proof -
  have tw: "takeWhile (\<lambda>x. x \<noteq> 0) v = b" unfolding assms(1,2) by (simp add: takeWhile_tail)
  have d: "d = takeWhile (\<lambda>x. x \<noteq> 0) (drop (skip_spaces v 0) v)"
    using dropWhile_takeWhile[of v] tw assms(3) by (simp add: skip_spaces_eq dropWhile_eq_drop)
  have le: "skip_spaces v 0 \<le> length v" using length_takeWhile_le[of "\<lambda>b. b = 0x20" v] by (simp add: skip_spaces_eq)
  have dlen: "length d \<le> length b" "length b < length v" unfolding assms(1,2,3)
    using length_dropWhile_le[of "\<lambda>x. x = 0x20" "takeWhile (\<lambda>x. x \<noteq> 0) bytes"] length_takeWhile_le[of "\<lambda>x. x \<noteq> 0" bytes] by simp_all
  have c: "v' = d @ drop (length d) v" "k = (if strip_end d \<noteq> [] then length (strip_end d) - 1 else 0)"
    using copy_down_eq[OF _ le d, of 0 0] assms(4) by simp_all
  have nz: "0 \<notin> set d" unfolding d by (auto dest: set_takeWhileD)
  show "length v' = length v" using c(1) dlen by simp
  show "text_of (v'[k + 1 := 0]) = (if strip_end d \<noteq> [] then strip_end d else take 1 (if d = [] then b else d))"
  proof (cases "strip_end d = []")
    case False
    obtain n where n: "n \<le> length d" "strip_end d = take n d" using strip_end_take by blast
    then have k: "k + 1 = n" "n < length v'" using False c dlen by auto
    have "v'[n := 0] = take n d @ 0 # drop (Suc n) v'" using k n c(1) by (simp add: upd_conv_take_nth_drop)
    moreover have "takeWhile (\<lambda>x. x \<noteq> 0) (take n d @ 0 # us) = take n d" for us
      using nz by (subst takeWhile_append2) (auto dest: in_set_takeD)
    ultimately show ?thesis using False k n by (simp add: text_of_def)
  next
    case True
    have "length v' > 1" using c(1) dlen assms(5) by simp
    then obtain x y us where v': "v' = x # y # us" by (cases v'; cases "tl v'") auto
    have k: "k = 0" using c(2) True by simp
    have "text_of (v'[k + 1 := 0]) = (if x = 0 then [] else [x])" by (simp add: v' k text_of_def)
    also have "\<dots> = take 1 (if d = [] then b else d)"
    proof (cases d)
      case Nil
      then have "v = x # y # us" using c(1) v' by simp
      then show ?thesis using tw Nil by auto
    next
      case (Cons z zs)
      then show ?thesis using c(1) v' nz by auto
    qed
    finally show ?thesis using True by simp
  qed
qed

section \<open>Properties\<close>

text \<open>The capability words after \<open>cpu_init\<close> are the registers CPUID returns, each at its place in \<open>enum cpuid_leafs\<close> and zero
  when the processor does not have the leaf, and \<open>cpu_has\<close>, which reads them as 64-bit words, tests
  the bit of the 32-bit word.\<close>

theorem cpu_capabilities:
  "x86_capability (cpu_init cpuid cpu_info) = capability_spec cpuid \<and>
   (nr < 32 * 19 \<longrightarrow> cpu_has (cpu_init cpuid cpu_info) nr = bit (capability_spec cpuid ! (nr div 32)) (nr mod 32))"
proof -
  have "length (capability_spec cpuid) = 19" by (simp add: capability_spec_def Let_def)
  then show ?thesis
    using capability_words_bit[of nr "capability_spec cpuid"] by (auto simp: cpu_has_def init_capabilities div_less_iff_less_mult)
qed

text \<open>A processor with leaf 1 only, which has VMX.\<close>

definition sample_cpuid :: cpuid_fn where
  "sample_cpuid leaf sub = (if leaf = 0 then (1, 0x756e6547, 0x6c65746e, 0x49656e69) else if leaf = 1 then (0x506e3, 0, 0x20, 0x200) else (0, 0, 0, 0))"

theorem cpu_capabilities_witness: "cpu_has (cpu_init sample_cpuid cpu_info) 133 \<and> \<not> cpu_has (cpu_init sample_cpuid cpu_info) 149"
  using cpu_capabilities[of sample_cpuid 133] cpu_capabilities[of sample_cpuid 149]
  by (simp add: capability_spec_def sample_cpuid_def reg_simps bit_numeral_rec Let_def)

text \<open>The model name. When the processor has a brand string, \<open>get_model_name\<close> leaves it, NUL-terminated in its 64 bytes, without
  leading spaces and trailing white space; of one that is all white space the first character
  stays. Without a brand string nothing changes.\<close>

theorem model_name_trimmed:
  assumes "length (x86_model_id c) = 64"
  shows "(extended_cpuid_level c < 0x80000004 \<longrightarrow> get_model_name cpuid c = c) \<and>
    (0x80000004 \<le> extended_cpuid_level c \<longrightarrow>
      (let d = dropWhile (\<lambda>x. x = 0x20) (brand cpuid); name = x86_model_id (get_model_name cpuid c)
       in length name = 64 \<and>
          text_of name = (if strip_end d \<noteq> [] then strip_end d else take 1 (if d = [] then brand cpuid else d))))"
proof (cases "extended_cpuid_level c < 0x80000004")
  case True
  then show ?thesis by (auto simp: get_model_name_def dest: leD)
next
  case False
  define v where "v = (put_regs (put_regs (put_regs (x86_model_id c) 0 (cpuid 0x80000002 0)) 16 (cpuid 0x80000003 0)) 32 (cpuid 0x80000004 0))[48 := 0]"
  have v: "v = brand_block cpuid @ 0 # drop 49 (x86_model_id c)" unfolding v_def by (rule brand_bytes[OF assms])
  have len: "length v = 64" using v assms by simp
  obtain v' k where cd: "copy_down v (skip_spaces v 0) 0 0 = (v', k)" by force
  note T = trimmed_string[OF v brand_def refl cd]
  have "x86_model_id (get_model_name cpuid c) = v'[k + 1 := 0]"
    using False cd by (simp add: get_model_name_def Let_def flip: v_def)
  then show ?thesis using False T len by (simp add: Let_def)
qed

text \<open>A brand string \<open>"  A B "\<close>.\<close>

definition brand_cpuid :: cpuid_fn where
  "brand_cpuid leaf sub = (if leaf = 0x80000002 then (0x20412020, 0x2042, 0, 0) else (0, 0, 0, 0))"

theorem model_name_trimmed_witness:
  "text_of (x86_model_id (get_model_name brand_cpuid (cpu_info\<lparr>extended_cpuid_level := 0x80000004\<rparr>))) = [0x41, 0x20, 0x42]"
proof -
  have "brand brand_cpuid = [0x20, 0x20, 0x41, 0x20, 0x42, 0x20]" 
    by (simp add: brand_def brand_block_def leaf_bytes_def brand_cpuid_def le_bytes_4)
  moreover have "strip_end [0x41, 0x20, 0x42, 0x20] = [0x41, 0x20, 0x42]"
    by (simp add: strip_end_def isspace_def ismask_def ctype_def)
  ultimately show ?thesis
    using model_name_trimmed[of "cpu_info\<lparr>extended_cpuid_level := 0x80000004\<rparr>" brand_cpuid] by (simp add: cpu_info_def Let_def)
qed

section \<open>Identity\<close>

text \<open>The bit field of \<open>n\<close> bits from bit \<open>k\<close> of a signature, as a number.\<close>

definition bits_at :: "u32 \<Rightarrow> nat \<Rightarrow> nat \<Rightarrow> nat" where
  "bits_at sig k n = unat sig div 2 ^ k mod 2 ^ n"

lemma unat_bits_at: "unat (drop_bit k sig AND mask n) = bits_at sig k n"
  by (simp only: unat_and_mask unat_shift_right bits_at_def)

lemma signature_fields:
  "unat (x86_family sig) = (if bits_at sig 8 4 = 15 then 15 + bits_at sig 20 8 else bits_at sig 8 4)"
  "unat (x86_model sig) = (if 6 \<le> bits_at sig 8 4 then 16 * bits_at sig 16 4 else 0) + bits_at sig 4 4"
  "unat (x86_stepping sig) = bits_at sig 0 4"
proof -
  have m: "(0xf :: u32) = mask 4" "(0xff :: u32) = mask 8" by (simp_all add: mask_eq_exp_minus_1)
  have lt: "bits_at sig k n < 2 ^ n" for k n by (simp add: bits_at_def)
  have f: "unat (x86_family sig) = (if bits_at sig 8 4 = 15 then 15 + bits_at sig 20 8 else bits_at sig 8 4)"
  proof -
    have "drop_bit 8 sig AND 0xf = 0xf \<longleftrightarrow> bits_at sig 8 4 = 15"
      using unat_bits_at[of 8 sig 4] by (simp add: m(1)[symmetric] word_unat_eq_iff)
    moreover have "unat (drop_bit 8 sig AND 0xf) = bits_at sig 8 4" "unat (drop_bit 20 sig AND 0xff) = bits_at sig 20 8"
      using unat_bits_at[of 8 sig 4] unat_bits_at[of 20 sig 8] by (simp_all only: m)
    ultimately show ?thesis using lt[of 8 4] lt[of 20 8] by (simp add: x86_family_def Let_def unat_word_ariths)
  qed
  then show "unat (x86_family sig) = (if bits_at sig 8 4 = 15 then 15 + bits_at sig 20 8 else bits_at sig 8 4)" .
  have "0x6 \<le> x86_family sig \<longleftrightarrow> 6 \<le> bits_at sig 8 4" using f by (auto simp: word_le_nat_alt)
  moreover have "unat (drop_bit 4 sig AND 0xf) = bits_at sig 4 4" "unat (drop_bit 16 sig AND 0xf) = bits_at sig 16 4"
    using unat_bits_at[of 4 sig 4] unat_bits_at[of 16 sig 4] by (simp_all only: m)
  moreover have "unat (push_bit 4 w) = 16 * unat w" if "unat w < 16" for w :: u32
    using that by (simp add: push_bit_eq_mult unat_word_ariths)
  moreover define e where "e = drop_bit 16 sig AND 0xf"
  ultimately show "unat (x86_model sig) = (if 6 \<le> bits_at sig 8 4 then 16 * bits_at sig 16 4 else 0) + bits_at sig 4 4"
    using lt[of 4 4] lt[of 16 4] unfolding x86_model_def Let_def e_def[symmetric] by (simp add: unat_word_ariths)
  show "unat (x86_stepping sig) = bits_at sig 0 4" using unat_bits_at[of 0 sig 4] by (simp add: x86_stepping_def m(1)[symmetric])
qed

lemma vendor_string:
  assumes "length bs = 12" "0 \<notin> set w" "length w = 12"
  shows "same_string (bs @ [0, 0, 0, 0]) w \<longleftrightarrow> bs = w"
proof
  assume "same_string (bs @ [0, 0, 0, 0]) w"
  then have "takeWhile (\<lambda>b. b \<noteq> 0) bs = w" by (simp add: same_string_def takeWhile_tail)
  then show "bs = w" using assms by (metis takeWhile_eq_all_conv length_takeWhile_le takeWhile_eq_take take_all le_refl)
next
  assume "bs = w"
  then show "same_string (bs @ [0, 0, 0, 0]) w" using assms(2) by (auto simp: same_string_def takeWhile_tail takeWhile_eq_all_conv)
qed

lemma le_bytes_4_inj: "le_bytes 4 (v :: u32) = le_bytes 4 w \<longleftrightarrow> v = w"
proof -
  have "le_word (le_bytes 4 x) = x" for x :: u32 by (simp add: le_word_bytes del: le_bytes.simps)
  then show ?thesis by metis
qed

lemma init_keeps:
  "x86_vendor (get_model_name f c) = x86_vendor c" "x86 (get_model_name f c) = x86 c"
  "x86_model_nr (get_model_name f c) = x86_model_nr c" "x86_mask (get_model_name f c) = x86_mask c"
  "x86_vendor (get_cpu_cap f c) = x86_vendor c" "x86 (get_cpu_cap f c) = x86 c"
  "x86_model_nr (get_cpu_cap f c) = x86_model_nr c" "x86_mask (get_cpu_cap f c) = x86_mask c"
  "x86 (get_cpu_vendor c) = x86 c" "x86_model_nr (get_cpu_vendor c) = x86_model_nr c" "x86_mask (get_cpu_vendor c) = x86_mask c"
  by (simp_all add: get_model_name_def get_cpu_cap_def cap_extended_def cap_standard_def cap_upd_def get_cpu_vendor_def Let_def case_prod_unfold)

lemma detect_identity:
  fixes f
  defines "r \<equiv> f 0 0"
  shows "x86_vendor_id (cpu_detect f cpu_info) = (le_bytes 4 (reg_ebx r) @ le_bytes 4 (reg_edx r) @ le_bytes 4 (reg_ecx r)) @ [0, 0, 0, 0]"
proof -
  have z: "replicate 16 (0 :: u8) = [0,0,0,0,0,0,0,0,0,0,0,0,0,0,0,0]" by (simp add: numeral_eq_Suc)
  show ?thesis
    by (simp add: r_def cpu_detect_def cpu_info_def put_word_def z le_bytes_4 reg_simps Let_def split: prod.split)
qed

text \<open>Who the processor is. The vendor is Intel or AMD exactly when CPUID spells its name, and unknown otherwise; from level 1
  on, family, model and stepping are those fields of the signature, with the extended family
  added to 15 and the extended model from family 6 on, each kept modulo 256.\<close>

theorem cpu_identity:
  fixes cpuid :: cpuid_fn
  defines "r \<equiv> cpuid 0 0" and "sig \<equiv> reg_eax (cpuid 1 0)" and "c \<equiv> cpu_init cpuid cpu_info"
  shows "x86_vendor c =
      (if (reg_ebx r, reg_edx r, reg_ecx r) = (0x756e6547, 0x49656e69, 0x6c65746e) then X86_VENDOR_INTEL
       else if (reg_ebx r, reg_edx r, reg_ecx r) = (0x68747541, 0x69746e65, 0x444d4163) then X86_VENDOR_AMD
       else X86_VENDOR_UNKNOWN) \<and>
    (if 1 \<le> sint (reg_eax r)
     then unat (x86 c) = (if bits_at sig 8 4 = 15 then 15 + bits_at sig 20 8 else bits_at sig 8 4) mod 256 \<and>
          unat (x86_model_nr c) = (if 6 \<le> bits_at sig 8 4 then 16 * bits_at sig 16 4 else 0) + bits_at sig 4 4 \<and>
          unat (x86_mask c) = bits_at sig 0 4
     else x86 c = 4)"
proof -
  define d where "d = cpu_detect cpuid cpu_info"
  have keep: "x86_vendor c = x86_vendor (get_cpu_vendor d)" "x86 c = x86 d" "x86_model_nr c = x86_model_nr d" "x86_mask c = x86_mask d"
    by (simp_all add: c_def cpu_init_def init_keeps flip: d_def)
  let ?bs = "le_bytes 4 (reg_ebx r) @ le_bytes 4 (reg_edx r) @ le_bytes 4 (reg_ecx r)"
  have v: "x86_vendor_id d = ?bs @ [0, 0, 0, 0]" unfolding d_def r_def by (rule detect_identity)
  have "same_string (x86_vendor_id d) w \<longleftrightarrow> ?bs = w" if "0 \<notin> set w" "length w = 12" for w
    unfolding v using that by (intro vendor_string) simp_all
  note same = this
  have intel: "c_ident intel_cpu_dev = [le_bytes 4 (0x756e6547 :: u32) @ le_bytes 4 (0x49656e69 :: u32) @ le_bytes 4 (0x6c65746e :: u32)]"
    and amd: "c_ident amd_cpu_dev = [le_bytes 4 (0x68747541 :: u32) @ le_bytes 4 (0x69746e65 :: u32) @ le_bytes 4 (0x444d4163 :: u32)]"
    by (simp_all add: intel_cpu_dev_def amd_cpu_dev_def le_bytes_4)
  have nz: "0 \<notin> set (concat (c_ident intel_cpu_dev))" "0 \<notin> set (concat (c_ident amd_cpu_dev))"
    by (simp_all add: intel_cpu_dev_def amd_cpu_dev_def)
  have "list_ex (same_string (x86_vendor_id d)) (c_ident intel_cpu_dev) \<longleftrightarrow>
      (reg_ebx r, reg_edx r, reg_ecx r) = (0x756e6547, 0x49656e69, 0x6c65746e)"
    using same nz(1) unfolding intel by (simp add: le_bytes_4_inj del: le_bytes.simps)
  moreover have "list_ex (same_string (x86_vendor_id d)) (c_ident amd_cpu_dev) \<longleftrightarrow>
      (reg_ebx r, reg_edx r, reg_ecx r) = (0x68747541, 0x69746e65, 0x444d4163)"
    using same nz(2) unfolding amd by (simp add: le_bytes_4_inj del: le_bytes.simps)
  moreover have "c_x86_vendor intel_cpu_dev = X86_VENDOR_INTEL" "c_x86_vendor amd_cpu_dev = X86_VENDOR_AMD"
    by (simp_all add: intel_cpu_dev_def amd_cpu_dev_def)
  ultimately have vendor: "x86_vendor (get_cpu_vendor d) =
      (if (reg_ebx r, reg_edx r, reg_ecx r) = (0x756e6547, 0x49656e69, 0x6c65746e) then X86_VENDOR_INTEL
       else if (reg_ebx r, reg_edx r, reg_ecx r) = (0x68747541, 0x69746e65, 0x444d4163) then X86_VENDOR_AMD
       else X86_VENDOR_UNKNOWN)"
    by (simp add: get_cpu_vendor_def cpu_devs_def)
  have ids: "(if 1 \<le> sint (reg_eax r) then x86 d = ucast (x86_family sig) \<and> x86_model_nr d = ucast (x86_model sig) \<and> x86_mask d = ucast (x86_stepping sig)
      else x86 d = 4)"
    by (simp add: d_def cpu_detect_def r_def sig_def reg_simps Let_def case_prod_unfold)
  have u8: "unat (ucast (w :: u32) :: u8) = unat w mod 256" for w by (simp add: unsigned_ucast_eq take_bit_eq_mod)
  have "bits_at sig k 4 < 16" for k by (simp add: bits_at_def)
  from this[of 4] this[of 16] this[of 0] show ?thesis using ids by (auto simp: keep vendor u8 signature_fields)
qed

end
