(* ===== verification/Number_Format.thy ===== *)
theory Number_Format
  imports C_String
begin

unbundle bit_operations_syntax

text \<open>
  Numbers in lib/vsprintf.c: the decimal conversion that emits two digits at a time through a
  table and divides by multiplying, and \<open>number\<close>, which lays out sign, prefix, padding and digits.

  Output goes through a pointer and an end: a character is stored only while the pointer is
  below the end, and the pointer always advances. \<open>put_char\<close> is that step and \<open>emit\<close> its
  iteration over a text. \<open>number_text\<close> is the text C99 asks for; \<open>number_emits\<close> shows that
  \<open>number\<close> emits it.
\<close>

section \<open>Decimal digits\<close>

text \<open>A buffer that is only appended to is the list of the bytes before the pointer. A store of a
  pair of digits through a \<open>uint16_t *\<close> is little-endian.\<close>

definition decpair :: "u16 list" where
  "decpair = map (\<lambda>x. ((x mod 10) OR push_bit 8 (x div 10)) + 0x3030) (map of_nat [0..<100])"

definition put_pair :: "u8 list \<Rightarrow> u32 \<Rightarrow> u8 list" where
  "put_pair buf r = buf @ le_bytes 2 (decpair ! unat r)"

text \<open>The label \<open>out_r\<close>: two digits are stored, one of them counts when the number has only one.\<close>

definition put_dec_out_r :: "u8 list \<Rightarrow> u32 \<Rightarrow> u8 list" where
  "put_dec_out_r buf r = buf @ take (if r < 10 then 1 else 2) (le_bytes 2 (decpair ! unat r))"

definition mul_shift_32 :: "u32 \<Rightarrow> u32" where
  "mul_shift_32 r = ucast (drop_bit 32 (ucast r * 0x28f5c29 :: u64))"

definition put_dec_trunc8 :: "u8 list \<Rightarrow> u32 \<Rightarrow> u8 list" where
  "put_dec_trunc8 buf r =
     (if r < 100 then put_dec_out_r buf r
      else let q = mul_shift_32 r; buf = put_pair buf (r - 100 * q)
           in if q < 100 then put_dec_out_r buf q
              else let r = mul_shift_32 q; buf = put_pair buf (q - 100 * r)
                   in if r < 100 then put_dec_out_r buf r
                      else let q = drop_bit 19 (r * 0x147b); buf = put_pair buf (r - 100 * q)
                           in put_dec_out_r buf q)"

definition put_dec_full8 :: "u8 list \<Rightarrow> u32 \<Rightarrow> u8 list" where
  "put_dec_full8 buf r =
     (let q = mul_shift_32 r; buf = put_pair buf (r - 100 * q);
          r = mul_shift_32 q; buf = put_pair buf (q - 100 * r);
          q = drop_bit 19 (r * 0x147b); buf = put_pair buf (r - 100 * q)
      in put_pair buf q)"

definition do_div :: "u64 \<Rightarrow> u32 \<Rightarrow> u64 \<times> u32" where
  "do_div n base = (n div ucast base, ucast (n mod ucast base))"

definition put_dec :: "u8 list \<Rightarrow> u64 \<Rightarrow> u8 list" where
  "put_dec buf n =
     (let (buf, n) = (if n \<ge> 100 * 1000 * 1000
                      then let (n, r) = do_div n (100 * 1000 * 1000) in (put_dec_full8 buf r, n) else (buf, n));
          (buf, n) = (if n \<ge> 100 * 1000 * 1000
                      then let (n, r) = do_div n (100 * 1000 * 1000) in (put_dec_full8 buf r, n) else (buf, n))
      in put_dec_trunc8 buf (ucast n))"

section \<open>Format specifications\<close>

definition SIGN :: u8 where "SIGN = 1"
definition LEFT :: u8 where "LEFT = 2"
definition PLUS :: u8 where "PLUS = 4"
definition SPACE :: u8 where "SPACE = 8"
definition ZEROPAD :: u8 where "ZEROPAD = 16"
definition SMALL :: u8 where "SMALL = 32"
definition SPECIAL :: u8 where "SPECIAL = 64"

lemmas flag_defs = SIGN_def LEFT_def PLUS_def SPACE_def ZEROPAD_def SMALL_def SPECIAL_def

datatype format_type =
  FORMAT_TYPE_NONE | FORMAT_TYPE_WIDTH | FORMAT_TYPE_PRECISION | FORMAT_TYPE_CHAR | FORMAT_TYPE_STR |
  FORMAT_TYPE_PTR | FORMAT_TYPE_PERCENT_CHAR | FORMAT_TYPE_INVALID | FORMAT_TYPE_LONG_LONG |
  FORMAT_TYPE_ULONG | FORMAT_TYPE_LONG | FORMAT_TYPE_UBYTE | FORMAT_TYPE_BYTE | FORMAT_TYPE_USHORT |
  FORMAT_TYPE_SHORT | FORMAT_TYPE_UINT | FORMAT_TYPE_INT | FORMAT_TYPE_SIZE_T | FORMAT_TYPE_PTRDIFF

text \<open>The bit fields keep their widths: 24 bits, signed, for the field width and 16, signed, for the
  precision.\<close>

record printf_spec =
  spec_type :: format_type
  field_width :: "24 word"
  flags :: u8
  base :: u8
  precision :: "16 word"

definition flag :: "u8 \<Rightarrow> printf_spec \<Rightarrow> bool" where
  "flag f spec \<longleftrightarrow> flags spec AND f \<noteq> 0"

section \<open>Output\<close>

text \<open>\<open>if (buf < end) *buf = c; ++buf;\<close>\<close>

definition put_char :: "u64 \<Rightarrow> u8 \<Rightarrow> mem \<times> u64 \<Rightarrow> mem \<times> u64" where
  "put_char en c st = (case st of (m, buf) \<Rightarrow> ((if buf < en then m(buf := c) else m), buf + 1))"

text \<open>\<open>while (--field_width >= 0)\<close> and the two loops over the precision and the digits.\<close>

function pad_loop :: "u64 \<Rightarrow> u8 \<Rightarrow> int \<Rightarrow> mem \<times> u64 \<Rightarrow> int \<times> mem \<times> u64" where
  "pad_loop en c fw st =
     (let fw = fw - 1 in if fw \<ge> 0 then pad_loop en c fw (put_char en c st) else (fw, st))"
  by pat_completeness auto
termination by (relation "measure (\<lambda>(en, c, fw, st). nat fw)") auto

function zero_loop :: "u64 \<Rightarrow> int \<Rightarrow> int \<Rightarrow> mem \<times> u64 \<Rightarrow> mem \<times> u64" where
  "zero_loop en i prec st =
     (let prec = prec - 1 in if i \<le> prec then zero_loop en i prec (put_char en 0x30 st) else st)"
  by pat_completeness auto
termination by (relation "measure (\<lambda>(en, i, prec, st). nat (prec - i))") auto

function digits_out :: "u64 \<Rightarrow> u8 list \<Rightarrow> int \<Rightarrow> mem \<times> u64 \<Rightarrow> mem \<times> u64" where
  "digits_out en tmp i st =
     (let i = i - 1 in if i \<ge> 0 then digits_out en tmp i (put_char en (tmp ! nat i) st) else st)"
  by pat_completeness auto
termination by (relation "measure (\<lambda>(en, tmp, i, st). nat i)") auto

declare pad_loop.simps [simp del] zero_loop.simps [simp del] digits_out.simps [simp del]

section \<open>number\<close>

text \<open>The digits in base 8 or 16, least significant first.\<close>

lemma shift_less:
  fixes num :: u64
  assumes "drop_bit (if hex then 4 else 3) num \<noteq> 0"
  shows "unat (drop_bit (if hex then 4 else 3) num) < unat num"
proof -
  have "0 < unat num" using assms by (auto simp: unat_gt_0)
  then show ?thesis by (simp add: unat_shift_right del: unat_gt_0)
qed

function number_loop :: "u8 \<Rightarrow> u8 \<Rightarrow> u64 \<Rightarrow> u8 list \<Rightarrow> u8 list" where
  "number_loop bs locase num tmp =
     (let tmp = tmp @ [hex_asc_upper ! unat (ucast num AND (bs - 1)) OR locase];
          num = drop_bit (if bs = 16 then 4 else 3) num
      in if num \<noteq> 0 then number_loop bs locase num tmp else tmp)"
  by pat_completeness auto
termination by (relation "measure (\<lambda>(bs, locase, num, tmp). unat num)") (auto simp: shift_less[simplified])

declare number_loop.simps [simp del]

definition number_digits :: "u8 \<Rightarrow> u8 \<Rightarrow> u64 \<Rightarrow> u8 list" where
  "number_digits bs locase num =
     (if num < ucast bs then [hex_asc_upper ! unat num OR locase]
      else if bs \<noteq> 10 then number_loop bs locase num []
      else put_dec [] num)"

text \<open>The sign: the character to print (0 for none), the magnitude and the width left.\<close>

definition number_sign :: "printf_spec \<Rightarrow> u64 \<Rightarrow> int \<Rightarrow> u8 \<times> u64 \<times> int" where
  "number_sign spec num fw =
     (if flag SIGN spec
      then if sint num < 0 then (0x2d, - num, fw - 1)
           else if flag PLUS spec then (0x2b, num, fw - 1)
           else if flag SPACE spec then (0x20, num, fw - 1)
           else (0, num, fw)
      else (0, num, fw))"

text \<open>The output, from the leading spaces on.\<close>

definition put_if :: "u64 \<Rightarrow> bool \<Rightarrow> u8 \<Rightarrow> mem \<times> u64 \<Rightarrow> mem \<times> u64" where
  "put_if en b c st = (if b then put_char en c st else st)"

definition pad_if :: "u64 \<Rightarrow> bool \<Rightarrow> u8 \<Rightarrow> int \<times> mem \<times> u64 \<Rightarrow> int \<times> mem \<times> u64" where
  "pad_if en b c fs = (if b then pad_loop en c (fst fs) (snd fs) else fs)"

definition number_layout :: "u64 \<Rightarrow> printf_spec \<Rightarrow> bool \<Rightarrow> bool \<Rightarrow> u8 \<Rightarrow> u8 \<Rightarrow> u8 list \<Rightarrow> int \<Rightarrow> int \<Rightarrow> mem \<times> u64 \<Rightarrow> mem \<times> u64" where
  "number_layout en spec need_pfx is_zero sign locase tmp fw prec st =
     (let i = int (length tmp);
          (fw, st) = pad_if en (flags spec AND (ZEROPAD OR LEFT) = 0) 0x20 (fw, st);
          st = put_if en (sign \<noteq> 0) sign st;
          st = put_if en (need_pfx \<and> (base spec = 16 \<or> \<not> is_zero)) 0x30 st;
          st = put_if en (need_pfx \<and> base spec = 16) (0x58 OR locase) st;
          (fw, st) = pad_if en (\<not> flag LEFT spec) (0x20 + (flags spec AND ZEROPAD)) (fw, st);
          st = zero_loop en i prec st;
          st = digits_out en tmp i st
      in snd (pad_loop en 0x20 fw st))"

definition number :: "mem \<Rightarrow> u64 \<Rightarrow> u64 \<Rightarrow> u64 \<Rightarrow> printf_spec \<Rightarrow> mem \<times> u64" where
  "number m buf en num spec =
     (let need_pfx = flag SPECIAL spec \<and> base spec \<noteq> 10;
          is_zero = (num = 0);
          field_width = sint (field_width spec);
          prec = sint (precision spec);
          locase = flags spec AND SMALL;
          spec = (if flag LEFT spec then spec\<lparr>flags := flags spec AND NOT ZEROPAD\<rparr> else spec);
          (sign, num, field_width) = number_sign spec num field_width;
          field_width =
            (if need_pfx then if base spec = 16 then field_width - 2 else if \<not> is_zero then field_width - 1 else field_width
             else field_width);
          tmp = number_digits (base spec) locase num;
          prec = (if int (length tmp) > prec then int (length tmp) else prec);
          field_width = field_width - prec
      in number_layout en spec need_pfx is_zero sign locase tmp field_width prec (m, buf))"

definition special_hex_number :: "mem \<Rightarrow> u64 \<Rightarrow> u64 \<Rightarrow> u64 \<Rightarrow> int \<Rightarrow> mem \<times> u64" where
  "special_hex_number m buf en num sz =
     number m buf en num \<lparr>spec_type = FORMAT_TYPE_PTR, field_width = of_int (2 + 2 * sz), flags = SPECIAL OR SMALL OR ZEROPAD,
       base = 16, precision = - 1\<rparr>"

section \<open>The text of a number\<close>

fun digits_of :: "nat \<Rightarrow> nat \<Rightarrow> nat list" where
  "digits_of b n = (if n < b \<or> b < 2 then [n] else digits_of b (n div b) @ [n mod b])"

declare digits_of.simps [simp del]

definition digit_chars :: "bool \<Rightarrow> nat list \<Rightarrow> u8 list" where
  "digit_chars small ds = map (\<lambda>d. (if small then hex_asc else hex_asc_upper) ! d) ds"

definition sign_text :: "u64 \<Rightarrow> printf_spec \<Rightarrow> u8 list" where
  "sign_text num spec =
     (if flag SIGN spec \<and> sint num < 0 then [0x2d] else if flag SIGN spec \<and> flag PLUS spec then [0x2b]
      else if flag SIGN spec \<and> flag SPACE spec then [0x20] else [])"

definition prefix_text :: "u64 \<Rightarrow> printf_spec \<Rightarrow> u8 list" where
  "prefix_text num spec =
     (if \<not> flag SPECIAL spec then []
      else if base spec = 16 then [0x30, if flag SMALL spec then 0x78 else 0x58]
      else if base spec = 8 \<and> num \<noteq> 0 then [0x30] else [])"

definition digits_text :: "u64 \<Rightarrow> printf_spec \<Rightarrow> u8 list" where
  "digits_text num spec = digit_chars (flag SMALL spec)
     (digits_of (unat (base spec)) (unat (if flag SIGN spec \<and> sint num < 0 then - num else num)))"

definition number_text :: "u64 \<Rightarrow> printf_spec \<Rightarrow> u8 list" where
  "number_text num spec =
     (let sign = sign_text num spec; pfx = prefix_text num spec; ds = digits_text num spec;
          body = replicate (nat (sint (precision spec)) - length ds) 0x30 @ ds;
          fill = nat (sint (field_width spec)) - length (sign @ pfx @ body)
      in if flag LEFT spec then sign @ pfx @ body @ replicate fill 0x20
         else if flag ZEROPAD spec then sign @ pfx @ replicate fill 0x30 @ body
         else replicate fill 0x20 @ sign @ pfx @ body)"

definition emit :: "u64 \<Rightarrow> u8 list \<Rightarrow> mem \<times> u64 \<Rightarrow> mem \<times> u64" where
  "emit en xs st = fold (put_char en) xs st"

lemma emit_Nil [simp]: "emit en [] st = st"
  by (simp add: emit_def)

lemma emit_Cons: "emit en (x # xs) st = emit en xs (put_char en x st)"
  by (simp add: emit_def)

lemma emit_append: "emit en (xs @ ys) st = emit en ys (emit en xs st)"
  by (simp add: emit_def)

section \<open>The decimal conversion\<close>

text \<open>Dividing by 100 through a multiplication, in the ranges the comments give.\<close>

lemma mul_div_100:
  assumes "r < 100000000"
  shows "r * 42949673 div 4294967296 = r div (100 :: nat)"
proof -
  define q s where "q = r div 100" and "s = r mod 100"
  have "r = 100 * q + s" "s \<le> 99" "q < 1000000" using assms by (simp_all add: q_def s_def)
  then have "4294967296 * q \<le> r * 42949673" "r * 42949673 < 4294967296 * Suc q" by simp_all
  then show ?thesis unfolding q_def[symmetric] by (rule div_nat_eqI)
qed

lemma mul_div_100_small:
  assumes "r < 10000"
  shows "r * 5243 div 524288 = r div (100 :: nat)"
proof -
  define q s where "q = r div 100" and "s = r mod 100"
  have "r = 100 * q + s" "s \<le> 99" "q < 100" using assms by (simp_all add: q_def s_def)
  then have "524288 * q \<le> r * 5243" "r * 5243 < 524288 * Suc q" by simp_all
  then show ?thesis unfolding q_def[symmetric] by (rule div_nat_eqI)
qed

lemma unat_mul_shift_32: "unat r < 100000000 \<Longrightarrow> unat (mul_shift_32 r) = unat r div 100"
proof -
  assume r: "unat r < 100000000"
  have "unat (ucast r :: u64) = unat r" using unat_lt_pow[of r] by (simp add: unsigned_ucast_eq take_bit_nat_eq_self)
  then have "unat (ucast r * 0x28f5c29 :: u64) = unat r * 42949673" using r by (simp add: unat_word_ariths)
  then have "unat (drop_bit 32 (ucast r * 0x28f5c29 :: u64)) = unat r div 100"
    using mul_div_100[OF r] by (simp add: unat_shift_right)
  moreover have "unat r div 100 < 2 ^ 32" using r by simp
  ultimately show ?thesis by (simp add: mul_shift_32_def unsigned_ucast_eq take_bit_eq_mod unat_word_ariths take_bit_nat_eq_self)
qed

lemma unat_mul_shift_19: "unat r < 10000 \<Longrightarrow> unat (drop_bit 19 (r * 0x147b) :: u32) = unat r div 100"
  using mul_div_100_small[of "unat r"] by (simp add: unat_shift_right unat_word_ariths)

lemma unat_rest: "unat q = unat r div 100 \<Longrightarrow> unat (r - 100 * q :: u32) = unat r mod 100"
proof -
  assume q: "unat q = unat r div 100"
  have l: "100 * (unat r div 100) \<le> unat r" by simp
  then have "unat (100 * q) = 100 * (unat r div 100)"
    using q unat_lt_pow[of r] by (simp add: unat_word_ariths mod_less[OF le_less_trans[OF l]])
  then show ?thesis using l by (simp add: unat_sub_if' minus_mult_div_eq_mod)
qed

text \<open>The buffer is filled from the least significant digit. \<open>low_digits k n\<close> are the \<open>k\<close> lowest.\<close>

primrec low_digits :: "nat \<Rightarrow> nat \<Rightarrow> nat list" where
  "low_digits 0 n = []"
| "low_digits (Suc k) n = n mod 10 # low_digits k (n div 10)"

abbreviation upper_chars :: "nat list \<Rightarrow> u8 list" where
  "upper_chars ds \<equiv> map (\<lambda>d. hex_asc_upper ! d) ds"

lemma low_digits_add: "low_digits (j + k) n = low_digits j n @ low_digits k (n div 10 ^ j)"
  by (induction j arbitrary: n) (simp_all add: div_mult2_eq)

lemma low_digits_mod: "low_digits k (n mod 10 ^ k) = low_digits k n"
proof (induction k arbitrary: n)
  case (Suc k)
  have "n mod (10 * 10 ^ k) div 10 = n div 10 mod 10 ^ k" by (simp add: mod_mult2_eq)
  moreover have "n mod (10 * 10 ^ k) mod 10 = n mod 10" by (simp add: mod_mod_cancel)
  ultimately show ?case using Suc[of "n div 10"] by simp
qed simp

lemma rev_digits_of_split:
  "10 ^ k \<le> n \<Longrightarrow> rev (digits_of 10 n) = low_digits k n @ rev (digits_of 10 (n div 10 ^ k))"
proof (induction k arbitrary: n)
  case (Suc k)
  then have "10 ^ k \<le> n div 10" by (simp add: less_eq_div_iff_mult_less_eq mult.commute)
  moreover have "10 \<le> n" using Suc.prems le_trans[of 10 "10 * 10 ^ k" n] by simp
  ultimately show ?case using Suc.IH[of "n div 10"] by (subst digits_of.simps) (simp add: div_mult2_eq)
qed simp

lemma decpair_digits: "r < 100 \<Longrightarrow> le_bytes 2 (decpair ! r) = upper_chars [r mod 10, r div 10]"
proof -
  have "\<forall>r\<in>set [0..<100]. le_bytes 2 (decpair ! r) = upper_chars [r mod 10, r div 10]"
    by code_simp
  then show "r < 100 \<Longrightarrow> le_bytes 2 (decpair ! r) = upper_chars [r mod 10, r div 10]" by simp
qed

lemma put_pair_digits: "unat r < 100 \<Longrightarrow> put_pair buf r = buf @ upper_chars (low_digits 2 (unat r))"
  using decpair_digits[of "unat r"] by (simp add: put_pair_def numeral_2_eq_2)

lemma put_dec_out_r_digits: "unat r < 100 \<Longrightarrow> put_dec_out_r buf r = buf @ upper_chars (rev (digits_of 10 (unat r)))"
  by (auto simp: put_dec_out_r_def decpair_digits word_less_nat_alt digits_of.simps)

lemma put_dec_full8_digits:
  assumes "unat r < 100000000"
  shows "put_dec_full8 buf r = buf @ upper_chars (low_digits 8 (unat r))"
proof -
  define q1 where "q1 = mul_shift_32 r"
  define r1 where "r1 = mul_shift_32 q1"
  define q2 where "q2 = drop_bit 19 (r1 * 0x147b)"
  have q1: "unat q1 = unat r div 100" using unat_mul_shift_32 assms by (simp add: q1_def)
  have r1: "unat r1 = unat q1 div 100" using unat_mul_shift_32[of q1] q1 assms by (simp add: r1_def)
  have q2: "unat q2 = unat r1 div 100" using unat_mul_shift_19[of r1] q1 r1 assms by (simp add: q2_def)
  have "unat q2 < 100" using q1 r1 q2 assms by simp
  then have "put_dec_full8 buf r = buf @ upper_chars (low_digits 2 (unat r mod 100) @ low_digits 2 (unat q1 mod 100) @
      low_digits 2 (unat r1 mod 100) @ low_digits 2 (unat q2))"
    using unat_rest[OF q1] unat_rest[OF r1] unat_rest[OF q2]
    by (simp add: put_dec_full8_def Let_def put_pair_digits flip: q1_def r1_def q2_def)
  then show ?thesis
    using low_digits_mod[of 2 "unat r"] low_digits_add[of 2 6 "unat r"] low_digits_mod[of 2 "unat q1"] low_digits_add[of 2 4 "unat q1"]
      low_digits_mod[of 2 "unat r1"] low_digits_add[of 2 2 "unat r1"] q1 r1 q2 by simp
qed

lemma put_dec_trunc8_digits:
  assumes "unat r < 100000000"
  shows "put_dec_trunc8 buf r = buf @ upper_chars (rev (digits_of 10 (unat r)))"
proof -
  define q1 where "q1 = mul_shift_32 r"
  define r1 where "r1 = mul_shift_32 q1"
  define q2 where "q2 = drop_bit 19 (r1 * 0x147b)"
  have q1: "unat q1 = unat r div 100" using unat_mul_shift_32 assms by (simp add: q1_def)
  have r1: "unat r1 = unat q1 div 100" using unat_mul_shift_32[of q1] q1 assms by (simp add: r1_def)
  have q2: "unat q2 = unat r1 div 100" using unat_mul_shift_19[of r1] q1 r1 assms by (simp add: q2_def)
  have lt: "w < (100 :: u32) \<longleftrightarrow> unat w < 100" for w by (simp add: word_less_nat_alt)
  have split: "rev (digits_of 10 n) = low_digits 2 (n mod 100) @ rev (digits_of 10 (n div 100))" if "\<not> n < 100" for n
    using rev_digits_of_split[of 2 n] low_digits_mod[of 2 n] that by simp
  have "unat q2 < 100" using q1 r1 q2 assms by simp
  then show ?thesis
    using unat_rest[OF q1] unat_rest[OF r1] unat_rest[OF q2] split[of "unat r"] split[of "unat q1"] split[of "unat r1"]
    by (simp add: put_dec_trunc8_def Let_def lt put_pair_digits put_dec_out_r_digits flip: q1_def r1_def q2_def q1 r1 q2)
qed

lemma put_dec_digits: "put_dec [] n = upper_chars (rev (digits_of 10 (unat n)))"
proof -
  have d: "unat (n div 100000000 :: u64) = unat n div 100000000" for n by (simp add: unat_div)
  have m: "unat (ucast (n mod 100000000 :: u64) :: u32) = unat n mod 100000000" for n
  proof -
    have "unat (n mod 100000000) < 2 ^ 32" by (simp add: unat_mod less_trans[OF mod_less_divisor])
    then show ?thesis by (simp add: unsigned_ucast_eq take_bit_nat_eq_self unat_mod)
  qed
  have split: "rev (digits_of 10 n) = low_digits 8 (n mod 100000000) @ rev (digits_of 10 (n div 100000000))" if "100000000 \<le> n" for n
    using rev_digits_of_split[of 8 n] low_digits_mod[of 8 n] that by simp
  have full: "put_dec_full8 buf (ucast (n mod 100000000 :: u64)) = buf @ upper_chars (low_digits 8 (unat n mod 100000000))" for buf n
    using put_dec_full8_digits[of "ucast (n mod 100000000)" buf] by (simp add: m)
  have trunc: "put_dec_trunc8 buf (ucast n) = buf @ upper_chars (rev (digits_of 10 (unat n)))" if "unat n < 100000000" for buf and n :: u64
    using put_dec_trunc8_digits[of "ucast n" buf] that by (simp add: unsigned_ucast_eq take_bit_nat_eq_self)
  have le: "(100000000 :: u64) \<le> n \<longleftrightarrow> 100000000 \<le> unat n" for n by (simp add: word_le_nat_alt)
  have "unat n div 100000000 div 100000000 < 100000000" using unat_lt_64[of n] by simp
  then show ?thesis
    using split[of "unat n"] split[of "unat n div 100000000"]
    by (auto simp: put_dec_def do_div_def Let_def le full trunc d not_le)
qed

section \<open>\<open>number\<close> emits the text of the number\<close>

lemma digits_of_less: "2 \<le> b \<Longrightarrow> d \<in> set (digits_of b n) \<Longrightarrow> d < b"
  by (induction b n rule: digits_of.induct) (subst (asm) (2) digits_of.simps, auto split: if_splits)

lemma length_digits_of: "2 \<le> b \<Longrightarrow> n < b ^ k \<Longrightarrow> 0 < k \<Longrightarrow> length (digits_of b n) \<le> k"
proof (induction k arbitrary: n)
  case (Suc k)
  show ?case
  proof (cases "n < b")
    case False
    then have "n div b < b ^ k" "0 < k" using Suc.prems by (auto simp: less_mult_imp_div_less mult.commute intro: Suc_leI gr0I)
    then show ?thesis using Suc False by (subst digits_of.simps) simp
  qed (simp add: digits_of.simps)
qed simp

lemma case_bit: "d < 16 \<Longrightarrow> hex_asc_upper ! d OR 0x20 = hex_asc ! d"
proof -
  have "\<forall>d\<in>set [0..<16]. hex_asc_upper ! d OR 0x20 = hex_asc ! d" by code_simp
  then show "d < 16 \<Longrightarrow> hex_asc_upper ! d OR 0x20 = hex_asc ! d" by simp
qed

lemma number_loop_digits:
  "bs = 8 \<or> bs = 16 \<Longrightarrow>
   number_loop bs locase num tmp = tmp @ map (\<lambda>d. hex_asc_upper ! d OR locase) (rev (digits_of (unat bs) (unat num)))"
proof (induction bs locase num tmp rule: number_loop.induct)
  case (1 bs locase num tmp)
  let ?n = "drop_bit (if bs = 16 then 4 else 3) num"
  let ?tmp = "tmp @ [hex_asc_upper ! unat (ucast num AND (bs - 1)) OR locase]"
  have m: "(7 :: u8) = mask 3" "(15 :: u8) = mask 4" by (simp_all add: mask_eq_exp_minus_1)
  have c: "unat (ucast num :: u8) = unat num mod 256" by (simp add: unsigned_ucast_eq unsigned_take_bit_eq take_bit_eq_mod unat_mod)
  have d: "unat (ucast num AND (bs - 1)) = unat num mod unat bs"
  proof -
    have "unat (ucast num AND mask 3 :: u8) = unat num mod 8" "unat (ucast num AND mask 4 :: u8) = unat num mod 16"
      unfolding unat_and_mask c by (simp_all add: mod_mod_cancel)
    then show ?thesis using 1(2) by (auto simp flip: m)
  qed
  have n: "unat ?n = unat num div unat bs" using 1(2) by (auto simp: unat_shift_right)
  have z: "?n = 0 \<longleftrightarrow> unat num < unat bs" using n 1(2) by (auto simp: word_unat_eq_iff[of ?n] div_eq_0_iff)
  show ?case
  proof (cases "?n = 0")
    case True
    then show ?thesis using z d by (subst number_loop.simps) (simp add: digits_of.simps)
  next
    case False
    have "number_loop bs locase ?n ?tmp = ?tmp @ map (\<lambda>d. hex_asc_upper ! d OR locase) (rev (digits_of (unat bs) (unat ?n)))"
      using 1 False by simp
    then show ?thesis using z False n d 1(2)
      by (subst number_loop.simps, subst digits_of.simps) (auto simp: Let_def)
  qed
qed

text \<open>The digits, in reverse order; at most 22 of them, so \<open>tmp\<close>, of 24 bytes, holds them and the extra
  byte of the last pair.\<close>

lemma number_digits_text:
  assumes "bs \<in> {8, 10, 16}" "locase = (if small then 0x20 else 0)"
  shows "number_digits bs locase num = rev (digit_chars small (digits_of (unat bs) (unat num)))"
proof -
  have b: "2 \<le> unat bs" "unat bs \<le> 16" using assms(1) by auto
  have "map (\<lambda>d. hex_asc_upper ! d OR locase) ds = digit_chars small ds" if "\<forall>d\<in>set ds. d < 16" for ds
    using that assms(2) by (auto simp: digit_chars_def case_bit)
  moreover have "\<forall>d\<in>set (digits_of (unat bs) n). d < 16" for n using digits_of_less[OF b(1)] b(2) by fastforce
  ultimately have t: "map (\<lambda>d. hex_asc_upper ! d OR locase) (digits_of (unat bs) n) = digit_chars small (digits_of (unat bs) n)" for n
    by blast
  have dec: "digit_chars small ds = upper_chars ds" if "\<forall>d\<in>set ds. d < 10" for ds
  proof -
    have "\<forall>d\<in>set [0..<10]. hex_asc ! d = hex_asc_upper ! d" by code_simp
    then show ?thesis using that by (auto simp: digit_chars_def)
  qed
  consider "num < ucast bs" | "bs \<noteq> 10" "\<not> num < ucast bs" | "bs = 10" "\<not> num < ucast bs" by blast
  then show ?thesis
  proof cases
    case 1
    then have n: "unat num < unat bs" using assms(1) by (auto simp: word_less_nat_alt)
    then show ?thesis using 1 t[of "unat num"] by (simp add: number_digits_def digits_of.simps digit_chars_def)
  next
    case 2
    then show ?thesis using assms(1) number_loop_digits[of bs locase num "[]"] t[of "unat num"]
      by (auto simp: number_digits_def simp flip: rev_map)
  next
    case 3
    then show ?thesis using put_dec_digits[of num] dec[of "digits_of 10 (unat num)"] digits_of_less[of 10 _ "unat num"]
      by (auto simp: number_digits_def simp flip: rev_map)
  qed
qed

lemma number_digits_bound: "(bs :: u8) \<in> {8, 10, 16} \<Longrightarrow> length (digits_of (unat bs) (unat (num :: u64))) \<le> 22"
  using length_digits_of[of "unat bs" "unat num" 22] unat_lt_64[of num]
  by auto

lemma pad_loop_emit: "pad_loop en c fw st = (min fw 0 - 1, emit en (replicate (nat fw) c) st)"
proof (induction en c fw st rule: pad_loop.induct)
  case (1 en c fw st)
  show ?case
  proof (cases "1 \<le> fw")
    case True
    then have "nat fw = Suc (nat (fw - 1))" by simp
    then show ?thesis using True 1 by (subst pad_loop.simps) (simp add: emit_Cons)
  qed (subst pad_loop.simps, simp)
qed

lemma zero_loop_emit: "zero_loop en i prec st = emit en (replicate (nat (prec - i)) 0x30) st"
proof (induction en i prec st rule: zero_loop.induct)
  case (1 en i prec st)
  show ?case
  proof (cases "i \<le> prec - 1")
    case True
    then have "nat (prec - i) = Suc (nat (prec - 1 - i))" by simp
    then show ?thesis using True 1 by (subst zero_loop.simps) (simp add: emit_Cons)
  qed (subst zero_loop.simps, simp)
qed

lemma digits_out_emit: "nat i \<le> length tmp \<Longrightarrow> digits_out en tmp i st = emit en (rev (take (nat i) tmp)) st"
proof (induction en tmp i st rule: digits_out.induct)
  case (1 en tmp i st)
  show ?case
  proof (cases "1 \<le> i")
    case True
    then have "nat i = Suc (nat (i - 1))" by simp
    then show ?thesis using True 1 by (subst digits_out.simps) (simp add: Let_def emit_Cons take_Suc_conv_app_nth)
  qed (subst digits_out.simps, simp)
qed

lemma flag_bits:
  "flag SIGN spec \<longleftrightarrow> bit (flags spec) 0" "flag LEFT spec \<longleftrightarrow> bit (flags spec) 1" "flag PLUS spec \<longleftrightarrow> bit (flags spec) 2"
  "flag SPACE spec \<longleftrightarrow> bit (flags spec) 3" "flag ZEROPAD spec \<longleftrightarrow> bit (flags spec) 4" "flag SMALL spec \<longleftrightarrow> bit (flags spec) 5"
  "flag SPECIAL spec \<longleftrightarrow> bit (flags spec) 6"
  using and_exp_eq_0_iff_not_bit[of "flags spec" 0] and_exp_eq_0_iff_not_bit[of "flags spec" 1] and_exp_eq_0_iff_not_bit[of "flags spec" 2]
    and_exp_eq_0_iff_not_bit[of "flags spec" 3] and_exp_eq_0_iff_not_bit[of "flags spec" 4] and_exp_eq_0_iff_not_bit[of "flags spec" 5]
    and_exp_eq_0_iff_not_bit[of "flags spec" 6]
  by (simp_all add: flag_def flag_defs)

lemma and_single_bit: "(x :: u8) AND push_bit k 1 = (if bit x k then push_bit k 1 else 0)"
  by (rule bit_word_eqI) (auto simp: bit_simps)

lemma flag_values:
  "flags spec AND SMALL = (if flag SMALL spec then 0x20 else 0)" "flags spec AND ZEROPAD = (if flag ZEROPAD spec then 0x10 else 0)"
  using and_single_bit[of "flags spec" 5] and_single_bit[of "flags spec" 4] by (simp_all only: flag_bits) (simp_all add: flag_defs)

lemma no_padding_flags: "flags spec AND (ZEROPAD OR LEFT) = 0 \<longleftrightarrow> \<not> flag ZEROPAD spec \<and> \<not> flag LEFT spec"
  by (simp add: flag_def bit.conj_disj_distrib or_eq_0_iff)

text \<open>Dropping \<open>ZEROPAD\<close> for left-justified numbers changes no other flag.\<close>

definition drop_zeropad :: "printf_spec \<Rightarrow> printf_spec" where
  "drop_zeropad spec = (if flag LEFT spec then spec\<lparr>flags := flags spec AND NOT ZEROPAD\<rparr> else spec)"

lemma drop_zeropad_flags:
  "flag SIGN (drop_zeropad spec) = flag SIGN spec" "flag LEFT (drop_zeropad spec) = flag LEFT spec"
  "flag PLUS (drop_zeropad spec) = flag PLUS spec" "flag SPACE (drop_zeropad spec) = flag SPACE spec"
  "flag ZEROPAD (drop_zeropad spec) = (flag ZEROPAD spec \<and> \<not> flag LEFT spec)" "base (drop_zeropad spec) = base spec"
  by (simp_all only: flag_bits) (auto simp: drop_zeropad_def flag_bits bit_simps ZEROPAD_def)

lemma put_if_emit: "put_if en b c st = emit en (if b then [c] else []) st"
  by (simp add: put_if_def emit_Cons)

lemma number_sign_text:
  "number_sign spec num fw =
     (if sign_text num spec = [] then 0 else hd (sign_text num spec),
      if flag SIGN spec \<and> sint num < 0 then - num else num, fw - int (length (sign_text num spec)))"
  by (simp add: number_sign_def sign_text_def)

text \<open>The layout for each of the three ways to fill the field.\<close>

lemma number_layout_emit:
  fixes fw :: int
  assumes "sign = (if sg = [] then 0 else hd sg)" "sg = [] \<or> (\<exists>c. sg = [c] \<and> c \<noteq> 0)"
    and "pf = (if need_pfx \<and> (base spec = 16 \<or> \<not> is_zero) then [0x30] else []) @ (if need_pfx \<and> base spec = 16 then [0x58 OR locase] else [])"
    and "int (length tmp) \<le> prec" "flag LEFT spec \<Longrightarrow> \<not> flag ZEROPAD spec"
  defines "body \<equiv> replicate (nat (prec - int (length tmp))) 0x30 @ rev tmp" and "fill \<equiv> nat fw"
  shows "number_layout en spec need_pfx is_zero sign locase tmp fw prec st =
    emit en (if flag LEFT spec then sg @ pf @ body @ replicate fill 0x20
             else if flag ZEROPAD spec then sg @ pf @ replicate fill 0x30 @ body
             else replicate fill 0x20 @ sg @ pf @ body) st"
proof -
  have sign: "put_if en (sign \<noteq> 0) sign st = emit en sg st" for st
    using assms(1,2) by (auto simp: put_if_emit)
  have pfx: "put_if en (need_pfx \<and> base spec = 16) (0x58 OR locase) (put_if en (need_pfx \<and> (base spec = 16 \<or> \<not> is_zero)) 0x30 st) = emit en pf st" for st
    unfolding put_if_emit assms(3) by (simp add: emit_append)
  have body: "digits_out en tmp (int (length tmp)) (zero_loop en (int (length tmp)) prec st) = emit en body st" for st
    by (simp add: zero_loop_emit digits_out_emit body_def emit_append)
  have lay: "number_layout en spec need_pfx is_zero sign locase tmp fw prec st =
      (case pad_if en (flags spec AND (ZEROPAD OR LEFT) = 0) 0x20 (fw, st) of (fw, st) \<Rightarrow>
         case pad_if en (\<not> flag LEFT spec) (0x20 + (flags spec AND ZEROPAD)) (fw, emit en (sg @ pf) st) of (fw, st) \<Rightarrow>
           snd (pad_loop en 0x20 fw (emit en body st)))"
    unfolding number_layout_def Let_def sign pfx body emit_append ..
  consider "flag LEFT spec" "\<not> flag ZEROPAD spec" | "\<not> flag LEFT spec" "flag ZEROPAD spec" | "\<not> flag LEFT spec" "\<not> flag ZEROPAD spec"
    using assms(5) by blast
  then show ?thesis
    by cases (simp_all add: lay pad_if_def pad_loop_emit no_padding_flags flag_values emit_append fill_def)
qed

text \<open>The number printed is the text of the number.\<close>

lemma number_emit:
  assumes "base spec \<in> {8, 10, 16}"
  shows "number m buf en num spec = emit en (number_text num spec) (m, buf)"
proof -
  define zspec where "zspec = (if flag LEFT spec then spec\<lparr>flags := flags spec AND NOT ZEROPAD\<rparr> else spec)"
  have zf: "flag SIGN zspec = flag SIGN spec" "flag LEFT zspec = flag LEFT spec" "flag PLUS zspec = flag PLUS spec" "flag SPACE zspec = flag SPACE spec"
    "flag ZEROPAD zspec = (flag ZEROPAD spec \<and> \<not> flag LEFT spec)" "base zspec = base spec"
    using drop_zeropad_flags[of spec] unfolding drop_zeropad_def[of spec] zspec_def[symmetric] .
  define sg where "sg = sign_text num spec"
  define pf where "pf = prefix_text num spec"
  define ds where "ds = digits_text num spec"
  define prec where "prec = max (int (length ds)) (sint (precision spec))"
  have sgz: "sign_text num zspec = sg" by (simp add: sg_def sign_text_def zf)
  have tmp: "number_digits (base spec) (flags spec AND SMALL) (if flag SIGN spec \<and> sint num < 0 then - num else num) = rev ds"
    using number_digits_text[OF assms flag_values(1)] by (simp add: ds_def digits_text_def)
  have pfl: "int (length pf) = (if flag SPECIAL spec \<and> base spec \<noteq> 10 then if base spec = 16 then 2 else if num \<noteq> 0 then 1 else 0 else 0)"
    using assms by (auto simp: pf_def prefix_text_def)
  have "number m buf en num spec =
      number_layout en zspec (flag SPECIAL spec \<and> base spec \<noteq> 10) (num = 0) (if sg = [] then 0 else hd sg) (flags spec AND SMALL) (rev ds)
        (sint (field_width spec) - int (length sg) - int (length pf) - prec) prec (m, buf)"
    unfolding number_def Let_def zspec_def[symmetric] number_sign_text sgz zf prod.case tmp pfl prec_def
    by (simp add: max_def)
  also have "\<dots> = emit en (number_text num spec) (m, buf)"
  proof -
    have sgc: "sg = [] \<or> (\<exists>c. sg = [c] \<and> c \<noteq> 0)" by (simp add: sg_def sign_text_def)
    have pfe: "pf = (if (flag SPECIAL spec \<and> base spec \<noteq> 10) \<and> (base zspec = 16 \<or> num \<noteq> 0) then [0x30] else []) @
        (if (flag SPECIAL spec \<and> base spec \<noteq> 10) \<and> base zspec = 16 then [0x58 OR (flags spec AND SMALL)] else [])"
      using assms by (auto simp: pf_def prefix_text_def zf flag_values)
    have b: "nat (prec - int (length ds)) = nat (sint (precision spec)) - length ds" by (auto simp: prec_def)
    have f: "nat (sint (field_width spec) - int (length sg) - int (length pf) - prec) =
        nat (sint (field_width spec)) - length (sg @ pf @ replicate (nat (sint (precision spec)) - length ds) 0x30 @ ds)"
      by (auto simp: prec_def max_def)
    have le: "int (length (rev ds)) \<le> prec" by (simp add: prec_def)
    show ?thesis
      by (subst number_layout_emit[OF refl sgc pfe le])
        (simp_all add: zf b f number_text_def Let_def del: length_append flip: sg_def pf_def ds_def)
  qed
  finally show ?thesis .
qed

section \<open>Properties\<close>

text \<open>C39: printing a number. For the three bases \<open>number\<close> emits sign, prefix, zeros and digits filled up to
  the field width on the side the flags ask for, where the digits are those of the magnitude in
  the base, computed in decimal through the table of pairs and the multiplications by a
  fixed-point inverse of 100; they never overflow the 24 bytes of \<open>tmp\<close>.\<close>

theorem number_prints:
  assumes "base spec \<in> {8, 10, 16}"
  shows "number m buf en num spec = emit en (number_text num spec) (m, buf) \<and>
    number_digits (base spec) (flags spec AND SMALL) num = rev (digit_chars (flag SMALL spec) (digits_of (unat (base spec)) (unat num))) \<and>
    Suc (length (number_digits (base spec) (flags spec AND SMALL) num)) \<le> 3 * 8"
  using number_emit[OF assms] number_digits_text[OF assms flag_values(1)] number_digits_bound[OF assms, of num]
  by (simp add: digit_chars_def)

theorem number_prints_witness:
  "number (\<lambda>_. 0) 0x100 0x200 255 \<lparr>spec_type = FORMAT_TYPE_UINT, field_width = 8, flags = SPECIAL OR SMALL OR ZEROPAD, base = 16, precision = - 1\<rparr> =
   emit 0x200 [0x30, 0x78, 0x30, 0x30, 0x30, 0x30, 0x66, 0x66] (\<lambda>_. 0, 0x100)"
proof -
  let ?spec = "\<lparr>spec_type = FORMAT_TYPE_UINT, field_width = 8, flags = SPECIAL OR SMALL OR ZEROPAD, base = 16, precision = - 1\<rparr>"
  have "number_text 255 ?spec = [0x30, 0x78, 0x30, 0x30, 0x30, 0x30, 0x66, 0x66]"
    by code_simp
  then show ?thesis using number_prints[of ?spec "\<lambda>_. 0" "0x100" "0x200" 255] by simp
qed

end
