(* ===== verification/Timing.thy ===== *)
theory Timing
  imports Cpu Number_Format
begin

unbundle bit_operations_syntax

text \<open>
  Port I/O, the time stamp counter (kernel/tsc.c) and the legacy interrupt controller
  (kernel/i8259.c). The devices are a parameter: what the \<open>n\<close>-th access to the outside world
  reads, from a port or from the time stamp counter. The state is the sequence of bytes written
  to ports and the number of accesses so far. \<open>tsc_khz\<close> is passed as a value.
\<close>

section \<open>Ports and the time stamp counter\<close>

record device =
  dev_in :: "nat \<Rightarrow> u16 \<Rightarrow> u8"
  dev_tsc :: "nat \<Rightarrow> u64"

record io =
  io_out :: "(u16 \<times> u8) list"
  io_time :: nat

definition inb :: "device \<Rightarrow> u16 \<Rightarrow> io \<Rightarrow> u8 \<times> io" where
  "inb d port s = (dev_in d (io_time s) port, s\<lparr>io_time := io_time s + 1\<rparr>)"

definition outb :: "u8 \<Rightarrow> u16 \<Rightarrow> io \<Rightarrow> io" where
  "outb val port s = s\<lparr>io_out := io_out s @ [(port, val)], io_time := io_time s + 1\<rparr>"

fun outsb :: "u16 \<Rightarrow> u8 list \<Rightarrow> io \<Rightarrow> io" where
  "outsb port [] s = s"
| "outsb port (b # bs) s = outsb port bs (outb b port s)"

definition get_cycles :: "device \<Rightarrow> io \<Rightarrow> u64 \<times> io" where
  "get_cycles d s = (dev_tsc d (io_time s), s\<lparr>io_time := io_time s + 1\<rparr>)"

section \<open>Calibration\<close>

definition native_calibrate_tsc :: "cpuid_fn \<Rightarrow> cpuinfo_x86 \<Rightarrow> u64" where
  "native_calibrate_tsc cpuid boot_cpu_data =
     (if x86_vendor boot_cpu_data \<noteq> X86_VENDOR_INTEL then 0
      else if sint (cpuid_level boot_cpu_data) < 0x15 then 0
      else
        let (eax_denominator, ebx_numerator, ecx_hz, edx) = cpuid 0x15 0
        in if ebx_numerator = 0 \<or> eax_denominator = 0 then 0
           else
             let crystal_khz = ecx_hz div 1000;
                 model = x86_model_nr boot_cpu_data;
                 crystal_khz =
                   (if crystal_khz = 0 then
                      if model \<in> {0x4E, 0x5E, 0x8E, 0x9E} then 24000
                      else if model \<in> {0x55, 0x5F} then 25000
                      else if model = 0x5C then 19200
                      else crystal_khz
                    else crystal_khz)
             in ucast (crystal_khz * ebx_numerator div eax_denominator))"

definition pit_verify_msb :: "device \<Rightarrow> u8 \<Rightarrow> io \<Rightarrow> bool \<times> io" where
  "pit_verify_msb d val s = (let (_, s) = inb d 0x42 s; (msb, s) = inb d 0x42 s in (msb = val, s))"

text \<open>The loop of \<open>pit_expect_msb\<close>; the first argument counts the iterations left of 50000.\<close>

primrec pit_expect_loop :: "nat \<Rightarrow> device \<Rightarrow> u8 \<Rightarrow> nat \<Rightarrow> u64 \<Rightarrow> u64 \<Rightarrow> io \<Rightarrow> nat \<times> u64 \<times> u64 \<times> io" where
  "pit_expect_loop 0 d val cnt tsc prev_tsc s = (cnt, tsc, prev_tsc, s)"
| "pit_expect_loop (Suc n) d val cnt tsc prev_tsc s =
     (let (same, s) = pit_verify_msb d val s
      in if \<not> same then (cnt, tsc, prev_tsc, s)
         else let prev_tsc = tsc; (tsc, s) = get_cycles d s in pit_expect_loop n d val (cnt + 1) tsc prev_tsc s)"

text \<open>The result, the time stamp and the error term, in this order.\<close>

definition pit_expect_msb :: "device \<Rightarrow> u8 \<Rightarrow> io \<Rightarrow> (bool \<times> u64 \<times> u64) \<times> io" where
  "pit_expect_msb d val s =
     (let (cnt, tsc, prev_tsc, s) = pit_expect_loop 50000 d val 0 0 0 s;
          (t, s) = get_cycles d s
      in ((cnt > 1, tsc, t - prev_tsc), s))"

definition PIT_TICK_RATE :: u64 where "PIT_TICK_RATE = 1193182"
definition MAX_QUICK_PIT_MS :: u64 where "MAX_QUICK_PIT_MS = 500"
definition MAX_QUICK_PIT_ITERATIONS :: u64 where "MAX_QUICK_PIT_ITERATIONS = MAX_QUICK_PIT_MS * PIT_TICK_RATE div 1000 div 256"

text \<open>The loop of \<open>quick_pit_calibrate\<close> from iteration \<open>i\<close> on, \<open>n\<close> iterations left.\<close>

primrec quick_pit_loop :: "nat \<Rightarrow> device \<Rightarrow> u64 \<Rightarrow> u64 \<Rightarrow> nat \<Rightarrow> io \<Rightarrow> u64 \<times> io" where
  "quick_pit_loop 0 d tsc d1 i s = (0, s)"
| "quick_pit_loop (Suc n) d tsc d1 i s =
     (let ((seen, delta, d2), s) = pit_expect_msb d (0xff - of_nat i) s
      in if \<not> seen then (0, s)
         else
           let delta = delta - tsc
           in if i = 1 \<and> d1 + d2 \<ge> drop_bit 11 (delta * MAX_QUICK_PIT_ITERATIONS) then (0, s)
              else if d1 + d2 \<ge> drop_bit 11 delta then quick_pit_loop n d tsc d1 (i + 1) s
              else
                let (stable, s) = pit_verify_msb d (0xfe - of_nat i) s
                in if \<not> stable then (0, s)
                   else (fst (do_div (delta * PIT_TICK_RATE) (of_nat (i * 256 * 1000))), s))"

definition quick_pit_calibrate :: "device \<Rightarrow> io \<Rightarrow> u64 \<times> io" where
  "quick_pit_calibrate d s =
     (let (v, s) = inb d 0x61 s;
          s = outb ((v AND NOT 0x02) OR 0x01) 0x61 s;
          s = outb 0xb0 0x43 s;
          s = outb 0xff 0x42 s;
          s = outb 0xff 0x42 s;
          (_, s) = pit_verify_msb d 0 s;
          ((seen, tsc, d1), s) = pit_expect_msb d 0xff s
      in if seen then quick_pit_loop (unat MAX_QUICK_PIT_ITERATIONS) d tsc d1 1 s else (0, s))"

definition tsc_init :: "device \<Rightarrow> cpuid_fn \<Rightarrow> cpuinfo_x86 \<Rightarrow> io \<Rightarrow> u64 \<times> io" where
  "tsc_init d cpuid boot_cpu_data s =
     (let tsc_khz = native_calibrate_tsc cpuid boot_cpu_data;
          (tsc_khz, s) = (if tsc_khz = 0 then quick_pit_calibrate d s else (tsc_khz, s));
          tsc_khz = (if tsc_khz = 0 then 2000000 else tsc_khz)
      in (tsc_khz, s))"

section \<open>Time and delays\<close>

definition uptime :: "device \<Rightarrow> u64 \<Rightarrow> io \<Rightarrow> u64 \<times> io" where
  "uptime d tsc_khz s =
     (if tsc_khz = 0 then (0, s) else let (cycles, s) = get_cycles d s in (cycles * 1000 div tsc_khz, s))"

partial_function (option) udelay_loop :: "device \<Rightarrow> u64 \<Rightarrow> u64 \<Rightarrow> u64 \<Rightarrow> io \<Rightarrow> io option" where
  "udelay_loop d tsc_khz t0 usecs s =
     (let (t, s') = uptime d tsc_khz s in if t - t0 < usecs then udelay_loop d tsc_khz t0 usecs s' else Some s')"

definition udelay :: "device \<Rightarrow> u64 \<Rightarrow> u64 \<Rightarrow> io \<Rightarrow> io option" where
  "udelay d tsc_khz usecs s =
     (let (t0, s) = uptime d tsc_khz s in if t0 = 0 then Some s else udelay_loop d tsc_khz t0 usecs s)"

section \<open>The legacy interrupt controller\<close>

abbreviation (input) PIC_MASTER_CMD :: u16 where "PIC_MASTER_CMD \<equiv> 0x20"
abbreviation (input) PIC_MASTER_IMR :: u16 where "PIC_MASTER_IMR \<equiv> 0x21"
abbreviation (input) PIC_SLAVE_CMD :: u16 where "PIC_SLAVE_CMD \<equiv> 0xa0"
abbreviation (input) PIC_SLAVE_IMR :: u16 where "PIC_SLAVE_IMR \<equiv> 0xa1"

definition ISA_IRQ_VECTOR :: "u8 \<Rightarrow> u8" where
  "ISA_IRQ_VECTOR irq = ((0x20 + 16) AND NOT 15) + irq"

definition outb_pic :: "device \<Rightarrow> u64 \<Rightarrow> u8 \<Rightarrow> u16 \<Rightarrow> io \<Rightarrow> io option" where
  "outb_pic d tsc_khz val port s = udelay d tsc_khz 2 (outb val port s)"

fun run_opt :: "('s \<Rightarrow> 's option) list \<Rightarrow> 's \<Rightarrow> 's option" where
  "run_opt [] s = Some s"
| "run_opt (f # fs) s = Option.bind (f s) (run_opt fs)"

definition i8259_init :: "device \<Rightarrow> u64 \<Rightarrow> io \<Rightarrow> io option" where
  "i8259_init d tsc_khz = run_opt
     [\<lambda>s. Some (outb 0xff PIC_MASTER_IMR s),
      outb_pic d tsc_khz 0x11 PIC_MASTER_CMD,
      outb_pic d tsc_khz (ISA_IRQ_VECTOR 0) PIC_MASTER_IMR,
      outb_pic d tsc_khz (push_bit 2 1) PIC_MASTER_IMR,
      outb_pic d tsc_khz 0x01 PIC_MASTER_IMR,
      outb_pic d tsc_khz 0x11 PIC_SLAVE_CMD,
      outb_pic d tsc_khz (ISA_IRQ_VECTOR 8) PIC_SLAVE_IMR,
      outb_pic d tsc_khz 2 PIC_SLAVE_IMR,
      outb_pic d tsc_khz 0x01 PIC_SLAVE_IMR,
      udelay d tsc_khz 100,
      \<lambda>s. Some (outb 0xff PIC_MASTER_IMR s),
      \<lambda>s. Some (outb 0xff PIC_SLAVE_IMR s)]"

section \<open>Calibration: what the result rests on\<close>

lemma io_simps [simp]:
  "io_time (snd (inb d p s)) = io_time s + 1" "io_out (snd (inb d p s)) = io_out s"
  "io_time (outb v p s) = io_time s + 1" "io_out (outb v p s) = io_out s @ [(p, v)]"
  "io_time (snd (get_cycles d s)) = io_time s + 1" "io_out (snd (get_cycles d s)) = io_out s"
  "io_time (snd (pit_verify_msb d b s)) = io_time s + 2" "io_out (snd (pit_verify_msb d b s)) = io_out s"
  by (simp_all add: inb_def outb_def get_cycles_def pit_verify_msb_def)

text \<open>
  \<open>readings d lo hi cnt tsc prev\<close>: the last two time stamps taken in the accesses from \<open>lo\<close> to \<open>hi\<close>, of \<open>cnt\<close>
  taken. \<open>window\<close>: a time stamp with the one before and one after, whose distance is the error.
\<close>

definition stamp :: "device \<Rightarrow> nat \<Rightarrow> nat \<Rightarrow> u64 \<Rightarrow> nat \<Rightarrow> u64 \<Rightarrow> bool" where
  "stamp d lo cnt tsc k prev \<longleftrightarrow> lo \<le> k \<and> tsc = dev_tsc d k \<and> (2 \<le> cnt \<longrightarrow> (\<exists>p<k. lo \<le> p \<and> prev = dev_tsc d p))"

definition readings :: "device \<Rightarrow> nat \<Rightarrow> nat \<Rightarrow> nat \<Rightarrow> u64 \<Rightarrow> u64 \<Rightarrow> bool" where
  "readings d lo hi cnt tsc prev \<longleftrightarrow> lo \<le> hi \<and> (1 \<le> cnt \<longrightarrow> (\<exists>k<hi. stamp d lo cnt tsc k prev))"

definition window :: "device \<Rightarrow> nat \<Rightarrow> nat \<Rightarrow> u64 \<Rightarrow> u64 \<Rightarrow> bool" where
  "window d lo hi tsc err \<longleftrightarrow>
     (\<exists>p k e. lo \<le> p \<and> p < k \<and> k < e \<and> e < hi \<and> tsc = dev_tsc d k \<and> err = dev_tsc d e - dev_tsc d p)"

lemma readings_mono: "readings d lo hi cnt tsc prev \<Longrightarrow> hi \<le> hi' \<Longrightarrow> readings d lo hi' cnt tsc prev"
  unfolding readings_def by (meson le_trans order_less_le_trans)

lemma readings_next:
  assumes "readings d lo hi cnt tsc prev"
  shows "readings d lo (hi + 1) (cnt + 1) (dev_tsc d hi) tsc"
proof -
  have "\<exists>p<hi. lo \<le> p \<and> tsc = dev_tsc d p" if "2 \<le> cnt + 1"
    using assms that unfolding readings_def stamp_def by auto
  moreover have "lo \<le> hi" using assms by (simp add: readings_def)
  ultimately have "stamp d lo (cnt + 1) (dev_tsc d hi) hi tsc" by (simp add: stamp_def)
  then show ?thesis using \<open>lo \<le> hi\<close> by (auto simp: readings_def)
qed

lemma window_mono:
  assumes "window d lo hi tsc err" "lo' \<le> lo" "hi \<le> hi'"
  shows "window d lo' hi' tsc err"
proof -
  obtain p k e where "lo \<le> p" "p < k" "k < e" "e < hi" "tsc = dev_tsc d k" "err = dev_tsc d e - dev_tsc d p"
    using assms(1) unfolding window_def by blast
  then show ?thesis unfolding window_def using assms(2,3) by (intro exI[of _ p] exI[of _ k] exI[of _ e]) simp
qed

lemma pit_expect_loop_readings:
  assumes "readings d lo (io_time s) cnt tsc prev" "pit_expect_loop n d b cnt tsc prev s = (cnt', tsc', prev', s')"
  shows "readings d lo (io_time s') cnt' tsc' prev' \<and> io_out s' = io_out s"
  using assms
proof (induction n arbitrary: cnt tsc prev s)
  case (Suc n)
  obtain same s1 where v: "pit_verify_msb d b s = (same, s1)" by force
  then have s1: "io_time s1 = io_time s + 2" "io_out s1 = io_out s" using io_simps(7,8)[of d b s] by simp_all
  show ?case
  proof (cases same)
    case False
    have "readings d lo (io_time s + 2) cnt tsc prev" using Suc.prems(1) by (rule readings_mono) simp
    then show ?thesis using Suc.prems(2) v s1 False by simp
  next
    case True
    have "readings d lo (io_time s1) cnt tsc prev" using Suc.prems(1) by (rule readings_mono) (simp add: s1)
    note readings_next[OF this]
    then show ?thesis
      using Suc.IH[of "s1\<lparr>io_time := io_time s1 + 1\<rparr>" "cnt + 1" "dev_tsc d (io_time s1)" tsc] Suc.prems(2) v s1 True
      by (simp add: get_cycles_def)
  qed
qed simp

lemma pit_expect_window:
  assumes "pit_expect_msb d b s = ((seen, tsc, err), s')"
  shows "io_time s < io_time s'" "seen \<Longrightarrow> window d (io_time s) (io_time s') tsc err"
proof -
  obtain cnt prev s1 where l: "pit_expect_loop 50000 d b 0 0 0 s = (cnt, tsc, prev, s1)"
    and e: "seen = (cnt > 1)" "err = dev_tsc d (io_time s1) - prev" "s' = s1\<lparr>io_time := io_time s1 + 1\<rparr>"
    using assms by (auto simp: pit_expect_msb_def get_cycles_def split: prod.splits)
  have r: "readings d (io_time s) (io_time s1) cnt tsc prev"
    using pit_expect_loop_readings[OF _ l, of "io_time s"] by (simp add: readings_def)
  show "io_time s < io_time s'" using r e(3) by (simp add: readings_def)
  show "window d (io_time s) (io_time s') tsc err" if seen
  proof -
    have "1 \<le> cnt" "2 \<le> cnt" using that e(1) by simp_all
    then obtain k p where "io_time s \<le> k" "k < io_time s1" "tsc = dev_tsc d k" "io_time s \<le> p" "p < k" "prev = dev_tsc d p"
      using r unfolding readings_def stamp_def by auto
    then show ?thesis unfolding window_def e by (intro exI[of _ p] exI[of _ k] exI[of _ "io_time s1"]) simp
  qed
qed

definition khz_of :: "u64 \<Rightarrow> nat \<Rightarrow> u64" where
  "khz_of delta i = delta * PIT_TICK_RATE div of_nat (i * 256000)"

lemma quick_pit_loop_khz:
  assumes "quick_pit_loop n d tsc d1 i s = (khz, s')" "khz \<noteq> 0" "i + n < 10000"
  shows "\<exists>j tsc' d2. i \<le> j \<and> j < i + n \<and> window d (io_time s) (io_time s') tsc' d2 \<and>
    d1 + d2 < drop_bit 11 (tsc' - tsc) \<and> khz = khz_of (tsc' - tsc) j"
  using assms
proof (induction n arbitrary: i s)
  case (Suc n)
  obtain seen t d2 s1 where p: "pit_expect_msb d (0xff - of_nat i) s = ((seen, t, d2), s1)" by (metis prod.collapse)
  note w = pit_expect_window[OF p]
  have seen: seen using Suc.prems(1,2) p by (auto split: if_splits)
  show ?case
  proof (cases "d1 + d2 < drop_bit 11 (t - tsc)")
    case False
    then have "quick_pit_loop n d tsc d1 (i + 1) s1 = (khz, s')"
      using Suc.prems(1,2) p seen by (auto simp: not_less Let_def split: if_splits)
    then obtain j tsc' d2' where "i + 1 \<le> j" "j < i + 1 + n" "window d (io_time s1) (io_time s') tsc' d2'"
      "d1 + d2' < drop_bit 11 (tsc' - tsc)" "khz = khz_of (tsc' - tsc) j"
      using Suc.IH[of "i + 1" s1] Suc.prems(2,3) by auto
    then show ?thesis using window_mono[of d "io_time s1" "io_time s'" tsc' d2' "io_time s" "io_time s'"] w(1)
      by (intro exI[of _ j] exI[of _ tsc'] exI[of _ d2']) auto
  next
    case True
    obtain stable s2 where v: "pit_verify_msb d (0xfe - of_nat i) s1 = (stable, s2)" by force
    then have "io_time s2 = io_time s1 + 2" using io_simps(7)[of d "0xfe - of_nat i" s1] by simp
    moreover have "(of_nat (i * 256 * 1000) :: u32) = of_nat (i * 256000)" by (simp add: mult.assoc)
    moreover have "(ucast (of_nat (i * 256000) :: u32) :: u64) = of_nat (i * 256000)"
    proof -
      have "i * 256000 < 2 ^ 32" using Suc.prems(3) by simp
      then show ?thesis by (simp add: word_unat_eq_iff unsigned_ucast_eq unsigned_of_nat take_bit_nat_eq_self del: of_nat_mult)
    qed
    ultimately have "khz = khz_of (t - tsc) i" "io_time s1 \<le> io_time s'"
      using Suc.prems(1,2) p seen True v by (auto simp: khz_of_def do_div_def Let_def not_le simp del: of_nat_mult split: if_splits)
    then show ?thesis using True window_mono[OF w(2)[OF seen], of "io_time s" "io_time s'"] by (intro exI[of _ i] exI[of _ t] exI[of _ d2]) auto
  qed
qed simp

lemma quick_pit_khz:
  assumes "quick_pit_calibrate d s = (khz, s')" "khz \<noteq> 0"
  shows "\<exists>lo mid tsc1 tsc2 d1 d2 i. io_time s \<le> lo \<and> window d lo mid tsc1 d1 \<and> window d mid (io_time s') tsc2 d2 \<and> 1 \<le> i \<and> i \<le> 2330 \<and>
    d1 + d2 < drop_bit 11 (tsc2 - tsc1) \<and> khz = khz_of (tsc2 - tsc1) i"
proof -
  define s1 where "s1 = snd (pit_verify_msb d 0 (outb 0xff 0x42 (outb 0xff 0x42 (outb 0xb0 0x43
      (outb ((fst (inb d 0x61 s) AND NOT 0x02) OR 0x01) 0x61 (snd (inb d 0x61 s)))))))"
  obtain seen tsc1 d1 s2 where p: "pit_expect_msb d 0xff s1 = ((seen, tsc1, d1), s2)" by (metis prod.collapse)
  have "quick_pit_calibrate d s = (if seen then quick_pit_loop (unat MAX_QUICK_PIT_ITERATIONS) d tsc1 d1 1 s2 else (0, s2))"
    using p[unfolded s1_def] by (simp add: quick_pit_calibrate_def case_prod_unfold Let_def)
  then have seen: seen and l: "quick_pit_loop 2330 d tsc1 d1 1 s2 = (khz, s')"
    using assms by (auto simp: MAX_QUICK_PIT_ITERATIONS_def MAX_QUICK_PIT_MS_def PIT_TICK_RATE_def split: if_splits)
  obtain i tsc2 d2 where "1 \<le> i" "i < 1 + 2330" "window d (io_time s2) (io_time s') tsc2 d2" "d1 + d2 < drop_bit 11 (tsc2 - tsc1)" "khz = khz_of (tsc2 - tsc1) i"
    using quick_pit_loop_khz[OF l assms(2)] by auto
  moreover have "io_time s \<le> io_time s1" by (simp add: s1_def)
  ultimately show ?thesis using pit_expect_window(2)[OF p seen]
    by (intro exI[of _ "io_time s1"] exI[of _ "io_time s2"] exI[of _ tsc1] exI[of _ tsc2] exI[of _ d1] exI[of _ d2] exI[of _ i]) auto
qed

section \<open>Delays\<close>

definition uptime_at :: "device \<Rightarrow> u64 \<Rightarrow> nat \<Rightarrow> u64" where
  "uptime_at d tsc_khz n = dev_tsc d n * 1000 div tsc_khz"

lemma uptime_eq:
  "tsc_khz \<noteq> 0 \<Longrightarrow> uptime d tsc_khz s = (uptime_at d tsc_khz (io_time s), s\<lparr>io_time := io_time s + 1\<rparr>)"
  by (simp add: uptime_def uptime_at_def get_cycles_def)

lemma udelay_loop_returns:
  assumes "tsc_khz \<noteq> 0" "\<forall>j<n. uptime_at d tsc_khz (io_time s + j) - t0 < usecs" "\<not> uptime_at d tsc_khz (io_time s + n) - t0 < usecs"
  shows "udelay_loop d tsc_khz t0 usecs s = Some (s\<lparr>io_time := io_time s + n + 1\<rparr>)"
  using assms(2,3)
proof (induction n arbitrary: s)
  case 0
  then show ?case by (subst udelay_loop.simps) (simp add: uptime_eq[OF assms(1)])
next
  case (Suc n)
  have "uptime_at d tsc_khz (io_time s) - t0 < usecs" using Suc.prems(1) by force
  moreover have "udelay_loop d tsc_khz t0 usecs (s\<lparr>io_time := io_time s + 1\<rparr>) = Some (s\<lparr>io_time := io_time s + Suc n + 1\<rparr>)"
    using Suc.IH[of "s\<lparr>io_time := io_time s + 1\<rparr>"] Suc.prems by force
  ultimately show ?case by (subst udelay_loop.simps) (simp add: uptime_eq[OF assms(1)])
qed

lemma udelay_loop_passed:
  assumes "udelay_loop d tsc_khz t0 usecs s = Some s'" "tsc_khz \<noteq> 0"
  shows "\<exists>n. \<not> uptime_at d tsc_khz (io_time s + n) - t0 < usecs"
proof -
  have "tsc_khz \<noteq> 0 \<longrightarrow> (\<exists>n. \<not> uptime_at d tsc_khz (io_time s + n) - t0 < usecs)"
    if "udelay_loop d tsc_khz t0 usecs s = Some y" for y
  proof (rule udelay_loop.raw_induct[OF _ that], goal_cases)
    case (1 f d k t0 us s y)
    show ?case
    proof
      assume k: "k \<noteq> 0"
      show "\<exists>n. \<not> uptime_at d k (io_time s + n) - t0 < us"
      proof (cases "uptime_at d k (io_time s) - t0 < us")
        case True
        then have "f d k t0 us (s\<lparr>io_time := io_time s + 1\<rparr>) = Some y" using 1(2) by (simp add: uptime_eq[OF k])
        then obtain n where "\<not> uptime_at d k (io_time s + 1 + n) - t0 < us" using 1(1) k by fastforce
        then show ?thesis by (intro exI[of _ "Suc n"]) simp
      next
        case False
        then show ?thesis by (intro exI[of _ 0]) simp
      qed
    qed
  qed
  then show ?thesis using assms by blast
qed

lemma udelay_out: "udelay d tsc_khz usecs s = Some s' \<Longrightarrow> io_out s' = io_out s"
proof -
  have loop: "io_out y = io_out s" if "udelay_loop d tsc_khz t0 usecs s = Some y" for t0 s y
    by (rule udelay_loop.raw_induct[OF _ that]) (auto simp: uptime_def get_cycles_def split: if_splits prod.splits)
  assume "udelay d tsc_khz usecs s = Some s'"
  then show ?thesis by (auto simp: udelay_def uptime_def get_cycles_def split: if_splits dest!: loop)
qed

lemma outb_pic_out: "outb_pic d tsc_khz val port s = Some s' \<Longrightarrow> io_out s' = io_out s @ [(port, val)]"
  by (auto simp: outb_pic_def dest!: udelay_out)

lemma i8259_out:
  "i8259_init d tsc_khz s = Some s' \<Longrightarrow>
   io_out s' = io_out s @ [(0x21, 0xff), (0x20, 0x11), (0x21, 0x30), (0x21, 4), (0x21, 1), (0xa0, 0x11), (0xa1, 0x38), (0xa1, 2), (0xa1, 1), (0x21, 0xff), (0xa1, 0xff)]"
  by (auto simp: i8259_init_def ISA_IRQ_VECTOR_def bind_eq_Some_conv dest!: outb_pic_out udelay_out)

section \<open>Properties\<close>

text \<open>C35: the frequency. \<open>tsc_init\<close> never leaves it zero: it takes what CPUID states, else what the timer measures, else 2 GHz. A
  measured frequency rests on two time stamps taken while the timer counted \<open>i\<close> steps of its high
  byte, at most 2330: it is their distance times the tick rate over \<open>256000 * i\<close>, and the two
  errors, each the distance between the stamps before and after, are together below a
  2048th of the distance.\<close>

theorem tsc_calibrated:
  "fst (tsc_init d cpuid c s) =
     (if native_calibrate_tsc cpuid c \<noteq> 0 then native_calibrate_tsc cpuid c
      else if fst (quick_pit_calibrate d s) \<noteq> 0 then fst (quick_pit_calibrate d s) else 2000000) \<and>
   fst (tsc_init d cpuid c s) \<noteq> 0 \<and>
   (fst (quick_pit_calibrate d s) \<noteq> 0 \<longrightarrow>
     (\<exists>lo mid tsc1 tsc2 d1 d2 i. io_time s \<le> lo \<and> window d lo mid tsc1 d1 \<and>
        window d mid (io_time (snd (quick_pit_calibrate d s))) tsc2 d2 \<and> 1 \<le> i \<and> i \<le> 2330 \<and>
        d1 + d2 < drop_bit 11 (tsc2 - tsc1) \<and> fst (quick_pit_calibrate d s) = khz_of (tsc2 - tsc1) i))"
proof -
  obtain k s1 where q: "quick_pit_calibrate d s = (k, s1)" by force
  have "fst (tsc_init d cpuid c s) =
     (if native_calibrate_tsc cpuid c \<noteq> 0 then native_calibrate_tsc cpuid c else if k \<noteq> 0 then k else 2000000)"
    by (auto simp: tsc_init_def Let_def q)
  then show ?thesis using quick_pit_khz[OF q] q by auto
qed

text \<open>
  A timer that shows each value of its high byte for two readings, on a processor that counts a million
  cycles in between.
\<close>

definition pit_device :: device where
  "pit_device = \<lparr>dev_in = (\<lambda>n p. if n = 8 \<or> n = 11 then 0xff else if n = 17 \<or> n = 20 then 0xfe else if n = 26 then 0xfd else 0),
     dev_tsc = (\<lambda>n. of_nat n + (if n < 16 then 0 else 1000000))\<rparr>"

lemmas loop_numerals [simp] =
  pit_expect_loop.simps(2)[of "pred_numeral v" for v, folded numeral_eq_Suc]
  quick_pit_loop.simps(2)[of "pred_numeral v" for v, folded numeral_eq_Suc]

theorem tsc_calibrated_witness:
  "fst (tsc_init pit_device sample_cpuid cpu_info \<lparr>io_out = [], io_time = 0\<rparr>) = 4660909 \<and>
   (\<exists>tsc1 tsc2 d1 d2 i. d1 + d2 < drop_bit 11 (tsc2 - tsc1) \<and> khz_of (tsc2 - tsc1) i = 4660909)"
proof -
  have n: "native_calibrate_tsc sample_cpuid cpu_info = 0" by (simp add: native_calibrate_tsc_def cpu_info_def)
  have q: "fst (quick_pit_calibrate pit_device \<lparr>io_out = [], io_time = 0\<rparr>) = 4660909"
    by (simp add: quick_pit_calibrate_def pit_verify_msb_def pit_expect_msb_def inb_def outb_def get_cycles_def pit_device_def
        MAX_QUICK_PIT_ITERATIONS_def MAX_QUICK_PIT_MS_def PIT_TICK_RATE_def do_div_def)
  show ?thesis using tsc_calibrated[of pit_device sample_cpuid cpu_info "\<lparr>io_out = [], io_time = 0\<rparr>"] n q by auto
qed


end
