(* ===== verification/Vsprintf.thy ===== *)
theory Vsprintf
  imports Number_Format
begin

unbundle bit_operations_syntax

text \<open>
  Formatted output, lib/vsprintf.c: strings and pointers, the decoder of conversion
  specifications and \<open>vsnprintf\<close> itself.

  Format strings are literals, kept apart from the memory as the list of their bytes; reading
  past them gives the NUL. Arguments are the 64-bit slots of the \<open>va_list\<close>. Text to be printed is
  either in memory, where the output buffer is too, or a literal or local array
  (\<open>text_ptr\<close>).

  The specification is in two steps: \<open>format_items\<close> decodes the format and fetches what the
  conversions refer to, \<open>render\<close> gives the text of each item. \<open>vsnprintf\<close> is shown to write the
  rendered text, cut to the buffer and terminated, and to return its full length.
\<close>

abbreviation (input) ch :: "char \<Rightarrow> u8" where
  "ch c \<equiv> of_char c"

definition peek :: "u8 list \<Rightarrow> u8" where
  "peek s = (case s of [] \<Rightarrow> 0 | c # _ \<Rightarrow> c)"

fun skip_atoi :: "u32 \<Rightarrow> u8 list \<Rightarrow> u32 \<times> u8 list" where
  "skip_atoi i [] = (i, [])"
| "skip_atoi i (c # s) =
     (let i = i * 10 + ucast c - 0x30 in if isdigit (peek s) then skip_atoi i s else (i, s))"

section \<open>Strings\<close>

datatype text_ptr = At u64 | Literal "u8 list"

definition fetch :: "mem \<Rightarrow> text_ptr \<Rightarrow> nat \<Rightarrow> u8" where
  "fetch m s i = (case s of At a \<Rightarrow> m (a + of_nat i) | Literal xs \<Rightarrow> if i < length xs then xs ! i else 0)"

definition move_right :: "mem \<Rightarrow> u64 \<Rightarrow> u64 \<Rightarrow> u32 \<Rightarrow> u32 \<Rightarrow> mem" where
  "move_right m buf en len spaces =
     (if buf \<ge> en then m
      else let sz = en - buf
           in if sz \<le> ucast spaces then memset m buf 0x20 sz
              else let m = (if len \<noteq> 0
                            then let len = (if ucast len > sz - ucast spaces then ucast (sz - ucast spaces) else len)
                                 in memmove m (buf + ucast spaces) buf (ucast len)
                            else m)
                   in memset m buf 0x20 (ucast spaces))"

definition widen_string :: "mem \<Rightarrow> u64 \<Rightarrow> u32 \<Rightarrow> u64 \<Rightarrow> printf_spec \<Rightarrow> mem \<times> u64" where
  "widen_string m buf n en spec =
     (if sint n \<ge> sint (field_width spec) then (m, buf)
      else let spaces = scast (field_width spec) - n
           in if \<not> flag LEFT spec then (move_right m (buf - scast n) en n spaces, buf + ucast spaces)
              else emit en (replicate (unat spaces) 0x20) (m, buf))"

function string_loop :: "u64 \<Rightarrow> text_ptr \<Rightarrow> nat \<Rightarrow> nat \<Rightarrow> mem \<times> u64 \<Rightarrow> nat \<times> mem \<times> u64" where
  "string_loop en s i lim st =
     (if lim = 0 then (i, st)
      else let c = fetch (fst st) s i
           in if c = 0 then (i, st) else string_loop en s (i + 1) (lim - 1) (put_char en c st))"
  by pat_completeness auto
termination by (relation "measure (\<lambda>(en, s, i, lim, st). lim)") auto

declare string_loop.simps [simp del]

definition null_text :: "u8 list" where
  "null_text = map of_char ''(null)''"

definition string :: "mem \<Rightarrow> u64 \<Rightarrow> u64 \<Rightarrow> text_ptr \<Rightarrow> printf_spec \<Rightarrow> mem \<times> u64" where
  "string m buf en s spec =
     (let lim = unat (scast (precision spec) :: u64);
          s = (if s = At 0 then Literal null_text else s);
          (len, m, buf) = string_loop en s 0 lim (m, buf)
      in widen_string m buf (of_nat len) en spec)"

section \<open>Pointers\<close>

text \<open>\<open>__builtin_extract_return_addr\<close> is the identity on x86.\<close>

definition symbol_string :: "mem \<Rightarrow> u64 \<Rightarrow> u64 \<Rightarrow> u64 \<Rightarrow> mem \<times> u64" where
  "symbol_string m buf en ptr = special_hex_number m buf en ptr 8"

fun hex_string_loop :: "u64 \<Rightarrow> u64 \<Rightarrow> u8 \<Rightarrow> nat \<Rightarrow> nat \<Rightarrow> mem \<times> u64 \<Rightarrow> mem \<times> u64" where
  "hex_string_loop en addr sep i 0 st = st"
| "hex_string_loop en addr sep i (Suc n) st =
     (let st = put_char en (hex_asc_hi (fst st (addr + of_nat i))) st;
          st = put_char en (hex_asc_lo (fst st (addr + of_nat i))) st;
          st = (if sep \<noteq> 0 \<and> n \<noteq> 0 then put_char en sep st else st)
      in hex_string_loop en addr sep (i + 1) n st)"

definition hex_separator :: "u8 list \<Rightarrow> u8" where
  "hex_separator fmt =
     (if peek (tl fmt) = ch CHR ''C'' then ch CHR '':''
      else if peek (tl fmt) = ch CHR ''D'' then ch CHR ''-''
      else if peek (tl fmt) = ch CHR ''N'' then 0
      else ch CHR '' '')"

definition hex_string :: "mem \<Rightarrow> u64 \<Rightarrow> u64 \<Rightarrow> u64 \<Rightarrow> printf_spec \<Rightarrow> u8 list \<Rightarrow> mem \<times> u64" where
  "hex_string m buf en addr spec fmt =
     (if field_width spec = 0 then (m, buf)
      else if addr = 0 then string m buf en (At 0) spec
      else let len = (if sint (field_width spec) > 0 then min (nat (sint (field_width spec))) 64 else 1)
           in hex_string_loop en addr (hex_separator fmt) 0 len (m, buf))"

definition mac_text :: "u8 list \<Rightarrow> u8 list \<Rightarrow> u8 list" where
  "mac_text addr fmt =
     (let separator = (if peek (tl fmt) = ch CHR ''F'' then ch CHR ''-'' else ch CHR '':'');
          reversed = (peek (tl fmt) = ch CHR ''R'')
      in concat (map (\<lambda>i. let b = (if reversed then addr ! (5 - i) else addr ! i)
                          in [hex_asc_hi b, hex_asc_lo b] @ (if peek fmt = ch CHR ''M'' \<and> i \<noteq> 5 then [separator] else []))
           [0..<6]))"

definition mac_address_string :: "mem \<Rightarrow> u64 \<Rightarrow> u64 \<Rightarrow> u64 \<Rightarrow> printf_spec \<Rightarrow> u8 list \<Rightarrow> mem \<times> u64" where
  "mac_address_string m buf en addr spec fmt = string m buf en (Literal (mac_text (read_bytes m addr 6) fmt)) spec"

definition pointer_spec :: "printf_spec \<Rightarrow> printf_spec" where
  "pointer_spec spec =
     (let spec = spec\<lparr>base := 16, flags := flags spec OR SMALL\<rparr>
      in if field_width spec = - 1 then spec\<lparr>field_width := 2 * 8, flags := flags spec OR ZEROPAD\<rparr> else spec)"

definition pointer_string :: "mem \<Rightarrow> u64 \<Rightarrow> u64 \<Rightarrow> u64 \<Rightarrow> printf_spec \<Rightarrow> mem \<times> u64" where
  "pointer_string m buf en ptr spec = number m buf en ptr (pointer_spec spec)"

definition pointer :: "u8 list \<Rightarrow> mem \<Rightarrow> u64 \<Rightarrow> u64 \<Rightarrow> u64 \<Rightarrow> printf_spec \<Rightarrow> mem \<times> u64" where
  "pointer fmt m buf en ptr spec =
     (if ptr = 0
      then string m buf en (Literal null_text) (if field_width spec = - 1 then spec\<lparr>field_width := 2 * 8\<rparr> else spec)
      else if peek fmt \<in> {ch CHR ''F'', ch CHR ''f'', ch CHR ''S'', ch CHR ''s'', ch CHR ''B''} then symbol_string m buf en ptr
      else if peek fmt = ch CHR ''h'' then hex_string m buf en ptr spec fmt
      else if peek fmt \<in> {ch CHR ''M'', ch CHR ''m''} then mac_address_string m buf en ptr spec fmt
      else pointer_string m buf en ptr spec)"

section \<open>Decoding a format\<close>

text \<open>The flags, after the percent sign.\<close>

fun decode_flags :: "u8 \<Rightarrow> u8 list \<Rightarrow> u8 \<times> u8 list" where
  "decode_flags fl [] = (fl, [])"
| "decode_flags fl (c # s) =
     (if c = ch CHR ''-'' then decode_flags (fl OR LEFT) s
      else if c = ch CHR ''+'' then decode_flags (fl OR PLUS) s
      else if c = ch CHR '' '' then decode_flags (fl OR SPACE) s
      else if c = ch CHR ''#'' then decode_flags (fl OR SPECIAL) s
      else if c = ch CHR ''0'' then decode_flags (fl OR ZEROPAD) s
      else (fl, c # s))"

text \<open>From the label \<open>qualifier\<close> on. \<open>FORMAT_TYPE_ULONG + (flags & SIGN)\<close> and its like step to the signed
  type, which follows the unsigned one in the enumeration.\<close>

definition decode_qualifier :: "u8 list \<Rightarrow> u8 \<times> u8 list" where
  "decode_qualifier fmt =
     (let q = peek fmt
      in if q = ch CHR ''h'' \<or> fast_tolower q = ch CHR ''l'' \<or> q = ch CHR ''z'' \<or> q = ch CHR ''t''
         then let fmt = tl fmt
              in if q = peek fmt
                 then if q = ch CHR ''l'' then (ch CHR ''L'', tl fmt)
                      else if q = ch CHR ''h'' then (ch CHR ''H'', tl fmt)
                      else (q, fmt)
                 else (q, fmt)
         else (0, fmt))"

definition number_type :: "u8 \<Rightarrow> bool \<Rightarrow> format_type" where
  "number_type q sg =
     (if q = ch CHR ''L'' then FORMAT_TYPE_LONG_LONG
      else if q = ch CHR ''l'' then if sg then FORMAT_TYPE_LONG else FORMAT_TYPE_ULONG
      else if q = ch CHR ''z'' then FORMAT_TYPE_SIZE_T
      else if q = ch CHR ''t'' then FORMAT_TYPE_PTRDIFF
      else if q = ch CHR ''H'' then if sg then FORMAT_TYPE_BYTE else FORMAT_TYPE_UBYTE
      else if q = ch CHR ''h'' then if sg then FORMAT_TYPE_SHORT else FORMAT_TYPE_USHORT
      else if sg then FORMAT_TYPE_INT else FORMAT_TYPE_UINT)"

definition decode_conversion :: "u8 list \<Rightarrow> printf_spec \<Rightarrow> u8 list \<times> printf_spec" where
  "decode_conversion fmt spec =
     (let (q, fmt) = decode_qualifier fmt;
          spec = spec\<lparr>base := 10\<rparr>;
          c = peek fmt;
          num = (\<lambda>spec. (tl fmt, spec\<lparr>spec_type := number_type q (flag SIGN spec)\<rparr>))
      in if c = ch CHR ''c'' then (tl fmt, spec\<lparr>spec_type := FORMAT_TYPE_CHAR\<rparr>)
         else if c = ch CHR ''s'' then (tl fmt, spec\<lparr>spec_type := FORMAT_TYPE_STR\<rparr>)
         else if c = ch CHR ''p'' then (tl fmt, spec\<lparr>spec_type := FORMAT_TYPE_PTR\<rparr>)
         else if c = ch CHR ''%'' then (tl fmt, spec\<lparr>spec_type := FORMAT_TYPE_PERCENT_CHAR\<rparr>)
         else if c = ch CHR ''o'' then num (spec\<lparr>base := 8\<rparr>)
         else if c = ch CHR ''x'' then num (spec\<lparr>flags := flags spec OR SMALL, base := 16\<rparr>)
         else if c = ch CHR ''X'' then num (spec\<lparr>base := 16\<rparr>)
         else if c = ch CHR ''d'' \<or> c = ch CHR ''i'' then num (spec\<lparr>flags := flags spec OR SIGN\<rparr>)
         else if c = ch CHR ''u'' then num spec
         else (fmt, spec\<lparr>spec_type := FORMAT_TYPE_INVALID\<rparr>))"

text \<open>From the label \<open>precision\<close> on.\<close>

definition decode_precision :: "u8 list \<Rightarrow> printf_spec \<Rightarrow> u8 list \<times> printf_spec" where
  "decode_precision fmt spec =
     (let spec = spec\<lparr>precision := - 1\<rparr>
      in if peek fmt = ch CHR ''.''
         then let fmt = tl fmt
              in if isdigit (peek fmt)
                 then let (n, fmt) = skip_atoi 0 fmt;
                          spec = spec\<lparr>precision := ucast n\<rparr>
                      in decode_conversion fmt (if sint (precision spec) < 0 then spec\<lparr>precision := 0\<rparr> else spec)
                 else if peek fmt = ch CHR ''*'' then (tl fmt, spec\<lparr>spec_type := FORMAT_TYPE_PRECISION\<rparr>)
                 else decode_conversion fmt spec
         else decode_conversion fmt spec)"

text \<open>\<open>format_decode\<close> returns the number of characters read.\<close>

definition format_decode :: "u8 list \<Rightarrow> printf_spec \<Rightarrow> nat \<times> printf_spec" where
  "format_decode start spec =
     (let reading = (\<lambda>(fmt, spec). (length start - length fmt, spec))
      in if spec_type spec = FORMAT_TYPE_WIDTH
         then let spec = (if sint (field_width spec) < 0
                          then spec\<lparr>field_width := - field_width spec, flags := flags spec OR LEFT\<rparr> else spec)
              in reading (decode_precision start (spec\<lparr>spec_type := FORMAT_TYPE_NONE\<rparr>))
         else if spec_type spec = FORMAT_TYPE_PRECISION
         then let spec = (if sint (precision spec) < 0 then spec\<lparr>precision := 0\<rparr> else spec)
              in reading (decode_conversion start (spec\<lparr>spec_type := FORMAT_TYPE_NONE\<rparr>))
         else let spec = spec\<lparr>spec_type := FORMAT_TYPE_NONE\<rparr>;
                  plain = takeWhile (\<lambda>c. c \<noteq> 0 \<and> c \<noteq> ch CHR ''%'') start;
                  fmt = drop (length plain) start
              in if plain \<noteq> [] \<or> peek fmt = 0 then (length plain, spec)
                 else let (fl, fmt) = decode_flags 0 (tl fmt);
                          spec = spec\<lparr>flags := fl, field_width := - 1\<rparr>
                      in if isdigit (peek fmt)
                         then let (n, fmt) = skip_atoi 0 fmt
                              in reading (decode_precision fmt (spec\<lparr>field_width := ucast n\<rparr>))
                         else if peek fmt = ch CHR ''*'' then reading (tl fmt, spec\<lparr>spec_type := FORMAT_TYPE_WIDTH\<rparr>)
                         else reading (decode_precision fmt spec))"

definition set_field_width :: "printf_spec \<Rightarrow> u32 \<Rightarrow> printf_spec" where
  "set_field_width spec width = spec\<lparr>field_width := ucast width\<rparr>"

definition set_precision :: "printf_spec \<Rightarrow> u32 \<Rightarrow> printf_spec" where
  "set_precision spec prec = spec\<lparr>precision := ucast prec\<rparr>"

section \<open>vsnprintf\<close>

text \<open>An argument slot and what \<open>va_arg\<close> makes of it. Reading more arguments than there are is undefined;
  the model reads 0.\<close>

definition va_arg :: "u64 list \<Rightarrow> u64" where
  "va_arg args = (case args of [] \<Rightarrow> 0 | a # _ \<Rightarrow> a)"

definition va_arg_int :: "u64 list \<Rightarrow> u32" where
  "va_arg_int args = ucast (va_arg args)"

definition num_arg :: "format_type \<Rightarrow> u64 list \<Rightarrow> u64" where
  "num_arg ty args =
     (case ty of
        FORMAT_TYPE_LONG_LONG \<Rightarrow> va_arg args
      | FORMAT_TYPE_ULONG \<Rightarrow> va_arg args
      | FORMAT_TYPE_LONG \<Rightarrow> va_arg args
      | FORMAT_TYPE_SIZE_T \<Rightarrow> va_arg args
      | FORMAT_TYPE_PTRDIFF \<Rightarrow> va_arg args
      | FORMAT_TYPE_UBYTE \<Rightarrow> ucast (ucast (va_arg_int args) :: u8)
      | FORMAT_TYPE_BYTE \<Rightarrow> scast (ucast (va_arg_int args) :: u8)
      | FORMAT_TYPE_USHORT \<Rightarrow> ucast (ucast (va_arg_int args) :: u16)
      | FORMAT_TYPE_SHORT \<Rightarrow> scast (ucast (va_arg_int args) :: u16)
      | FORMAT_TYPE_INT \<Rightarrow> scast (va_arg_int args)
      | _ \<Rightarrow> ucast (va_arg_int args))"

text \<open>\<open>while (--spec.field_width > 0)\<close>, on the bit field.\<close>

lemma minus_one_less: "sint (w :: 24 word) > 0 \<Longrightarrow> unat (w - 1) < unat w"
proof -
  assume "sint w > 0"
  then have "w \<noteq> 0" by (metis less_irrefl signed_0)
  then show ?thesis by (simp add: unat_minus_one unat_gt_0)
qed

function char_pad :: "u64 \<Rightarrow> 24 word \<Rightarrow> mem \<times> u64 \<Rightarrow> 24 word \<times> mem \<times> u64" where
  "char_pad en fw st =
     (let fw = fw - 1 in if sint fw > 0 then char_pad en fw (put_char en 0x20 st) else (fw, st))"
  by pat_completeness auto
termination
proof (relation "measure (\<lambda>(en, fw, st). unat (fw - 1))")
  fix en st and fw x :: "24 word"
  assume "x = fw - 1" "0 < sint x"
  then show "((en, x, put_char en 0x20 st), en, fw, st) \<in> measure (\<lambda>(en, fw, st). unat (fw - 1))"
    using minus_one_less[of x] by simp
qed simp

declare char_pad.simps [simp del]

text \<open>The cases of the switch, but for \<open>FORMAT_TYPE_INVALID\<close>, which leaves the loop. The arguments are the
  format before and after the decoded token, the token's length, the arguments left, the
  specification and the output.\<close>

definition convert ::
  "u64 \<Rightarrow> u8 list \<Rightarrow> nat \<Rightarrow> u8 list \<Rightarrow> u64 list \<Rightarrow> printf_spec \<Rightarrow> mem \<times> u64 \<Rightarrow> u8 list \<times> u64 list \<times> printf_spec \<times> mem \<times> u64" where
  "convert en old_fmt rd fmt args spec st =
     (case st of (m, str) \<Rightarrow> case spec_type spec of
        FORMAT_TYPE_NONE \<Rightarrow>
          (fmt, args, spec,
           (if str < en then write_bytes m str (take (if rd > unat (en - str) then unat (en - str) else rd) old_fmt) else m), str + of_nat rd)
      | FORMAT_TYPE_WIDTH \<Rightarrow> (fmt, tl args, set_field_width spec (va_arg_int args), m, str)
      | FORMAT_TYPE_PRECISION \<Rightarrow> (fmt, tl args, set_precision spec (va_arg_int args), m, str)
      | FORMAT_TYPE_CHAR \<Rightarrow>
          (let (fw, st) = (if \<not> flag LEFT spec then char_pad en (field_width spec) (m, str) else (field_width spec, (m, str)));
               st = put_char en (ucast (va_arg_int args)) st;
               (fw, st) = char_pad en fw st
           in (fmt, tl args, spec\<lparr>field_width := fw\<rparr>, st))
      | FORMAT_TYPE_STR \<Rightarrow> (fmt, tl args, spec, string m str en (At (va_arg args)) spec)
      | FORMAT_TYPE_PTR \<Rightarrow> (dropWhile isalnum fmt, tl args, spec, pointer fmt m str en (va_arg args) spec)
      | FORMAT_TYPE_PERCENT_CHAR \<Rightarrow> (fmt, args, spec, put_char en (ch CHR ''%'') (m, str))
      | _ \<Rightarrow> (fmt, tl args, spec, number m str en (num_arg (spec_type spec) args) spec))"

section \<open>The loop ends\<close>

lemma peek_Nil [simp]: "peek [] = 0"
  by (simp add: peek_def)

lemma peek_Cons [simp]: "peek (c # s) = c"
  by (simp add: peek_def)

lemma skip_atoi_length: "length (snd (skip_atoi i s)) \<le> length s"
  by (induction i s rule: skip_atoi.induct) (auto simp: Let_def)

lemma decode_flags_length: "length (snd (decode_flags fl s)) \<le> length s"
  by (induction fl s rule: decode_flags.induct) auto

lemma decode_qualifier_length: "length (snd (decode_qualifier s)) \<le> length s"
  by (simp add: decode_qualifier_def Let_def)

definition progresses :: "u8 list \<Rightarrow> u8 list \<times> printf_spec \<Rightarrow> bool" where
  "progresses s r \<longleftrightarrow> length (fst r) \<le> length s \<and> (length (fst r) < length s \<or> spec_type (snd r) = FORMAT_TYPE_INVALID)"

lemma decode_conversion_progresses: "progresses s (decode_conversion s spec)"
proof -
  obtain q s' where q: "decode_qualifier s = (q, s')" by fastforce
  then have "length s' \<le> length s" using decode_qualifier_length[of s] by simp
  then show ?thesis by (cases s') (auto simp: decode_conversion_def q Let_def progresses_def)
qed

lemma progresses_shorter: "progresses s r \<Longrightarrow> length s \<le> length s' \<Longrightarrow> progresses s' r"
  by (auto simp: progresses_def)

lemma decode_precision_progresses: "progresses s (decode_precision s spec)"
proof (cases s)
  case (Cons c s')
  have "progresses s (decode_conversion s' sp)" for sp
    using progresses_shorter[OF decode_conversion_progresses] Cons by simp
  moreover have "progresses s (decode_conversion (snd (skip_atoi 0 s')) sp)" for sp
    using progresses_shorter[OF decode_conversion_progresses] skip_atoi_length[of 0 s'] Cons by simp
  moreover note decode_conversion_progresses[of s]
  moreover have "progresses s (tl s', sp)" for sp using Cons by (auto simp: progresses_def)
  ultimately show ?thesis using Cons by (auto simp: decode_precision_def Let_def split_def)
qed (simp add: decode_precision_def Let_def decode_conversion_progresses)

lemma format_decode_progress:
  assumes "peek fmt \<noteq> 0" "format_decode fmt spec = (n, spec')" "spec_type spec' \<noteq> FORMAT_TYPE_INVALID"
  shows "0 < n"
proof (rule ccontr)
  assume "\<not> 0 < n"
  then have n: "n = 0" by simp
  obtain c s where fmt: "fmt = c # s" "c \<noteq> 0" using assms(1) by (cases fmt) auto
  have r: False if "progresses s' r" "(case r of (f, sp) \<Rightarrow> (length fmt - length f, sp)) = (n, spec')" "length s' \<le> length fmt" for s' r
    using that n assms(3) by (cases r) (auto simp: progresses_def)
  have dec: "length (fst (decode_precision s' sp)) \<le> length s'" for s' sp
    using decode_precision_progresses[of s' sp] by (simp add: progresses_def)
  consider "spec_type spec = FORMAT_TYPE_WIDTH" | "spec_type spec = FORMAT_TYPE_PRECISION"
    | "spec_type spec \<noteq> FORMAT_TYPE_WIDTH" "spec_type spec \<noteq> FORMAT_TYPE_PRECISION" by blast
  then show False
  proof cases
    case 1
    then show False using assms(2) r[OF decode_precision_progresses] by (auto simp: format_decode_def Let_def)
  next
    case 2
    then show False using assms(2) r[OF decode_conversion_progresses] by (auto simp: format_decode_def Let_def)
  next
    case 3
    have pct: "c = ch CHR ''%''" using 3 assms(2) fmt n by (auto simp: format_decode_def Let_def split: if_splits)
    obtain fl s1 where f: "decode_flags 0 s = (fl, s1)" by fastforce
    have s1: "length s1 \<le> length s" using decode_flags_length[of 0 s] by (simp add: f)
    obtain k s2 where k: "skip_atoi 0 s1 = (k, s2)" by fastforce
    have s2: "length s2 \<le> length s" using skip_atoi_length[of 0 s1] s1 by (simp add: k)
    have "\<not> Suc (length s) \<le> length (fst (decode_precision s1 sp))" "\<not> Suc (length s) \<le> length (fst (decode_precision s2 sp))"
      "\<not> Suc (length s) \<le> length (tl s1)" for sp
      using dec[of s1 sp] dec[of s2 sp] s1 s2 by auto
    then show False using 3 assms(2) fmt pct f k n
      by (auto simp: format_decode_def Let_def split_def simp del: length_tl not_less_eq_eq split: if_splits)
  qed
qed

lemma convert_shortens: "length (fst (convert en old n fmt args spec st)) \<le> length fmt"
  by (cases st; cases "spec_type spec") (auto simp: convert_def split_def Let_def length_dropWhile_le)

function vsnprintf_loop :: "u64 \<Rightarrow> u8 list \<Rightarrow> u64 list \<Rightarrow> printf_spec \<Rightarrow> mem \<times> u64 \<Rightarrow> mem \<times> u64" where
  "vsnprintf_loop en fmt args spec st =
     (if peek fmt = 0 then st
      else let (rd, spec) = format_decode fmt spec
           in if spec_type spec = FORMAT_TYPE_INVALID then st
              else let (fmt, args, spec, st) = convert en fmt rd (drop rd fmt) args spec st
                   in vsnprintf_loop en fmt args spec st)"
  by pat_completeness auto
termination
proof (relation "measure (\<lambda>(en, fmt, args, spec, st). length fmt)")
  fix en fmt args spec st x rd spec' xa fmt' y args' z spec'' st'
  assume p: "peek fmt \<noteq> 0" and x: "x = format_decode fmt spec" "(rd, spec') = x" and i: "spec_type spec' \<noteq> FORMAT_TYPE_INVALID"
    and xa: "xa = convert en fmt rd (drop rd fmt) args spec' st" "(fmt', y) = xa"
  have "0 < rd" using format_decode_progress[OF p _ i] x by simp
  moreover have "length fmt' \<le> length (drop rd fmt)" using convert_shortens xa by (metis fst_conv)
  moreover have "fmt \<noteq> []" using p by auto
  ultimately have "length fmt' < length fmt" by (cases fmt) auto
  then show "((en, fmt', args', spec'', st'), en, fmt, args, spec, st) \<in> measure (\<lambda>(en, fmt, args, spec, st). length fmt)" by simp
qed simp

declare vsnprintf_loop.simps [simp del]

definition INT_MAX :: u64 where
  "INT_MAX = 0x7fffffff"

definition zero_spec :: printf_spec where
  "zero_spec = \<lparr>spec_type = FORMAT_TYPE_NONE, field_width = 0, flags = 0, base = 0, precision = 0\<rparr>"

definition vsnprintf :: "mem \<Rightarrow> u64 \<Rightarrow> u64 \<Rightarrow> u8 list \<Rightarrow> u64 list \<Rightarrow> mem \<times> u32" where
  "vsnprintf m buf sz fmt args =
     (if sz > INT_MAX then (m, 0)
      else let en = buf + sz;
               (en, sz) = (if en < buf then (- 1, - 1 - buf) else (en, sz));
               (m, str) = vsnprintf_loop en fmt args zero_spec (m, buf);
               m = (if sz > 0 then if str < en then m(str := 0) else m(en - 1 := 0) else m)
           in (m, ucast (str - buf)))"

text \<open>\<open>i < size\<close> compares the \<open>int\<close> \<open>i\<close> converted to \<open>size_t\<close>.\<close>

definition vscnprintf :: "mem \<Rightarrow> u64 \<Rightarrow> u64 \<Rightarrow> u8 list \<Rightarrow> u64 list \<Rightarrow> mem \<times> u32" where
  "vscnprintf m buf sz fmt args =
     (case vsnprintf m buf sz fmt args of (m, i) \<Rightarrow>
        (m, if scast i < sz then i else if sz \<noteq> 0 then ucast (sz - 1) else 0))"

definition scnprintf :: "mem \<Rightarrow> u64 \<Rightarrow> u64 \<Rightarrow> u8 list \<Rightarrow> u64 list \<Rightarrow> mem \<times> u32" where
  "scnprintf m buf sz fmt args = vscnprintf m buf sz fmt args"

section \<open>What a format prints\<close>

text \<open>The decoded conversions with what they print: plain text, a character in a field, a string, a number
  or a row of bytes.\<close>

datatype item = Raw "u8 list" | Chr u8 "24 word" bool | Str "u8 list" printf_spec | Num u64 printf_spec | Hex "u8 list" u8

text \<open>The bytes \<open>string\<close> copies: up to a NUL and at most the precision.\<close>

function fetch_text :: "mem \<Rightarrow> text_ptr \<Rightarrow> nat \<Rightarrow> nat \<Rightarrow> u8 list" where
  "fetch_text m s i lim = (if lim = 0 \<or> fetch m s i = 0 then [] else fetch m s i # fetch_text m s (i + 1) (lim - 1))"
  by pat_completeness auto
termination by (relation "measure (\<lambda>(m, s, i, lim). lim)") auto

declare fetch_text.simps [simp del]

definition string_bytes :: "mem \<Rightarrow> text_ptr \<Rightarrow> printf_spec \<Rightarrow> u8 list" where
  "string_bytes m s spec = fetch_text m (if s = At 0 then Literal null_text else s) 0 (unat (scast (precision spec) :: u64))"

definition pointer_items :: "mem \<Rightarrow> u8 list \<Rightarrow> u64 \<Rightarrow> printf_spec \<Rightarrow> item list" where
  "pointer_items m fmt ptr spec =
     (if ptr = 0
      then let spec = (if field_width spec = - 1 then spec\<lparr>field_width := 2 * 8\<rparr> else spec)
           in [Str (string_bytes m (Literal null_text) spec) spec]
      else if peek fmt \<in> {ch CHR ''F'', ch CHR ''f'', ch CHR ''S'', ch CHR ''s'', ch CHR ''B''}
      then [Num ptr \<lparr>spec_type = FORMAT_TYPE_PTR, field_width = 18, flags = SPECIAL OR SMALL OR ZEROPAD, base = 16, precision = - 1\<rparr>]
      else if peek fmt = ch CHR ''h''
      then if field_width spec = 0 then []
           else [Hex (read_bytes m ptr (if sint (field_width spec) > 0 then min (nat (sint (field_width spec))) 64 else 1)) (hex_separator fmt)]
      else if peek fmt \<in> {ch CHR ''M'', ch CHR ''m''}
      then [Str (string_bytes m (Literal (mac_text (read_bytes m ptr 6) fmt)) spec) spec]
      else [Num ptr (pointer_spec spec)])"

text \<open>The items of one token, and the specification it leaves.\<close>

definition token_items :: "mem \<Rightarrow> u8 list \<Rightarrow> u8 list \<Rightarrow> u64 list \<Rightarrow> printf_spec \<Rightarrow> item list" where
  "token_items m tok fmt args spec =
     (case spec_type spec of
        FORMAT_TYPE_NONE \<Rightarrow> [Raw tok]
      | FORMAT_TYPE_WIDTH \<Rightarrow> []
      | FORMAT_TYPE_PRECISION \<Rightarrow> []
      | FORMAT_TYPE_CHAR \<Rightarrow> [Chr (ucast (va_arg_int args)) (field_width spec) (flag LEFT spec)]
      | FORMAT_TYPE_STR \<Rightarrow> [Str (string_bytes m (At (va_arg args)) spec) spec]
      | FORMAT_TYPE_PTR \<Rightarrow> pointer_items m fmt (va_arg args) spec
      | FORMAT_TYPE_PERCENT_CHAR \<Rightarrow> [Raw [ch CHR ''%'']]
      | FORMAT_TYPE_INVALID \<Rightarrow> []
      | _ \<Rightarrow> [Num (num_arg (spec_type spec) args) spec])"

definition pad_count :: "24 word \<Rightarrow> nat" where
  "pad_count fw = (if sint (fw - 1) > 0 then unat (fw - 1) else 0)"

definition pad_rest :: "24 word \<Rightarrow> 24 word" where
  "pad_rest fw = (if sint (fw - 1) > 0 then 0 else fw - 1)"

definition token_rest :: "u8 list \<Rightarrow> u64 list \<Rightarrow> printf_spec \<Rightarrow> u8 list \<times> u64 list \<times> printf_spec" where
  "token_rest fmt args spec =
     (case spec_type spec of
        FORMAT_TYPE_NONE \<Rightarrow> (fmt, args, spec)
      | FORMAT_TYPE_WIDTH \<Rightarrow> (fmt, tl args, set_field_width spec (va_arg_int args))
      | FORMAT_TYPE_PRECISION \<Rightarrow> (fmt, tl args, set_precision spec (va_arg_int args))
      | FORMAT_TYPE_CHAR \<Rightarrow>
          (fmt, tl args, spec\<lparr>field_width := if flag LEFT spec then pad_rest (field_width spec) else pad_rest (pad_rest (field_width spec))\<rparr>)
      | FORMAT_TYPE_PTR \<Rightarrow> (dropWhile isalnum fmt, tl args, spec)
      | FORMAT_TYPE_PERCENT_CHAR \<Rightarrow> (fmt, args, spec)
      | _ \<Rightarrow> (fmt, tl args, spec))"

lemma token_rest_shortens: "length (fst (token_rest fmt args spec)) \<le> length fmt"
  by (cases "spec_type spec") (simp_all add: token_rest_def length_dropWhile_le)

function format_items :: "mem \<Rightarrow> u8 list \<Rightarrow> u64 list \<Rightarrow> printf_spec \<Rightarrow> item list" where
  "format_items m fmt args spec =
     (if peek fmt = 0 then []
      else let (rd, spec) = format_decode fmt spec
           in if spec_type spec = FORMAT_TYPE_INVALID then []
              else let (fmt', args', spec') = token_rest (drop rd fmt) args spec
                   in token_items m (take rd fmt) (drop rd fmt) args spec @ format_items m fmt' args' spec')"
  by pat_completeness auto
termination
proof (relation "measure (\<lambda>(m, fmt, args, spec). length fmt)")
  fix m :: mem and fmt args spec x rd spec' xa fmt' y args' spec''
  assume p: "peek fmt \<noteq> 0" and x: "x = format_decode fmt spec" "(rd, spec') = x" and i: "spec_type spec' \<noteq> FORMAT_TYPE_INVALID"
    and xa: "xa = token_rest (drop rd fmt) args spec'" "(fmt', y) = xa"
  have "0 < rd" using format_decode_progress[OF p _ i] x by simp
  moreover have "length fmt' \<le> length (drop rd fmt)" using token_rest_shortens xa by (metis fst_conv)
  moreover have "fmt \<noteq> []" using p by auto
  ultimately have "length fmt' < length fmt" by (cases fmt) auto
  then show "((m, fmt', args', spec''), m, fmt, args, spec) \<in> measure (\<lambda>(m, fmt, args, spec). length fmt)" by simp
qed simp

declare format_items.simps [simp del]

fun render :: "item \<Rightarrow> u8 list" where
  "render (Raw xs) = xs"
| "render (Chr c fw left) =
     (if left then c # replicate (pad_count fw) 0x20
      else replicate (pad_count fw) 0x20 @ [c] @ replicate (pad_count (pad_rest fw)) 0x20)"
| "render (Str xs spec) =
     (let fill = replicate (nat (sint (field_width spec)) - length xs) 0x20
      in if flag LEFT spec then xs @ fill else fill @ xs)"
| "render (Num n spec) = number_text n spec"
| "render (Hex bs sep) =
     (if sep = 0 then hex_text bs
      else concat (map (\<lambda>i. [hex_asc_hi (bs ! i), hex_asc_lo (bs ! i)] @ (if Suc i < length bs then [sep] else [])) [0..<length bs]))"

definition format_text :: "mem \<Rightarrow> u8 list \<Rightarrow> u64 list \<Rightarrow> u8 list" where
  "format_text m fmt args = concat (map render (format_items m fmt args zero_spec))"

text \<open>What the conversions refer to does not depend on the contents of the buffer.\<close>

definition stable :: "u64 \<Rightarrow> u64 \<Rightarrow> mem \<Rightarrow> u8 list \<Rightarrow> u64 list \<Rightarrow> bool" where
  "stable buf sz m fmt args \<longleftrightarrow>
     (\<forall>m'. (\<forall>x. unat sz \<le> unat (x - buf) \<longrightarrow> m' x = m x) \<longrightarrow> format_items m' fmt args zero_spec = format_items m fmt args zero_spec)"

section \<open>Text in a bounded buffer\<close>

text \<open>\<open>out b en t m\<close>: the text \<open>t\<close> has been output from \<open>b\<close> on, starting from memory \<open>m\<close>. \<open>agree b en m m'\<close>: the
  memories differ at most in the buffer.\<close>

definition out :: "u64 \<Rightarrow> u64 \<Rightarrow> u8 list \<Rightarrow> mem \<Rightarrow> mem \<times> u64" where
  "out b en t m = (write_bytes m b (take (unat (en - b)) t), b + of_nat (length t))"

definition agree :: "u64 \<Rightarrow> u64 \<Rightarrow> mem \<Rightarrow> mem \<Rightarrow> bool" where
  "agree b en m m' \<longleftrightarrow> (\<forall>x. unat (en - b) \<le> unat (x - b) \<longrightarrow> m' x = m x)"

definition room :: "u64 \<Rightarrow> u64 \<Rightarrow> u8 list \<Rightarrow> bool" where
  "room b en t \<longleftrightarrow> b \<le> en \<and> unat b + length t < 2 ^ 64"

lemma agree_refl: "agree b en m m"
  by (simp add: agree_def)

lemma agree_out: "agree b en m (fst (out b en t m))"
  by (auto simp: agree_def out_def write_bytes_other)

lemma room_prefix: "room b en (t @ xs) \<Longrightarrow> room b en t"
  by (simp add: room_def)

lemma out_pos: "room b en t \<Longrightarrow> unat (b + of_nat (length t)) = unat b + length t"
  by (simp add: room_def unat_word_ariths)

lemma out_below: "room b en t \<Longrightarrow> b + of_nat (length t) < en \<longleftrightarrow> length t < unat (en - b)"
  using out_pos[of b en t] by (auto simp: room_def word_less_nat_alt word_le_nat_alt unat_sub)

lemma put_char_out:
  assumes "room b en (t @ [c])"
  shows "put_char en c (out b en t m) = out b en (t @ [c]) m"
proof -
  have r: "room b en t" using assms by (rule room_prefix)
  have l: "length t < 2 ^ 64" using assms by (simp add: room_def)
  show ?thesis
  proof (cases "length t < unat (en - b)")
    case True
    then have "write_bytes m b (take (unat (en - b)) (t @ [c])) = (write_bytes m b t)(b + of_nat (length t) := c)"
      using write_bytes_append[of t "[c]" m b] l by (simp add: write_bytes_Cons)
    then show ?thesis using True out_below[OF r] by (simp add: put_char_def out_def)
  next
    case False
    then show ?thesis using out_below[OF r] by (simp add: put_char_def out_def)
  qed
qed

lemma emit_out: "room b en (t @ xs) \<Longrightarrow> emit en xs (out b en t m) = out b en (t @ xs) m"
proof (induction xs arbitrary: t)
  case (Cons x xs)
  have "room b en (t @ [x])" using Cons.prems by (simp add: room_def)
  then show ?case using Cons.IH[of "t @ [x]"] Cons.prems by (simp add: emit_Cons put_char_out)
qed simp

section \<open>Padding a string that is already in the buffer\<close>

lemma unat_minus_offset:
  "k < 2 ^ 64 \<Longrightarrow> unat (u - of_nat k :: u64) = (if k \<le> unat u then unat u - k else unat u + 2 ^ 64 - k)"
  by (simp add: unat_sub_if')

lemma write_over:
  assumes "k \<le> length xs" "length xs \<le> k + length ys" "k + length ys \<le> 2 ^ 64" "k < 2 ^ 64"
  shows "write_bytes (write_bytes m b xs) (b + of_nat k) ys = write_bytes m b (take k xs @ ys)"
proof
  fix x
  have e: "x - (b + of_nat k) = (x - b) - of_nat k" by simp
  show "write_bytes (write_bytes m b xs) (b + of_nat k) ys x = write_bytes m b (take k xs @ ys) x"
    unfolding write_bytes_def e unat_minus_offset[OF assms(4), of "x - b"] using assms by (auto simp: nth_append)
qed

lemma write_second_first:
  assumes "length ys + length zs \<le> 2 ^ 64" "length ys < 2 ^ 64"
  shows "write_bytes (write_bytes m (b + of_nat (length ys)) zs) b ys = write_bytes m b (ys @ zs)"
proof
  fix x
  have e: "x - (b + of_nat (length ys)) = (x - b) - of_nat (length ys)" by simp
  show "write_bytes (write_bytes m (b + of_nat (length ys)) zs) b ys x = write_bytes m b (ys @ zs) x"
    unfolding write_bytes_def e unat_minus_offset[OF assms(2), of "x - b"] using assms by (auto simp: nth_append)
qed

text \<open>\<open>move_right\<close> on the last \<open>n\<close> characters of the text inserts spaces in front of them.\<close>

lemma move_right_out:
  fixes t xs :: "u8 list" and sp :: nat
  assumes "room b en (t @ replicate sp 0x20 @ xs)" "length xs < 2 ^ 32" "sp < 2 ^ 32"
  shows "move_right (fst (out b en (t @ xs) m)) (b + of_nat (length t)) en (of_nat (length xs)) (of_nat sp) =
    fst (out b en (t @ replicate sp 0x20 @ xs) m)"
proof -
  define K where "K = unat (en - b)"
  let ?p = "b + of_nat (length t)" and ?M = "write_bytes m b (take K (t @ xs))"
  have rt: "room b en t" using assms(1) by (simp add: room_def)
  have K: "K < 2 ^ 64" using unat_lt_64[of "en - b"] by (simp add: K_def)
  have lt: "length t < 2 ^ 64" using rt by (simp add: room_def)
  have below: "?p < en \<longleftrightarrow> length t < K" using out_below[OF rt] by (simp add: K_def)
  have usp: "unat (ucast (of_nat sp :: u32) :: u64) = sp" "unat (ucast (of_nat (length xs) :: u32) :: u64) = length xs"
    using assms(2,3) by (simp_all add: unsigned_ucast_eq take_bit_nat_eq_self unsigned_of_nat)
  have o1: "fst (out b en (t @ xs) m) = ?M" by (simp add: out_def K_def)
  have o2: "fst (out b en (t @ replicate sp 0x20 @ xs) m) = write_bytes m b (take K (t @ replicate sp 0x20 @ xs))"
    by (simp add: out_def K_def)
  show ?thesis
  proof (cases "length t < K")
    case False
    then show ?thesis unfolding o1 o2 using below by (simp add: move_right_def not_less)
  next
    case True
    have sz: "unat (en - ?p) = K - length t"
      using True lt by (simp add: K_def unat_sub_if' diff_diff_eq[symmetric])
    show ?thesis
    proof (cases "K - length t \<le> sp")
      case small: True
      have "move_right ?M ?p en (of_nat (length xs)) (of_nat sp) = write_bytes ?M ?p (replicate (K - length t) 0x20)"
      proof -
        have "\<not> ?p \<ge> en" "en - ?p \<le> ucast (of_nat sp :: u32)" using below True small sz usp(1)
          by (simp_all add: not_le word_le_nat_alt[where 'a = 64, of "en - _"])
        then have "move_right ?M ?p en (of_nat (length xs)) (of_nat sp) = memset ?M ?p 0x20 (en - ?p)"
          unfolding move_right_def Let_def by (simp only: if_False if_True)
        moreover have "K - length t < 2 ^ 64" using K by simp
        ultimately show ?thesis by (simp add: memset_def memset_loop_write sz)
      qed
      also have "\<dots> = write_bytes m b (t @ replicate (K - length t) 0x20)"
        using True K lt by (subst write_over) simp_all
      finally show ?thesis unfolding o1 o2 using small True by simp
    next
      case large: False
      define l where "l = min (length xs) (K - length t - sp)"
      let ?n = "of_nat (length xs) :: u32" and ?s = "of_nat sp :: u32" and ?sz = "en - ?p"
      have d: "unat (?sz - ucast ?s) = K - length t - sp" using sz usp(1) large by (simp add: unat_sub_if')
      define w where "w = (if ucast ?n > ?sz - ucast ?s then ucast (?sz - ucast ?s) else ?n)"
      have w: "unat (ucast w :: u64) = l"
        using d usp assms(2) by (auto simp: w_def l_def word_less_nat_alt unsigned_ucast_eq take_bit_nat_eq_self unsigned_of_nat)
      have src: "read_bytes ?M ?p l = take l xs"
      proof (rule nth_equalityI)
        fix i assume "i < length (read_bytes ?M ?p l)"
        then have i: "i < l" by simp
        then have "length t + i < K" "i < length xs" by (auto simp: l_def)
        moreover from this K have "unat (of_nat (length t + i) :: u64) = length t + i" by (intro unat_offset) simp
        ultimately show "read_bytes ?M ?p l ! i = take l xs ! i"
          using i by (auto simp: write_bytes_def add.assoc nth_append simp del: of_nat_add simp flip: of_nat_add)
      qed (simp add: l_def)
      have "unat (?p + ucast ?s) + l \<le> 2 ^ 64" "unat ?p + l \<le> 2 ^ 64"
      proof -
        have "l \<le> length xs" by (simp add: l_def)
        then show "unat (?p + ucast ?s) + l \<le> 2 ^ 64" "unat ?p + l \<le> 2 ^ 64"
          using out_pos[OF rt] assms(1) usp(1) by (simp_all add: room_def unat_word_ariths)
      qed
      then have mv: "memmove ?M (?p + ucast ?s) ?p (ucast w) = write_bytes ?M (?p + of_nat sp) (take l xs)"
        using src w arg_cong[OF usp(1), of "of_nat :: nat \<Rightarrow> u64"] by (simp add: memmove_write)
      have "move_right ?M ?p en ?n ?s = write_bytes (write_bytes ?M (?p + of_nat sp) (take l xs)) ?p (replicate sp 0x20)"
      proof -
        have nz: "(of_nat (length xs) :: u32) = 0 \<longleftrightarrow> xs = []" using usp(2) by (cases xs) auto
        have M2: "(if ?n \<noteq> 0 then memmove ?M (?p + ucast ?s) ?p (ucast w) else ?M) = write_bytes ?M (?p + of_nat sp) (take l xs)"
          using mv nz by auto
        have ge: "\<not> ?p \<ge> en" "\<not> ?sz \<le> ucast ?s" using below True large sz usp(1)
          by (simp_all add: not_le word_le_nat_alt[where 'a = 64, of "en - _"])
        have "move_right ?M ?p en ?n ?s = memset (if ?n \<noteq> 0 then memmove ?M (?p + ucast ?s) ?p (ucast w) else ?M) ?p 0x20 (ucast ?s)"
          unfolding move_right_def Let_def w_def[symmetric] using ge by (simp only: if_False)
        then show ?thesis unfolding M2 using usp(1) assms(3) by (simp add: memset_def memset_loop_write)
      qed
      also have "\<dots> = write_bytes ?M ?p (replicate sp 0x20 @ take l xs)"
        using write_second_first[of "replicate sp 0x20" "take l xs" ?M ?p] assms(2,3) by (simp add: l_def)
      also have "\<dots> = write_bytes m b (take (length t) (take K (t @ xs)) @ replicate sp 0x20 @ take l xs)"
        using large K lt by (intro write_over) (auto simp: l_def)
      also have "\<dots> = write_bytes m b (take K (t @ replicate sp 0x20 @ xs))"
        using large by (simp add: l_def min_def)
      finally show ?thesis unfolding o1 o2 .
    qed
  qed
qed

section \<open>Each conversion outputs its text\<close>

definition short :: "u8 list \<Rightarrow> bool" where
  "short t \<longleftrightarrow> length t < 2 ^ 31"

lemma sint_small: "n < 2 ^ 31 \<Longrightarrow> sint (of_nat n :: u32) = int n"
  by (simp add: signed_of_nat signed_take_bit_int_eq_self)

lemma widen_string_out:
  assumes "room b en (t @ render (Str xs spec))" "length xs < 2 ^ 31"
  shows "widen_string (fst (out b en (t @ xs) m)) (b + of_nat (length (t @ xs))) (of_nat (length xs)) en spec =
    out b en (t @ render (Str xs spec)) m"
proof (cases "sint (field_width spec) \<le> int (length xs)")
  case True
  then show ?thesis using assms(2) by (simp add: widen_string_def sint_small out_def)
next
  case False
  define sp where "sp = nat (sint (field_width spec)) - length xs"
  have "sint (field_width spec) < 2 ^ 23" using sint_lt[of "field_width spec"] by simp
  then have sp: "sp < 2 ^ 32" by (simp add: sp_def)
  have i: "sint (field_width spec) - int (length xs) = int sp" using False by (simp add: sp_def)
  have e: "scast (field_width spec) - of_nat (length xs) = (of_nat sp :: u32)"
    unfolding scast_eq using arg_cong[OF i, of "word_of_int :: int \<Rightarrow> u32"] by (simp only: of_int_diff of_int_of_nat_eq)
  have u: "unat (of_nat sp :: u32) = sp" using sp by (simp add: unsigned_of_nat take_bit_nat_eq_self)
  have s1: "scast (of_nat (length xs) :: u32) = (of_nat (length xs) :: u64)"
    unfolding scast_eq sint_small[OF assms(2)] by simp
  have s2: "ucast (of_nat sp :: u32) = (of_nat sp :: u64)"
    using arg_cong[OF u, of "of_nat :: nat \<Rightarrow> u64"] by simp
  note s = s1 s2
  show ?thesis
  proof (cases "flag LEFT spec")
    case True
    then have "render (Str xs spec) = xs @ replicate sp 0x20" by (simp add: sp_def)
    then show ?thesis using emit_out[of b en "t @ xs" "replicate sp 0x20" m] True False assms e u
      by (simp add: widen_string_def sint_small out_def Let_def)
  next
    case nl: False
    then have r: "render (Str xs spec) = replicate sp 0x20 @ xs" by (simp add: sp_def)
    have "move_right (fst (out b en (t @ xs) m)) (b + of_nat (length t)) en (of_nat (length xs)) (of_nat sp) =
        fst (out b en (t @ replicate sp 0x20 @ xs) m)"
      using move_right_out[of b en t sp xs m] assms sp unfolding r by simp
    then show ?thesis using nl False assms(2) e s unfolding r
      by (simp add: widen_string_def sint_small Let_def algebra_simps) (simp add: out_def)
  qed
qed

lemma string_loop_out:
  assumes "\<And>m'. agree b en m m' \<Longrightarrow> fetch_text m' s i lim = xs" "room b en (t @ xs)"
  shows "string_loop en s i lim (out b en t m) = (i + length xs, out b en (t @ xs) m)"
  using assms
proof (induction lim arbitrary: i t xs)
  case 0
  then have "xs = []" using agree_refl[of b en m] fetch_text.simps[of m s i 0] by force
  then show ?case by (simp add: string_loop.simps)
next
  case (Suc lim)
  let ?m = "fst (out b en t m)"
  have c: "fetch_text ?m s i (Suc lim) = xs" using Suc.prems(1) agree_out by blast
  show ?case
  proof (cases xs)
    case Nil
    then have "fetch ?m s i = 0" using c fetch_text.simps[of ?m s i "Suc lim"] by (auto split: if_splits)
    then show ?thesis using Nil by (simp add: string_loop.simps)
  next
    case (Cons x ys)
    have x: "fetch ?m s i = x" "x \<noteq> 0" using c Cons fetch_text.simps[of ?m s i "Suc lim"] by (auto split: if_splits)
    have "fetch_text m' s (i + 1) lim = ys" if "agree b en m m'" for m'
      using Suc.prems(1)[OF that] Cons fetch_text.simps[of m' s i "Suc lim"] by (auto split: if_splits)
    moreover have "room b en (t @ [x])" "room b en ((t @ [x]) @ ys)" using Suc.prems(2) Cons by (simp_all add: room_def)
    ultimately have "string_loop en s (i + 1) lim (out b en (t @ [x]) m) = (i + 1 + length ys, out b en ((t @ [x]) @ ys) m)"
      using Suc.IH by blast
    then show ?thesis using x Cons put_char_out[of b en t x m] \<open>room b en (t @ [x])\<close>
      by (subst string_loop.simps) (simp add: Let_def)
  qed
qed

lemma string_out:
  assumes "\<And>m'. agree b en m m' \<Longrightarrow> string_bytes m' s spec = xs" "room b en (t @ render (Str xs spec))" "length xs < 2 ^ 31"
  shows "string (fst (out b en t m)) (snd (out b en t m)) en s spec = out b en (t @ render (Str xs spec)) m"
proof -
  have "room b en (t @ xs)" using assms(2) by (auto simp: room_def Let_def split: if_splits)
  then have "string_loop en (if s = At 0 then Literal null_text else s) 0 (unat (scast (precision spec) :: u64)) (out b en t m) =
      (length xs, out b en (t @ xs) m)"
    using string_loop_out[of b en m "if s = At 0 then Literal null_text else s" 0 "unat (scast (precision spec) :: u64)" xs t] assms(1)
    by (simp add: string_bytes_def)
  then show ?thesis using widen_string_out[OF assms(2,3), of m] by (simp add: string_def Let_def split_def) (simp add: out_def)
qed

lemma number_out:
  assumes "base spec \<in> {8, 10, 16}" "room b en (t @ number_text num spec)"
  shows "number (fst (out b en t m)) (snd (out b en t m)) en num spec = out b en (t @ number_text num spec) m"
  using number_emit[OF assms(1)] emit_out[OF assms(2)] by simp

lemma sint_positive: "0 < sint (v :: 24 word) \<longleftrightarrow> 0 < unat v \<and> unat v < 2 ^ 23"
proof -
  define k where "k = unat v"
  define n where "n = int k"
  have "n < int (2 ^ 24)" unfolding n_def k_def of_nat_less_iff using unat_lt_pow[of v] by simp
  then have n: "0 \<le> n" "n < 16777216" by (simp_all add: n_def)
  have "sint v = (n + 8388608) mod 16777216 - 8388608"
    by (simp add: n_def k_def sint_uint signed_take_bit_eq_take_bit_shift take_bit_eq_mod)
  moreover have "(n + 8388608) mod 16777216 = (if n < 8388608 then n + 8388608 else n - 8388608)"
  proof (cases "n < 8388608")
    case False
    then have "(n + 8388608) mod 16777216 = (n - 8388608 + 1 * 16777216) mod 16777216" by (simp add: add.commute)
    also have "\<dots> = n - 8388608" using n False by (simp only: mod_mult_self1 mod_pos_pos_trivial)
    finally show ?thesis using False by simp
  qed (use n in simp)
  ultimately show ?thesis unfolding k_def[symmetric] using n by (auto simp: n_def)
qed

lemma char_pad_emit: "char_pad en fw st = (pad_rest fw, emit en (replicate (pad_count fw) 0x20) st)"
proof (induction en fw st rule: char_pad.induct)
  case (1 en fw st)
  show ?case
  proof (cases "sint (fw - 1) > 0")
    case True
    have nz: "fw - 1 \<noteq> 0" using True by (metis less_irrefl signed_0)
    define v where "v = fw - 1"
    have v: "0 < unat v" "unat v < 2 ^ 23" "unat (v - 1) = unat v - 1"
      using True nz unfolding v_def[symmetric] by (simp_all add: sint_positive unat_minus_one)
    then have "pad_count v = unat v - 1 \<and> pad_rest v = 0"
      by (cases "unat v = 1") (auto simp: pad_count_def pad_rest_def sint_positive word_unat_eq_iff[of v])
    then have "unat (fw - 1) = Suc (pad_count (fw - 1))" "pad_rest (fw - 1) = 0" using v(1) by (simp_all add: v_def)
    then show ?thesis using True 1[OF refl] by (subst char_pad.simps) (simp add: Let_def pad_count_def[of fw] pad_rest_def[of fw] emit_Cons)
  qed (subst char_pad.simps, simp add: pad_count_def pad_rest_def Let_def)
qed

text \<open>A row of bytes, from the \<open>i\<close>th on.\<close>

definition hex_row :: "u8 \<Rightarrow> u8 list \<Rightarrow> u8 list" where
  "hex_row sep bs = concat (map (\<lambda>i. [hex_asc_hi (bs ! i), hex_asc_lo (bs ! i)] @ (if sep \<noteq> 0 \<and> Suc i < length bs then [sep] else [])) [0..<length bs])"

lemma hex_row_Cons:
  "hex_row sep (x # bs) = [hex_asc_hi x, hex_asc_lo x] @ (if sep \<noteq> 0 \<and> bs \<noteq> [] then [sep] else []) @ hex_row sep bs"
proof -
  have "[0..<length (x # bs)] = 0 # map Suc [0..<length bs]" by (simp add: map_Suc_upt upt_conv_Cons del: upt_Suc)
  then show ?thesis by (simp add: hex_row_def comp_def del: upt_Suc)
qed

lemma render_Hex: "render (Hex bs sep) = hex_row sep bs"
proof (cases "sep = 0")
  case True
  have "map (\<lambda>i. [hex_asc_hi (bs ! i), hex_asc_lo (bs ! i)]) [0..<length bs] = map (\<lambda>b. [hex_asc_hi b, hex_asc_lo b]) bs"
    by (rule nth_equalityI) simp_all
  then show ?thesis using True by (simp add: hex_row_def hex_text_def)
qed (simp add: hex_row_def)

lemma hex_string_loop_out:
  assumes "\<And>m'. agree b en m m' \<Longrightarrow> read_bytes m' (addr + of_nat i) n = bs" "room b en (t @ hex_row sep bs)"
  shows "hex_string_loop en addr sep i n (out b en t m) = out b en (t @ hex_row sep bs) m"
  using assms
proof (induction n arbitrary: i t bs)
  case 0
  then have "bs = []" using agree_refl[of b en m] by force
  then show ?case by (simp add: hex_row_def)
next
  case (Suc n)
  then obtain x ys where bs: "bs = x # ys" using agree_refl[of b en m] by (metis length_Suc_conv length_read_bytes)
  have rd: "m' (addr + of_nat i) = x" "read_bytes m' (addr + of_nat (i + 1)) n = ys" if "agree b en m m'" for m'
    using Suc.prems(1)[OF that] by (simp_all add: bs read_bytes_Suc ac_simps)
  have len: "n = 0 \<longleftrightarrow> ys = []" using rd(2)[OF agree_refl] by (metis length_0_conv length_read_bytes)
  let ?sp = "if sep \<noteq> 0 \<and> ys \<noteq> [] then [sep] else []"
  have r: "room b en (t @ [hex_asc_hi x])" "room b en ((t @ [hex_asc_hi x]) @ [hex_asc_lo x])"
    "room b en ((t @ [hex_asc_hi x, hex_asc_lo x]) @ ?sp)" "room b en ((t @ [hex_asc_hi x, hex_asc_lo x] @ ?sp) @ hex_row sep ys)"
    using Suc.prems(2) by (auto simp: room_def bs hex_row_Cons)
  have p: "put_char en (hex_asc_hi (fst (out b en t m) (addr + of_nat i))) (out b en t m) = out b en (t @ [hex_asc_hi x]) m"
    "put_char en (hex_asc_lo (fst (out b en (t @ [hex_asc_hi x]) m) (addr + of_nat i))) (out b en (t @ [hex_asc_hi x]) m) =
      out b en (t @ [hex_asc_hi x, hex_asc_lo x]) m"
    using put_char_out[OF r(1), of m] put_char_out[OF r(2), of m] rd(1)[OF agree_out] by simp_all
  have s: "(if sep \<noteq> 0 \<and> n \<noteq> 0 then put_char en sep (out b en (t @ [hex_asc_hi x, hex_asc_lo x]) m)
      else out b en (t @ [hex_asc_hi x, hex_asc_lo x]) m) = out b en (t @ [hex_asc_hi x, hex_asc_lo x] @ ?sp) m"
    using len r(3) put_char_out[of b en "t @ [hex_asc_hi x, hex_asc_lo x]" sep m] by auto
  have "hex_string_loop en addr sep (i + 1) n (out b en (t @ [hex_asc_hi x, hex_asc_lo x] @ ?sp) m) =
      out b en ((t @ [hex_asc_hi x, hex_asc_lo x] @ ?sp) @ hex_row sep ys) m"
    using Suc.IH[of "i + 1" ys] rd(2) r(4) by blast
  then show ?case unfolding hex_string_loop.simps Let_def p s by (simp add: bs hex_row_Cons)
qed

lemma fetch_text_Literal: "fetch_text m (Literal xs) i lim = fetch_text m' (Literal xs) i lim"
proof (induction lim arbitrary: i)
  case (Suc lim)
  then show ?case by (subst (1 2) fetch_text.simps) (simp add: fetch_def)
qed (simp add: fetch_text.simps)

lemma string_bytes_Literal: "string_bytes m (Literal xs) spec = string_bytes m' (Literal xs) spec"
  using fetch_text_Literal by (simp add: string_bytes_def)

lemma Str_short: "short (render (Str xs sp)) \<Longrightarrow> length xs < 2 ^ 31"
  by (auto simp: short_def Let_def split: if_splits)

lemma literal_out:
  assumes "room b en (t @ render (Str (string_bytes m0 (Literal xs) spec) spec))" "short (render (Str (string_bytes m0 (Literal xs) spec) spec))"
  shows "string (fst (out b en t m)) (snd (out b en t m)) en (Literal xs) spec =
    out b en (t @ render (Str (string_bytes m0 (Literal xs) spec) spec)) m"
  using string_out[OF _ assms(1) Str_short[OF assms(2)]] string_bytes_Literal by blast

text \<open>Where the items do not depend on the buffer's contents, the pointer is printed as specified.\<close>

lemma pointer_out:
  assumes "\<And>m'. agree b en m m' \<Longrightarrow> pointer_items m' fmt ptr spec = its" "room b en (t @ concat (map render its))"
    "short (concat (map render its))"
  shows "pointer fmt (fst (out b en t m)) (snd (out b en t m)) en ptr spec = out b en (t @ concat (map render its)) m"
proof -
  note it = assms(1)[OF agree_out, symmetric]
  let ?m = "fst (out b en t m)"
  consider "ptr = 0" | "ptr \<noteq> 0" "peek fmt \<in> {ch CHR ''F'', ch CHR ''f'', ch CHR ''S'', ch CHR ''s'', ch CHR ''B''}"
    | "ptr \<noteq> 0" "peek fmt = ch CHR ''h''" "field_width spec = 0" | "ptr \<noteq> 0" "peek fmt = ch CHR ''h''" "field_width spec \<noteq> 0"
    | "ptr \<noteq> 0" "peek fmt \<in> {ch CHR ''M'', ch CHR ''m''}"
    | "ptr \<noteq> 0" "peek fmt \<notin> {ch CHR ''F'', ch CHR ''f'', ch CHR ''S'', ch CHR ''s'', ch CHR ''B''}" "peek fmt \<noteq> ch CHR ''h''"
      "peek fmt \<notin> {ch CHR ''M'', ch CHR ''m''}"
    by blast
  then show ?thesis
  proof cases
    case 1
    define sp where "sp = (if field_width spec = - 1 then spec\<lparr>field_width := 2 * 8\<rparr> else spec)"
    have "its = [Str (string_bytes ?m (Literal null_text) sp) sp]" unfolding it[of t] pointer_items_def sp_def Let_def using 1 by simp
    then show ?thesis using literal_out[of b en t ?m null_text sp m] 1 assms(2,3) unfolding pointer_def sp_def[symmetric]
      by (simp del: render.simps)
  next
    case 2
    then have "its = [Num ptr \<lparr>spec_type = FORMAT_TYPE_PTR, field_width = 18, flags = SPECIAL OR SMALL OR ZEROPAD, base = 16, precision = - 1\<rparr>]"
      unfolding it[of t] pointer_items_def by simp
    then show ?thesis using 2 assms(2) unfolding pointer_def by (simp add: symbol_string_def special_hex_number_def number_out)
  next
    case 3
    then have "its = []" unfolding it[of t] pointer_items_def by simp
    then show ?thesis using 3 unfolding pointer_def by (simp add: hex_string_def)
  next
    case 4
    define n where "n = (if sint (field_width spec) > 0 then min (nat (sint (field_width spec))) 64 else 1)"
    have i: "pointer_items m' fmt ptr spec = [Hex (read_bytes m' ptr n) (hex_separator fmt)]" for m'
      unfolding pointer_items_def n_def using 4 by simp
    then have its: "its = [Hex (read_bytes m ptr n) (hex_separator fmt)]" using assms(1)[OF agree_refl] by simp
    then have "read_bytes m' (ptr + of_nat 0) n = read_bytes m ptr n" if "agree b en m m'" for m'
      using assms(1)[OF that] i by simp
    then have "hex_string_loop en ptr (hex_separator fmt) 0 n (out b en t m) = out b en (t @ hex_row (hex_separator fmt) (read_bytes m ptr n)) m"
      using hex_string_loop_out[of b en m ptr 0 n "read_bytes m ptr n" t "hex_separator fmt"] assms(2) its
      by (simp add: render_Hex del: render.simps)
    then show ?thesis using 4 its unfolding pointer_def by (simp add: hex_string_def n_def Let_def render_Hex del: render.simps)
  next
    case 5
    then have "its = [Str (string_bytes ?m (Literal (mac_text (read_bytes ?m ptr 6) fmt)) spec) spec]"
      unfolding it[of t] pointer_items_def by (auto simp del: read_bytes_Suc)
    then show ?thesis using literal_out[of b en t ?m "mac_text (read_bytes ?m ptr 6) fmt" spec m] 5 assms(2,3)
      unfolding pointer_def by (auto simp: mac_address_string_def simp del: render.simps)
  next
    case 6
    then have its: "its = [Num ptr (pointer_spec spec)]" unfolding it[of t] pointer_items_def by simp
    have "base (pointer_spec spec) = 16" by (simp add: pointer_spec_def Let_def)
    then show ?thesis using 6 assms(2) its unfolding pointer_def by (simp add: pointer_string_def number_out)
  qed
qed

section \<open>Tokens\<close>

definition is_number :: "format_type \<Rightarrow> bool" where
  "is_number ty \<longleftrightarrow> ty \<notin> {FORMAT_TYPE_NONE, FORMAT_TYPE_WIDTH, FORMAT_TYPE_PRECISION, FORMAT_TYPE_CHAR, FORMAT_TYPE_STR,
     FORMAT_TYPE_PTR, FORMAT_TYPE_PERCENT_CHAR, FORMAT_TYPE_INVALID}"

definition good_base :: "printf_spec \<Rightarrow> bool" where
  "good_base spec \<longleftrightarrow> (is_number (spec_type spec) \<longrightarrow> base spec \<in> {8, 10, 16})"

lemma decode_conversion_base: "good_base (snd (decode_conversion s spec))"
  by (simp add: decode_conversion_def good_base_def Let_def split_def)

lemma decode_precision_base: "good_base (snd (decode_precision s spec))"
  using decode_conversion_base by (simp add: decode_precision_def Let_def split_def) (simp add: good_base_def is_number_def)

lemma format_decode_facts:
  assumes "format_decode fmt spec = (rd, spec')"
  shows "rd \<le> length fmt" "good_base spec'"
proof -
  have "fst (format_decode fmt spec) \<le> length fmt"
    by (simp add: format_decode_def Let_def split_def length_takeWhile_le)
  then show "rd \<le> length fmt" by (simp add: assms)
  have "good_base (snd (format_decode fmt spec))"
    using decode_precision_base decode_conversion_base
    by (simp add: format_decode_def Let_def split_def) (simp add: good_base_def is_number_def)
  then show "good_base spec'" by (simp add: assms)
qed

lemma plain_out:
  assumes "room b en (t @ take rd old)" "rd \<le> length old"
  shows "(if b + of_nat (length t) < en
      then write_bytes (fst (out b en t m)) (b + of_nat (length t))
             (take (if rd > unat (en - (b + of_nat (length t))) then unat (en - (b + of_nat (length t))) else rd) old)
      else fst (out b en t m), b + of_nat (length t) + of_nat rd) = out b en (t @ take rd old) m"
proof -
  have r: "room b en t" using assms(1) by (rule room_prefix)
  have l: "length t + rd < 2 ^ 64" using assms by (simp add: room_def)
  show ?thesis
  proof (cases "length t < unat (en - b)")
    case True
    have s: "unat (en - (b + of_nat (length t))) = unat (en - b) - length t"
      using True l by (simp add: unat_sub_if' diff_diff_eq[symmetric])
    have "write_bytes (write_bytes m b t) (b + of_nat (length t)) (take n old) = write_bytes m b (t @ take n old)" if "n \<le> rd" for n
      using l that by (intro write_bytes_append) simp
    then show ?thesis using True out_below[OF r] assms(2) by (simp add: out_def s min_def)
  next
    case False
    then show ?thesis using out_below[OF r] assms(2) by (simp add: out_def)
  qed
qed

lemma convert_out:
  assumes its: "\<And>m'. agree b en m m' \<Longrightarrow> token_items m' (take rd old) fmt args spec = its"
    and "room b en (t @ concat (map render its))" "short (concat (map render its))" "rd \<le> length old" "good_base spec"
    and "spec_type spec \<noteq> FORMAT_TYPE_INVALID" "token_rest fmt args spec = (fmt', args', spec')"
  shows "convert en old rd fmt args spec (out b en t m) = (fmt', args', spec', out b en (t @ concat (map render its)) m)"
proof -
  note it = its[OF agree_out, of t, symmetric]
  have o: "out b en t m = (fst (out b en t m), b + of_nat (length t))" by (simp add: out_def)
  show ?thesis
  proof (cases "is_number (spec_type spec)")
    case True
    then have n: "its = [Num (num_arg (spec_type spec) args) spec]" unfolding it
      by (cases "spec_type spec") (simp_all add: token_items_def is_number_def)
    have "base spec \<in> {8, 10, 16}" using True assms(5) by (simp add: good_base_def)
    from number_out[OF this, of b en t "num_arg (spec_type spec) args" m]
    have "number (fst (out b en t m)) (b + of_nat (length t)) en (num_arg (spec_type spec) args) spec = out b en (t @ concat (map render its)) m"
      using assms(2) by (simp add: n out_def)
    then show ?thesis using True assms(7) unfolding convert_def
      by (subst o) (cases "spec_type spec"; simp add: is_number_def token_rest_def)
  next
    case False
    then consider "spec_type spec = FORMAT_TYPE_NONE" | "spec_type spec = FORMAT_TYPE_WIDTH" | "spec_type spec = FORMAT_TYPE_PRECISION"
      | "spec_type spec = FORMAT_TYPE_CHAR" | "spec_type spec = FORMAT_TYPE_STR" | "spec_type spec = FORMAT_TYPE_PTR"
      | "spec_type spec = FORMAT_TYPE_PERCENT_CHAR" using assms(6) by (auto simp: is_number_def)
    then show ?thesis
    proof cases
      case 1
      then have "its = [Raw (take rd old)]" unfolding it by (simp add: token_items_def)
      then show ?thesis using 1 plain_out[of b en t rd old m] assms(2,4,7)
        unfolding convert_def by (subst o) (simp add: token_rest_def)
    next
      case 2
      then show ?thesis using assms(7) unfolding it convert_def by (subst o) (simp add: token_rest_def token_items_def out_def)
    next
      case 3
      then show ?thesis using assms(7) unfolding it convert_def by (subst o) (simp add: token_rest_def token_items_def out_def)
    next
      case 4
      then have c: "its = [Chr (ucast (va_arg_int args)) (field_width spec) (flag LEFT spec)]" unfolding it by (simp add: token_items_def)
      have "emit en (render (Chr (ucast (va_arg_int args)) (field_width spec) (flag LEFT spec))) (out b en t m) = out b en (t @ concat (map render its)) m"
        using emit_out[of b en t _ m] assms(2) by (simp add: c)
      then show ?thesis using 4 assms(7) unfolding convert_def
        by (subst o) (auto simp: token_rest_def char_pad_emit emit_append emit_Cons Let_def o[symmetric])
    next
      case 5
      have s: "token_items m' (take rd old) fmt args spec = [Str (string_bytes m' (At (va_arg args)) spec) spec]" for m'
        using 5 by (simp add: token_items_def)
      define xs where "xs = string_bytes m (At (va_arg args)) spec"
      have i: "its = [Str xs spec]" using its[OF agree_refl] s by (simp add: xs_def)
      have st: "\<And>m'. agree b en m m' \<Longrightarrow> string_bytes m' (At (va_arg args)) spec = xs" using its s i by simp
      have "string (fst (out b en t m)) (b + of_nat (length t)) en (At (va_arg args)) spec = out b en (t @ concat (map render its)) m"
        using string_out[OF st, where t = t] Str_short[of xs spec] assms(2,3) i by (simp add: out_def del: render.simps)
      then show ?thesis using 5 assms(7) unfolding convert_def by (subst o) (simp add: token_rest_def)
    next
      case 6
      have "\<And>m'. agree b en m m' \<Longrightarrow> pointer_items m' fmt (va_arg args) spec = its" using its 6 by (simp add: token_items_def)
      from pointer_out[OF this assms(2,3)]
      show ?thesis using 6 assms(7) unfolding convert_def by (subst o) (simp add: token_rest_def out_def)
    next
      case 7
      then have "its = [Raw [ch CHR ''%'']]" unfolding it by (simp add: token_items_def)
      then show ?thesis using 7 put_char_out[of b en t _ m] assms(2,7) o unfolding convert_def by (subst o) (simp add: token_rest_def)
    qed
  qed
qed

lemma vsnprintf_loop_out:
  assumes "\<And>m'. agree b en m m' \<Longrightarrow> format_items m' fmt args spec = format_items m fmt args spec"
    "room b en (t @ concat (map render (format_items m fmt args spec)))" "short (concat (map render (format_items m fmt args spec)))"
  shows "vsnprintf_loop en fmt args spec (out b en t m) = out b en (t @ concat (map render (format_items m fmt args spec))) m"
  using assms
proof (induction m fmt args spec arbitrary: t rule: format_items.induct)
  case (1 m fmt args spec)
  show ?case
  proof (cases "peek fmt = 0")
    case True
    then show ?thesis by (simp add: vsnprintf_loop.simps format_items.simps)
  next
    case False
    obtain rd sp where d: "format_decode fmt spec = (rd, sp)" by fastforce
    show ?thesis
    proof (cases "spec_type sp = FORMAT_TYPE_INVALID")
      case True
      then show ?thesis using False d by (simp add: vsnprintf_loop.simps format_items.simps)
    next
      case valid: False
      obtain fmt' args' sp' where r: "token_rest (drop rd fmt) args sp = (fmt', args', sp')" by (metis surj_pair)
      have f: "format_items m' fmt args spec = token_items m' (take rd fmt) (drop rd fmt) args sp @ format_items m' fmt' args' sp'" for m'
        using False d valid r by (subst format_items.simps) simp
      define its where "its = token_items m (take rd fmt) (drop rd fmt) args sp"
      have len: "length (token_items m' (take rd fmt) (drop rd fmt) args sp) = length its" for m'
        by (cases "spec_type sp") (simp_all add: its_def token_items_def pointer_items_def Let_def)
      have st: "token_items m' (take rd fmt) (drop rd fmt) args sp = its \<and> format_items m' fmt' args' sp' = format_items m fmt' args' sp'"
        if "agree b en m m'" for m'
        using 1(2)[OF that] len[of m'] unfolding f by (simp add: its_def)
      let ?rest = "concat (map render (format_items m fmt' args' sp'))"
      have rooms: "room b en (t @ concat (map render its))" "room b en ((t @ concat (map render its)) @ ?rest)"
        "short (concat (map render its))" "short ?rest"
        using 1(3,4) unfolding f by (simp_all add: its_def room_def short_def)
      have "convert en fmt rd (drop rd fmt) args sp (out b en t m) = (fmt', args', sp', out b en (t @ concat (map render its)) m)"
        using convert_out[OF _ rooms(1,3) format_decode_facts[OF d] valid r] st by blast
      moreover have "vsnprintf_loop en fmt' args' sp' (out b en (t @ concat (map render its)) m) =
          out b en ((t @ concat (map render its)) @ ?rest) m"
        using 1(1)[OF False d[symmetric] refl valid r[symmetric] refl refl] st rooms(2,4) by blast
      ultimately show ?thesis using False d valid unfolding f
        by (subst vsnprintf_loop.simps) (simp add: its_def)
    qed
  qed
qed

text \<open>The length as an \<open>int\<close> and converted back to \<open>size_t\<close>.\<close>

lemma length_casts:
  assumes "n < 2 ^ 31"
  shows "ucast (of_nat n :: u64) = (of_nat n :: u32)" "scast (of_nat n :: u32) = (of_nat n :: u64)"
proof -
  have n: "unat (of_nat n :: u64) = n" using assms by simp
  show "ucast (of_nat n :: u64) = (of_nat n :: u32)"
    using arg_cong[OF n, of "of_nat :: nat \<Rightarrow> u32"] by simp
  show "scast (of_nat n :: u32) = (of_nat n :: u64)" unfolding scast_eq sint_small[OF assms] by simp
qed

lemma vsnprintf_out:
  fixes m :: mem and fmt :: "u8 list" and args :: "u64 list" and sz :: u64
  assumes "stable buf sz m fmt args"
    and "sz \<le> INT_MAX" "unat buf + unat sz < 2 ^ 64"
    and "length (format_text m fmt args) < 2 ^ 31" "unat buf + length (format_text m fmt args) < 2 ^ 64"
  defines "t \<equiv> format_text m fmt args"
  shows "vsnprintf m buf sz fmt args = (if sz = 0 then m else write_bytes m buf (take (unat sz - 1) t @ [0]), of_nat (length t))"
proof -
  let ?spec = zero_spec
  let ?en = "buf + sz"
  have en: "unat ?en = unat buf + unat sz" "\<not> ?en < buf" "unat (?en - buf) = unat sz"
    using assms(3) by (simp_all add: unat_word_ariths word_less_nat_alt)
  have st: "format_items m' fmt args zero_spec = format_items m fmt args zero_spec" if "agree buf ?en m m'" for m'
    using assms(1) that unfolding stable_def agree_def en(3) by blast
  have room: "room buf ?en t" using assms(5) en(2) by (simp add: room_def t_def not_less)
  have ft: "concat (map render (format_items m fmt args ?spec)) = t" by (simp add: t_def format_text_def)
  have "vsnprintf_loop ?en fmt args ?spec (out buf ?en [] m) = out buf ?en t m"
    using vsnprintf_loop_out[of buf ?en m fmt args ?spec "[]"] st assms(4) room unfolding ft by (simp add: short_def t_def)
  then have loop: "vsnprintf_loop ?en fmt args ?spec (m, buf) = (write_bytes m buf (take (unat sz) t), buf + of_nat (length t))"
    by (simp add: out_def en(3))
  define m1 where "m1 = (if sz > 0 then if buf + of_nat (length t) < ?en
      then (write_bytes m buf (take (unat sz) t))(buf + of_nat (length t) := 0)
      else (write_bytes m buf (take (unat sz) t))(?en - 1 := 0) else write_bytes m buf (take (unat sz) t))"
  have v: "vsnprintf m buf sz fmt args = (m1, ucast (of_nat (length t) :: u64))"
  proof -
    have "\<not> sz > INT_MAX" using assms(2) by simp
    then show ?thesis unfolding vsnprintf_def Let_def m1_def by (simp only: en(2) if_False prod.case loop add_diff_cancel_left')
  qed
  have m1: "m1 = (if sz = 0 then m else write_bytes m buf (take (unat sz - 1) t @ [0]))"
  proof (cases "sz = 0")
    case False
    then have s: "0 < unat sz" by (simp add: unat_gt_0)
    show ?thesis
    proof (cases "length t < unat sz")
      case True
      then have "(write_bytes m buf (take (unat sz) t))(buf + of_nat (length t) := 0) = write_bytes m buf (t @ [0])"
        using write_bytes_append[of t "[0]" m buf] assms(5) by (simp add: write_bytes_Cons t_def)
      then show ?thesis using True False s out_below[OF room] by (simp add: m1_def en(3) word_gt_0)
    next
      case len: False
      have lt: "unat sz - 1 < 2 ^ 64" using unat_lt_64[of sz] by simp
      have e: "?en - 1 = buf + of_nat (unat sz - 1)" using s by (simp add: of_nat_diff)
      have "write_bytes (write_bytes m buf (take (unat sz) t)) (buf + of_nat (unat sz - 1)) [0] =
          write_bytes m buf (take (unat sz - 1) (take (unat sz) t) @ [0])"
        using len s lt by (intro write_over) auto
      then have "(write_bytes m buf (take (unat sz) t))(?en - 1 := 0) = write_bytes m buf (take (unat sz - 1) t @ [0])"
        unfolding e by (simp add: write_bytes_Cons)
      then show ?thesis using False len out_below[OF room] by (simp add: m1_def en(3) word_gt_0)
    qed
  qed (simp add: m1_def)
  have l: "length t < 2 ^ 31" using assms(4) by (simp add: t_def)
  show ?thesis using m1 v length_casts(1)[OF l] by simp
qed

lemma vscnprintf_out:
  fixes m :: mem and fmt :: "u8 list" and args :: "u64 list" and sz :: u64
  assumes "stable buf sz m fmt args"
    and "sz \<le> INT_MAX" "unat buf + unat sz < 2 ^ 64"
    and "length (format_text m fmt args) < 2 ^ 31" "unat buf + length (format_text m fmt args) < 2 ^ 64"
  defines "t \<equiv> format_text m fmt args"
  shows "vscnprintf m buf sz fmt args =
    (if sz = 0 then m else write_bytes m buf (take (unat sz - 1) t @ [0]), of_nat (if sz = 0 then 0 else min (length t) (unat sz - 1)))"
proof -
  have v: "vsnprintf m buf sz fmt args = (if sz = 0 then m else write_bytes m buf (take (unat sz - 1) t @ [0]), of_nat (length t))"
    unfolding t_def by (rule vsnprintf_out[OF assms(1-5)])
  have l: "length t < 2 ^ 31" using assms(4) by (simp add: t_def)
  have "scast (of_nat (length t) :: u32) < sz \<longleftrightarrow> length t < unat sz"
    using l unat_lt_64[of sz] by (simp add: length_casts(2)[OF l] word_less_nat_alt)
  then have c: "snd (vscnprintf m buf sz fmt args) = (if length t < unat sz then of_nat (length t) else if sz \<noteq> 0 then ucast (sz - 1) else 0)"
    by (simp add: vscnprintf_def v)
  have s: "ucast (sz - 1) = (of_nat (unat sz - 1) :: u32)" if "sz \<noteq> 0"
    using arg_cong[OF unat_minus_one[OF that], of "of_nat :: nat \<Rightarrow> u32"] by simp
  have "snd (vscnprintf m buf sz fmt args) = of_nat (if sz = 0 then 0 else min (length t) (unat sz - 1))"
    using c s unat_gt_0[of sz] by (auto simp: min_def)
  moreover have "fst (vscnprintf m buf sz fmt args) = (if sz = 0 then m else write_bytes m buf (take (unat sz - 1) t @ [0]))"
    by (simp add: vscnprintf_def v)
  ultimately show ?thesis by (simp add: prod_eq_iff)
qed

section \<open>Properties\<close>

text \<open>C38: formatted output into a bounded buffer. Whatever the format and its arguments, if what the
  conversions refer to lies outside the buffer, \<open>vsnprintf\<close> writes the text of the format, cut to
  the size less one, and a NUL, changes no byte outside the buffer, and returns the length the
  whole text has; \<open>vscnprintf\<close> returns the length of what was written.\<close>

theorem vsnprintf_writes:
  fixes m :: mem and fmt :: "u8 list" and args :: "u64 list" and sz :: u64
  assumes "stable buf sz m fmt args"
    and "sz \<le> INT_MAX" "unat buf + unat sz < 2 ^ 64"
    and "length (format_text m fmt args) < 2 ^ 31" "unat buf + length (format_text m fmt args) < 2 ^ 64"
  defines "t \<equiv> format_text m fmt args"
  shows "vsnprintf m buf sz fmt args =
      (if sz = 0 then m else write_bytes m buf (take (unat sz - 1) t @ [0]), of_nat (length t)) \<and>
    snd (vscnprintf m buf sz fmt args) = of_nat (if sz = 0 then 0 else min (length t) (unat sz - 1))"
  using vsnprintf_out[OF assms(1-5)] vscnprintf_out[OF assms(1-5)] unfolding t_def by simp

text \<open>The format \<open>n=%4d\<close>.\<close>

definition sample_format :: "u8 list" where
  "sample_format = map of_char ''n=%4d''"

lemma sample_items:
  "format_items m sample_format [42] zero_spec =
     [Raw [0x6e, 0x3d], Num 42 \<lparr>spec_type = FORMAT_TYPE_INT, field_width = 4, flags = SIGN, base = 10, precision = - 1\<rparr>]"
  by code_simp

theorem vsnprintf_writes_witness:
  "vsnprintf (\<lambda>_. 0) 0x100 16 sample_format [42] =
     (write_bytes (\<lambda>_. 0) 0x100 [0x6e, 0x3d, 0x20, 0x20, 0x34, 0x32, 0], 6)"
proof -
  have "render (Num 42 \<lparr>spec_type = FORMAT_TYPE_INT, field_width = 4, flags = SIGN, base = 10, precision = - 1\<rparr>) = [0x20, 0x20, 0x34, 0x32]"
    by code_simp
  then have t: "format_text m sample_format [42] = [0x6e, 0x3d, 0x20, 0x20, 0x34, 0x32]" for m
    by (simp add: format_text_def sample_items del: render.simps) simp
  have "stable 0x100 16 (\<lambda>_. 0) sample_format [42]" by (simp add: stable_def sample_items)
  from vsnprintf_writes[OF this] show ?thesis by (simp add: t INT_MAX_def)
qed

end
