(* ===== verification/Console.thy ===== *)
theory Console
  imports Timing Vsprintf
begin

unbundle bit_operations_syntax

text \<open>
  The consoles and the log: the text screen (kernel/vgacon.c), the serial port
  (kernel/uart8250.c), the debug port of emulators (kernel/porte9.c) and \<open>vprintk\<close> (lib/printk.c),
  which formats a line and hands it to every registered console. The state is the memory, with the
  screen at 0xb8000, and the ports. A console may wait forever, so that writing returns an option.
  The lock of \<open>vprintk\<close> is in theory Spinlock.
\<close>

type_synonym con_state = "mem \<times> io"
type_synonym con_write = "u8 list \<Rightarrow> con_state \<Rightarrow> con_state option"

section \<open>kernel/vgacon.c\<close>

definition vga_vram_base :: u64 where "vga_vram_base = 0xb8000"
definition vga_video_num_columns :: u32 where "vga_video_num_columns = 80"
definition vga_video_num_lines :: u32 where "vga_video_num_lines = 25 - 1"

abbreviation (input) VGA_CRT_IC :: u16 where "VGA_CRT_IC \<equiv> 0x3D4"
abbreviation (input) VGA_CRT_DC :: u16 where "VGA_CRT_DC \<equiv> 0x3D5"
abbreviation (input) VGA_CRTC_CURSOR_HI :: u8 where "VGA_CRTC_CURSOR_HI \<equiv> 0x0E"
abbreviation (input) VGA_CRTC_CURSOR_LO :: u8 where "VGA_CRTC_CURSOR_LO \<equiv> 0x0F"

definition vga_rcrt :: "device \<Rightarrow> u8 \<Rightarrow> io \<Rightarrow> u8 \<times> io" where
  "vga_rcrt d reg s = inb d VGA_CRT_DC (outb reg VGA_CRT_IC s)"

definition vga_wcrt :: "u8 \<Rightarrow> u8 \<Rightarrow> io \<Rightarrow> io" where
  "vga_wcrt reg val s = outb val VGA_CRT_DC (outb reg VGA_CRT_IC s)"

definition read16 :: "mem \<Rightarrow> u64 \<Rightarrow> u16" where
  "read16 m a = le_word (read_bytes m a 2)"

definition write16 :: "mem \<Rightarrow> u64 \<Rightarrow> u16 \<Rightarrow> mem" where
  "write16 m a v = write_bytes m a (le_bytes 2 v)"

definition vgacon_putc :: "u16 \<Rightarrow> u8 \<Rightarrow> mem \<Rightarrow> u16 \<times> mem" where
  "vgacon_putc cur c m =
     (let sz = ucast (vga_video_num_columns * vga_video_num_lines) :: u16;
          p = vga_vram_base;
          (cur, m) =
            (if c = 0x0a then (cur + ucast (vga_video_num_columns - ucast cur mod vga_video_num_columns), m)
             else (cur + 1, write16 m (p + 2 * ucast cur) (ucast c OR 0x0700)))
      in if cur \<ge> sz
         then
           let m = memmove m p (p + 2 * ucast vga_video_num_columns) (2 * ucast (ucast sz - vga_video_num_columns));
               m = memset m (p + 2 * ucast sz - 2 * ucast vga_video_num_columns) 0 (2 * ucast vga_video_num_columns)
           in (cur - ucast vga_video_num_columns, m)
         else (cur, m))"

fun vgacon_puts :: "u8 list \<Rightarrow> u16 \<Rightarrow> mem \<Rightarrow> u16 \<times> mem" where
  "vgacon_puts [] cur m = (cur, m)"
| "vgacon_puts (c # cs) cur m = (let (cur, m) = vgacon_putc cur c m in vgacon_puts cs cur m)"

definition vgacon_write :: "device \<Rightarrow> con_write" where
  "vgacon_write d bs st =
     (let (m, s) = st;
          (hi, s) = vga_rcrt d VGA_CRTC_CURSOR_HI s;
          cur = push_bit 8 (ucast hi);
          (lo, s) = vga_rcrt d VGA_CRTC_CURSOR_LO s;
          cur = cur OR ucast lo;
          (cur, m) = vgacon_puts bs cur m;
          s = vga_wcrt VGA_CRTC_CURSOR_HI (ucast (drop_bit 8 cur)) s;
          s = vga_wcrt VGA_CRTC_CURSOR_LO (ucast (cur AND 0xff)) s
      in Some (m, s))"

section \<open>kernel/uart8250.c\<close>

definition UART_CLK :: u32 where "UART_CLK = 115200"
definition UART_BAUD :: u32 where "UART_BAUD = 19200"

definition uart8250_in :: "device \<Rightarrow> u16 \<Rightarrow> u16 \<Rightarrow> io \<Rightarrow> u8 \<times> io" where
  "uart8250_in d iobase offset s = inb d (iobase + offset) s"

definition uart8250_out :: "u16 \<Rightarrow> u16 \<Rightarrow> u8 \<Rightarrow> io \<Rightarrow> io" where
  "uart8250_out iobase offset val s = outb val (iobase + offset) s"

text \<open>The wait for both bits \<open>UART_LSR_TEMT | UART_LSR_THRE\<close> of the line status register, at offset 5.\<close>

partial_function (option) uart8250_wait :: "device \<Rightarrow> u16 \<Rightarrow> io \<Rightarrow> io option" where
  "uart8250_wait d iobase s =
     (let (status, s') = uart8250_in d iobase 5 s
      in if status AND 0x60 = 0x60 then Some s' else uart8250_wait d iobase s')"

definition uart8250_putc :: "device \<Rightarrow> u16 \<Rightarrow> u8 \<Rightarrow> io \<Rightarrow> io option" where
  "uart8250_putc d iobase c s = uart8250_wait d iobase (uart8250_out iobase 0 c s)"

fun uart8250_puts :: "device \<Rightarrow> u16 \<Rightarrow> u8 list \<Rightarrow> io \<Rightarrow> io option" where
  "uart8250_puts d iobase [] s = Some s"
| "uart8250_puts d iobase (c # cs) s = Option.bind (uart8250_putc d iobase c s) (uart8250_puts d iobase cs)"

definition uart8250_write :: "device \<Rightarrow> u16 \<Rightarrow> con_write" where
  "uart8250_write d iobase bs st = (case st of (m, s) \<Rightarrow> map_option (\<lambda>s. (m, s)) (uart8250_puts d iobase bs s))"

definition init_port :: "device \<Rightarrow> u16 \<Rightarrow> io \<Rightarrow> io" where
  "init_port d iobase s =
     (let s = uart8250_out iobase 3 0x3 s;
          (ier, s) = uart8250_in d iobase 1 s;
          s = uart8250_out iobase 1 (ier AND 0x40) s;
          s = uart8250_out iobase 2 0 s;
          s = uart8250_out iobase 4 0x3 s;
          divisor = UART_CLK div UART_BAUD;
          (c, s) = uart8250_in d iobase 3 s;
          s = uart8250_out iobase 3 (c OR 0x80) s;
          s = uart8250_out iobase 0 (ucast (divisor AND 0xff)) s;
          s = uart8250_out iobase 1 (ucast (drop_bit 8 divisor AND 0xff)) s
      in uart8250_out iobase 3 (c AND NOT 0x80) s)"

text \<open>The one port of \<open>ports\<close> is at 0x3f8; it is registered unless its status reads 0xff.\<close>

definition register_console :: "con_write \<Rightarrow> con_write list \<Rightarrow> con_write list" where
  "register_console newcon console_drivers = console_drivers @ [newcon]"

definition uart8250_init :: "device \<Rightarrow> con_write list \<Rightarrow> io \<Rightarrow> con_write list \<times> io" where
  "uart8250_init d console_drivers s =
     (let s = init_port d 0x3f8 s;
          (status, s) = uart8250_in d 0x3f8 5 s
      in if status = 0xff then (console_drivers, s) else (register_console (uart8250_write d 0x3f8) console_drivers, s))"

definition vgacon_init :: "device \<Rightarrow> con_write list \<Rightarrow> con_write list" where
  "vgacon_init d console_drivers = register_console (vgacon_write d) console_drivers"

section \<open>kernel/porte9.c\<close>

definition END_COLOR :: "u8 list" where "END_COLOR = [0x1b, 0x5b, 0x30, 0x6d]"

text \<open>The prefix is a string or \<open>NULL\<close>.\<close>

definition porte9_write :: "u8 list option \<Rightarrow> con_write" where
  "porte9_write prefix bs st =
     (let (m, s) = st;
          s = (case prefix of None \<Rightarrow> s | Some p \<Rightarrow> outsb 0xe9 p s);
          s = outsb 0xe9 bs s;
          s = outsb 0xe9 END_COLOR s
      in Some (m, s))"

definition porte9_init :: "u8 list \<Rightarrow> con_write list \<Rightarrow> con_write list" where
  "porte9_init p console_drivers = register_console (porte9_write (Some p)) console_drivers"

section \<open>lib/printk.c\<close>

definition LOG_LINE_MAX :: u64 where "LOG_LINE_MAX = 1024"
definition LOGLEVEL_EMERG :: int where "LOGLEVEL_EMERG = 0"
definition LOGLEVEL_INFO :: int where "LOGLEVEL_INFO = 6"
definition LOGLEVEL_DEBUG :: int where "LOGLEVEL_DEBUG = 7"
definition LOGLEVEL_CONT :: int where "LOGLEVEL_CONT = - 1"
definition LOGLEVEL_DEFAULT :: int where "LOGLEVEL_DEFAULT = LOGLEVEL_INFO"

definition prefix_format :: "u8 list" where
  "prefix_format = map of_char ''[%5lu.%06lu] ''"

definition pr_prefix :: "device \<Rightarrow> u64 \<Rightarrow> u64 \<Rightarrow> u64 \<Rightarrow> con_state \<Rightarrow> u64 \<times> con_state" where
  "pr_prefix d tsc_khz buf sz st =
     (let (m, io) = st;
          (s, io) = uptime d tsc_khz io;
          (s, us) = do_div s 1000000;
          (m, len) = scnprintf m buf sz prefix_format [s, ucast us]
      in (scast len, m, io))"

fun write_consoles :: "con_write list \<Rightarrow> u8 list \<Rightarrow> con_state \<Rightarrow> con_state option" where
  "write_consoles [] bs st = Some st"
| "write_consoles (con # cons) bs st = Option.bind (con bs st) (write_consoles cons bs)"

text \<open>The buffer is a static array at \<open>buf\<close>; \<open>loglevel\<close> and \<open>curlevel\<close> are never assigned.\<close>

definition vprintk :: "device \<Rightarrow> u64 \<Rightarrow> con_write list \<Rightarrow> u64 \<Rightarrow> int \<Rightarrow> u8 list \<Rightarrow> u64 list \<Rightarrow> con_state \<Rightarrow> (u32 \<times> con_state) option" where
  "vprintk d tsc_khz console_drivers buf level fmt args st =
     (let loglevel = LOGLEVEL_DEFAULT;
          curlevel = LOGLEVEL_DEFAULT;
          thislevel = (if level = LOGLEVEL_CONT then curlevel else level)
      in if thislevel > loglevel then Some (0, st)
         else
           let (len, st) = (if level = LOGLEVEL_CONT then (0, st) else pr_prefix d tsc_khz buf LOG_LINE_MAX st);
               (m, io) = st;
               (m, n) = vscnprintf m (buf + len) (LOG_LINE_MAX - len) fmt args;
               len = len + scast n
           in map_option (\<lambda>st. (ucast len, st)) (write_consoles console_drivers (read_bytes m buf (unat len)) (m, io)))"

definition printk :: "device \<Rightarrow> u64 \<Rightarrow> con_write list \<Rightarrow> u64 \<Rightarrow> int \<Rightarrow> u8 list \<Rightarrow> u64 list \<Rightarrow> con_state \<Rightarrow> (u32 \<times> con_state) option" where
  "printk = vprintk"

section \<open>The screen as an array of cells\<close>

text \<open>
  \<open>screen_shows m cells\<close>: the screen holds the cells, row by row. \<open>putc_spec\<close>: what a character does to the
  cells and the cursor.
\<close>

definition screen_shows :: "mem \<Rightarrow> u16 list \<Rightarrow> bool" where
  "screen_shows m cells \<longleftrightarrow> length cells = 1920 \<and> read_bytes m vga_vram_base 3840 = concat (map (le_bytes 2) cells)"

definition putc_spec :: "u16 list \<times> nat \<Rightarrow> u8 \<Rightarrow> u16 list \<times> nat" where
  "putc_spec st c =
     (let (cells, cur) = st;
          (cells, cur) = (if c = 0x0a then (cells, (cur div 80 + 1) * 80) else (cells[cur := ucast c OR 0x0700], cur + 1))
      in if 1920 \<le> cur then (drop 80 cells @ replicate 80 0, cur - 80) else (cells, cur))"

lemma blocks_take_drop:
  assumes "\<And>x. length (f x) = k"
  shows "take (k * n) (concat (map f xs)) = concat (map f (take n xs))" "drop (k * n) (concat (map f xs)) = concat (map f (drop n xs))"
proof -
  have "take (k * n) (concat (map f xs)) = concat (map f (take n xs)) \<and> drop (k * n) (concat (map f xs)) = concat (map f (drop n xs))"
  proof (induction xs arbitrary: n)
    case (Cons x xs)
    then show ?case using assms by (cases n) simp_all
  qed simp
  then show "take (k * n) (concat (map f xs)) = concat (map f (take n xs))" "drop (k * n) (concat (map f xs)) = concat (map f (drop n xs))" by simp_all
qed

lemma read_write_within:
  assumes "k + length bs \<le> n" "n < 2 ^ 64"
  shows "read_bytes (write_bytes m (a + of_nat k) bs) a n = take k (read_bytes m a n) @ bs @ drop (k + length bs) (read_bytes m a n)"
proof (rule nth_equalityI)
  fix i assume "i < length (read_bytes (write_bytes m (a + of_nat k) bs) a n)"
  then have i: "i < n" by simp
  have d: "a + of_nat i - (a + of_nat k) = of_nat i - (of_nat k :: u64)" by simp
  have u: "unat (of_nat i :: u64) = i" "unat (of_nat k :: u64) = k" using i assms by simp_all
  have e: "unat (of_nat i - of_nat k :: u64) = (if k \<le> i then i - k else i + 2 ^ 64 - k)"
    using unat_sub_if'[of "of_nat i :: u64" "of_nat k"] unfolding u by simp
  have "k \<le> n" using assms(1) by simp
  then show "read_bytes (write_bytes m (a + of_nat k) bs) a n ! i = (take k (read_bytes m a n) @ bs @ drop (k + length bs) (read_bytes m a n)) ! i"
    using i assms e by (auto simp: read_bytes_def write_bytes_def d nth_append)
qed (use assms(1) in simp)

lemma read_bytes_drop: "drop k (read_bytes m a n) = read_bytes m (a + of_nat k) (n - k)"
proof (rule nth_equalityI)
  fix i assume "i < length (drop k (read_bytes m a n))"
  then have "k + i < n" "i < n - k" by simp_all
  then show "drop k (read_bytes m a n) ! i = read_bytes m (a + of_nat k) (n - k) ! i" by (simp add: read_bytes_def add.assoc)
qed simp

lemma write_outside:
  assumes "k + length bs \<le> n" "n \<le> unat (x - a)"
  shows "write_bytes m (a + of_nat k) bs x = m x"
proof (rule write_bytes_other)
  have u: "unat (of_nat k :: u64) = k" using assms unat_lt_64[of "x - a"] by simp
  then have "unat (x - a - of_nat k) = unat (x - a) - k" using assms by (subst unat_sub) (simp_all add: word_le_nat_alt)
  then show "length bs \<le> unat (x - (a + of_nat k))" using assms unfolding diff_diff_add[symmetric] by simp
qed

lemma cell_write:
  assumes "screen_shows m cells" "cur < 1920"
  shows "screen_shows (write16 m (vga_vram_base + of_nat (2 * cur)) v) (cells[cur := v])"
proof -
  let ?R = "concat (map (le_bytes 2) cells)"
  have c: "length cells = 1920" "read_bytes m vga_vram_base 3840 = ?R" using assms(1) by (simp_all add: screen_shows_def)
  have "read_bytes (write_bytes m (vga_vram_base + of_nat (2 * cur)) (le_bytes 2 v)) vga_vram_base 3840 =
      take (2 * cur) ?R @ le_bytes 2 v @ drop (2 * cur + 2) ?R"
    using read_write_within[of "2 * cur" "le_bytes 2 v" 3840 m vga_vram_base] assms(2) c(2) by simp
  also have "2 * cur + 2 = 2 * Suc cur" by simp
  also have "take (2 * cur) ?R @ le_bytes 2 v @ drop (2 * Suc cur) ?R = concat (map (le_bytes 2) (cells[cur := v]))"
    using c(1) assms(2) by (simp only: blocks_take_drop[where f = "le_bytes 2" and k = 2, OF length_le_bytes] upd_conv_take_nth_drop) simp
  finally show ?thesis using c(1) by (simp add: screen_shows_def write16_def)
qed

lemma scroll_screen:
  assumes "screen_shows m cells"
  defines "m1 \<equiv> memmove m vga_vram_base (vga_vram_base + 160) 3680"
  shows "screen_shows (memset m1 (vga_vram_base + 3680) 0 160) (drop 80 cells @ replicate 80 0)"
proof -
  let ?R = "concat (map (le_bytes 2) cells)"
  have c: "length cells = 1920" "read_bytes m vga_vram_base 3840 = ?R" using assms(1) by (simp_all add: screen_shows_def)
  have len: "length ?R = 3840" using c(2) length_read_bytes by metis
  have m1: "m1 = write_bytes m (vga_vram_base + of_nat 0) (drop 160 ?R)"
    using memmove_write[of vga_vram_base 3680 "vga_vram_base + 160" m] read_bytes_drop[of 160 m vga_vram_base 3840] c(2)
    by (simp add: m1_def vga_vram_base_def)
  have r1: "read_bytes m1 vga_vram_base 3840 = drop 160 ?R @ drop 3680 ?R"
    unfolding m1 using read_write_within[of 0 "drop 160 ?R" 3840 m vga_vram_base] len c(2) by simp
  have ms: "memset m1 (vga_vram_base + 3680) 0 160 = write_bytes m1 (vga_vram_base + of_nat 3680) (replicate 160 0)"
    using memset_loop_write[of 160 m1 "vga_vram_base + 3680" 0] by (simp add: memset_def)
  have "read_bytes (memset m1 (vga_vram_base + 3680) 0 160) vga_vram_base 3840 = drop 160 ?R @ replicate 160 0"
    unfolding ms using read_write_within[of 3680 "replicate 160 0" 3840 m1 vga_vram_base] len r1 by simp
  moreover have "drop (2 * 80) ?R = concat (map (le_bytes 2) (drop 80 cells))" by (rule blocks_take_drop(2)) simp
  moreover have "concat (map (le_bytes 2) (replicate n (0 :: u16))) = replicate (2 * n) 0" for n
    by (induction n) (simp_all add: numeral_2_eq_2)
  ultimately show ?thesis using c(1) by (simp add: screen_shows_def)
qed

text \<open>The bytes of the screen, and what stays outside.\<close>

definition off_screen :: "mem \<Rightarrow> mem \<Rightarrow> bool" where
  "off_screen m m' \<longleftrightarrow> (\<forall>x. 3840 \<le> unat (x - vga_vram_base) \<longrightarrow> m' x = m x)"

lemma off_screen_trans: "off_screen m m' \<Longrightarrow> off_screen m' m'' \<Longrightarrow> off_screen m m''"
  by (simp add: off_screen_def)

lemma off_screen_write: "k + length bs \<le> 3840 \<Longrightarrow> off_screen m (write_bytes m (vga_vram_base + of_nat k) bs)"
  by (simp add: off_screen_def write_outside)

lemma scroll_off_screen:
  "off_screen m (memset (memmove m vga_vram_base (vga_vram_base + 160) 3680) (vga_vram_base + 3680) 0 160)"
proof (rule off_screen_trans)
  show "off_screen m (memmove m vga_vram_base (vga_vram_base + 160) 3680)"
    using memmove_write[of vga_vram_base 3680 "vga_vram_base + 160" m] off_screen_write[of 0 "read_bytes m (vga_vram_base + 160) 3680"]
    by (simp add: vga_vram_base_def)
  show "off_screen m1 (memset m1 (vga_vram_base + 3680) 0 160)" for m1
    using memset_loop_write[of 160 m1 "vga_vram_base + 3680" 0] off_screen_write[of 3680 "replicate 160 0"] by (simp add: memset_def)
qed

lemma putc_refines:
  assumes "screen_shows m cells" "unat cur < 1920" "vgacon_putc cur c m = (cur', m')"
  shows "screen_shows m' (fst (putc_spec (cells, unat cur) c)) \<and> unat cur' = snd (putc_spec (cells, unat cur) c) \<and>
    unat cur' < 1920 \<and> off_screen m m'"
proof -
  define cur1 where "cur1 = (if c = 0x0a then cur + ucast (80 - ucast cur mod 80 :: u32) else cur + 1)"
  define m1 where "m1 = (if c = 0x0a then m else write16 m (vga_vram_base + 2 * ucast cur) (ucast c OR 0x0700))"
  define cells1 where "cells1 = (if c = 0x0a then cells else cells[unat cur := ucast c OR 0x0700])"
  have scroll: "(2 * ucast (ucast (0x780 :: u16) - 0x50 :: u32) :: u64) = 3680" by simp
  have putc: "vgacon_putc cur c m =
      (if 1920 \<le> cur1 then (cur1 - 80, memset (memmove m1 vga_vram_base (vga_vram_base + 160) 3680) (vga_vram_base + 3680) 0 160) else (cur1, m1))"
    unfolding cur1_def m1_def vgacon_putc_def Let_def
    by (simp add: vga_video_num_columns_def vga_video_num_lines_def scroll add.commute[of 3680 vga_vram_base] split: if_split)
  have cells: "screen_shows m1 cells1"
  proof -
    have "of_nat (2 * unat cur) = (2 * ucast cur :: u64)" by simp
    then show ?thesis using assms(1) cell_write[OF assms(1,2), of "ucast c OR 0x0700"] by (simp add: m1_def cells1_def)
  qed
  have off: "off_screen m m1"
  proof -
    have "(2 * ucast cur :: u64) = of_nat (2 * unat cur)" by simp
    then show ?thesis using off_screen_write[of "2 * unat cur" "le_bytes 2 (ucast c OR 0x0700 :: u16)" m] assms(2)
      by (simp add: m1_def write16_def off_screen_def del: of_nat_mult)
  qed
  have cur1: "unat cur1 = (if c = 0x0a then (unat cur div 80 + 1) * 80 else unat cur + 1)"
  proof -
    define r where "r = unat cur mod 80"
    have r: "r < 80" "unat cur = unat cur div 80 * 80 + r" by (simp_all add: r_def)
    have "unat (ucast cur mod 80 :: u32) = r" using assms(2) by (simp add: r_def unat_mod unsigned_ucast_eq take_bit_nat_eq_self)
    then have "unat (80 - ucast cur mod 80 :: u32) = 80 - r" using r(1) by (subst unat_sub) (simp_all add: word_le_nat_alt)
    then have "unat (ucast (80 - ucast cur mod 80 :: u32) :: u16) = 80 - r" by (simp add: unsigned_ucast_eq take_bit_nat_eq_self)
    then have "unat (cur + ucast (80 - ucast cur mod 80 :: u32)) = unat cur + (80 - r)" using assms(2) by (simp add: unat_word_ariths)
    also have "\<dots> = (unat cur div 80 + 1) * 80" using r by simp
    finally show ?thesis using assms(2) by (simp add: cur1_def unat_word_ariths)
  qed
  have le: "unat cur1 \<le> 1920"
  proof -
    have "unat cur div 80 < 24" using assms(2) by simp
    then show ?thesis using cur1 assms(2) by auto
  qed
  have spec: "putc_spec (cells, unat cur) c = (if 1920 \<le> unat cur1 then (drop 80 cells1 @ replicate 80 0, unat cur1 - 80) else (cells1, unat cur1))"
    by (simp add: putc_spec_def cur1 cells1_def)
  show ?thesis
  proof (cases "1920 \<le> unat cur1")
    case True
    then have "1920 \<le> cur1" by (simp add: word_le_nat_alt)
    moreover have "unat (cur1 - 80) = unat cur1 - 80" using True by (subst unat_sub) (simp_all add: word_le_nat_alt)
    ultimately show ?thesis
      using assms(3) True le putc spec scroll_screen[OF cells] off_screen_trans[OF off scroll_off_screen] by simp
  next
    case False
    then have "\<not> 1920 \<le> cur1" by (simp add: word_le_nat_alt)
    then show ?thesis using assms(3) False putc spec cells off by simp
  qed
qed

lemma puts_refines:
  assumes "screen_shows m cells" "unat cur < 1920" "vgacon_puts bs cur m = (cur', m')"
  shows "screen_shows m' (fst (foldl putc_spec (cells, unat cur) bs)) \<and> unat cur' = snd (foldl putc_spec (cells, unat cur) bs) \<and>
    unat cur' < 1920 \<and> off_screen m m'"
  using assms
proof (induction bs arbitrary: cells cur m)
  case (Cons c bs)
  obtain cur1 m1 where p: "vgacon_putc cur c m = (cur1, m1)" by force
  note P = putc_refines[OF Cons.prems(1,2) p]
  then have "putc_spec (cells, unat cur) c = (fst (putc_spec (cells, unat cur) c), unat cur1)" by (simp add: prod_eq_iff)
  moreover have "vgacon_puts bs cur1 m1 = (cur', m')" using Cons.prems(3) p by simp
  ultimately show ?case using Cons.IH[of m1 "fst (putc_spec (cells, unat cur) c)" cur1] P off_screen_trans by (auto simp del: split_paired_Ex)
qed (simp add: off_screen_def)

section \<open>One line of the log\<close>

text \<open>The format of the prefix: seconds in five columns, microseconds in six digits.\<close>

definition seconds_spec :: printf_spec where
  "seconds_spec = \<lparr>spec_type = FORMAT_TYPE_ULONG, field_width = 5, flags = 0, base = 10, precision = - 1\<rparr>"

definition micros_spec :: printf_spec where
  "micros_spec = \<lparr>spec_type = FORMAT_TYPE_ULONG, field_width = 6, flags = ZEROPAD, base = 10, precision = - 1\<rparr>"

lemma prefix_items:
  "format_items m prefix_format [s, us] zero_spec = [Raw [0x5b], Num s seconds_spec, Raw [0x2e], Num us micros_spec, Raw [0x5d, 0x20]]"
  by code_simp

definition decimal :: "u64 \<Rightarrow> u8 list" where
  "decimal n = digit_chars False (digits_of 10 (unat n))"

definition time_text :: "u64 \<Rightarrow> u8 list" where
  "time_text t =
     (let s = decimal (t div 1000000); us = decimal (t mod 1000000)
      in [0x5b] @ replicate (5 - length s) 0x20 @ s @ [0x2e] @ replicate (6 - length us) 0x30 @ us @ [0x5d, 0x20])"

lemma length_decimal: "length (decimal n) \<le> 22"
  using number_digits_bound[of 10 n] by (simp add: decimal_def digit_chars_def)

lemma length_time_text: "length (time_text t) \<le> 48"
  using length_decimal[of "t div 1000000"] length_decimal[of "t mod 1000000"] by (simp add: time_text_def Let_def)

lemma prefix_text_time: "format_text m prefix_format [t div 1000000, t mod 1000000] = time_text t"
proof -
  have f: "\<not> flag SIGN seconds_spec" "\<not> flag SPECIAL seconds_spec" "\<not> flag LEFT seconds_spec" "\<not> flag ZEROPAD seconds_spec" "\<not> flag SMALL seconds_spec"
    "\<not> flag SIGN micros_spec" "\<not> flag SPECIAL micros_spec" "\<not> flag LEFT micros_spec" "flag ZEROPAD micros_spec" "\<not> flag SMALL micros_spec"
    by code_simp+
  have "number_text n seconds_spec = replicate (5 - length (decimal n)) 0x20 @ decimal n" for n
    using f by (simp add: number_text_def sign_text_def prefix_text_def digits_text_def Let_def decimal_def) (simp add: seconds_spec_def)
  moreover have "number_text n micros_spec = replicate (6 - length (decimal n)) 0x30 @ decimal n" for n
    using f by (simp add: number_text_def sign_text_def prefix_text_def digits_text_def Let_def decimal_def) (simp add: micros_spec_def)
  ultimately show ?thesis by (simp add: format_text_def prefix_items time_text_def Let_def)
qed

lemma pr_prefix_time:
  fixes d :: device and tsc_khz :: u64 and s :: io
  assumes "unat buf + 2048 < 2 ^ 64"
  defines "t \<equiv> fst (uptime d tsc_khz s)"
  shows "pr_prefix d tsc_khz buf 1024 (m, s) = (of_nat (length (time_text t)), write_bytes m buf (time_text t @ [0]), snd (uptime d tsc_khz s))"
proof -
  let ?args = "[t div 1000000, t mod 1000000]"
  have us: "(ucast (ucast (t mod 1000000) :: u32) :: u64) = t mod 1000000"
  proof -
    have "unat (t mod 1000000) < 2 ^ 32" by (simp add: unat_mod)
    then show ?thesis by (simp add: word_unat_eq_iff unsigned_ucast_eq unsigned_take_bit_eq take_bit_nat_eq_self)
  qed
  have st: "stable buf 1024 m prefix_format ?args" by (simp add: stable_def prefix_items)
  have len: "length (time_text t) < 1024" using length_time_text[of t] by simp
  have "vscnprintf m buf 1024 prefix_format ?args = (write_bytes m buf (time_text t @ [0]), of_nat (length (time_text t)))"
    using vscnprintf_out[OF st] len assms(1) by (simp add: prefix_text_time INT_MAX_def)
  moreover have "scast (of_nat (length (time_text t)) :: u32) = (of_nat (length (time_text t)) :: u64)"
    using length_casts(2)[of "length (time_text t)"] len by simp
  ultimately show ?thesis
    using us by (simp add: pr_prefix_def scnprintf_def do_div_def t_def case_prod_unfold Let_def)
qed

text \<open>Formatting the message behind what the buffer holds already, \<open>p\<close>.\<close>

lemma message_behind:
  fixes m :: mem and fmt p :: "u8 list" and args :: "u64 list"
  assumes "stable buf 1024 m fmt args" "length (format_text m fmt args) < 2 ^ 31" "unat buf + 2 ^ 32 < 2 ^ 64"
    and "length p < 1024" "m1 = (if p = [] then m else write_bytes m buf (p @ [0]))"
  defines "msg \<equiv> take (1023 - length p) (format_text m fmt args)"
  obtains m2 where "vscnprintf m1 (buf + of_nat (length p)) (1024 - of_nat (length p)) fmt args = (m2, of_nat (length msg))"
    "read_bytes m2 buf (length p + length msg) = p @ msg" "\<forall>x. 1024 \<le> unat (x - buf) \<longrightarrow> m2 x = m x"
proof -
  let ?n = "length p"
  let ?b = "buf + of_nat ?n"
  let ?sz = "1024 - of_nat ?n :: u64"
  have sz: "unat ?sz = 1024 - ?n" using assms(4) by (subst unat_sub) (simp_all add: word_le_nat_alt)
  have b: "unat ?b = unat buf + ?n" using assms(3,4) by (simp add: unat_word_ariths)
  have agree1: "m1 x = m x" if "1024 \<le> unat (x - buf)" for x
    using assms(4,5) that write_outside[of 0 "p @ [0]" 1024 x buf m] by simp
  have sub: "1024 \<le> unat (x - buf) \<Longrightarrow> unat ?sz \<le> unat (x - ?b)" for x
  proof -
    assume x: "1024 \<le> unat (x - buf)"
    have n: "unat (of_nat ?n :: u64) = ?n" using assms(4) by simp
    then have "unat (x - buf - of_nat ?n) = unat (x - buf) - ?n" using x assms(4) by (subst unat_sub) (simp_all add: word_le_nat_alt)
    then show "unat ?sz \<le> unat (x - ?b)" using x unfolding diff_diff_add[symmetric] sz by simp
  qed
  have S: "\<forall>x. 1024 \<le> unat (x - buf) \<longrightarrow> m' x = m x \<Longrightarrow> format_items m' fmt args zero_spec = format_items m fmt args zero_spec" for m'
  proof -
    have k: "unat (1024 :: u64) = 1024" by simp
    show "\<forall>x. 1024 \<le> unat (x - buf) \<longrightarrow> m' x = m x \<Longrightarrow> format_items m' fmt args zero_spec = format_items m fmt args zero_spec"
      using assms(1) unfolding stable_def k by blast
  qed
  have items: "format_items m' fmt args zero_spec = format_items m fmt args zero_spec" if o: "\<forall>x. unat ?sz \<le> unat (x - ?b) \<longrightarrow> m' x = m1 x" for m'
  proof (intro S allI impI)
    fix x assume x: "1024 \<le> unat (x - buf)"
    then show "m' x = m x" using o[rule_format, OF sub[OF x]] agree1[OF x] by simp
  qed
  then have st: "stable ?b ?sz m1 fmt args" and ft: "format_text m1 fmt args = format_text m fmt args"
    by (auto simp: stable_def format_text_def)
  define m2 where "m2 = write_bytes m1 ?b (msg @ [0])"
  have nz: "?sz \<noteq> 0" using sz assms(4) by (metis diff_is_0_eq not_less unat_0)
  have "vscnprintf m1 ?b ?sz fmt args = (m2, of_nat (min (length (format_text m fmt args)) (1023 - ?n)))"
  proof -
    have "?sz \<le> INT_MAX" using sz by (simp add: INT_MAX_def word_le_nat_alt)
    moreover have "unat ?b + unat ?sz < 2 ^ 64" "unat ?b + length (format_text m1 fmt args) < 2 ^ 64"
      using b sz assms(2,3,4) ft by simp_all
    ultimately show ?thesis
      using vscnprintf_out[OF st] assms(2) ft nz sz by (simp add: m2_def msg_def)
  qed
  then have v: "vscnprintf m1 ?b ?sz fmt args = (m2, of_nat (length msg))" by (simp add: msg_def min.commute)
  have lm: "?n + length (msg @ [0]) \<le> 1024" using assms(4) by (simp add: msg_def)
  have R: "read_bytes m2 buf 1024 = take ?n (read_bytes m1 buf 1024) @ (msg @ [0]) @ drop (?n + length (msg @ [0])) (read_bytes m1 buf 1024)"
    unfolding m2_def using lm by (intro read_write_within) simp_all
  have P: "take ?n (read_bytes m1 buf 1024) = p"
    using read_write_within[of 0 "p @ [0]" 1024 m buf] assms(4,5) by simp
  have "read_bytes m2 buf (?n + length msg) = take (?n + length msg) (read_bytes m2 buf 1024)"
    using lm by (simp add: read_bytes_def take_map)
  then have r: "read_bytes m2 buf (?n + length msg) = p @ msg" unfolding R P by simp
  have "m2 x = m x" if "1024 \<le> unat (x - buf)" for x
    using write_outside[OF lm that, of m1] agree1[OF that] by (simp add: m2_def)
  then show thesis using that[OF v r] by blast
qed

section \<open>What a console may do\<close>

text \<open>
  The contract of the registered consoles: writing a line returns, and changes no memory outside the
  window of the video memory that a 16-bit cursor can reach.
\<close>

definition video_only :: "mem \<Rightarrow> mem \<Rightarrow> bool" where
  "video_only m m' \<longleftrightarrow> (\<forall>x. 0x20000 \<le> unat (x - vga_vram_base) \<longrightarrow> m' x = m x)"

lemma video_only_refl [simp]: "video_only m m"
  by (simp add: video_only_def)

lemma video_only_trans: "video_only m m' \<Longrightarrow> video_only m' m'' \<Longrightarrow> video_only m m''"
  by (simp add: video_only_def)

locale consoles =
  fixes cons :: "con_write list"
  assumes writes: "w \<in> set cons \<Longrightarrow> \<exists>m' s'. w bs (m, s) = Some (m', s') \<and> video_only m m'"
begin

lemma all_write: "\<exists>m' s'. write_consoles cons bs (m, s) = Some (m', s') \<and> video_only m m'"
proof -
  have "\<exists>m' s'. write_consoles ws bs (m, s) = Some (m', s') \<and> video_only m m'" if "set ws \<subseteq> set cons" for ws
    using that
  proof (induction ws arbitrary: m s)
    case (Cons w ws)
    obtain m1 s1 where "w bs (m, s) = Some (m1, s1)" "video_only m m1" using Cons.prems writes[of w bs m s] by auto
    moreover obtain m2 s2 where "write_consoles ws bs (m1, s1) = Some (m2, s2)" "video_only m1 m2" using Cons by force
    ultimately show ?case using video_only_trans by auto
  qed simp
  then show ?thesis by simp
qed

end

lemma putc_video: "video_only m (snd (vgacon_putc cur c m))"
proof -
  have w: "video_only m (write16 m (vga_vram_base + 2 * ucast cur) v)" for v
  proof -
    have "unat cur < 2 ^ 16" using unat_lt_pow[of cur] by simp
    moreover have "(2 * ucast cur :: u64) = of_nat (2 * unat cur)" by simp
    ultimately show ?thesis using write_outside[of "2 * unat cur" "le_bytes 2 v" "0x20000" _ vga_vram_base m]
      by (simp add: video_only_def write16_def del: of_nat_mult)
  qed
  have off: "video_only m1 m2" if "off_screen m1 m2" for m1 m2 using that by (auto simp: off_screen_def video_only_def)
  have scroll: "(2 * ucast (ucast (0x780 :: u16) - 0x50 :: u32) :: u64) = 3680" by simp
  define m1 where "m1 = (if c = 0x0a then m else write16 m (vga_vram_base + 2 * ucast cur) (ucast c OR 0x0700))"
  have "snd (vgacon_putc cur c m) = m1 \<or>
      snd (vgacon_putc cur c m) = memset (memmove m1 vga_vram_base (vga_vram_base + 160) 3680) (vga_vram_base + 3680) 0 160"
    unfolding m1_def vgacon_putc_def Let_def
    by (simp add: vga_video_num_columns_def vga_video_num_lines_def scroll add.commute[of 3680 vga_vram_base] split: if_split)
  then show ?thesis using w off[OF scroll_off_screen[of m1]] video_only_trans[of m m1] by (auto simp: m1_def)
qed

lemma puts_video: "video_only m (snd (vgacon_puts bs cur m))"
proof (induction bs arbitrary: cur m)
  case (Cons c bs)
  obtain cur1 m1 where p: "vgacon_putc cur c m = (cur1, m1)" by force
  then have "video_only m m1" using putc_video[of m cur c] by simp
  then show ?case using Cons[of m1 cur1] video_only_trans p by auto
qed simp

text \<open>The consoles that \<open>main\<close> registers.\<close>

interpretation main_consoles: consoles "vgacon_init d (porte9_init p [])" for d p
proof
  fix w bs m s assume "w \<in> set (vgacon_init d (porte9_init p []))"
  then consider "w = porte9_write (Some p)" | "w = vgacon_write d" by (auto simp: vgacon_init_def porte9_init_def register_console_def)
  then show "\<exists>m' s'. w bs (m, s) = Some (m', s') \<and> video_only m m'"
  proof cases
    case 1
    then show ?thesis by (simp add: porte9_write_def)
  next
    case 2
    then show ?thesis using puts_video by (auto simp: vgacon_write_def Let_def case_prod_unfold)
  qed
qed

section \<open>Printing a line\<close>

lemma vprintk_line:
  fixes d :: device and s :: io and m :: mem and tsc_khz :: u64 and level :: int
  assumes "stable buf 1024 m fmt args" "length (format_text m fmt args) < 2 ^ 31" "unat buf + 2 ^ 32 < 2 ^ 64"
  defines "line \<equiv> take 1023 ((if level = LOGLEVEL_CONT then [] else time_text (fst (uptime d tsc_khz s))) @ format_text m fmt args)"
    and "s1 \<equiv> if level = LOGLEVEL_CONT then s else snd (uptime d tsc_khz s)"
  shows "if 6 < level then vprintk d tsc_khz cons buf level fmt args (m, s) = Some (0, m, s)
    else \<exists>m'. (\<forall>x. 1024 \<le> unat (x - buf) \<longrightarrow> m' x = m x) \<and>
      vprintk d tsc_khz cons buf level fmt args (m, s) = map_option (\<lambda>st. (of_nat (length line), st)) (write_consoles cons line (m', s1)) \<and>
      (cons = vgacon_init d (porte9_init color []) \<longrightarrow>
        (\<exists>m'' s''. vprintk d tsc_khz cons buf level fmt args (m, s) = Some (of_nat (length line), m'', s'') \<and> video_only m' m''))"
proof (cases "6 < level")
  case True
  then show ?thesis by (simp add: vprintk_def LOGLEVEL_CONT_def LOGLEVEL_DEFAULT_def LOGLEVEL_INFO_def)
next
  case False
  define p where "p = (if level = LOGLEVEL_CONT then [] else time_text (fst (uptime d tsc_khz s)))"
  define m1 where "m1 = (if p = [] then m else write_bytes m buf (p @ [0]))"
  define msg where "msg = take (1023 - length p) (format_text m fmt args)"
  have lp: "length p < 1024" using length_time_text[of "fst (uptime d tsc_khz s)"] by (simp add: p_def)
  have line: "line = p @ msg" using lp by (simp add: line_def msg_def p_def)
  obtain m2 where v: "vscnprintf m1 (buf + of_nat (length p)) (1024 - of_nat (length p)) fmt args = (m2, of_nat (length msg))"
    "read_bytes m2 buf (length p + length msg) = p @ msg" "\<forall>x. 1024 \<le> unat (x - buf) \<longrightarrow> m2 x = m x"
    using message_behind[OF assms(1-3) lp m1_def] unfolding msg_def by blast
  have pre: "(if level = LOGLEVEL_CONT then (0, m, s) else pr_prefix d tsc_khz buf LOG_LINE_MAX (m, s)) = (of_nat (length p), m1, s1)"
  proof -
    have "time_text t \<noteq> []" for t by (simp add: time_text_def Let_def)
    then show ?thesis using pr_prefix_time[where buf = buf and d = d and tsc_khz = tsc_khz and s = s and m = m] assms(3) by (simp add: p_def m1_def s1_def LOG_LINE_MAX_def)
  qed
  have lm: "length p + length msg \<le> 1023" using lp by (simp add: msg_def)
  then have len: "of_nat (length p) + scast (of_nat (length msg) :: u32) = (of_nat (length line) :: u64)"
    using length_casts(2)[of "length msg"] by (simp add: line)
  moreover have "unat (of_nat (length line) :: u64) = length p + length msg" "ucast (of_nat (length line) :: u64) = (of_nat (length line) :: u32)"
    using lm length_casts(1)[of "length line"] by (simp_all add: line del: of_nat_add)
  ultimately have vp: "vprintk d tsc_khz cons buf level fmt args (m, s) =
      map_option (\<lambda>st. (of_nat (length line), st)) (write_consoles cons line (m2, s1))"
    using False pre v unfolding vprintk_def Let_def LOG_LINE_MAX_def
    by (simp add: LOGLEVEL_CONT_def LOGLEVEL_DEFAULT_def LOGLEVEL_INFO_def line)
  obtain m3 s3 where "write_consoles (vgacon_init d (porte9_init color [])) line (m2, s1) = Some (m3, s3)" "video_only m2 m3"
    using main_consoles.all_write by blast
  then have main: "cons = vgacon_init d (porte9_init color []) \<longrightarrow>
      (\<exists>m'' s''. vprintk d tsc_khz cons buf level fmt args (m, s) = Some (of_nat (length line), m'', s'') \<and> video_only m2 m'')"
    using vp by auto
  show ?thesis unfolding if_not_P[OF False] using v(3) vp main by blast
qed

section \<open>Properties\<close>

text \<open>C30: the log. A message above the level is dropped. Otherwise every console gets the same line: the time in seconds and microseconds
  (unless the message continues a line), then the text of the format, together cut to
  1023 bytes; the length of the line is returned. No memory outside the buffer and the video
  window changes, and on the consoles of \<open>main\<close> printing always returns.\<close>

theorem vprintk_prints:
  fixes d :: device and s :: io and m :: mem and tsc_khz :: u64 and level :: int
  assumes "stable buf 1024 m fmt args" "length (format_text m fmt args) < 2 ^ 31" "unat buf + 2 ^ 32 < 2 ^ 64"
  defines "line \<equiv> take 1023 ((if level = LOGLEVEL_CONT then [] else time_text (fst (uptime d tsc_khz s))) @ format_text m fmt args)"
    and "s1 \<equiv> if level = LOGLEVEL_CONT then s else snd (uptime d tsc_khz s)"
  shows "if 6 < level then vprintk d tsc_khz cons buf level fmt args (m, s) = Some (0, m, s)
    else \<exists>m'. (\<forall>x. 1024 \<le> unat (x - buf) \<longrightarrow> m' x = m x) \<and>
      vprintk d tsc_khz cons buf level fmt args (m, s) = map_option (\<lambda>st. (of_nat (length line), st)) (write_consoles cons line (m', s1)) \<and>
      (cons = vgacon_init d (porte9_init color []) \<longrightarrow>
        (\<exists>m'' s''. vprintk d tsc_khz cons buf level fmt args (m, s) = Some (of_nat (length line), m'', s'') \<and> video_only m' m''))"
  unfolding line_def s1_def by (rule vprintk_line[OF assms(1-3)])

theorem vprintk_prints_witness:
  "\<exists>st. vprintk pit_device 0 [] 0x10000 LOGLEVEL_CONT sample_format [42] (\<lambda>_. 0, \<lparr>io_out = [], io_time = 0\<rparr>) = Some (6, st)"
proof -
  have "render (Num 42 \<lparr>spec_type = FORMAT_TYPE_INT, field_width = 4, flags = SIGN, base = 10, precision = - 1\<rparr>) = [0x20, 0x20, 0x34, 0x32]"
    by code_simp
  then have t: "format_text m sample_format [42] = [0x6e, 0x3d, 0x20, 0x20, 0x34, 0x32]" for m
    by (simp add: format_text_def sample_items del: render.simps) simp
  have "stable 0x10000 1024 (\<lambda>_. 0) sample_format [42]" by (simp add: stable_def sample_items)
  from vprintk_prints[OF this, where d = pit_device and s = "\<lparr>io_out = [], io_time = 0\<rparr>" and tsc_khz = 0 and level = LOGLEVEL_CONT and cons = "[]"]
  show ?thesis by (simp add: t LOGLEVEL_CONT_def) blast
qed

text \<open>C33: the text screen. Whatever it shows and wherever the cursor is on it, \<open>vgacon_write\<close> does to the screen in memory what the
  characters do to an array of 24 rows of 80 cells: a newline moves to the start of the next row,
  another character fills the cell under the cursor, and past the last row everything
  scrolls up by one. The cursor stays on the screen and is written back to the registers; no other
  memory changes.\<close>

theorem vgacon_displays:
  fixes d :: device and s :: io
  defines "cur \<equiv> 256 * unat (dev_in d (io_time s + 1) 0x3D5) + unat (dev_in d (io_time s + 3) 0x3D5)"
  assumes "screen_shows m cells" "cur < 1920"
  shows "\<exists>m' s'. vgacon_write d bs (m, s) = Some (m', s') \<and>
    (case foldl putc_spec (cells, cur) bs of (cells', n) \<Rightarrow>
       screen_shows m' cells' \<and> n < 1920 \<and>
       io_out s' = io_out s @ [(0x3D4, 0x0E), (0x3D4, 0x0F), (0x3D4, 0x0E), (0x3D5, of_nat (n div 256)), (0x3D4, 0x0F), (0x3D5, of_nat (n mod 256))]) \<and>
    off_screen m m'"
proof -
  let ?hi = "dev_in d (io_time s + 1) 0x3D5" and ?lo = "dev_in d (io_time s + 3) 0x3D5"
  define c0 where "c0 = (push_bit 8 (ucast ?hi) OR ucast ?lo :: u16)"
  have c0: "unat c0 = cur"
  proof -
    have "push_bit 8 (ucast ?hi) OR ucast ?lo = (push_bit 8 (ucast ?hi) + ucast ?lo :: u16)"
      by (rule disjunctive_add[symmetric]) (auto simp: bit_simps dest: bit_imp_le_length)
    moreover have "unat ?hi < 256" "unat ?lo < 256" using unat_lt_pow[of ?hi] unat_lt_pow[of ?lo] by simp_all
    ultimately show ?thesis by (simp add: c0_def cur_def push_bit_eq_mult unat_word_ariths unsigned_ucast_eq take_bit_nat_eq_self mult.commute)
  qed
  obtain c' m' where p: "vgacon_puts bs c0 m = (c', m')" by force
  note P = puts_refines[OF assms(2) _ p, unfolded c0, OF assms(3)]
  obtain cells' n where f: "foldl putc_spec (cells, cur) bs = (cells', n)" by force
  have n: "unat c' = n" "n < 1920" using P f by simp_all
  have split: "ucast (drop_bit 8 c') = (of_nat (n div 256) :: u8)" "ucast (c' AND 0xff) = (of_nat (n mod 256) :: u8)"
  proof -
    have "unat (drop_bit 8 c') = n div 256" using unat_shift_right[of 8 c'] n(1) by simp
    then show "ucast (drop_bit 8 c') = (of_nat (n div 256) :: u8)" by (metis of_nat_unat)
    have "(0xff :: u16) = mask 8" by (simp add: mask_eq_exp_minus_1)
    then have "unat (c' AND 0xff) = n mod 256" using unat_and_mask[of c' 8] n(1) by simp
    then show "ucast (c' AND 0xff) = (of_nat (n mod 256) :: u8)" by (metis of_nat_unat)
  qed
  have start: "push_bit 8 (ucast (dev_in d (Suc (io_time s)) 0x3D5)) OR ucast (dev_in d (Suc (Suc (Suc (io_time s)))) 0x3D5) = c0"
    by (simp add: c0_def numeral_3_eq_3)
  show ?thesis
    using P f n p split by (simp add: vgacon_write_def vga_rcrt_def vga_wcrt_def inb_def outb_def start)
qed

text \<open>A cleared screen with the cursor at its start.\<close>

lemma cleared_screen: "screen_shows (\<lambda>_. 0) (replicate 1920 0)"
proof -
  have "concat (map (le_bytes 2) (replicate n (0 :: u16))) = replicate (2 * n) 0" for n
    by (induction n) (simp_all add: numeral_2_eq_2)
  moreover have "read_bytes (\<lambda>_. 0) a n = replicate n 0" for a n by (simp add: read_bytes_def map_replicate_const)
  ultimately show ?thesis by (simp add: screen_shows_def)
qed

theorem vgacon_displays_witness:
  "\<exists>m' s'. vgacon_write pit_device [0x41, 0x0a] (\<lambda>_. 0, \<lparr>io_out = [], io_time = 0\<rparr>) = Some (m', s') \<and>
     screen_shows m' (0x741 # replicate 1919 0) \<and> last (io_out s') = (0x3D5, 80)"
proof -
  have "replicate (Suc 1919) (0 :: u16) = 0 # replicate 1919 0" by (rule replicate_Suc)
  then have "(replicate 1920 0)[0 := 0x741 :: u16] = 0x741 # replicate 1919 0" by simp
  then have "foldl putc_spec (replicate 1920 0, 0) [0x41, 0x0a] = (0x741 # replicate 1919 0, 80)" by (simp add: putc_spec_def)
  then show ?thesis
    using vgacon_displays[OF cleared_screen, where d = pit_device and s = "\<lparr>io_out = [], io_time = 0\<rparr>" and bs = "[0x41, 0x0a]"]
    by (auto simp: pit_device_def)
qed

end
