(* ===== verification/Traps.thy ===== *)
theory Traps
  imports Apic Console Vmx_Setup
begin

unbundle bit_operations_syntax

text \<open>
  The descriptor tables: the interrupt descriptor table (kernel/idt.c), the segment and task-state descriptors
  (kernel/traps.c, asm/desc.h) and the entry points for system calls. Bit-fields are words of their width. The
  interrupt table is a list of gates; the segment table and the task state lie in memory, where
  \<open>vmx_vcpu_setup\<close> reads them later. \<open>symbol\<close> gives the link-time address of a symbol and \<open>off\<close> the offset of
  the per-CPU area of a processor.
\<close>

section \<open>Descriptors: asm/desc.h and asm/segment.h\<close>

definition ENTRY_OFFSET :: u64 where "ENTRY_OFFSET = 0xffff800000000000"

definition ENTRY_ADDR :: "u64 \<Rightarrow> u64" where
  "ENTRY_ADDR x = x + ENTRY_OFFSET"

record segment_desc =
  limit0 :: u16
  base0 :: u16
  base1 :: u8
  seg_type :: "4 word"
  seg_s :: "1 word"
  seg_dpl :: "2 word"
  seg_p :: "1 word"
  limit1 :: "4 word"
  seg_avl :: "1 word"
  seg_l :: "1 word"
  seg_d :: "1 word"
  seg_g :: "1 word"
  base2 :: u8

definition GDT_ENTRY_INIT :: "u32 \<Rightarrow> u32 \<Rightarrow> u32 \<Rightarrow> segment_desc" where
  "GDT_ENTRY_INIT fl bas limit =
     \<lparr>limit0 = ucast limit, base0 = ucast bas, base1 = ucast (drop_bit 16 bas AND 0xFF),
      seg_type = ucast (fl AND 0x0f), seg_s = ucast (drop_bit 4 fl AND 0x01), seg_dpl = ucast (drop_bit 5 fl AND 0x03),
      seg_p = ucast (drop_bit 7 fl AND 0x01), limit1 = ucast (drop_bit 16 limit AND 0x0F),
      seg_avl = ucast (drop_bit 12 fl AND 0x01), seg_l = ucast (drop_bit 13 fl AND 0x01),
      seg_d = ucast (drop_bit 14 fl AND 0x01), seg_g = ucast (drop_bit 15 fl AND 0x01),
      base2 = ucast (drop_bit 24 bas AND 0xFF)\<rparr>"

text \<open>The eight bytes of a segment descriptor: bit-fields from the low bit up.\<close>

definition segment_bytes :: "segment_desc \<Rightarrow> u8 list" where
  "segment_bytes d =
     le_bytes 2 (limit0 d) @ le_bytes 2 (base0 d) @
     le_bytes 2 (ucast (base1 d) OR push_bit 8 (ucast (seg_type d)) OR push_bit 12 (ucast (seg_s d)) OR
       push_bit 13 (ucast (seg_dpl d)) OR push_bit 15 (ucast (seg_p d)) :: u16) @
     le_bytes 2 (ucast (limit1 d) OR push_bit 4 (ucast (seg_avl d)) OR push_bit 5 (ucast (seg_l d)) OR
       push_bit 6 (ucast (seg_d d)) OR push_bit 7 (ucast (seg_g d)) OR push_bit 8 (ucast (base2 d)) :: u16)"

record ldttss_desc =
  tss_limit0 :: u16
  tss_base0 :: u16
  tss_base1 :: u8
  tss_type :: "5 word"
  tss_dpl :: "2 word"
  tss_p :: "1 word"
  tss_limit1 :: "4 word"
  tss_zero0 :: "3 word"
  tss_g :: "1 word"
  tss_base2 :: u8
  tss_base3 :: u32
  tss_zero1 :: u32

definition ldttss_bytes :: "ldttss_desc \<Rightarrow> u8 list" where
  "ldttss_bytes d =
     le_bytes 2 (tss_limit0 d) @ le_bytes 2 (tss_base0 d) @
     le_bytes 2 (ucast (tss_base1 d) OR push_bit 8 (ucast (tss_type d)) OR push_bit 13 (ucast (tss_dpl d)) OR
       push_bit 15 (ucast (tss_p d)) :: u16) @
     le_bytes 2 (ucast (tss_limit1 d) OR push_bit 4 (ucast (tss_zero0 d)) OR push_bit 7 (ucast (tss_g d)) OR
       push_bit 8 (ucast (tss_base2 d)) :: u16) @
     le_bytes 4 (tss_base3 d) @ le_bytes 4 (tss_zero1 d)"

abbreviation (input) DESC_TSS :: u32 where "DESC_TSS \<equiv> 0x9"
abbreviation (input) DESC_LDT :: u32 where "DESC_LDT \<equiv> 0x2"

definition set_tssldt_descriptor :: "u64 \<Rightarrow> u32 \<Rightarrow> u32 \<Rightarrow> ldttss_desc" where
  "set_tssldt_descriptor ad type sz =
     \<lparr>tss_limit0 = ucast sz, tss_base0 = ucast ad, tss_base1 = ucast (drop_bit 16 ad AND 0xFF), tss_type = ucast type,
      tss_dpl = 0, tss_p = 1, tss_limit1 = ucast (drop_bit 16 sz AND 0xF), tss_zero0 = 0, tss_g = 0,
      tss_base2 = ucast (drop_bit 24 ad AND 0xFF), tss_base3 = ucast (drop_bit 32 ad), tss_zero1 = 0\<rparr>"

text \<open>\<open>desc\<close> is the descriptor in memory; only its first bytes, as many as the type asks for, are copied.\<close>

definition write_gdt_entry :: "mem \<Rightarrow> u64 \<Rightarrow> u64 \<Rightarrow> u8 list \<Rightarrow> u32 \<Rightarrow> mem" where
  "write_gdt_entry m gdt entry desc type =
     (let sz = (if type = DESC_TSS \<or> type = DESC_LDT then 16 else 8)
      in write_bytes m (gdt + 8 * entry) (take sz desc))"

record desc_ptr =
  table_size :: u16
  table_address :: u64

record idt_bits =
  ist :: "3 word"
  idt_zero :: "5 word"
  gate_type :: "5 word"
  gate_dpl :: "2 word"
  gate_p :: "1 word"

record gate_desc =
  offset_low :: u16
  gate_segment :: u16
  gate_bits :: idt_bits
  offset_middle :: u16
  offset_high :: u32
  gate_reserved :: u32

definition GATE_INTERRUPT :: "5 word" where "GATE_INTERRUPT = 0xE"
definition DPL0 :: "2 word" where "DPL0 = 0"
definition DPL3 :: "2 word" where "DPL3 = 3"
definition DEFAULT_STACK :: "3 word" where "DEFAULT_STACK = 0"
definition DOUBLEFAULT_STACK :: "3 word" where "DOUBLEFAULT_STACK = 1"
definition NR_VECTORS :: nat where "NR_VECTORS = 256"
definition FIRST_EXTERNAL_VECTOR :: nat where "FIRST_EXTERNAL_VECTOR = 0x20"

section \<open>The state\<close>

record trap_state =
  platform :: machine
  idt_table :: "gate_desc list"
  system_vectors :: "u64 list"
  gdtr :: desc_ptr
  idtr :: desc_ptr
  tr :: u16

section \<open>kernel/idt.c\<close>

record idt_data =
  vector :: u32
  segment :: u32
  bits :: idt_bits
  addr :: u64

definition G :: "u32 \<Rightarrow> u64 \<Rightarrow> 3 word \<Rightarrow> 5 word \<Rightarrow> 2 word \<Rightarrow> u32 \<Rightarrow> idt_data" where
  "G v ad stack type dpl seg =
     \<lparr>vector = v, segment = seg, bits = \<lparr>ist = stack, idt_zero = 0, gate_type = type, gate_dpl = dpl, gate_p = 1\<rparr>, addr = ad\<rparr>"

definition INTG :: "u32 \<Rightarrow> u64 \<Rightarrow> idt_data" where
  "INTG v ad = G v ad DEFAULT_STACK GATE_INTERRUPT DPL0 (ucast KERNEL_CS)"

definition SYSG :: "u32 \<Rightarrow> u64 \<Rightarrow> idt_data" where
  "SYSG v ad = G v ad DEFAULT_STACK GATE_INTERRUPT DPL3 (ucast KERNEL_CS)"

definition ISTG :: "u32 \<Rightarrow> u64 \<Rightarrow> 3 word \<Rightarrow> idt_data" where
  "ISTG v ad stack = G v ad stack GATE_INTERRUPT DPL0 (ucast KERNEL_CS)"

abbreviation (input) X86_TRAP_DE :: u32 where "X86_TRAP_DE \<equiv> 0"
abbreviation (input) X86_TRAP_OF :: u32 where "X86_TRAP_OF \<equiv> 4"
abbreviation (input) X86_TRAP_BR :: u32 where "X86_TRAP_BR \<equiv> 5"
abbreviation (input) X86_TRAP_UD :: u32 where "X86_TRAP_UD \<equiv> 6"
abbreviation (input) X86_TRAP_NM :: u32 where "X86_TRAP_NM \<equiv> 7"
abbreviation (input) X86_TRAP_DF :: u32 where "X86_TRAP_DF \<equiv> 8"
abbreviation (input) X86_TRAP_OLD_MF :: u32 where "X86_TRAP_OLD_MF \<equiv> 9"
abbreviation (input) X86_TRAP_TS :: u32 where "X86_TRAP_TS \<equiv> 10"
abbreviation (input) X86_TRAP_NP :: u32 where "X86_TRAP_NP \<equiv> 11"
abbreviation (input) X86_TRAP_SS :: u32 where "X86_TRAP_SS \<equiv> 12"
abbreviation (input) X86_TRAP_GP :: u32 where "X86_TRAP_GP \<equiv> 13"
abbreviation (input) X86_TRAP_PF :: u32 where "X86_TRAP_PF \<equiv> 14"
abbreviation (input) X86_TRAP_SPURIOUS :: u32 where "X86_TRAP_SPURIOUS \<equiv> 15"
abbreviation (input) X86_TRAP_MF :: u32 where "X86_TRAP_MF \<equiv> 16"
abbreviation (input) X86_TRAP_AC :: u32 where "X86_TRAP_AC \<equiv> 17"
abbreviation (input) X86_TRAP_XF :: u32 where "X86_TRAP_XF \<equiv> 19"

definition def_idts :: "(string \<Rightarrow> u64) \<Rightarrow> idt_data list" where
  "def_idts symbol =
     [INTG X86_TRAP_DE (symbol ''divide_error''),
      INTG X86_TRAP_BR (symbol ''bounds''),
      INTG X86_TRAP_UD (symbol ''invalid_op''),
      INTG X86_TRAP_NM (symbol ''device_not_available''),
      INTG X86_TRAP_OLD_MF (symbol ''coprocessor_segment_overrun''),
      INTG X86_TRAP_TS (symbol ''invalid_TSS''),
      INTG X86_TRAP_NP (symbol ''segment_not_present''),
      INTG X86_TRAP_SS (symbol ''stack_segment''),
      INTG X86_TRAP_GP (symbol ''general_protection''),
      INTG X86_TRAP_PF (symbol ''page_fault''),
      INTG X86_TRAP_SPURIOUS (symbol ''spurious_interrupt_bug''),
      INTG X86_TRAP_MF (symbol ''coprocessor_error''),
      INTG X86_TRAP_AC (symbol ''alignment_check''),
      INTG X86_TRAP_XF (symbol ''simd_coprocessor_error''),
      INTG X86_TRAP_DF (symbol ''double_fault''),
      SYSG X86_TRAP_OF (symbol ''overflow'')]"

definition apic_idts :: "(string \<Rightarrow> u64) \<Rightarrow> idt_data list" where
  "apic_idts symbol =
     [INTG LOCAL_TIMER_VECTOR (symbol ''apic_timer_interrupt''),
      INTG SPURIOUS_APIC_VECTOR (symbol ''spurious_interrupt''),
      INTG ERROR_APIC_VECTOR (symbol ''error_interrupt'')]"

definition ist_idts :: "(string \<Rightarrow> u64) \<Rightarrow> idt_data list" where
  "ist_idts symbol = [ISTG X86_TRAP_DF (symbol ''double_fault'') DOUBLEFAULT_STACK]"

definition idt_descr :: "(string \<Rightarrow> u64) \<Rightarrow> desc_ptr" where
  "idt_descr symbol = \<lparr>table_size = 256 * 16 - 1, table_address = ENTRY_ADDR (symbol ''idt_table'')\<rparr>"

definition idt_init_desc :: "idt_data \<Rightarrow> gate_desc" where
  "idt_init_desc d =
     (let ad = ENTRY_ADDR (addr d)
      in \<lparr>offset_low = ucast ad, gate_segment = ucast (segment d), gate_bits = bits d,
          offset_middle = ucast (drop_bit 16 ad), offset_high = ucast (drop_bit 32 ad), gate_reserved = 0\<rparr>)"

definition write_idt_entry :: "gate_desc list \<Rightarrow> nat \<Rightarrow> gate_desc \<Rightarrow> gate_desc list" where
  "write_idt_entry idt entry gate = idt[entry := gate]"

fun idt_setup_from_table :: "idt_data list \<Rightarrow> bool \<Rightarrow> trap_state \<Rightarrow> trap_state" where
  "idt_setup_from_table [] sys s = s"
| "idt_setup_from_table (t # ts) sys s =
     (let s = s\<lparr>idt_table := write_idt_entry (idt_table s) (unat (vector t)) (idt_init_desc t)\<rparr>;
          s = (if sys then s\<lparr>system_vectors := set_bit_bm (unat (vector t)) (system_vectors s)\<rparr> else s)
      in idt_setup_from_table ts sys s)"

definition set_intr_gate :: "u32 \<Rightarrow> u64 \<Rightarrow> trap_state \<Rightarrow> stop + trap_state" where
  "set_intr_gate n ad s = and_then (BUG_ON (n > 0xFF)) (\<lambda>_.
     let data = \<lparr>vector = n, segment = ucast KERNEL_CS,
                 bits = \<lparr>ist = 0, idt_zero = 0, gate_type = GATE_INTERRUPT, gate_dpl = 0, gate_p = 1\<rparr>, addr = ad\<rparr>
     in Inr (idt_setup_from_table [data] False s))"

definition idt_setup_traps :: "(string \<Rightarrow> u64) \<Rightarrow> trap_state \<Rightarrow> trap_state" where
  "idt_setup_traps symbol s = (idt_setup_from_table (def_idts symbol) True s)\<lparr>idtr := idt_descr symbol\<rparr>"

definition idt_setup_ist_traps :: "(string \<Rightarrow> u64) \<Rightarrow> trap_state \<Rightarrow> trap_state" where
  "idt_setup_ist_traps symbol s = idt_setup_from_table (ist_idts symbol) True s"

text \<open>The loop over the clear bits sets the bit it stands on.\<close>

partial_function (option) irq_gates_loop :: "u64 \<Rightarrow> nat \<Rightarrow> trap_state \<Rightarrow> (stop + trap_state) option" where
  "irq_gates_loop handler i s =
     (if i < NR_VECTORS then
        let s = s\<lparr>system_vectors := set_bit_bm i (system_vectors s)\<rparr>;
            r = set_intr_gate (of_nat i) handler s
        in if isl r then Some r
           else irq_gates_loop handler (find_next_zero_bit (system_vectors (projr r)) NR_VECTORS (i + 1)) (projr r)
      else Some (Inr s))"

definition idt_setup_apic_and_irq_gates :: "(string \<Rightarrow> u64) \<Rightarrow> trap_state \<Rightarrow> (stop + trap_state) option" where
  "idt_setup_apic_and_irq_gates symbol s =
     (let i = FIRST_EXTERNAL_VECTOR;
          s = idt_setup_from_table (apic_idts symbol) True s
      in irq_gates_loop (symbol ''spurious_interrupt'') (find_next_zero_bit (system_vectors s) NR_VECTORS i) s)"

definition update_intr_gate :: "u32 \<Rightarrow> u64 \<Rightarrow> trap_state \<Rightarrow> stop + trap_state" where
  "update_intr_gate n ad s =
     and_then (BUG_ON (\<not> bm_test (system_vectors s) (unat n))) (\<lambda>_. set_intr_gate n ad s)"

section \<open>kernel/traps.c\<close>

definition GDT_ENTRY_INVALID_SEG :: u64 where "GDT_ENTRY_INVALID_SEG = 0"
definition USER_DS :: u64 where "USER_DS = 5 * 8 + 3"
definition USER_CS :: u64 where "USER_CS = 6 * 8 + 3"
definition GDT_SIZE :: u16 where "GDT_SIZE = 16 * 8"
definition PAGE_SIZE :: u64 where "PAGE_SIZE = 4096"
definition CPU_STACK_SIZE :: u64 where "CPU_STACK_SIZE = 4 * PAGE_SIZE"
definition EXCEPTION_STACK_SIZE :: u64 where "EXCEPTION_STACK_SIZE = 1 * PAGE_SIZE"
definition NR_EXCEPTION_STACKS :: nat where "NR_EXCEPTION_STACKS = 4"
definition INVALID_IO_BITMAP_OFFSET :: u16 where "INVALID_IO_BITMAP_OFFSET = 0x8000"

text \<open>The packed \<open>struct tss\<close> is 104 bytes; in the entry area it follows the page of the segment table.\<close>

definition KERNEL_TSS_LIMIT :: u32 where "KERNEL_TSS_LIMIT = 104 - 1"

definition gdt_data :: "segment_desc list" where
  "gdt_data =
     [GDT_ENTRY_INIT 0 0 0, GDT_ENTRY_INIT 0 0 0,
      GDT_ENTRY_INIT 0xa09b 0 0xfffff,
      GDT_ENTRY_INIT 0xc093 0 0xfffff,
      GDT_ENTRY_INIT 0 0 0,
      GDT_ENTRY_INIT 0xc0f3 0 0xfffff,
      GDT_ENTRY_INIT 0xa0fb 0 0xfffff]"

definition get_cpu_entry_area :: "(string \<Rightarrow> u64) \<Rightarrow> (nat \<Rightarrow> u64) \<Rightarrow> nat \<Rightarrow> u64" where
  "get_cpu_entry_area symbol off cpu = symbol ''cpu_entry_area'' + off cpu"

definition set_tss_desc :: "u64 \<Rightarrow> u64 \<Rightarrow> u64 \<Rightarrow> mem \<Rightarrow> mem" where
  "set_tss_desc gdt entry ad m =
     write_gdt_entry m gdt entry (ldttss_bytes (set_tssldt_descriptor (ENTRY_ADDR ad) DESC_TSS KERNEL_TSS_LIMIT)) DESC_TSS"

definition switch_to_new_gdt :: "(string \<Rightarrow> u64) \<Rightarrow> (nat \<Rightarrow> u64) \<Rightarrow> nat \<Rightarrow> trap_state \<Rightarrow> trap_state" where
  "switch_to_new_gdt symbol off cpu s =
     (let gdt = get_cpu_entry_area symbol off cpu;
          tss = get_cpu_entry_area symbol off cpu + PAGE_SIZE;
          estacks = tss + 104;
          m = write_bytes (memory (platform s)) gdt (concat (map segment_bytes gdt_data));
          m = write16 m (tss + 102) INVALID_IO_BITMAP_OFFSET;
          m = write64 m (tss + 4) (ENTRY_ADDR (symbol ''cpu_stacks'' + of_nat cpu * CPU_STACK_SIZE) + CPU_STACK_SIZE);
          m = fold (\<lambda>i m. write64 m (tss + 36 + 8 * of_nat i) (ENTRY_ADDR (estacks + EXCEPTION_STACK_SIZE * (of_nat i + 1))))
                [0..<NR_EXCEPTION_STACKS] m;
          m = set_tss_desc gdt GDT_ENTRY_TSS tss m
      in s\<lparr>platform := (platform s)\<lparr>memory := m\<rparr>,
           gdtr := \<lparr>table_size = GDT_SIZE - 1, table_address = ENTRY_ADDR gdt\<rparr>, tr := ucast (GDT_ENTRY_TSS * 8)\<rparr>)"

abbreviation (input) MSR_IA32_SYSENTER_ESP :: u32 where "MSR_IA32_SYSENTER_ESP \<equiv> 0x175"
abbreviation (input) MSR_CSTAR :: u32 where "MSR_CSTAR \<equiv> 0xC0000083"

definition trap_msrs :: "machine \<Rightarrow> machine" where
  "trap_msrs h =
     (let h = wrmsrl MSR_IA32_SYSENTER_CS GDT_ENTRY_INVALID_SEG h;
          h = wrmsrl MSR_IA32_SYSENTER_ESP 0 h;
          h = wrmsrl MSR_IA32_SYSENTER_EIP 0 h;
          h = wrmsrl MSR_FS_BASE 0 h;
          h = wrmsrl MSR_KERNEL_GS_BASE 0 h
      in wrmsrl MSR_GS_BASE (ENTRY_ADDR (rdmsrl MSR_GS_BASE h)) h)"

definition trap_init :: "device \<Rightarrow> u64 \<Rightarrow> (string \<Rightarrow> u64) \<Rightarrow> (nat \<Rightarrow> u64) \<Rightarrow> nat \<Rightarrow> trap_state \<times> io \<Rightarrow> (stop + trap_state \<times> io) option" where
  "trap_init d tsc_khz symbol off cpu st =
     (let (s, io) = st;
          s = switch_to_new_gdt symbol off cpu s;
          s = idt_setup_traps symbol s;
          s = idt_setup_ist_traps symbol s
      in Option.bind (i8259_init d tsc_khz io) (\<lambda>io.
           map_option (\<lambda>r. and_then r (\<lambda>s. Inr (s\<lparr>platform := trap_msrs (platform s)\<rparr>, io)))
             (idt_setup_apic_and_irq_gates symbol s)))"

abbreviation (input) X86_RFLAGS_TF :: u64 where "X86_RFLAGS_TF \<equiv> 0x100"
abbreviation (input) X86_RFLAGS_IF :: u64 where "X86_RFLAGS_IF \<equiv> 0x200"
abbreviation (input) X86_RFLAGS_DF :: u64 where "X86_RFLAGS_DF \<equiv> 0x400"
abbreviation (input) X86_RFLAGS_IOPL :: u64 where "X86_RFLAGS_IOPL \<equiv> 0x3000"
abbreviation (input) X86_RFLAGS_NT :: u64 where "X86_RFLAGS_NT \<equiv> 0x4000"
abbreviation (input) X86_RFLAGS_AC :: u64 where "X86_RFLAGS_AC \<equiv> 0x40000"

definition syscall_init :: "(string \<Rightarrow> u64) \<Rightarrow> machine \<Rightarrow> machine" where
  "syscall_init symbol h =
     (let efer = rdmsrl MSR_EFER h;
          h = (if efer AND 1 = 0 then wrmsrl MSR_EFER (efer OR 1) h else h);
          h = wrmsr MSR_STAR 0 (push_bit 16 (ucast USER_CS - 16) OR ucast KERNEL_CS) h;
          h = wrmsrl MSR_LSTAR (ENTRY_ADDR (symbol ''do_syscall_64'')) h;
          h = wrmsrl MSR_CSTAR (ENTRY_ADDR (symbol ''do_syscall_32'')) h
      in wrmsrl MSR_SYSCALL_MASK
           (X86_RFLAGS_TF OR X86_RFLAGS_DF OR X86_RFLAGS_IF OR X86_RFLAGS_IOPL OR X86_RFLAGS_AC OR X86_RFLAGS_NT) h)"

section \<open>What a gate does\<close>

text \<open>
  What the processor reads from a gate: nothing unless it is a present interrupt gate of the kernel's code
  segment; then the address it jumps to, the privilege that may raise it by software and the stack it
  switches to. \<open>handler_of\<close> is the intended table.
\<close>

definition gate_offset :: "gate_desc \<Rightarrow> u64" where
  "gate_offset g = ucast (offset_low g) OR push_bit 16 (ucast (offset_middle g)) OR push_bit 32 (ucast (offset_high g))"

definition gate_ok :: "gate_desc \<Rightarrow> bool" where
  "gate_ok g \<longleftrightarrow> gate_p (gate_bits g) = 1 \<and> gate_type (gate_bits g) = GATE_INTERRUPT \<and> idt_zero (gate_bits g) = 0 \<and>
     gate_segment g = ucast KERNEL_CS \<and> gate_reserved g = 0"

definition target :: "gate_desc \<Rightarrow> (u64 \<times> 2 word \<times> 3 word) option" where
  "target g = (if gate_ok g then Some (gate_offset g, gate_dpl (gate_bits g), ist (gate_bits g)) else None)"

definition null_gate :: gate_desc where
  "null_gate = \<lparr>offset_low = 0, gate_segment = 0,
     gate_bits = \<lparr>ist = 0, idt_zero = 0, gate_type = 0, gate_dpl = 0, gate_p = 0\<rparr>,
     offset_middle = 0, offset_high = 0, gate_reserved = 0\<rparr>"

definition exception_names :: "(nat \<times> string) list" where
  "exception_names = [(0, ''divide_error''), (4, ''overflow''), (5, ''bounds''), (6, ''invalid_op''),
     (7, ''device_not_available''), (8, ''double_fault''), (9, ''coprocessor_segment_overrun''), (10, ''invalid_TSS''),
     (11, ''segment_not_present''), (12, ''stack_segment''), (13, ''general_protection''), (14, ''page_fault''),
     (15, ''spurious_interrupt_bug''), (16, ''coprocessor_error''), (17, ''alignment_check''), (19, ''simd_coprocessor_error'')]"

definition handler_of :: "nat \<Rightarrow> (string \<times> 2 word \<times> 3 word) option" where
  "handler_of v =
     (if v < 32 then map_option (\<lambda>name. (name, if v = 4 then 3 else 0, if v = 8 then 1 else 0)) (map_of exception_names v)
      else Some (if v = 0xee then ''apic_timer_interrupt'' else if v = 0xfe then ''error_interrupt'' else ''spurious_interrupt'', 0, 0))"

lemma join_48:
  fixes w :: u64
  shows "ucast (ucast w :: u16) OR push_bit 16 (ucast (ucast (drop_bit 16 w) :: u16)) OR push_bit 32 (ucast (ucast (drop_bit 32 w) :: u32)) = w"
proof (rule bit_word_eqI)
  fix n
  show "bit (ucast (ucast w :: u16) OR push_bit 16 (ucast (ucast (drop_bit 16 w) :: u16)) OR push_bit 32 (ucast (ucast (drop_bit 32 w) :: u32)) :: u64) n = bit w n"
    by (cases "n < 32"; cases "n < 16") (auto simp: bit_simps dest: bit_imp_le_length)
qed

lemma gate_offset_init [simp]: "gate_offset (idt_init_desc d) = ENTRY_ADDR (addr d)"
  by (simp add: gate_offset_def idt_init_desc_def Let_def join_48)

lemma gate_ok_init: "gate_ok (idt_init_desc (G v ad stack GATE_INTERRUPT dpl (ucast KERNEL_CS)))"
  by (simp add: gate_ok_def idt_init_desc_def Let_def G_def KERNEL_CS_def)

lemma gate_ok_gates [simp]:
  "gate_ok (idt_init_desc (INTG v ad))" "gate_ok (idt_init_desc (SYSG v ad))" "gate_ok (idt_init_desc (ISTG v ad stack))"
  by (simp_all add: INTG_def SYSG_def ISTG_def gate_ok_init)

lemma target_init [simp]:
  "target (idt_init_desc (INTG v ad)) = Some (ENTRY_ADDR ad, 0, 0)"
  "target (idt_init_desc (SYSG v ad)) = Some (ENTRY_ADDR ad, 3, 0)"
  "target (idt_init_desc (ISTG v ad stack)) = Some (ENTRY_ADDR ad, 0, stack)"
  "target null_gate = None"
  by (simp_all add: target_def) (simp_all add: INTG_def SYSG_def ISTG_def G_def DPL0_def DPL3_def DEFAULT_STACK_def
    idt_init_desc_def Let_def gate_ok_def null_gate_def)

lemma vector_gates [simp]: "vector (INTG v ad) = v" "vector (SYSG v ad) = v" "vector (ISTG v ad stack) = v"
  by (simp_all add: INTG_def SYSG_def ISTG_def G_def)

section \<open>Setting up the table\<close>

text \<open>
  The invariant of kernel/idt.c: the table and the bitmap have their sizes, a vector marked in the
  bitmap has a gate into the kernel, and one that is not has an empty gate.
\<close>

definition idt_ok :: "trap_state \<Rightarrow> bool" where
  "idt_ok s \<longleftrightarrow> length (idt_table s) = 256 \<and> length (system_vectors s) = 4 \<and>
     (\<forall>v < 256. if bm_test (system_vectors s) v then gate_ok (idt_table s ! v) else idt_table s ! v = null_gate)"

text \<open>An entry of a table put in and marked.\<close>

definition install :: "nat \<Rightarrow> gate_desc \<Rightarrow> trap_state \<Rightarrow> trap_state" where
  "install v g s = s\<lparr>idt_table := (idt_table s)[v := g], system_vectors := set_bit_bm v (system_vectors s)\<rparr>"

lemma install_ok: "idt_ok s \<Longrightarrow> v < 256 \<Longrightarrow> gate_ok g \<Longrightarrow> idt_ok (install v g s)"
  by (auto simp: idt_ok_def install_def bm_test_set_bit nth_list_update)

lemma setup_installs: "idt_setup_from_table ts True s = fold (\<lambda>t. install (unat (vector t)) (idt_init_desc t)) ts s"
  by (induction ts True s rule: idt_setup_from_table.induct) (simp_all add: install_def write_idt_entry_def Let_def)

lemma installs_ok:
  "idt_ok s \<Longrightarrow> (\<And>t. t \<in> set ts \<Longrightarrow> unat (vector t) < 256 \<and> gate_ok (idt_init_desc t)) \<Longrightarrow> idt_ok (idt_setup_from_table ts True s)"
  by (induction ts arbitrary: s) (simp_all add: setup_installs install_ok)

lemma set_intr_gate_returns:
  assumes "n < 0x100"
  shows "set_intr_gate n ad s = Inr (s\<lparr>idt_table := (idt_table s)[unat n := idt_init_desc (INTG n ad)]\<rparr>)"
proof -
  have "\<not> n > 0xFF" using assms by (simp add: word_less_nat_alt)
  then show ?thesis
    by (simp add: set_intr_gate_def BUG_ON_def write_idt_entry_def Let_def idt_init_desc_def INTG_def G_def DPL0_def DEFAULT_STACK_def)
qed

lemma set_intr_gate_stops: "0xFF < n \<Longrightarrow> set_intr_gate n ad s = Inl BUG"
  by (simp add: set_intr_gate_def BUG_ON_def)

lemma irq_gates:
  assumes "length (idt_table s) = 256" "length (system_vectors s) = 4"
  shows "\<exists>idt sv. irq_gates_loop h (find_next_zero_bit (system_vectors s) NR_VECTORS k) s = Some (Inr (s\<lparr>idt_table := idt, system_vectors := sv\<rparr>)) \<and>
    length idt = 256 \<and> length sv = 4 \<and>
    (\<forall>v < 256. bm_test sv v \<longleftrightarrow> k \<le> v \<or> bm_test (system_vectors s) v) \<and>
    (\<forall>v < 256. idt ! v = (if k \<le> v \<and> \<not> bm_test (system_vectors s) v then idt_init_desc (INTG (of_nat v) h) else idt_table s ! v))"
  using assms
proof (induction "256 - k" arbitrary: k s rule: less_induct)
  case less
  define i where "i = find_next_zero_bit (system_vectors s) NR_VECTORS k"
  have i: "i = next_such (\<lambda>j. \<not> bm_test (system_vectors s) j) k 256"
    using less.prems clear_bits.nxt_scan[of 256 "system_vectors s" k] by (simp add: i_def NR_VECTORS_def)
  show ?case
  proof (cases "i < 256")
    case False
    then have "bm_test (system_vectors s) v" if "k \<le> v" "v < 256" for v
      using next_such_least[of k v 256 "\<lambda>j. \<not> bm_test (system_vectors s) j"] that i by fastforce
    then show ?thesis using False less.prems
      unfolding i_def[symmetric]
      by (intro exI[of _ "idt_table s"] exI[of _ "system_vectors s"]) (auto simp: irq_gates_loop.simps[of _ i] NR_VECTORS_def)
  next
    case True
    have clear: "\<not> bm_test (system_vectors s) i" "k \<le> i"
      using True i by (cases rule: next_such_cases[of "\<lambda>j. \<not> bm_test (system_vectors s) j" k 256]; simp)+
    define s1 where "s1 = install i (idt_init_desc (INTG (of_nat i) h)) s"
    have len: "length (idt_table s1) = 256" "length (system_vectors s1) = 4" using less.prems by (simp_all add: s1_def install_def)
    have step: "irq_gates_loop h i s = irq_gates_loop h (find_next_zero_bit (system_vectors s1) NR_VECTORS (i + 1)) s1"
      using True by (subst irq_gates_loop.simps, cases s)
        (simp add: NR_VECTORS_def set_intr_gate_returns word_less_nat_alt s1_def install_def unat_of_nat)
    have "256 - (i + 1) < 256 - k" using True clear(2) by simp
    from less.hyps[OF this len] obtain idt sv where r:
      "irq_gates_loop h i s = Some (Inr (s1\<lparr>idt_table := idt, system_vectors := sv\<rparr>))" "length idt = 256" "length sv = 4"
      "\<forall>v < 256. bm_test sv v \<longleftrightarrow> i + 1 \<le> v \<or> bm_test (system_vectors s1) v"
      "\<forall>v < 256. idt ! v = (if i + 1 \<le> v \<and> \<not> bm_test (system_vectors s1) v then idt_init_desc (INTG (of_nat v) h) else idt_table s1 ! v)"
      unfolding step by blast
    have below: "bm_test (system_vectors s) v" if "k \<le> v" "v < i" for v
      using next_such_least[of k v 256 "\<lambda>j. \<not> bm_test (system_vectors s) j"] that i True by fastforce
    have sv: "bm_test (system_vectors s1) v \<longleftrightarrow> v = i \<or> bm_test (system_vectors s) v" for v
      using less.prems True by (simp add: s1_def install_def bm_test_set_bit)
    have idt: "idt_table s1 ! v = (if v = i then idt_init_desc (INTG (of_nat i) h) else idt_table s ! v)" if "v < 256" for v
      using less.prems that by (simp add: s1_def install_def)
    have pos: "k \<le> v \<and> v \<noteq> i \<and> \<not> i + 1 \<le> v \<Longrightarrow> bm_test (system_vectors s) v" for v using below[of v] by simp
    have "\<forall>v < 256. bm_test sv v \<longleftrightarrow> k \<le> v \<or> bm_test (system_vectors s) v"
    proof (intro allI impI)
      fix v :: nat assume "v < 256"
      then show "bm_test sv v \<longleftrightarrow> k \<le> v \<or> bm_test (system_vectors s) v" using r(4) sv[of v] pos[of v] clear(2) by auto
    qed
    moreover have "\<forall>v < 256. idt ! v = (if k \<le> v \<and> \<not> bm_test (system_vectors s) v then idt_init_desc (INTG (of_nat v) h) else idt_table s ! v)"
    proof (intro allI impI)
      fix v :: nat assume "v < 256"
      then show "idt ! v = (if k \<le> v \<and> \<not> bm_test (system_vectors s) v then idt_init_desc (INTG (of_nat v) h) else idt_table s ! v)"
        using r(5) idt[of v] sv[of v] pos[of v] clear by auto
    qed
    ultimately show ?thesis using r(1-3) by (intro exI[of _ idt] exI[of _ sv]) (simp add: i_def[symmetric] s1_def install_def)
  qed
qed

lemma irq_gates_ok:
  assumes "idt_ok s"
  obtains idt sv where
    "irq_gates_loop h (find_next_zero_bit (system_vectors s) NR_VECTORS k) s = Some (Inr (s\<lparr>idt_table := idt, system_vectors := sv\<rparr>))"
    "idt_ok (s\<lparr>idt_table := idt, system_vectors := sv\<rparr>)"
    "\<And>v. v < 256 \<Longrightarrow> bm_test sv v \<longleftrightarrow> k \<le> v \<or> bm_test (system_vectors s) v"
    "\<And>v. v < 256 \<Longrightarrow> idt ! v = (if k \<le> v \<and> \<not> bm_test (system_vectors s) v then idt_init_desc (INTG (of_nat v) h) else idt_table s ! v)"
proof -
  obtain idt sv where r: "irq_gates_loop h (find_next_zero_bit (system_vectors s) NR_VECTORS k) s = Some (Inr (s\<lparr>idt_table := idt, system_vectors := sv\<rparr>))"
    "length idt = 256" "length sv = 4" "\<forall>v < 256. bm_test sv v \<longleftrightarrow> k \<le> v \<or> bm_test (system_vectors s) v"
    "\<forall>v < 256. idt ! v = (if k \<le> v \<and> \<not> bm_test (system_vectors s) v then idt_init_desc (INTG (of_nat v) h) else idt_table s ! v)"
    using irq_gates[of s h k] assms unfolding idt_ok_def by blast
  have "idt_ok (s\<lparr>idt_table := idt, system_vectors := sv\<rparr>)" using assms r(2-5) by (simp add: idt_ok_def)
  then show thesis using that r by blast
qed

lemma idt_ok_others [simp]: "idt_ok (s\<lparr>idtr := x\<rparr>) \<longleftrightarrow> idt_ok s" "idt_ok (s\<lparr>platform := h\<rparr>) \<longleftrightarrow> idt_ok s"
  by (simp_all add: idt_ok_def)

lemma tables_in_range:
  "t \<in> set (def_idts symbol) \<union> set (apic_idts symbol) \<union> set (ist_idts symbol) \<Longrightarrow> unat (vector t) < 256 \<and> gate_ok (idt_init_desc t)"
  by (auto simp: def_idts_def apic_idts_def ist_idts_def LOCAL_TIMER_VECTOR_def SPURIOUS_APIC_VECTOR_def ERROR_APIC_VECTOR_def)

lemma setup_traps_ok: "idt_ok s \<Longrightarrow> idt_ok (idt_setup_traps symbol s)" "idt_ok s \<Longrightarrow> idt_ok (idt_setup_ist_traps symbol s)"
    "idt_ok s \<Longrightarrow> idt_ok (idt_setup_from_table (apic_idts symbol) True s)"
  using tables_in_range[of _ symbol]
  by (simp_all add: idt_setup_traps_def idt_setup_ist_traps_def installs_ok)

lemma update_intr_gate_cases:
  assumes "idt_ok s"
  shows "update_intr_gate n ad s =
    (if unat n < 256 \<and> bm_test (system_vectors s) (unat n)
     then Inr (s\<lparr>idt_table := (idt_table s)[unat n := idt_init_desc (INTG n ad)]\<rparr>) else Inl BUG)"
proof (cases "unat n < 256")
  case True
  then have "n < 0x100" by (simp add: word_less_nat_alt)
  then show ?thesis using True by (simp add: update_intr_gate_def BUG_ON_def set_intr_gate_returns)
next
  case False
  then have "0xFF < n" by (simp add: word_less_nat_alt)
  then show ?thesis using False by (simp add: update_intr_gate_def BUG_ON_def set_intr_gate_stops)
qed

text \<open>The table after the three set-up steps, from an empty one.\<close>

definition idt_empty :: "trap_state \<Rightarrow> bool" where
  "idt_empty s \<longleftrightarrow> idt_table s = replicate 256 null_gate \<and> system_vectors s = replicate 4 0"

lemma idt_empty_ok: "idt_empty s \<Longrightarrow> idt_ok s"
  by (simp add: idt_empty_def idt_ok_def bm_test_def)

lemma install_nth:
  "idt_ok s \<Longrightarrow> v < 256 \<Longrightarrow> i < 256 \<Longrightarrow> idt_table (install i g s) ! v = (if v = i then g else idt_table s ! v)"
  "idt_ok s \<Longrightarrow> i < 256 \<Longrightarrow> bm_test (system_vectors (install i g s)) v \<longleftrightarrow> v = i \<or> bm_test (system_vectors s) v"
  by (simp_all add: idt_ok_def install_def bm_test_set_bit)

lemma installs_nth:
  assumes "idt_ok s" "\<And>t. t \<in> set ts \<Longrightarrow> unat (vector t) < 256 \<and> gate_ok (idt_init_desc t)" "v < 256"
  shows "idt_table (idt_setup_from_table ts True s) ! v =
      (case find (\<lambda>t. unat (vector t) = v) (rev ts) of None \<Rightarrow> idt_table s ! v | Some t \<Rightarrow> idt_init_desc t) \<and>
    (bm_test (system_vectors (idt_setup_from_table ts True s)) v \<longleftrightarrow> v \<in> set (map (unat \<circ> vector) ts) \<or> bm_test (system_vectors s) v)"
  using assms(2)
proof (induction ts rule: rev_induct)
  case (snoc t ts)
  have i: "idt_ok (idt_setup_from_table ts True s)" by (rule installs_ok[OF assms(1)]) (use snoc.prems in auto)
  have r: "idt_setup_from_table (ts @ [t]) True s = install (unat (vector t)) (idt_init_desc t) (idt_setup_from_table ts True s)"
    by (simp add: setup_installs)
  have t: "unat (vector t) < 256" using snoc.prems by simp
  show ?case using snoc i t assms(3) unfolding r by (auto simp: install_nth)
qed simp

lemmas installed_gate = installs_nth[THEN conjunct1] and installed_bit = installs_nth[THEN conjunct2]

text \<open>What the entries of the exceptions do once they are set up.\<close>

lemma exception_gates:
  fixes symbol :: "string \<Rightarrow> u64" and s :: trap_state
  assumes "idt_empty s" "v < 256"
  defines "s1 \<equiv> idt_setup_ist_traps symbol (idt_setup_traps symbol s)"
  shows "idt_ok s1" "target (idt_table s1 ! v) = (if v < 32 then map_option (\<lambda>(name, dpl, stack). (ENTRY_ADDR (symbol name), dpl, stack)) (handler_of v) else None)"
    "bm_test (system_vectors s1) v \<longleftrightarrow> v < 32 \<and> handler_of v \<noteq> None"
proof -
  have ok: "idt_ok (idt_setup_traps symbol s)" "idt_ok s1" using idt_empty_ok[OF assms(1)] by (simp_all add: s1_def setup_traps_ok)
  then show "idt_ok s1" by simp
  have e: "idt_table s ! v = null_gate" "\<not> bm_test (system_vectors s) v"
    using assms(1,2) by (simp_all add: idt_empty_def bm_test_def nth_replicate)
  have g: "idt_table s1 ! v = (if v = 8 then idt_init_desc (ISTG 8 (symbol ''double_fault'') DOUBLEFAULT_STACK) else idt_table (idt_setup_traps symbol s) ! v)"
    "bm_test (system_vectors s1) v \<longleftrightarrow> v = 8 \<or> bm_test (system_vectors (idt_setup_traps symbol s)) v"
    using installs_nth[OF ok(1), of "ist_idts symbol" v] tables_in_range[of _ symbol] assms(2)
    by (auto simp: s1_def idt_setup_ist_traps_def ist_idts_def)
  have d: "idt_table (idt_setup_traps symbol s) ! v =
      (case find (\<lambda>t. unat (vector t) = v) (rev (def_idts symbol)) of None \<Rightarrow> null_gate | Some t \<Rightarrow> idt_init_desc t)"
    "bm_test (system_vectors (idt_setup_traps symbol s)) v \<longleftrightarrow> v \<in> set (map (unat \<circ> vector) (def_idts symbol))"
    using installs_nth[OF idt_empty_ok[OF assms(1)] tables_in_range[of _ symbol] assms(2), of "def_idts symbol"] e
    by (simp_all add: idt_setup_traps_def split: option.split)
  show "target (idt_table s1 ! v) = (if v < 32 then map_option (\<lambda>(name, dpl, stack). (ENTRY_ADDR (symbol name), dpl, stack)) (handler_of v) else None)"
    unfolding g d by (simp add: def_idts_def handler_of_def exception_names_def DOUBLEFAULT_STACK_def)
  show "bm_test (system_vectors s1) v \<longleftrightarrow> v < 32 \<and> handler_of v \<noteq> None"
    unfolding g d by (auto simp: def_idts_def handler_of_def exception_names_def)
qed

lemma irq_setup_gates:
  fixes symbol :: "string \<Rightarrow> u64" and s :: trap_state
  assumes "idt_empty s"
  defines "s1 \<equiv> idt_setup_ist_traps symbol (idt_setup_traps symbol s)"
  obtains idt sv where "idt_setup_apic_and_irq_gates symbol s1 = Some (Inr (s1\<lparr>idt_table := idt, system_vectors := sv\<rparr>))"
    "idt_ok (s1\<lparr>idt_table := idt, system_vectors := sv\<rparr>)"
    "\<And>v. v < 256 \<Longrightarrow> target (idt ! v) = map_option (\<lambda>(name, dpl, stack). (ENTRY_ADDR (symbol name), dpl, stack)) (handler_of v)"
proof -
  note ex = exception_gates[OF assms(1), where symbol = symbol, folded s1_def]
  have ok1: "idt_ok s1" using ex(1)[of 0] by simp
  define s2 where "s2 = idt_setup_from_table (apic_idts symbol) True s1"
  have ok2: "idt_ok s2" unfolding s2_def by (rule setup_traps_ok(3)[OF ok1])
  obtain idt sv where r: "irq_gates_loop (symbol ''spurious_interrupt'') (find_next_zero_bit (system_vectors s2) NR_VECTORS 32) s2 = Some (Inr (s2\<lparr>idt_table := idt, system_vectors := sv\<rparr>))"
    "idt_ok (s2\<lparr>idt_table := idt, system_vectors := sv\<rparr>)"
    "\<And>v. v < 256 \<Longrightarrow> idt ! v = (if 32 \<le> v \<and> \<not> bm_test (system_vectors s2) v then idt_init_desc (INTG (of_nat v) (symbol ''spurious_interrupt'')) else idt_table s2 ! v)"
    using irq_gates_ok[OF ok2] by metis
  have same: "s2\<lparr>idt_table := idt, system_vectors := sv\<rparr> = s1\<lparr>idt_table := idt, system_vectors := sv\<rparr>"
    by (simp add: s2_def apic_idts_def Let_def)
  have "target (idt ! v) = map_option (\<lambda>(name, dpl, stack). (ENTRY_ADDR (symbol name), dpl, stack)) (handler_of v)" if v: "v < 256" for v
  proof -
    have g: "idt_table s2 ! v = (case find (\<lambda>t. unat (vector t) = v) (rev (apic_idts symbol)) of None \<Rightarrow> idt_table s1 ! v | Some t \<Rightarrow> idt_init_desc t)"
      "bm_test (system_vectors s2) v \<longleftrightarrow> v \<in> set (map (unat \<circ> vector) (apic_idts symbol)) \<or> bm_test (system_vectors s1) v"
      using installs_nth[OF ok1 tables_in_range[of _ symbol] v, of "apic_idts symbol"] by (simp_all add: s2_def)
    show ?thesis
    proof (cases "v < 32")
      case True
      then have "idt ! v = idt_table s1 ! v" using r(3)[OF v] g(1)
        by (auto simp: apic_idts_def LOCAL_TIMER_VECTOR_def SPURIOUS_APIC_VECTOR_def ERROR_APIC_VECTOR_def)
      then show ?thesis using True ex(2)[OF v] by simp
    next
      case False
      then have "\<not> bm_test (system_vectors s1) v" using ex(3)[OF v] by simp
      then show ?thesis using False r(3)[OF v] g
        by (auto simp: apic_idts_def LOCAL_TIMER_VECTOR_def SPURIOUS_APIC_VECTOR_def ERROR_APIC_VECTOR_def handler_of_def)
    qed
  qed
  moreover have "idt_setup_apic_and_irq_gates symbol s1 = Some (Inr (s1\<lparr>idt_table := idt, system_vectors := sv\<rparr>))"
    using r(1) same by (simp add: idt_setup_apic_and_irq_gates_def FIRST_EXTERNAL_VECTOR_def Let_def s2_def)
  ultimately show thesis using that r(2) unfolding same by blast
qed

section \<open>The segment table and the task state\<close>

lemma write_at:
  assumes "j + length bs \<le> 2 ^ 64" "k < 2 ^ 64"
  shows "write_bytes m (a + of_nat j) bs (a + of_nat k) = (if j \<le> k \<and> k < j + length bs then bs ! (k - j) else m (a + of_nat k))"
proof -
  have "unat (of_nat k - of_nat j :: u64) = (if j \<le> k then k - j else k + 2 ^ 64 - j)" if "j < 2 ^ 64"
    using assms that by (simp add: unat_sub_if' )
  then show ?thesis using assms by (cases "bs = []") (auto simp: write_bytes_def)
qed

lemma apart_at:
  assumes "i + n \<le> j \<or> j + k \<le> i" "i + n \<le> 2 ^ 63" "j + k \<le> 2 ^ 63"
  shows "apart (a + of_nat i) n (a + of_nat j) k"
proof -
  have "unat (of_nat j - of_nat i :: u64) = (if i \<le> j then j - i else j + 2 ^ 64 - i)"
    "unat (of_nat i - of_nat j :: u64) = (if j \<le> i then i - j else i + 2 ^ 64 - j)"
    using assms by (simp_all add: unat_sub_if')
  then show ?thesis using assms by (auto simp: apart_def)
qed

text \<open>Several writes relative to one address, and the writes of \<open>switch_to_new_gdt\<close> in this form.\<close>

definition place :: "u64 \<Rightarrow> (nat \<times> u8 list) list \<Rightarrow> mem \<Rightarrow> mem" where
  "place a ws = fold (\<lambda>(j, bs) m. write_bytes m (a + of_nat j) bs) ws"

lemma place_read:
  assumes "sorted_wrt (\<lambda>(j, cs) (k, bs). j + length cs \<le> k \<or> k + length bs \<le> j) ws"
    "\<forall>(j, cs) \<in> set ws. j + length cs \<le> 2 ^ 63" "(k, bs) \<in> set ws"
  shows "read_bytes (place a ws m) (a + of_nat k) (length bs) = bs"
  using assms
proof (induction ws rule: rev_induct)
  case (snoc w ws)
  obtain j cs where w: "w = (j, cs)" by force
  show ?case
  proof (cases "(k, bs) \<in> set ws")
    case True
    have "j + length cs \<le> k \<or> k + length bs \<le> j" "j + length cs \<le> 2 ^ 63" "k + length bs \<le> 2 ^ 63"
      using snoc.prems True by (auto simp: sorted_wrt_append w)
    then show ?thesis using snoc True apart_at[of j "length cs" k "length bs" a]
      by (simp add: sorted_wrt_append place_def w read_write_apart)
  next
    case False
    then have "j = k" "cs = bs" "length bs \<le> 2 ^ 64" using snoc.prems by (auto simp: w)
    then show ?thesis using read_write_same[of bs _ "a + of_nat k"] by (simp add: place_def w)
  qed
qed simp

lemma place_other:
  assumes "\<forall>(j, cs) \<in> set ws. j + length cs \<le> n" "n \<le> unat (x - a)"
  shows "place a ws m x = m x"
  using assms(1)
proof (induction ws rule: rev_induct)
  case (snoc w ws)
  then show ?case using write_outside[of "fst w" "snd w" n x a] assms(2) by (auto simp: place_def split: prod.splits)
qed (simp add: place_def)

lemma le_bytes_2: "le_bytes 2 w = [ucast w, ucast (drop_bit 8 w)]"
  by (simp add: numeral_2_eq_2)

lemma le_bytes_4_0: "le_bytes 4 (0 :: u32) = [0, 0, 0, 0]"
  by (simp add: numeral_eq_Suc)

lemma byte_fields:
  fixes b :: u8 and t :: "8 word"
  shows "(ucast (ucast b OR push_bit 8 (ucast t) :: u16) :: u8) = b"
    "(ucast (drop_bit 8 (ucast b OR push_bit 8 (ucast t) :: u16)) :: u8) = t"
  by (rule bit_word_eqI, auto simp: bit_simps dest: bit_imp_le_length)+

lemma tss_bytes:
  "ldttss_bytes (set_tssldt_descriptor A DESC_TSS KERNEL_TSS_LIMIT) =
     [103, 0, ucast A, ucast (drop_bit 8 A), ucast (drop_bit 16 A), 0x89, 0, ucast (drop_bit 24 A)] @
     le_bytes 4 (ucast (drop_bit 32 A) :: u32) @ [0, 0, 0, 0]"
proof -
  have b: "(ucast (ucast A :: u16) :: u8) = ucast A" "(ucast (drop_bit 8 (ucast A :: u16)) :: u8) = ucast (drop_bit 8 A)"
    "(ucast (drop_bit n A AND 0xFF) :: u8) = ucast (drop_bit n A)" for n
  proof -
    have m: "(0xFF :: u64) = mask 8" by (simp add: mask_eq_exp_minus_1)
    show "(ucast (ucast A :: u16) :: u8) = ucast A" "(ucast (drop_bit 8 (ucast A :: u16)) :: u8) = ucast (drop_bit 8 A)"
      by (rule bit_word_eqI, auto simp: bit_simps)+
    show "(ucast (drop_bit n A AND 0xFF) :: u8) = ucast (drop_bit n A)"
      unfolding m by (rule bit_word_eqI) (auto simp: bit_simps)
  qed
  have r: "(ucast (ucast x OR 35072 :: u16) :: u8) = x" "(ucast (drop_bit 8 (ucast x :: u16) OR 137) :: u8) = 137"
    "(ucast (push_bit 8 (ucast x) :: u16) :: u8) = 0" "(ucast (drop_bit 8 (push_bit 8 (ucast x) :: u16)) :: u8) = x" for x :: u8
    using byte_fields[of x "0x89"] byte_fields[of 0 x] by simp_all
  show ?thesis
    by (simp add: ldttss_bytes_def set_tssldt_descriptor_def KERNEL_TSS_LIMIT_def le_bytes_2 b r le_bytes_4_0)
qed

lemma tss_bytes_nth:
  fixes A :: u64
  defines "bs \<equiv> ldttss_bytes (set_tssldt_descriptor A DESC_TSS KERNEL_TSS_LIMIT)"
  shows "length bs = 16" "bs ! 2 = ucast A" "bs ! 3 = ucast (drop_bit 8 A)" "bs ! 4 = ucast (drop_bit 16 A)" "bs ! 5 = 0x89"
    "bs ! 7 = ucast (drop_bit 24 A)" "take 4 (drop 8 bs) = le_bytes 4 (ucast (drop_bit 32 A) :: u32)"
  by (simp_all add: bs_def tss_bytes del: le_bytes.simps)

lemma descriptor_words:
  "concat (map segment_bytes gdt_data) = concat (map (le_bytes 8) [0, 0, 0x00af9b000000ffff, 0x00cf93000000ffff, 0, 0x00cff3000000ffff, 0x00affb000000ffff :: u64])"
  by code_simp

definition gdt_places :: "u64 \<Rightarrow> u64 \<Rightarrow> (nat \<times> u8 list) list" where
  "gdt_places gdt stack =
     [(0, concat (map segment_bytes gdt_data)), (4198, le_bytes 2 INVALID_IO_BITMAP_OFFSET), (4100, le_bytes 8 stack),
      (4132, le_bytes 8 (ENTRY_ADDR (gdt + 8296))), (4140, le_bytes 8 (ENTRY_ADDR (gdt + 12392))),
      (4148, le_bytes 8 (ENTRY_ADDR (gdt + 16488))), (4156, le_bytes 8 (ENTRY_ADDR (gdt + 20584))),
      (64, ldttss_bytes (set_tssldt_descriptor (ENTRY_ADDR (gdt + 4096)) DESC_TSS KERNEL_TSS_LIMIT))]"

lemma switch_memory:
  fixes symbol :: "string \<Rightarrow> u64" and s :: trap_state and off :: "nat \<Rightarrow> u64" and cpu :: nat
  defines "gdt \<equiv> get_cpu_entry_area symbol off cpu"
    and "stack \<equiv> ENTRY_ADDR (symbol ''cpu_stacks'' + of_nat cpu * 16384) + 16384"
  shows "memory (platform (switch_to_new_gdt symbol off cpu s)) = place gdt (gdt_places gdt stack) (memory (platform s))"
  by (simp add: switch_to_new_gdt_def place_def gdt_places_def gdt_def stack_def Let_def PAGE_SIZE_def CPU_STACK_SIZE_def EXCEPTION_STACK_SIZE_def
    NR_EXCEPTION_STACKS_def upt_rec write64_def write16_def set_tss_desc_def write_gdt_entry_def GDT_ENTRY_TSS_def tss_bytes_nth(1) add.assoc del: le_bytes.simps)

lemma gdt_places_apart: "sorted_wrt (\<lambda>(j, cs) (k, bs). j + length cs \<le> k \<or> k + length bs \<le> j) (gdt_places gdt stack)"
  "\<forall>(j, cs) \<in> set (gdt_places gdt stack). j + length cs \<le> 4200"
  by (simp_all add: gdt_places_def tss_bytes_nth(1) descriptor_words del: le_bytes.simps)

lemma placed:
  assumes "(k, bs) \<in> set (gdt_places gdt stack)"
  shows "read_bytes (place gdt (gdt_places gdt stack) m) (gdt + of_nat k) (length bs) = bs"
  by (rule place_read[OF gdt_places_apart(1) _ assms]) (use gdt_places_apart(2)[of gdt stack] in fastforce)


lemma switch_frame [simp]:
  "idt_table (switch_to_new_gdt symbol off cpu s) = idt_table s" "system_vectors (switch_to_new_gdt symbol off cpu s) = system_vectors s"
  "gdtr (switch_to_new_gdt symbol off cpu s) = \<lparr>table_size = 127, table_address = ENTRY_ADDR (get_cpu_entry_area symbol off cpu)\<rparr>"
  "tr (switch_to_new_gdt symbol off cpu s) = 64"
  by (simp_all add: switch_to_new_gdt_def Let_def GDT_SIZE_def GDT_ENTRY_TSS_def)

lemma setup_frame [simp]:
  "platform (idt_setup_from_table ts sys s) = platform s" "gdtr (idt_setup_from_table ts sys s) = gdtr s"
  "idtr (idt_setup_from_table ts sys s) = idtr s" "tr (idt_setup_from_table ts sys s) = tr s"
  by (induction ts sys s rule: idt_setup_from_table.induct) (simp_all add: Let_def)

lemma trap_init_returns:
  fixes symbol :: "string \<Rightarrow> u64" and s :: trap_state and off :: "nat \<Rightarrow> u64" and cpu :: nat
  assumes "idt_empty s" "i8259_init d tsc_khz io = Some io'"
  defines "s0 \<equiv> switch_to_new_gdt symbol off cpu s"
  obtains s' where "trap_init d tsc_khz symbol off cpu (s, io) = Some (Inr (s', io'))"
    "idt_ok s'" "platform s' = trap_msrs (platform s0)" "gdtr s' = gdtr s0" "tr s' = tr s0" "idtr s' = idt_descr symbol"
    "\<And>v. v < 256 \<Longrightarrow> target (idt_table s' ! v) = map_option (\<lambda>(name, dpl, stack). (ENTRY_ADDR (symbol name), dpl, stack)) (handler_of v)"
proof -
  have e: "idt_empty s0" using assms(1) by (simp add: idt_empty_def s0_def)
  define s1 where "s1 = idt_setup_ist_traps symbol (idt_setup_traps symbol s0)"
  obtain idt sv where r: "idt_setup_apic_and_irq_gates symbol s1 = Some (Inr (s1\<lparr>idt_table := idt, system_vectors := sv\<rparr>))"
    "idt_ok (s1\<lparr>idt_table := idt, system_vectors := sv\<rparr>)"
    "\<And>v. v < 256 \<Longrightarrow> target (idt ! v) = map_option (\<lambda>(name, dpl, stack). (ENTRY_ADDR (symbol name), dpl, stack)) (handler_of v)"
    using irq_setup_gates[OF e, where symbol = symbol, folded s1_def] by blast
  have p: "platform s1 = platform s0" "gdtr s1 = gdtr s0" "tr s1 = tr s0" "idtr s1 = idt_descr symbol"
    by (simp_all add: s1_def idt_setup_ist_traps_def idt_setup_traps_def)
  define s' where "s' = (s1\<lparr>idt_table := idt, system_vectors := sv\<rparr>)\<lparr>platform := trap_msrs (platform s1)\<rparr>"
  have "trap_init d tsc_khz symbol off cpu (s, io) = Some (Inr (s', io'))"
    using r(1) assms(2) by (simp add: trap_init_def s0_def[symmetric] s1_def[symmetric] and_then_def s'_def)
  moreover have "idt_ok s'" unfolding s'_def idt_ok_others by (rule r(2))
  ultimately show thesis by (rule that) (use r(3) p in \<open>simp_all add: s'_def\<close>)
qed

lemma trap_msrs_memory [simp]: "memory (trap_msrs h) = memory h"
  by (simp add: trap_msrs_def Let_def wrmsrl_def wrmsr_def)

lemma host_word: "(ucast (ucast A :: u8) OR push_bit 8 (ucast (ucast (drop_bit 8 A) :: u8)) OR push_bit 16 (ucast (ucast (drop_bit 16 A) :: u8)) OR
    push_bit 24 (ucast (ucast (drop_bit 24 A) :: u8)) OR push_bit 32 (ucast (ucast (drop_bit 32 A) :: u32)) :: u64) = A" (is "?w = A")
proof (rule bit_word_eqI)
  fix n :: nat
  consider "n < 8" | "8 \<le> n" "n < 16" | "16 \<le> n" "n < 24" | "24 \<le> n" "n < 32" | "32 \<le> n" by linarith
  then show "bit ?w n = bit A n" by cases (auto simp: bit_simps dest: bit_imp_le_length)
qed

text \<open>What \<open>vmx_vcpu_setup\<close> finds where the descriptor lies.\<close>

lemma tr_base_read:
  assumes "tr_selector c = 64" "\<And>i. i < 16 \<Longrightarrow> memory h (gdt_address c + 64 + of_nat i) = ldttss_bytes (set_tssldt_descriptor A DESC_TSS KERNEL_TSS_LIMIT) ! i"
  shows "get_tr_base c h = Inr A" "bit (memory h (gdt_address c + 69)) 7"
proof -
  let ?bs = "ldttss_bytes (set_tssldt_descriptor A DESC_TSS KERNEL_TSS_LIMIT)" and ?d = "gdt_address c + 64"
  have b: "memory h (?d + 2) = ucast A" "memory h (?d + 3) = ucast (drop_bit 8 A)" "memory h (?d + 4) = ucast (drop_bit 16 A)"
    "memory h (?d + 5) = 0x89" "memory h (?d + 7) = ucast (drop_bit 24 A)"
    using assms(2)[of 2] assms(2)[of 3] assms(2)[of 4] assms(2)[of 5] assms(2)[of 7] by (simp_all add: tss_bytes_nth)
  have "read_bytes (memory h) (?d + 8) 4 = take 4 (drop 8 ?bs)"
    by (rule nth_equalityI) (use assms(2)[of "8 + _"] tss_bytes_nth(1)[of A] in \<open>auto simp: add.assoc\<close>)
  then have r: "read32 (memory h) (?d + 8) = ucast (drop_bit 32 A)"
    by (simp add: read32_def tss_bytes_nth(7) le_word_bytes del: le_bytes.simps)
  have d: "gdt_address c + 64 div 8 * 8 = ?d" by simp
  show "bit (memory h (gdt_address c + 69)) 7" using b(4) by (simp add: add.assoc bit_numeral_rec)
  have "bit (0x89 :: u8) 7" by (simp add: bit_numeral_rec)
  then show "get_tr_base c h = Inr A"
    unfolding get_tr_base_def Let_def assms(1) d b r
    using host_word[of A] by (simp add: BUG_ON_def push_bit_push_bit or.assoc)
qed

section \<open>Properties\<close>

text \<open>C23: the interrupt table. Once the interrupt controller is set up, \<open>trap_init\<close> returns, and in the table it leaves
  every vector does what it should: the exceptions with a handler reach it on the right
  privilege and stack (double faults on their own stack, overflow also from user mode), the local APIC's vectors reach
  theirs, every other external vector the handler of spurious interrupts, and no other vector is
  present. The table's register holds its shared address, and the entry points of \<open>sysenter\<close>
  are disabled.\<close>

theorem trap_gates_installed:
  assumes "idt_empty s" "i8259_init d tsc_khz io = Some io'"
  shows "\<exists>s'. trap_init d tsc_khz symbol off cpu (s, io) = Some (Inr (s', io')) \<and>
    (\<forall>v < 256. target (idt_table s' ! v) = map_option (\<lambda>(name, dpl, stack). (ENTRY_ADDR (symbol name), dpl, stack)) (handler_of v)) \<and>
    idtr s' = \<lparr>table_size = 4095, table_address = ENTRY_ADDR (symbol ''idt_table'')\<rparr> \<and>
    msrs (platform s') MSR_IA32_SYSENTER_CS = 0 \<and> msrs (platform s') MSR_IA32_SYSENTER_EIP = 0"
proof -
  obtain s' where s': "trap_init d tsc_khz symbol off cpu (s, io) = Some (Inr (s', io'))"
    "platform s' = trap_msrs (platform (switch_to_new_gdt symbol off cpu s))" "idtr s' = idt_descr symbol"
    "\<And>v. v < 256 \<Longrightarrow> target (idt_table s' ! v) = map_option (\<lambda>(name, dpl, stack). (ENTRY_ADDR (symbol name), dpl, stack)) (handler_of v)"
    using trap_init_returns[OF assms] by metis
  have "msrs (platform s') MSR_IA32_SYSENTER_CS = 0" "msrs (platform s') MSR_IA32_SYSENTER_EIP = 0"
    by (simp_all add: s'(2) trap_msrs_def wrmsrl_def wrmsr_def Let_def GDT_ENTRY_INVALID_SEG_def)
  then show ?thesis using s' by (simp add: idt_descr_def)
qed

definition fresh_traps :: trap_state where
  "fresh_traps = \<lparr>platform = zero_machine, idt_table = replicate 256 null_gate, system_vectors = replicate 4 0,
     gdtr = \<lparr>table_size = 0, table_address = 0\<rparr>, idtr = \<lparr>table_size = 0, table_address = 0\<rparr>, tr = 0\<rparr>"

lemma fresh_empty: "idt_empty fresh_traps"
  by (simp add: fresh_traps_def idt_empty_def)

lemma pic_ready: "\<exists>io'. i8259_init d 0 io = Some io'"
  by (simp add: i8259_init_def outb_pic_def udelay_def uptime_def)

theorem trap_gates_installed_witness:
  "\<exists>s' io'. trap_init pit_device 0 (\<lambda>name. of_nat (length name)) (\<lambda>_. 0) 0 (fresh_traps, \<lparr>io_out = [], io_time = 0\<rparr>) = Some (Inr (s', io')) \<and>
     target (idt_table s' ! 14) = Some (ENTRY_ADDR 10, 0, 0) \<and> target (idt_table s' ! 2) = None"
proof -
  obtain io' where "i8259_init pit_device 0 \<lparr>io_out = [], io_time = 0\<rparr> = Some io'" using pic_ready by blast
  from trap_gates_installed[OF fresh_empty this, where symbol = "\<lambda>name. of_nat (length name)" and off = "\<lambda>_. 0" and cpu = 0]
  obtain s' where s': "trap_init pit_device 0 (\<lambda>name. of_nat (length name)) (\<lambda>_. 0) 0 (fresh_traps, \<lparr>io_out = [], io_time = 0\<rparr>) = Some (Inr (s', io'))"
    "\<forall>v < 256. target (idt_table s' ! v) = map_option (\<lambda>(name, dpl, stack). (ENTRY_ADDR (of_nat (length name)), dpl, stack)) (handler_of v)"
    by blast
  have "(14 :: nat) < 256" "(2 :: nat) < 256" by simp_all
  then show ?thesis using s' by (auto simp: handler_of_def exception_names_def)
qed

text \<open>C25: the type of the interrupt table. Every operation of kernel/idt.c keeps it: 256 gates and as many bits, a
  marked vector has a present interrupt gate of the kernel's code segment without stray bits, an
  unmarked one the empty gate. The loop over the clear bits ends with every external vector marked. \<open>update_intr_gate\<close>
  replaces the handler of a marked vector and nothing else, and stops in \<open>BUG_ON\<close> on any other.\<close>

theorem idt_gates_typed:
  fixes symbol :: "string \<Rightarrow> u64"
  assumes "idt_ok s"
  shows "idt_ok (idt_setup_traps symbol s) \<and> idt_ok (idt_setup_ist_traps symbol s) \<and>
    (\<exists>s'. idt_setup_apic_and_irq_gates symbol s = Some (Inr s') \<and> idt_ok s' \<and> (\<forall>v \<in> {32..<256}. bm_test (system_vectors s') v)) \<and>
    (if unat n < 256 \<and> bm_test (system_vectors s) (unat n)
     then \<exists>s'. update_intr_gate n ad s = Inr s' \<and> idt_ok s' \<and> target (idt_table s' ! unat n) = Some (ENTRY_ADDR ad, 0, 0) \<and>
       (\<forall>v < 256. v \<noteq> unat n \<longrightarrow> idt_table s' ! v = idt_table s ! v)
     else update_intr_gate n ad s = Inl BUG)"
proof -
  let ?s = "idt_setup_from_table (apic_idts symbol) True s"
  obtain idt sv where r: "irq_gates_loop (symbol ''spurious_interrupt'') (find_next_zero_bit (system_vectors ?s) NR_VECTORS 32) ?s = Some (Inr (?s\<lparr>idt_table := idt, system_vectors := sv\<rparr>))"
    "idt_ok (?s\<lparr>idt_table := idt, system_vectors := sv\<rparr>)" "\<And>v. v < 256 \<Longrightarrow> bm_test sv v \<longleftrightarrow> 32 \<le> v \<or> bm_test (system_vectors ?s) v"
    using irq_gates_ok[OF setup_traps_ok(3)[OF assms]] by metis
  then have irq: "\<exists>s'. idt_setup_apic_and_irq_gates symbol s = Some (Inr s') \<and> idt_ok s' \<and> (\<forall>v \<in> {32..<256}. bm_test (system_vectors s') v)"
    by (simp add: idt_setup_apic_and_irq_gates_def FIRST_EXTERNAL_VECTOR_def Let_def)
  let ?u = "s\<lparr>idt_table := (idt_table s)[unat n := idt_init_desc (INTG n ad)]\<rparr>"
  have upd: "idt_ok ?u \<and> target (idt_table ?u ! unat n) = Some (ENTRY_ADDR ad, 0, 0) \<and> (\<forall>v < 256. v \<noteq> unat n \<longrightarrow> idt_table ?u ! v = idt_table s ! v)"
    if "unat n < 256 \<and> bm_test (system_vectors s) (unat n)"
    using assms that by (auto simp: idt_ok_def nth_list_update)
  show ?thesis using update_intr_gate_cases[OF assms] upd irq setup_traps_ok(1,2)[OF assms] by simp
qed

theorem idt_gates_typed_witness:
  "idt_ok fresh_traps \<and> update_intr_gate 0x40 7 fresh_traps = Inl BUG"
  using idt_gates_typed[OF idt_empty_ok[OF fresh_empty], of "\<lambda>_. 0" "0x40" 7] idt_empty_ok[OF fresh_empty]
  by (simp add: fresh_traps_def bm_test_def)

text \<open>C24: the segment table and the task state. After \<open>trap_init\<close>, the segment table in memory holds the two flat code and two
  flat data descriptors at the kernel's and the user's selectors and the descriptor of the task
  state; the task state has the processor's stack and the ends of its four exception stacks; nothing behind the
  task state changes. Where the shared address shows the same table and the processor has the registers loaded, \<open>vmx_vcpu_setup\<close>
  finds the task state there as the host's and returns.\<close>

theorem task_state_found:
  fixes symbol :: "string \<Rightarrow> u64" and s :: trap_state and off :: "nat \<Rightarrow> u64" and cpu :: nat
  assumes "idt_empty s" "trap_init d tsc_khz symbol off cpu (s, io) = Some (Inr (s', io'))"
  defines "gdt \<equiv> get_cpu_entry_area symbol off cpu"
  assumes regs: "gdt_address c = table_address (gdtr s')" "tr_selector c = ucast (tr s')" "\<And>f. vmwrite_ok c f"
    and shared: "\<And>i. i < 128 \<Longrightarrow> memory h (ENTRY_ADDR gdt + of_nat i) = memory (platform s') (gdt + of_nat i)"
  shows "read_bytes (memory (platform s')) gdt 56 =
      concat (map (le_bytes 8) [0, 0, 0x00af9b000000ffff, 0x00cf93000000ffff, 0, 0x00cff3000000ffff, 0x00affb000000ffff :: u64]) \<and>
    read64 (memory (platform s')) (gdt + 4100) = ENTRY_ADDR (symbol ''cpu_stacks'' + of_nat cpu * 16384) + 16384 \<and>
    (\<forall>i < 4. read64 (memory (platform s')) (gdt + 4132 + 8 * of_nat i) = ENTRY_ADDR (gdt + 4200 + 4096 * (of_nat i + 1))) \<and>
    (\<forall>x. 4200 \<le> unat (x - gdt) \<longrightarrow> memory (platform s') x = memory (platform s) x) \<and>
    get_tr_base c h = Inr (ENTRY_ADDR (gdt + 4096)) \<and> (\<exists>h'. vmx_vcpu_setup c h = Inr h')"
proof -
  have "\<exists>io''. i8259_init d tsc_khz io = Some io''" using assms(2) by (auto simp: trap_init_def bind_eq_Some_conv)
  then obtain io'' where pic: "i8259_init d tsc_khz io = Some io''" by blast
  have s': "platform s' = trap_msrs (platform (switch_to_new_gdt symbol off cpu s))" "gdtr s' = gdtr (switch_to_new_gdt symbol off cpu s)" "tr s' = 64"
    by (rule trap_init_returns[OF assms(1) pic, of symbol off cpu], use assms(2) in simp)+
  define stack where "stack = ENTRY_ADDR (symbol ''cpu_stacks'' + of_nat cpu * 16384) + 16384"
  let ?m = "memory (platform s')"
  have m: "?m = place gdt (gdt_places gdt stack) (memory (platform s))"
    using switch_memory[of symbol off cpu s] by (simp add: s' gdt_def stack_def)
  note P = placed[of _ _ gdt stack "memory (platform s)", folded m]
  have table: "read_bytes ?m gdt 56 = concat (map segment_bytes gdt_data)"
    using P[of 0 "concat (map segment_bytes gdt_data)"] by (simp add: gdt_places_def descriptor_words del: le_bytes.simps)
  have w: "read64 ?m (gdt + of_nat k) = v" if "(k, le_bytes 8 v) \<in> set (gdt_places gdt stack)" for k v
    using P[OF that] by (simp add: read64_def le_word_bytes)
  have stacks: "read64 ?m (gdt + 4132 + 8 * of_nat i) = ENTRY_ADDR (gdt + 4200 + 4096 * (of_nat i + 1))" if "i < 4" for i
  proof -
    have "i = 0 \<or> i = 1 \<or> i = 2 \<or> i = 3" using that by linarith
    then show ?thesis
      using w[of 4132 "ENTRY_ADDR (gdt + 8296)"] w[of 4140 "ENTRY_ADDR (gdt + 12392)"] w[of 4148 "ENTRY_ADDR (gdt + 16488)"]
        w[of 4156 "ENTRY_ADDR (gdt + 20584)"] by (auto simp: gdt_places_def add.assoc)
  qed
  have tss: "read_bytes ?m (gdt + 64) 16 = ldttss_bytes (set_tssldt_descriptor (ENTRY_ADDR (gdt + 4096)) DESC_TSS KERNEL_TSS_LIMIT)"
    using P[of 64 "ldttss_bytes (set_tssldt_descriptor (ENTRY_ADDR (gdt + 4096)) DESC_TSS KERNEL_TSS_LIMIT)"] tss_bytes_nth(1)
    by (simp add: gdt_places_def del: le_bytes.simps)
  have c: "gdt_address c = ENTRY_ADDR gdt" "tr_selector c = 64" using regs(1,2) by (simp_all add: s' gdt_def)
  have "memory h (gdt_address c + 64 + of_nat i) = ldttss_bytes (set_tssldt_descriptor (ENTRY_ADDR (gdt + 4096)) DESC_TSS KERNEL_TSS_LIMIT) ! i" if "i < 16" for i
    using shared[of "64 + i"] that by (simp add: c tss[symmetric] add.assoc)
  note host = tr_base_read[OF c(2) this]
  have "host_ok c h" using host(2) regs(3) c(2) by (simp add: host_ok_def GDT_ENTRY_TSS_def)
  then have "\<exists>h'. vmx_vcpu_setup c h = Inr h'" using vcpu_setup_returns by (auto simp: returning_def)
  moreover have "\<forall>x. 4200 \<le> unat (x - gdt) \<longrightarrow> ?m x = memory (platform s) x"
    using place_other[OF gdt_places_apart(2)] by (simp add: m)
  moreover have "read64 ?m (gdt + 4100) = stack" using w[of 4100 stack] by (simp add: gdt_places_def)
  ultimately show ?thesis using table stacks host(1) by (simp add: descriptor_words stack_def del: le_bytes.simps)
qed

theorem task_state_found_witness:
  "\<exists>c h h'. get_tr_base c h = Inr (ENTRY_ADDR 0x101000) \<and> vmx_vcpu_setup c h = Inr h'"
proof -
  let ?symbol = "\<lambda>name. if name = ''cpu_entry_area'' then 0x100000 else 0 :: u64"
  obtain io' where pic: "i8259_init pit_device 0 \<lparr>io_out = [], io_time = 0\<rparr> = Some io'" using pic_ready by blast
  obtain s' where s': "trap_init pit_device 0 ?symbol (\<lambda>_. 0) 0 (fresh_traps, \<lparr>io_out = [], io_time = 0\<rparr>) = Some (Inr (s', io'))"
    using trap_init_returns[OF fresh_empty pic, of ?symbol "\<lambda>_. 0" 0] by blast
  let ?c = "open_cpu\<lparr>gdt_address := table_address (gdtr s'), tr_selector := ucast (tr s')\<rparr>"
  let ?h = "(platform s')\<lparr>memory := \<lambda>x. memory (platform s') (x - ENTRY_OFFSET)\<rparr>"
  have "get_tr_base ?c ?h = Inr (ENTRY_ADDR 0x101000) \<and> (\<exists>h'. vmx_vcpu_setup ?c ?h = Inr h')"
    using task_state_found[OF fresh_empty s', of ?c ?h] by (simp add: open_cpu_def get_cpu_entry_area_def ENTRY_ADDR_def)
  then show ?thesis by blast
qed

end
