(* ===== verification/Start.thy ===== *)
theory Start
  imports Boot Traps
begin

unbundle bit_operations_syntax

text \<open>
  \<open>main\<close> of vmm/main.c, the composition of all that happens before the guest runs, and what its steps leave alone: from the
  state at entry to \<open>kvm_init\<close> they change MSRs, and memory only in the entry area of the processor,
  in \<open>guest_params\<close> and in the registers of the local APIC. So the page tables reach \<open>kvm_init\<close> as they were linked.
\<close>

section \<open>vmm/main.c\<close>

text \<open>
  \<open>main\<close> of vmm/main.c: it identifies the processor, calibrates the clock, loads the descriptor
  tables, takes over the boot loader's information, reads the ACPI tables, sets up the local
  APIC, prepares the guest and starts the virtual CPU. The two consoles registered first have no
  part in the state here. \<open>t\<close> is the machine at entry with its descriptor tables, \<open>io\<close> the
  ports and \<open>e\<close> the memory map.
\<close>

definition boot_apic :: "nat \<Rightarrow> machine \<Rightarrow> apic_state" where
  "boot_apic NR_CPUS h = \<lparr>hardware = h, apic = NULL, acpi_lapic_addr = 0xfee00000, nr_logical_cpuids = 1,
     cpuid_to_apicid = replicate NR_CPUS BAD_APICID, boot_cpu_physical_apicid = BAD_APICID\<rparr>"

definition early_init :: "cpu \<Rightarrow> device \<Rightarrow> (string \<Rightarrow> u64) \<Rightarrow> (nat \<Rightarrow> u64) \<Rightarrow> trap_state \<times> io \<Rightarrow> (stop + trap_state \<times> io) option" where
  "early_init c d symbol off st =
     (let (t, io) = st;
          boot_cpu_data = cpu_init (cpuid c) cpu_info;
          (tsc_khz, io) = tsc_init d (cpuid c) boot_cpu_data io
      in trap_init d tsc_khz symbol off 0 (t, io))"

definition platform_init :: "cpu \<Rightarrow> layout \<Rightarrow> u64 \<Rightarrow> nat \<Rightarrow> u32 \<Rightarrow> u64 \<Rightarrow> e820_state \<Rightarrow> machine \<Rightarrow> (stop + apic_state \<times> e820_state) option" where
  "platform_init c L gp NR_CPUS magic mbi e h =
     (let caps = capability_words (x86_capability (cpu_init (cpuid c) cpu_info))
      in case multiboot_init L gp magic mbi (memory h) e of
           None \<Rightarrow> None
         | Some (Inl r) \<Rightarrow> Some (Inl r)
         | Some (Inr (m, e)) \<Rightarrow>
             (case acpi_table_init m of
                Inl r \<Rightarrow> Some (Inl r)
              | Inr initial_tables \<Rightarrow>
                  map_option (\<lambda>r. and_then r (\<lambda>a. Inr (a, e)))
                    (apic_init NR_CPUS caps 0 initial_tables (boot_apic NR_CPUS (h\<lparr>memory := m\<rparr>)))))"

definition vmm_main :: "cpu \<Rightarrow> device \<Rightarrow> (string \<Rightarrow> u64) \<Rightarrow> (nat \<Rightarrow> u64) \<Rightarrow> layout \<Rightarrow> u64 \<Rightarrow> u64 \<Rightarrow> u64 \<Rightarrow> nat \<Rightarrow> u32 \<Rightarrow> u64 \<Rightarrow> e820_state \<Rightarrow> trap_state \<times> io \<Rightarrow> (stop + machine) option" where
  "vmm_main c d symbol off L gp fw_start fw_end NR_CPUS magic mbi e st =
     (case early_init c d symbol off st of
        None \<Rightarrow> None
      | Some (Inl r) \<Rightarrow> Some (Inl r)
      | Some (Inr (t, io)) \<Rightarrow>
          map_option (\<lambda>r. and_then r (\<lambda>(a, e).
              and_then (kvm_init gp fw_start fw_end (capability_words (x86_capability (cpu_init (cpuid c) cpu_info))) (table e) (hardware a))
                (kvm_bsp_start c L)))
            (platform_init c L gp NR_CPUS magic mbi e (platform t)))"

lemma capability_bit:
  assumes "nr div 32 < 19"
  shows "bm_test (capability_words (x86_capability (cpu_init f cpu_info))) nr \<longleftrightarrow> bit (capability_spec f ! (nr div 32)) (nr mod 32)"
proof -
  have "length (capability_spec f) = 19" by (simp add: capability_spec_def Let_def)
  then show ?thesis using capability_words_bit[of nr "capability_spec f"] assms by (simp add: init_capabilities)
qed

lemma verify_apic_requires:
  assumes "verify_apic caps s = Inr s'"
  shows "bm_test caps X86_FEATURE_APIC" "bit (msrs (hardware s) MSR_IA32_APICBASE) 11"
  using assms by (auto simp: verify_apic_def and_then_eq_Inr Let_def MSR_IA32_APICBASE_ENABLE_def split: if_splits)

lemma early_init_msrs:
  assumes "idt_empty t" "early_init c d symbol off (t, io) = Some (Inr (t', io'))"
  shows "msrs (platform t') MSR_IA32_APICBASE = msrs (platform t) MSR_IA32_APICBASE"
proof -
  obtain tsc_khz io1 where i: "trap_init d tsc_khz symbol off 0 (t, io1) = Some (Inr (t', io'))"
    using assms(2) by (auto simp: early_init_def Let_def split: prod.splits)
  obtain io2 where p: "i8259_init d tsc_khz io1 = Some io2" using i by (auto simp: trap_init_def bind_eq_Some_conv)
  have "platform t' = trap_msrs (platform (switch_to_new_gdt symbol off 0 t))"
    using trap_init_returns[OF assms(1) p, of symbol off 0] i by auto
  then show ?thesis by (simp add: trap_msrs_def switch_to_new_gdt_def Let_def wrmsrl_def wrmsr_def)
qed

section \<open>What the steps of main leave alone\<close>

text \<open>
  Up to \<open>kvm_init\<close> the steps change memory and MSRs of the machine only: \<open>kept R h h'\<close> says that outside the
  addresses \<open>R\<close> memory is as before, and so are the MSRs but those that the trap setup and the local APIC write.
\<close>

definition main_msrs :: "u32 set" where
  "main_msrs = {MSR_IA32_APICBASE, MSR_IA32_SYSENTER_CS, MSR_IA32_SYSENTER_ESP, MSR_IA32_SYSENTER_EIP, MSR_FS_BASE, MSR_GS_BASE, MSR_KERNEL_GS_BASE} \<union>
     {APIC_BASE_MSR..<APIC_BASE_MSR + 0x40}"

definition kept :: "(u64 \<Rightarrow> bool) \<Rightarrow> machine \<Rightarrow> machine \<Rightarrow> bool" where
  "kept R h h' \<longleftrightarrow> h' = h\<lparr>memory := memory h', msrs := msrs h'\<rparr> \<and> (\<forall>x. \<not> R x \<longrightarrow> memory h' x = memory h x) \<and>
     (\<forall>i. i \<notin> main_msrs \<longrightarrow> msrs h' i = msrs h i)"

lemma kept_refl [simp]: "kept R h h"
  by (simp add: kept_def)

lemma kept_trans: "kept R h h' \<Longrightarrow> kept R' h' h'' \<Longrightarrow> kept (\<lambda>x. R x \<or> R' x) h h''"
  unfolding kept_def by (elim conjE, intro conjI) (erule ssubst, erule ssubst, simp_all)

lemma kept_mono: "kept R h h' \<Longrightarrow> (\<And>x. R x \<Longrightarrow> R' x) \<Longrightarrow> kept R' h h'"
  by (auto simp: kept_def)

lemma kept_memory: "(\<And>x. \<not> R x \<Longrightarrow> m x = memory h x) \<Longrightarrow> kept R h (h\<lparr>memory := m\<rparr>)"
  by (simp add: kept_def)

lemma kept_msrs:
  "i \<in> main_msrs \<Longrightarrow> kept R h (wrmsrl i v h)" "i \<in> main_msrs \<Longrightarrow> kept R h (wrmsr i lo hi h)"
  by (auto simp: kept_def wrmsrl_def wrmsr_def)

lemma image_kept_ok:
  assumes "image_ok c L gp k h" "kept R h h'" "\<And>T n j. (T, n) \<in> tables L \<Longrightarrow> j < 8 * n \<Longrightarrow> \<not> R (T + of_nat j)"
  shows "image_ok c L gp k h'"
proof -
  have h': "h' = h\<lparr>memory := memory h', msrs := msrs h'\<rparr>" and m: "\<And>x. \<not> R x \<Longrightarrow> memory h' x = memory h x"
    using assms(2) by (auto simp: kept_def)
  have e: "read64 (memory h') (slot T i) = read64 (memory h) (slot T i)" if T: "(T, n) \<in> tables L" "i < n" for T n i
  proof (rule read64_cong)
    fix j :: nat assume "j < 8"
    then have "memory h' (T + of_nat (8 * i + j)) = memory h (T + of_nat (8 * i + j))" using T by (intro m assms(3)[OF T(1)]) linarith
    then show "memory h' (slot T i + of_nat j) = memory h (slot T i + of_nat j)" by (simp add: slot_def add.assoc)
  qed
  have f: "msr_bitmap h' = msr_bitmap h" "vmcs h' = vmcs h" "pml4_0_512g_initialized h' = pml4_0_512g_initialized h"
    "autoload_guest h' = autoload_guest h" "autoload_host h' = autoload_host h" by (subst h', simp)+
  have "ept_ok L False (memory h')" using assms(1)
    by (simp add: image_ok_def ept_ok_def e[OF table_members(1)] e[OF table_members(2)] e[OF table_members(3)])
  then show ?thesis using assms(1) by (simp add: image_ok_def f)
qed

subsection \<open>The local APIC\<close>

definition apic_page :: "apic_state \<Rightarrow> u64 \<Rightarrow> bool" where
  "apic_page s x \<longleftrightarrow> unat (x - acpi_lapic_addr s) < 1024"

definition apic_frame :: "apic_state \<Rightarrow> apic_state \<Rightarrow> bool" where
  "apic_frame s s' \<longleftrightarrow> acpi_lapic_addr s' = acpi_lapic_addr s \<and> kept (apic_page s) (hardware s) (hardware s')"

lemma apic_frame_refl [simp]: "apic_frame s s"
  by (simp add: apic_frame_def)

lemma apic_frame_trans:
  assumes "apic_frame s s'" "apic_frame s' s''"
  shows "apic_frame s s''"
proof -
  have "apic_page s' = apic_page s" using assms(1) by (simp add: apic_frame_def apic_page_def fun_eq_iff)
  then show ?thesis using assms kept_trans[of "apic_page s" "hardware s" "hardware s'" "apic_page s" "hardware s''"] by (simp add: apic_frame_def)
qed

lemma xapic_write_frame: "unat r + 4 \<le> 1024 \<Longrightarrow> apic_frame s (xapic_write r v s)"
proof -
  assume r: "unat r + 4 \<le> 1024"
  have u: "(ucast r :: u64) = of_nat (unat r)" by simp
  have "write32 (memory (hardware s)) (acpi_lapic_addr s + ucast r) v x = memory (hardware s) x" if "\<not> apic_page s x" for x
    using that r write_outside[of "unat r" "le_bytes 4 v" 1024 x "acpi_lapic_addr s" "memory (hardware s)"]
    unfolding write32_def u by (simp add: apic_page_def)
  then show ?thesis by (simp add: apic_frame_def xapic_write_def kept_memory)
qed

lemma apic_write_frame:
  assumes "driver p = Inr d" "apic_frame s0 s" "unat r + 4 \<le> 1024"
  shows "apic_frame s0 (apic_write d r v s)"
proof -
  have "drop_bit 4 r < 0x40" using assms(3) by (simp add: word_less_nat_alt drop_bit_eq_div unat_div div_less_iff_less_mult)
  then have "unat (0x800 + drop_bit 4 r) = 0x800 + unat (drop_bit 4 r)" by (subst unat_add_lem[THEN iffD1]) (simp_all add: word_less_nat_alt)
  then have "APIC_BASE_MSR + drop_bit 4 r \<in> main_msrs" using \<open>drop_bit 4 r < 0x40\<close>
    by (simp add: main_msrs_def APIC_BASE_MSR_def word_le_nat_alt word_less_nat_alt)
  then have "apic_frame s (apic_write d r v s)"
    using assms(1) xapic_write_frame[OF assms(3), of s v]
    by (auto simp: driver_def apic_write_def xapic_def x2apic_def x2apic_write_def apic_frame_def kept_msrs split: apic_ptr.splits)
  then show ?thesis by (rule apic_frame_trans[OF assms(2)])
qed

lemma apic_ldr_frame:
  assumes "driver p = Inr d" "apic_frame s0 s"
  shows "apic_frame s0 (op_init_apic_ldr d num s)"
proof -
  have "apic_frame s (op_init_apic_ldr d num s)"
    using assms(1) apic_frame_trans[OF xapic_write_frame xapic_write_frame]
    by (auto simp: driver_def xapic_def x2apic_def x2apic_init_apic_ldr_def xapic_init_apic_ldr_def Let_def split: apic_ptr.splits)
  then show ?thesis by (rule apic_frame_trans[OF assms(2)])
qed

lemma apic_setup_frame:
  assumes "driver p = Inr d"
  shows "apic_frame s (lapic_setup_esr d (setup_local_apic d num (clear_local_apic d s)))"
  unfolding lapic_setup_esr_def setup_local_apic_def clear_local_apic_def Let_def
  by (intro apic_write_frame[OF assms] apic_ldr_frame[OF assms] apic_frame_refl) simp_all

lemma madt_handlers_frame: "handlers_keep (\<lambda>s. hardware s = h \<and> acpi_lapic_addr s = A) (madt_proc N)"
  by (auto simp: handlers_keep_def handler_keeps_def madt_proc_def acpi_parse_lapic_def acpi_parse_x2apic_def acpi_register_lapic_def Let_def and_then_eq_Inr split: if_splits)

lemma bsp_frame:
  assumes "apic_init_bsp N tabs d s = Some (Inr s')"
  shows "hardware s' = hardware s \<and>
    acpi_lapic_addr s' = ucast (read32 (memory (hardware s)) (acpi_find_table (memory (hardware s)) tabs ACPI_SIG_MADT + 36))"
proof -
  have keep: "hardware s2 = hardware s1 \<and> acpi_lapic_addr s2 = acpi_lapic_addr s1" if "acpi_parse_madt_lapic_entries N tabs s1 = Some (Inr (n, s2))" for s1 n s2
    using that subtable_loop_keeps[OF _ madt_handlers_frame[of "hardware s1" "acpi_lapic_addr s1" N]]
    by (auto simp: acpi_parse_madt_lapic_entries_def acpi_table_parse_entries_array_def and_then_eq_Inr Let_def split: if_splits)
  show ?thesis using assms
    by (auto simp: apic_init_bsp_def acpi_table_parse_def acpi_parse_madt_def and_then_eq_Inr ENODEV_def Let_def split: if_splits dest!: keep)
qed

lemma apic_init_kept:
  assumes "apic_init N caps num tabs s = Some (Inr s')"
  shows "kept (apic_page s') (hardware s) (hardware s')"
    and "boot_cpu_physical_apicid s = BAD_APICID \<Longrightarrow>
      acpi_lapic_addr s' = ucast (read32 (memory (hardware s)) (acpi_find_table (memory (hardware s)) tabs ACPI_SIG_MADT + 36))"
proof -
  obtain s1 where v: "verify_apic caps s = Inr s1" using assms by (auto simp: apic_init_def split: sum.splits)
  obtain d where d: "driver (apic s1) = Inr d" using assms v by (auto simp: apic_init_def split: sum.splits)
  obtain s2 where s2: "(if boot_cpu_physical_apicid s1 = BAD_APICID then apic_init_bsp N tabs d s1 else Some (Inr s1)) = Some (Inr s2)"
    and s': "s' = lapic_setup_esr d (setup_local_apic d num (clear_local_apic d s2))"
    using assms v d by (auto simp: apic_init_def and_then_eq_Inr)
  have h: "hardware s2 = hardware s1" using s2 bsp_frame by (auto split: if_splits)
  have "kept (\<lambda>_. False) (hardware s) (hardware s1)"
    using v by (auto simp: verify_apic_def and_then_eq_Inr x2apic_enable_def Let_def kept_def main_msrs_def split: if_splits)
  moreover have f: "apic_frame s2 s'" unfolding s' by (rule apic_setup_frame[OF d])
  then have "apic_page s2 = apic_page s'" by (simp add: apic_frame_def apic_page_def fun_eq_iff)
  ultimately show "kept (apic_page s') (hardware s) (hardware s')" using f kept_trans[of "\<lambda>_. False" "hardware s" "hardware s1" "apic_page s'" "hardware s'"]
    by (simp add: apic_frame_def h)
  assume "boot_cpu_physical_apicid s = BAD_APICID"
  moreover have "boot_cpu_physical_apicid s1 = boot_cpu_physical_apicid s" "memory (hardware s1) = memory (hardware s)"
    using v by (auto simp: verify_apic_def and_then_eq_Inr x2apic_enable_def Let_def split: if_splits)
  ultimately show "acpi_lapic_addr s' = ucast (read32 (memory (hardware s)) (acpi_find_table (memory (hardware s)) tabs ACPI_SIG_MADT + 36))"
    using s2 bsp_frame[of N tabs d s1 s2] f by (simp add: apic_frame_def)
qed

subsection \<open>The descriptor tables and the boot loader's information\<close>

lemma trap_init_kept:
  assumes "idt_empty t" "trap_init d tsc_khz symbol off cpu (t, io) = Some (Inr (t', io'))"
  shows "kept (\<lambda>x. unat (x - get_cpu_entry_area symbol off cpu) < 4200) (platform t) (platform t')"
proof -
  obtain io2 where p: "i8259_init d tsc_khz io = Some io2" using assms(2) by (auto simp: trap_init_def bind_eq_Some_conv)
  have t': "platform t' = trap_msrs (platform (switch_to_new_gdt symbol off cpu t))"
    using trap_init_returns[OF assms(1) p, of symbol off cpu] assms(2) by auto
  let ?h = "platform (switch_to_new_gdt symbol off cpu t)"
  have "?h = (platform t)\<lparr>memory := memory ?h\<rparr>" by (simp add: switch_to_new_gdt_def Let_def)
  moreover have "kept (\<lambda>x. unat (x - get_cpu_entry_area symbol off cpu) < 4200) (platform t) ((platform t)\<lparr>memory := memory ?h\<rparr>)"
    unfolding switch_memory by (intro kept_memory place_other[OF gdt_places_apart(2)]) simp
  moreover have "kept (\<lambda>_. False) ?h (trap_msrs ?h)"
    unfolding trap_msrs_def Let_def by (simp add: kept_def wrmsrl_def wrmsr_def main_msrs_def)
  ultimately show ?thesis unfolding t' using kept_trans[where R' = "\<lambda>_. False"] by fastforce
qed

text \<open>\<open>strscpy\<close> writes into its buffer only, wherever the source is.\<close>

lemma upd_outside:
  assumes "k < n" "n \<le> unat (x - a)"
  shows "x \<noteq> a + of_nat k"
proof
  assume "x = a + of_nat k"
  then have "x - a = of_nat k" by simp
  then have "unat (x - a) \<le> k" by (simp only: unat_of_nat) simp
  then show False using assms by simp
qed

lemma strscpy_bytes_outside:
  assumes "res + cnt \<le> n" "n \<le> unat (x - dest)"
  shows "fst (strscpy_bytes m dest src res cnt) x = m x"
  using assms(1)
proof (induction cnt arbitrary: m res)
  case 0
  have "x \<noteq> dest + of_nat (res - 1)" if "res \<noteq> 0" using 0 that assms(2) by (intro upd_outside[of _ n]) auto
  moreover have "dest + of_nat res - 1 = dest + of_nat (res - 1)" if "res \<noteq> 0" using that by (simp add: of_nat_diff)
  ultimately show ?case by auto
next
  case (Suc cnt)
  have "x \<noteq> dest + of_nat res" using Suc.prems assms(2) by (intro upd_outside[of _ n]) auto
  then show ?case using Suc by (simp add: Let_def)
qed

lemma strscpy_words_outside:
  assumes "res + mx \<le> n" "mx \<le> cnt" "n \<le> unat (x - dest)"
  shows "case strscpy_words m dest src res cnt mx of
      Inl r \<Rightarrow> fst r x = m x | Inr (m', res', cnt') \<Rightarrow> m' x = m x \<and> res' + cnt' = res + cnt"
  using assms
proof (induction m dest src res cnt mx rule: strscpy_words.induct)
  case (1 m dest src res cnt mx)
  have w: "write64 m (dest + of_nat res) v x = m x" if "8 \<le> mx" for v
    unfolding write64_def by (rule write_outside[of res _ n]) (use 1(2,4) that in simp_all)
  show ?case
  proof (cases "8 \<le> mx \<and> has_zero (read64 m (src + of_nat res)) = 0")
    case True
    then have "case strscpy_words (write64 m (dest + of_nat res) (read64 m (src + of_nat res))) dest src (res + 8) (cnt - 8) (mx - 8) of
        Inl r \<Rightarrow> fst r x = write64 m (dest + of_nat res) (read64 m (src + of_nat res)) x
      | Inr (m', res', cnt') \<Rightarrow> m' x = write64 m (dest + of_nat res) (read64 m (src + of_nat res)) x \<and> res' + cnt' = res + 8 + (cnt - 8)"
      using 1(2-4) by (intro 1(1)) auto
    then show ?thesis using True w 1(3) by (auto simp: strscpy_words.simps[of m] Let_def split: sum.splits)
  next
    case False
    then show ?thesis using w by (simp add: strscpy_words.simps[of m] Let_def)
  qed
qed

lemma strscpy_outside:
  assumes "unat cnt \<le> unat (x - dest)"
  shows "fst (strscpy m dest src cnt) x = m x"
proof -
  define mx where "mx = (if (dest OR src) AND (8 - 1) \<noteq> 0 then 0 else cnt)"
  have "case strscpy_words m dest src 0 (unat cnt) (unat mx) of
      Inl r \<Rightarrow> fst r x = m x | Inr (m', res', cnt') \<Rightarrow> m' x = m x \<and> res' + cnt' = 0 + unat cnt"
    by (rule strscpy_words_outside[OF _ _ assms]) (simp_all add: mx_def)
  then show ?thesis
    using strscpy_bytes_outside[OF _ assms] unfolding strscpy_def Let_def mx_def[symmetric] by (auto split: sum.splits prod.splits)
qed

lemma copy_module_outside:
  assumes "k + 16 \<le> n" "n \<le> unat (x - gp)"
  shows "copy_module m mods i (gp + of_nat k) (gp + of_nat (k + 8)) x = m x"
  unfolding copy_module_def Let_def write64_def by (subst write_outside[of _ _ n], use assms in simp_all)+

text \<open>The eight bytes before the first field, the magic, are not written.\<close>

lemma multiboot_outside:
  assumes "multiboot_init L gp magic mbi m e = Some (Inr (m', e'))" "3620 \<le> unat (x - (gp + 8))"
  shows "m' x = m x"
proof -
  have md: "multiboot_modules gp mbi m = Inr m'"
    using assms(1) by (auto simp: multiboot_init_def and_then_eq_Inr split: if_splits)
  define b where "b = gp + 8"
  have f: "gp_kernel_start gp = b" "gp_kernel_end gp = b + 8" "gp_initrd_start gp = b + 16" "gp_initrd_end gp = b + 24" "gp_cmdline gp = b + 32"
    by (simp_all add: b_def gp_kernel_start_def gp_kernel_end_def gp_initrd_start_def gp_initrd_end_def gp_cmdline_def)
  have x: "3620 \<le> unat (x - b)" using assms(2) by (simp add: b_def)
  have c: "copy_module m1 mods i b (b + 8) x = m1 x" "copy_module m1 mods i (b + 16) (b + 24) x = m1 x" for m1 mods i
    using copy_module_outside[of 0 3620 x b m1 mods i] copy_module_outside[of 16 3620 x b m1 mods i] x by simp_all
  have "unat (x - b - 32) = unat (x - b) - 32" using x by (simp add: unat_sub_if')
  then have "1024 \<le> unat (x - (b + 32))" using x by (simp add: diff_diff_add)
  then have s: "fst (strscpy m1 (b + 32) src CMDLINE_SIZE) x = m1 x" for m1 src by (intro strscpy_outside) (simp add: CMDLINE_SIZE_def)
  show ?thesis using md c s
    by (auto simp: multiboot_modules_def and_then_eq_Inr Let_def f split: prod.splits if_splits) (metis fst_conv)+
qed

lemma params_outside:
  fixes x gp :: u64
  assumes "unat gp_size \<le> unat (x - gp)"
  shows "3620 \<le> unat (x - (gp + 8))"
proof -
  have "8 \<le> unat (x - gp)" using assms by (simp add: gp_size_def)
  then have "unat (x - gp - 8) = unat (x - gp) - 8" by (simp add: unat_sub word_le_nat_alt)
  then show ?thesis using assms by (simp add: gp_size_def diff_diff_add)
qed

section \<open>From main to the virtual CPU\<close>

lemma main_steps:
  assumes "vmm_main c d symbol off L gp fw_start fw_end NR_CPUS magic mbi e (t, io) = Some (Inr s)"
  obtains t' io' m e1 tabs a s1 where "early_init c d symbol off (t, io) = Some (Inr (t', io'))"
    and "platform_init c L gp NR_CPUS magic mbi e (platform t') = Some (Inr (a, e1))"
    and "multiboot_init L gp magic mbi (memory (platform t')) e = Some (Inr (m, e1))" "acpi_table_init m = Inr tabs"
    and "apic_init NR_CPUS (capability_words (x86_capability (cpu_init (cpuid c) cpu_info))) 0 tabs (boot_apic NR_CPUS ((platform t')\<lparr>memory := m\<rparr>)) = Some (Inr a)"
    and "kvm_init gp fw_start fw_end (capability_words (x86_capability (cpu_init (cpuid c) cpu_info))) (table e1) (hardware a) = Inr s1"
    and "kvm_bsp_start c L s1 = Inr s"
proof -
  obtain t' io' a e1 where early: "early_init c d symbol off (t, io) = Some (Inr (t', io'))"
    and plat: "platform_init c L gp NR_CPUS magic mbi e (platform t') = Some (Inr (a, e1))"
    and "\<exists>s1. kvm_init gp fw_start fw_end (capability_words (x86_capability (cpu_init (cpuid c) cpu_info))) (table e1) (hardware a) = Inr s1 \<and> kvm_bsp_start c L s1 = Inr s"
    using assms by (auto simp: vmm_main_def and_then_eq_Inr split: option.splits sum.splits)
  then show thesis using that[OF early plat] by (auto simp: platform_init_def and_then_eq_Inr Let_def split: option.splits sum.splits)
qed

lemma early_init_kept:
  assumes "idt_empty t" "early_init c d symbol off (t, io) = Some (Inr (t', io'))"
  shows "kept (\<lambda>x. unat (x - get_cpu_entry_area symbol off 0) < 4200) (platform t) (platform t')"
  using assms(2) by (auto simp: early_init_def Let_def split: prod.splits intro: trap_init_kept[OF assms(1)])

lemma main_ready:
  assumes "valid_state e" "idt_empty t" "image_ok c L gp (unat (fw_end - fw_start)) (platform t)"
    and area: "\<And>T n. (T, n) \<in> tables L \<Longrightarrow> apart (get_cpu_entry_area symbol off 0) 4200 T (8 * n)"
    and lapic: "\<And>t' io' a e1 T n. early_init c d symbol off (t, io) = Some (Inr (t', io')) \<Longrightarrow>
      platform_init c L gp NR_CPUS magic mbi e (platform t') = Some (Inr (a, e1)) \<Longrightarrow> (T, n) \<in> tables L \<Longrightarrow> apart (acpi_lapic_addr a) 1024 T (8 * n)"
    and main: "vmm_main c d symbol off L gp fw_start fw_end NR_CPUS magic mbi e (t, io) = Some (Inr s)"
  obtains s1 where "boot_ok c L s1" "kvm_bsp_start c L s1 = Inr s"
proof -
  obtain t' io' m e1 tabs a s1 where early: "early_init c d symbol off (t, io) = Some (Inr (t', io'))"
    and plat: "platform_init c L gp NR_CPUS magic mbi e (platform t') = Some (Inr (a, e1))"
    and multi: "multiboot_init L gp magic mbi (memory (platform t')) e = Some (Inr (m, e1))"
    and ap: "apic_init NR_CPUS (capability_words (x86_capability (cpu_init (cpuid c) cpu_info))) 0 tabs (boot_apic NR_CPUS ((platform t')\<lparr>memory := m\<rparr>)) = Some (Inr a)"
    and kvm: "kvm_init gp fw_start fw_end (capability_words (x86_capability (cpu_init (cpuid c) cpu_info))) (table e1) (hardware a) = Inr s1"
    and bsp: "kvm_bsp_start c L s1 = Inr s" by (rule main_steps[OF main])
  have "layout_ok L" and gp: "\<And>T n. (T, n) \<in> tables L \<Longrightarrow> apart gp (unat gp_size) T (8 * n)"
    using assms(3) by (auto simp: image_ok_def)
  then have le: "img_start L \<le> img_end L" by (auto simp: layout_ok_def word_le_nat_alt)
  have "image_ok c L gp (unat (fw_end - fw_start)) (platform t')"
    by (rule image_kept_ok[OF assms(3) early_init_kept[OF assms(2) early]]) (use area apart_offset in \<open>fastforce simp: not_less\<close>)
  moreover have "kept (\<lambda>x. unat (x - gp) < unat gp_size) (platform t') ((platform t')\<lparr>memory := m\<rparr>)"
    by (rule kept_memory) (use multiboot_outside[OF multi params_outside] in \<open>simp add: not_less\<close>)
  ultimately have "image_ok c L gp (unat (fw_end - fw_start)) ((platform t')\<lparr>memory := m\<rparr>)"
    by (rule image_kept_ok) (use gp apart_offset in \<open>fastforce simp: not_less\<close>)
  moreover have "kept (apic_page a) ((platform t')\<lparr>memory := m\<rparr>) (hardware a)" using apic_init_kept(1)[OF ap] by (simp add: boot_apic_def)
  ultimately have "image_ok c L gp (unat (fw_end - fw_start)) (hardware a)"
    by (rule image_kept_ok) (use lapic[OF early plat] apart_offset in \<open>fastforce simp: apic_page_def not_less\<close>)
  then have "boot_ok c L s1" by (rule kvm_init_boot_ok[OF _ multiboot_init_masks(1)[OF assms(1) le multi] kvm])
  then show thesis using that bsp by blast
qed

section \<open>A run of main\<close>

text \<open>
  A machine on which \<open>main\<close> comes to its end: a processor with VMX and a local APIC, devices that always
  read 0 and a clock that stands still, the ACPI tables, the boot loader's information and the firmware of the samples above.
\<close>

definition main_cpu :: cpu where
  "main_cpu = open_cpu\<lparr>cpuid := (\<lambda>leaf _. if leaf = 0 then (1, 0, 0, 0) else if leaf = 1 then (0, 0, 0x20, 0x200) else (0, 0, 0, 0))\<rparr>"

definition still_device :: device where
  "still_device = \<lparr>dev_in = \<lambda>_ _. 0, dev_tsc = \<lambda>_. 0\<rparr>"

definition main_symbol :: "string \<Rightarrow> u64" where
  "main_symbol name = (if name = ''cpu_entry_area'' then 0x20000000 else 0)"

definition main_memory :: mem where
  "main_memory x = (if x < 0x8000 then acpi_memory x else if x < 0xa000 then boot_memory x else firmware_memory x)"

definition main_machine :: machine where
  "main_machine = capable_machine\<lparr>memory := main_memory, msrs := (msrs capable_machine)(MSR_IA32_APICBASE := 0xfee00900)\<rparr>"

definition main_traps :: trap_state where
  "main_traps = fresh_traps\<lparr>platform := main_machine\<rparr>"

lemma still_pic: "\<exists>io'. i8259_init still_device tsc_khz io = Some io'"
  by (simp add: i8259_init_def outb_pic_def udelay_def uptime_def get_cycles_def still_device_def split_def)

lemma main_caps:
  "bm_test (capability_words (x86_capability (cpu_init (cpuid main_cpu) cpu_info))) X86_FEATURE_APIC"
  "bm_test (capability_words (x86_capability (cpu_init (cpuid main_cpu) cpu_info))) X86_FEATURE_VMX"
proof -
  have "bit (0x20 :: u32) 5" "bit (0x200 :: u32) 9" by (simp_all add: bit_numeral_rec)
  then show "bm_test (capability_words (x86_capability (cpu_init (cpuid main_cpu) cpu_info))) X86_FEATURE_APIC"
    "bm_test (capability_words (x86_capability (cpu_init (cpuid main_cpu) cpu_info))) X86_FEATURE_VMX"
    by (simp_all add: capability_bit X86_FEATURE_APIC_def X86_FEATURE_VMX_def capability_spec_def Let_def word_if_def main_cpu_def reg_simps)
qed

lemma main_image: "image_ok main_cpu small_layout 0x10100000 8 (platform main_traps)"
proof -
  have "main_memory x = 0" if "0x10001000 \<le> unat x" "unat x < 0x10007000" for x
    using that by (auto simp: main_memory_def firmware_memory_def word_less_nat_alt)
  then have "ept_ok small_layout False main_memory" by (rule empty_tables)
  then show ?thesis using small_layout_ok
    by (simp add: image_ok_def tables_def main_traps_def main_machine_def capable_machine_def zero_machine_def NR_AUTOLOAD_MSRS_def apart_def
        small_layout_def main_cpu_def open_cpu_def firmware_va gp_size_def)
qed

lemma main_early:
  obtains t' io' where "early_init main_cpu still_device main_symbol (\<lambda>_. 0) (main_traps, io) = Some (Inr (t', io'))"
proof -
  obtain khz io1 where k: "tsc_init still_device (cpuid main_cpu) (cpu_init (cpuid main_cpu) cpu_info) io = (khz, io1)" by force
  obtain io2 where p: "i8259_init still_device khz io1 = Some io2" using still_pic by blast
  have "idt_empty main_traps" using fresh_empty by (simp add: main_traps_def idt_empty_def)
  from trap_init_returns[OF this p, of main_symbol "\<lambda>_. 0" 0]
  obtain t' where "trap_init still_device khz main_symbol (\<lambda>_. 0) 0 (main_traps, io1) = Some (Inr (t', io2))" by blast
  then show thesis using that by (simp add: early_init_def k Let_def)
qed

lemma kept_here: "kept R h h' \<Longrightarrow> \<not> R x \<Longrightarrow> memory h' x = memory h x"
  by (simp add: kept_def)

lemma main_platform:
  assumes "early_init main_cpu still_device main_symbol (\<lambda>_. 0) (main_traps, io) = Some (Inr (t', io'))"
  obtains a e1 where "platform_init main_cpu small_layout 0x10100000 1 0x2BADB002 0x9000 boot_state (platform t') = Some (Inr (a, e1))"
    "acpi_lapic_addr a = 0xfee00000" "valid_table (table e1)"
    "kept (\<lambda>x. unat (x - 0x20000000) < 4200 \<or> unat (x - 0x10100008) < 3620 \<or> unat (x - 0xfee00000) < 1024) main_machine (hardware a)"
proof -
  have e: "idt_empty main_traps" using fresh_empty by (simp add: main_traps_def idt_empty_def)
  have p: "platform main_traps = main_machine" by (simp add: main_traps_def)
  have k1: "kept (\<lambda>x. unat (x - 0x20000000) < 4200) main_machine (platform t')"
    using early_init_kept[OF e assms] by (simp add: p get_cpu_entry_area_def main_symbol_def)
  have base: "msrs (platform t') MSR_IA32_APICBASE = 0xfee00900"
    using early_init_msrs[OF e assms] by (simp add: p main_machine_def)
  have m1: "memory (platform t') x = main_memory x" if "unat x < 0x20000000 \<or> 0x30000000 \<le> unat x" for x
  proof -
    have "4200 \<le> unat (x - 0x20000000)" using that unat_lt_64[of x] by (auto simp: unat_sub_if')
    then show ?thesis using kept_here[OF k1, of x] by (simp add: main_machine_def)
  qed
  have "boot_area (memory (platform t'))"
    using m1 by (auto simp: boot_area_def main_memory_def word_less_nat_alt)
  then obtain m e1 where mb: "multiboot_init small_layout 0x10100000 0x2BADB002 0x9000 (memory (platform t')) boot_state = Some (Inr (m, e1))"
    and v: "valid_table (table e1)" by (rule boot_returns)
  have m2: "m x = memory (platform t') x" if "unat x < 0x10100000 \<or> 0x10101000 \<le> unat x" for x
  proof -
    have "3620 \<le> unat (x - (0x10100000 + 8))" using that unat_lt_64[of x] by (auto simp: unat_sub_if')
    then show ?thesis by (rule multiboot_outside[OF mb])
  qed
  have acpi: "acpi_area m" using m1 m2 by (auto simp: acpi_area_def main_memory_def word_less_nat_alt)
  define h where "h = (platform t')\<lparr>memory := m\<rparr>"
  have k2: "kept (\<lambda>x. unat (x - 0x10100008) < 3620) (platform t') h"
    unfolding h_def by (rule kept_memory) (use multiboot_outside[OF mb] in \<open>simp add: not_less\<close>)
  define caps where "caps = capability_words (x86_capability (cpu_init (cpuid main_cpu) cpu_info))"
  let ?s = "(boot_apic 1 h)\<lparr>apic := XAPIC\<rparr>"
  have "m (0xfee00020 + of_nat i) = 0" if "i < 4" for i
  proof -
    have u: "unat (0xfee00020 + of_nat i :: u64) = 0xfee00020 + i" using that by (simp add: unat_word_ariths)
    then have "m (0xfee00020 + of_nat i) = main_memory (0xfee00020 + of_nat i)" using m1 m2 by simp
    then show ?thesis using u by (simp add: main_memory_def firmware_memory_def word_less_nat_alt word_unat_eq_iff)
  qed
  then have "read_bytes m 0xfee00020 4 = read_bytes (\<lambda>_. 0) 0xfee00020 4" by (rule read_bytes_cong)
  then have id: "read32 m 0xfee00020 = 0" by (simp add: read32_def) (simp add: read_bytes_def upt_rec)
  have ok: "acpi_area (memory (hardware ?s))" "read32 (memory (hardware ?s)) 0xfee00020 = 0" "no_cpus 1 ?s"
    using acpi id by (simp_all add: boot_apic_def h_def no_cpus_def)
  have ver: "verify_apic caps (boot_apic 1 h) = Inr ?s"
    using main_caps(1) base by (simp add: verify_apic_def caps_def boot_apic_def h_def panic_if_def BUG_ON_def Let_def
        MSR_IA32_APICBASE_ENABLE_def MSR_IA32_APICBASE_X2APIC_ENABLE_def BIT_64_def)
  have bad: "boot_cpu_physical_apicid (boot_apic 1 h) = BAD_APICID" by (simp add: boot_apic_def)
  obtain a where a: "apic_init 1 caps 0 (null_padded [0x6000]) (boot_apic 1 h) = Some (Inr a)"
    using sample_bsp[OF ok] bad unfolding apic_init_def ver by (auto simp: driver_def boot_apic_def)
  note k3 = apic_init_kept[OF a]
  have find: "acpi_find_table m (null_padded [0x6000]) ACPI_SIG_MADT = 0x6000" by (rule sample_madt_found[OF acpi])
  have "read32 m 0x6024 = 0xfee00000" by (simp add: read32_def acpi_area_byte[OF acpi] acpi_eval)
  then have ad: "acpi_lapic_addr a = 0xfee00000" using k3(2)[OF bad] by (simp add: boot_apic_def h_def find)
  have "kept (\<lambda>x. unat (x - 0xfee00000) < 1024) h (hardware a)" using k3(1) by (simp add: boot_apic_def apic_page_def[abs_def] ad)
  note k = kept_trans[OF kept_trans[OF k1 k2] this]
  have "platform_init main_cpu small_layout 0x10100000 1 0x2BADB002 0x9000 boot_state (platform t') = Some (Inr (a, e1))"
    using a by (simp add: platform_init_def mb acpi_memory_init[OF acpi] caps_def h_def)
  then show thesis by (rule that[OF _ ad v kept_mono[OF k]]) auto
qed

lemma main_run:
  obtains s where "vmm_main main_cpu still_device main_symbol (\<lambda>_. 0) small_layout 0x10100000 0x10200000 0x10200008 1 0x2BADB002 0x9000 boot_state
    (main_traps, io) = Some (Inr s)"
proof -
  obtain t' io' where early: "early_init main_cpu still_device main_symbol (\<lambda>_. 0) (main_traps, io) = Some (Inr (t', io'))" by (rule main_early)
  obtain a e1 where plat: "platform_init main_cpu small_layout 0x10100000 1 0x2BADB002 0x9000 boot_state (platform t') = Some (Inr (a, e1))"
    and v: "valid_table (table e1)"
    and k: "kept (\<lambda>x. unat (x - 0x20000000) < 4200 \<or> unat (x - 0x10100008) < 3620 \<or> unat (x - 0xfee00000) < 1024) main_machine (hardware a)"
    by (rule main_platform[OF early])
  have "hardware a = main_machine\<lparr>memory := memory (hardware a), msrs := msrs (hardware a)\<rparr>" using k by (simp add: kept_def)
  then have hw: "hardware a = capable_machine\<lparr>memory := memory (hardware a), msrs := msrs (hardware a)\<rparr>" by (simp add: main_machine_def)
  have m: "memory (hardware a) x = firmware_memory x" if "0x10100000 \<le> unat x \<and> unat x < 0x10100008 \<or> 0x10200000 \<le> unat x \<and> unat x < 0x10201000" for x
  proof -
    have "4200 \<le> unat (x - 0x20000000)" "3620 \<le> unat (x - 0x10100008)" "1024 \<le> unat (x - 0xfee00000)"
      using that by (auto simp: unat_sub_if')
    then have "memory (hardware a) x = main_memory x" using kept_here[OF k, of x] by (simp add: main_machine_def)
    then show ?thesis using that by (auto simp: main_memory_def word_less_nat_alt)
  qed
  have fw: "firmware_area (memory (hardware a))"
    unfolding firmware_area_def by (intro allI impI m) (auto simp: word_less_nat_alt word_le_nat_alt)
  have ms: "msrs (hardware a) i = msrs capable_machine i" if "i = 0x3a \<or> 0x480 \<le> i \<and> i < 0x492" for i
  proof -
    have i: "i \<notin> main_msrs" "i \<noteq> MSR_IA32_APICBASE"
      using that by (auto simp: main_msrs_def APIC_BASE_MSR_def word_less_nat_alt word_le_nat_alt)
    then have "msrs (hardware a) i = msrs main_machine i" using k by (simp add: kept_def)
    then show ?thesis using i(2) by (simp add: main_machine_def)
  qed
  let ?caps = "capability_words (x86_capability (cpu_init (cpuid main_cpu) cpu_info))"
  obtain s1 where kvm: "kvm_init 0x10100000 0x10200000 0x10200008 ?caps (table e1) (hardware a) = Inr s1"
    using capable_kvm_init[OF fw v main_caps(2) ms] hw by metis
  obtain h m' where h: "vmx_hardware_setup (hardware a) = Inr h" and s1: "s1 = h\<lparr>memory := m'\<rparr>"
    and cp: "copy_guest_params 0x10100000 0x10200000 0x10200008 (table e1) (memory h) = Inr m'"
    using kvm by (auto simp: kvm_init_def and_then_eq_Inr)
  note f = hardware_setup_frame[OF h]
  have "m' 0x10200045 = memory h 0x10200045" by (rule copy_guest_params_other[OF cp v]) (simp_all add: firmware_va gp_size_def)
  then have "memory s1 0x10200045 = 0x80" by (simp add: s1 f m firmware_memory_def)
  then have "host_ok main_cpu s1" by (simp add: host_ok_def main_cpu_def open_cpu_def GDT_ENTRY_TSS_def bit_numeral_rec)
  moreover have "hw_cr4 s1 = 0" by (simp add: s1 f, subst hw, simp add: capable_machine_def zero_machine_def)
  ultimately obtain s where "kvm_bsp_start main_cpu small_layout s1 = Inr s" unfolding main_cpu_def using open_cpuid_starts by blast
  then show thesis by (intro that[of s]) (simp add: vmm_main_def early plat[unfolded One_nat_def] kvm)
qed

end
