(* ===== verification/List_Head.thy ===== *)
theory List_Head
  imports Console
begin

unbundle bit_operations_syntax

text \<open>
  The intrusive doubly linked lists of include/sys/list.h, in memory: a \<open>struct list_head\<close> at an address has \<open>next\<close> at 0 and
  \<open>prev\<close> at 8. \<open>is_list m h xs\<close> says that the nodes \<open>xs\<close>, in this order, hang on the head \<open>h\<close>; every operation does to \<open>xs\<close>
  what its name says. The list of consoles of lib/printk.c is such a list: walking it is the list of write functions that
  \<open>Console\<close> works with.
\<close>

section \<open>include/sys/list.h\<close>

abbreviation list_next :: "mem \<Rightarrow> u64 \<Rightarrow> u64" where "list_next m a \<equiv> read64 m a"
abbreviation list_prev :: "mem \<Rightarrow> u64 \<Rightarrow> u64" where "list_prev m a \<equiv> read64 m (a + 8)"
abbreviation set_next :: "u64 \<Rightarrow> u64 \<Rightarrow> mem \<Rightarrow> mem" where "set_next a v m \<equiv> write64 m a v"
abbreviation set_prev :: "u64 \<Rightarrow> u64 \<Rightarrow> mem \<Rightarrow> mem" where "set_prev a v m \<equiv> write64 m (a + 8) v"

definition INIT_LIST_HEAD :: "u64 \<Rightarrow> mem \<Rightarrow> mem" where
  "INIT_LIST_HEAD list m = set_prev list list (set_next list list m)"

definition list_add_between :: "u64 \<Rightarrow> u64 \<Rightarrow> u64 \<Rightarrow> mem \<Rightarrow> mem" where
  "list_add_between new prev next m = set_next prev new (set_prev new prev (set_next new next (set_prev next new m)))"

definition list_add :: "u64 \<Rightarrow> u64 \<Rightarrow> mem \<Rightarrow> mem" where
  "list_add new head m = list_add_between new head (list_next m head) m"

definition list_add_tail :: "u64 \<Rightarrow> u64 \<Rightarrow> mem \<Rightarrow> mem" where
  "list_add_tail new head m = list_add_between new (list_prev m head) head m"

definition list_del_between :: "u64 \<Rightarrow> u64 \<Rightarrow> mem \<Rightarrow> mem" where
  "list_del_between prev next m = set_next prev next (set_prev next prev m)"

definition list_del_entry :: "u64 \<Rightarrow> mem \<Rightarrow> mem" where
  "list_del_entry entry m = list_del_between (list_prev m entry) (list_next m entry) m"

definition LIST_POISON1 :: u64 where "LIST_POISON1 = 0x100"
definition LIST_POISON2 :: u64 where "LIST_POISON2 = 0x200"

definition list_del :: "u64 \<Rightarrow> mem \<Rightarrow> mem" where
  "list_del entry m = set_prev entry LIST_POISON2 (set_next entry LIST_POISON1 (list_del_entry entry m))"

definition list_move :: "u64 \<Rightarrow> u64 \<Rightarrow> mem \<Rightarrow> mem" where
  "list_move list head m = list_add list head (list_del_entry list m)"

definition list_move_tail :: "u64 \<Rightarrow> u64 \<Rightarrow> mem \<Rightarrow> mem" where
  "list_move_tail list head m = list_add_tail list head (list_del_entry list m)"

definition list_empty :: "mem \<Rightarrow> u64 \<Rightarrow> bool" where
  "list_empty m head \<longleftrightarrow> list_next m head = head"

text \<open>\<open>offset\<close> is where the node lies in its structure.\<close>

definition list_entry :: "u64 \<Rightarrow> u64 \<Rightarrow> u64" where
  "list_entry offset ptr = ptr - offset"

definition list_first_entry :: "u64 \<Rightarrow> mem \<Rightarrow> u64 \<Rightarrow> u64" where
  "list_first_entry offset m ptr = list_entry offset (list_next m ptr)"

definition list_first_entry_or_null :: "u64 \<Rightarrow> mem \<Rightarrow> u64 \<Rightarrow> u64" where
  "list_first_entry_or_null offset m ptr =
     (let pos = list_next m ptr in if pos \<noteq> ptr then list_entry offset pos else 0)"

definition list_next_entry :: "u64 \<Rightarrow> mem \<Rightarrow> u64 \<Rightarrow> u64" where
  "list_next_entry offset m pos = list_entry offset (list_next m (pos + offset))"

text \<open>The loop has a body that may change the memory; it need not end.\<close>

partial_function (option) list_for_each_loop :: "u64 \<Rightarrow> (u64 \<Rightarrow> mem \<times> 's \<Rightarrow> (mem \<times> 's) option) \<Rightarrow> u64 \<Rightarrow> u64 \<Rightarrow> mem \<times> 's \<Rightarrow> (mem \<times> 's) option" where
  "list_for_each_loop offset body head pos st =
     (if pos + offset = head then Some st
      else Option.bind (body pos st) (\<lambda>st. list_for_each_loop offset body head (list_next_entry offset (fst st) pos) st))"

declare list_for_each_loop.simps [code]

definition list_for_each_entry :: "u64 \<Rightarrow> (u64 \<Rightarrow> mem \<times> 's \<Rightarrow> (mem \<times> 's) option) \<Rightarrow> u64 \<Rightarrow> mem \<times> 's \<Rightarrow> (mem \<times> 's) option" where
  "list_for_each_entry offset body head st = list_for_each_loop offset body head (list_first_entry offset (fst st) head) st"

section \<open>Lists in memory\<close>

fun list_path :: "mem \<Rightarrow> u64 \<Rightarrow> u64 list \<Rightarrow> u64 \<Rightarrow> bool" where
  "list_path m a [] b \<longleftrightarrow> list_next m a = b \<and> list_prev m b = a"
| "list_path m a (x # xs) b \<longleftrightarrow> list_next m a = x \<and> list_prev m x = a \<and> list_path m x xs b"

definition nodes_ok :: "u64 list \<Rightarrow> bool" where
  "nodes_ok ns \<longleftrightarrow> distinct ns \<and> (\<forall>a \<in> set ns. \<forall>b \<in> set ns. a = b \<or> apart a 16 b 16)"

definition is_list :: "mem \<Rightarrow> u64 \<Rightarrow> u64 list \<Rightarrow> bool" where
  "is_list m h xs \<longleftrightarrow> nodes_ok (h # xs) \<and> list_path m h xs h"

lemma apart_shift:
  assumes "apart a 16 b 16" "i \<in> {0, 8}" "j \<in> {0, 8}"
  shows "apart (a + i) 8 (b + j) 8"
proof -
  have d: "8 \<le> unat (y + j - (x + i))"
    if r: "16 \<le> unat (y - x)" "16 \<le> unat (x - y)" and k: "i \<in> {0, 8}" "j \<in> {0, 8}" for x y i j :: u64
  proof -
    define e where "e = y - x"
    have e: "16 \<le> unat e" "unat e \<le> 2 ^ 64 - 16"
      using r unat_lt_64[of x] unat_lt_64[of y] by (auto simp: e_def unat_sub_if' split: if_splits)
    have "y + j - (x + i) \<in> {e, e + 8, e - 8}" using k by (auto simp: e_def)
    moreover have "unat (e + 8) = unat e + 8" "unat (e - 8) = unat e - 8"
      using e by (auto simp: unat_word_ariths unat_sub_if')
    then have "8 \<le> unat e" "8 \<le> unat (e + 8)" "8 \<le> unat (e - 8)" using e by auto
    ultimately show ?thesis by auto
  qed
  show ?thesis using assms d[where x = a and y = b and i = i and j = j] d[where x = b and y = a and i = j and j = i] by (auto simp: apart_def)
qed

lemma apart_fields: "apart a 8 (a + 8) 8" "apart (a + 8) 8 a 8"
  by (simp_all add: apart_def)

named_theorems fields

lemma sep_sym: "apart a 16 b 16 \<Longrightarrow> apart b 16 a 16"
  by (simp add: apart_sym)

lemma next_of [fields]:
  assumes "a = b \<or> apart a 16 b 16"
  shows "list_next (set_next a v m) b = (if a = b then v else list_next m b)"
    and "list_next (set_prev a v m) b = list_next m b"
    and "list_prev (set_prev a v m) b = (if a = b then v else list_prev m b)"
    and "list_prev (set_next a v m) b = list_prev m b"
  using assms apart_shift[of a b 0 0] apart_shift[of a b 8 0] apart_shift[of a b 0 8] apart_shift[of a b 8 8] apart_fields
  by (auto simp: read64_write64_apart)

lemma path_cong:
  assumes "\<And>u. u \<in> set (a # xs) \<Longrightarrow> list_next m' u = list_next m u" "\<And>u. u \<in> set (xs @ [b]) \<Longrightarrow> list_prev m' u = list_prev m u"
  shows "list_path m' a xs b \<longleftrightarrow> list_path m a xs b"
  using assms by (induction m a xs b rule: list_path.induct) auto

lemma path_insert:
  assumes "list_path m a (xs @ ys) b" "distinct (a # xs @ ys)" "b \<notin> set (xs @ ys)" "new \<notin> set (a # b # xs @ ys)"
    and p: "p = last (a # xs)" and n: "n = hd (ys @ [b])"
    and new: "list_next m' new = n" "list_prev m' new = p"
    and old: "\<And>u. u \<in> set (a # xs @ ys) \<Longrightarrow> list_next m' u = (if u = p then new else list_next m u)"
      "\<And>u. u \<in> set (xs @ ys @ [b]) \<Longrightarrow> list_prev m' u = (if u = n then new else list_prev m u)"
  shows "list_path m' a (xs @ new # ys) b"
  using assms
proof (induction xs arbitrary: a)
  case Nil
  then show ?case
  proof (cases ys)
    case (Cons y zs)
    have "list_path m' y zs b \<longleftrightarrow> list_path m y zs b" by (rule path_cong) (use Nil Cons in auto)
    then show ?thesis using Nil Cons by auto
  qed auto
next
  case (Cons x xs)
  have "hd (ys @ [b]) \<noteq> x" using Cons.prems(2,3) by (cases ys) auto
  moreover have "last (x # xs) \<noteq> a" using Cons.prems(2) last_in_set[of "x # xs"] by (metis distinct.simps(2) in_set_conv_decomp list.distinct(1) append_Cons set_append UnI1)
  moreover have "list_path m' x (xs @ new # ys) b" by (rule Cons.IH) (use Cons.prems in auto)
  ultimately show ?case using Cons.prems by auto
qed

lemma path_delete:
  assumes "list_path m a (xs @ x # ys) b" "distinct (a # xs @ x # ys)" "b \<notin> set (xs @ x # ys)"
    and p: "p = last (a # xs)" and n: "n = hd (ys @ [b])"
    and old: "\<And>u. u \<in> set (a # xs @ ys) \<Longrightarrow> list_next m' u = (if u = p then n else list_next m u)"
      "\<And>u. u \<in> set (xs @ ys @ [b]) \<Longrightarrow> list_prev m' u = (if u = n then p else list_prev m u)"
  shows "list_path m' a (xs @ ys) b \<and> list_prev m x = p \<and> list_next m x = n"
  using assms
proof (induction xs arbitrary: a)
  case Nil
  then show ?case
  proof (cases ys)
    case (Cons y zs)
    have "list_path m' y zs b \<longleftrightarrow> list_path m y zs b" by (rule path_cong) (use Nil Cons in auto)
    then show ?thesis using Nil Cons by auto
  qed auto
next
  case (Cons z xs)
  have "hd (ys @ [b]) \<noteq> z" using Cons.prems(2,3) by (cases ys) auto
  moreover have "last (z # xs) \<noteq> a" using Cons.prems(2) last_in_set[of "z # xs"] by auto
  moreover have "list_path m' z (xs @ ys) b \<and> list_prev m x = last (z # xs) \<and> list_next m x = hd (ys @ [b])"
    using Cons.IH[of z] Cons.prems by auto
  ultimately show ?case using Cons.prems by auto
qed


lemma nodes_apart: "nodes_ok ns \<Longrightarrow> a \<in> set ns \<Longrightarrow> b \<in> set ns \<Longrightarrow> a = b \<or> apart a 16 b 16"
  by (auto simp: nodes_ok_def)

lemma between_next_prev:
  assumes "nodes_ok ns" "new \<in> set ns" "p \<in> set ns" "n \<in> set ns" "u \<in> set ns" "new \<noteq> p" "new \<noteq> n"
  shows "list_next (list_add_between new p n m) u = (if u = p then new else if u = new then n else list_next m u)"
    and "list_prev (list_add_between new p n m) u = (if u = n then new else if u = new then p else list_prev m u)"
  using assms(6,7) nodes_apart[OF assms(1,2,5)] nodes_apart[OF assms(1,3,5)] nodes_apart[OF assms(1,4,5)]
  by (auto simp: list_add_between_def fields)

lemma delete_next_prev:
  assumes "nodes_ok ns" "p \<in> set ns" "n \<in> set ns" "u \<in> set ns"
  shows "list_next (list_del_between p n m) u = (if u = p then n else list_next m u)"
    and "list_prev (list_del_between p n m) u = (if u = n then p else list_prev m u)"
  using nodes_apart[OF assms(1,2,4)] nodes_apart[OF assms(1,3,4)] by (auto simp: list_del_between_def fields)

lemma path_ends:
  assumes "list_path m a xs b"
  shows "list_next m a = hd (xs @ [b])" "list_prev m b = last (a # xs)"
  using assms by (induction m a xs b rule: list_path.induct) auto

lemma path_at: "list_path m a (xs @ y # ys) b \<Longrightarrow> list_next m y = hd (ys @ [b])"
  by (induction xs arbitrary: a) (auto dest: path_ends)

text \<open>Adding a node between two neighbours, and taking one out.\<close>

theorem add_between:
  assumes "is_list m h (xs @ ys)" "nodes_ok (new # h # xs @ ys)" "p = last (h # xs)" "n = hd (ys @ [h])"
  shows "is_list (list_add_between new p n m) h (xs @ new # ys)"
proof -
  have ns: "p \<in> set (new # h # xs @ ys)" "n \<in> set (new # h # xs @ ys)" "new \<noteq> p" "new \<noteq> n"
    using assms(2) unfolding assms(3,4) nodes_ok_def by (cases ys; auto)+
  note f = between_next_prev[OF assms(2) _ ns(1,2) _ ns(3,4)]
  have "list_path (list_add_between new p n m) h (xs @ new # ys) h"
    by (rule path_insert[where m = m and p = p and n = n]) (use assms f ns in \<open>auto simp: is_list_def nodes_ok_def\<close>)
  moreover have "nodes_ok (h # xs @ new # ys)" using assms(2) by (auto simp: nodes_ok_def)
  ultimately show ?thesis by (simp add: is_list_def)
qed

theorem del_entry:
  assumes "is_list m h (xs @ x # ys)"
  shows "is_list (list_del_entry x m) h (xs @ ys)"
proof -
  define p n where "p = last (h # xs)" and "n = hd (ys @ [h])"
  have ok: "nodes_ok (h # xs @ x # ys)" and pa: "list_path m h (xs @ x # ys) h" using assms by (simp_all add: is_list_def)
  have ns: "p \<in> set (h # xs @ x # ys)" "n \<in> set (h # xs @ x # ys)" unfolding p_def n_def by (cases ys; auto)+
  note f = delete_next_prev[OF ok ns]
  have "list_path (list_del_between p n m) h (xs @ ys) h \<and> list_prev m x = p \<and> list_next m x = n"
    by (rule path_delete[OF pa _ _ p_def n_def]) (use ok f in \<open>auto simp: nodes_ok_def\<close>)
  moreover have "nodes_ok (h # xs @ ys)" using ok by (auto simp: nodes_ok_def)
  ultimately show ?thesis by (simp add: is_list_def list_del_entry_def)
qed

section \<open>The operations on a list\<close>

lemma is_list_nodes: "is_list m h xs \<Longrightarrow> nodes_ok (h # xs)"
  by (simp add: is_list_def)

lemma is_list_cong:
  assumes "is_list m h xs" "\<And>u. u \<in> set (h # xs) \<Longrightarrow> list_next m' u = list_next m u \<and> list_prev m' u = list_prev m u"
  shows "is_list m' h xs"
  using assms path_cong[of h xs m' m h] by (simp add: is_list_def)

lemma is_list_ends:
  assumes "is_list m h xs"
  shows "list_next m h = hd (xs @ [h])" "list_prev m h = last (h # xs)"
  using assms path_ends[of m h xs h] by (auto simp: is_list_def)

lemma is_list_init: "is_list (INIT_LIST_HEAD h m) h []"
  by (simp add: is_list_def nodes_ok_def INIT_LIST_HEAD_def fields)

lemma is_list_add: "is_list m h xs \<Longrightarrow> nodes_ok (new # h # xs) \<Longrightarrow> is_list (list_add new h m) h (new # xs)"
  using add_between[of m h "[]" xs new h] is_list_ends[of m h xs] by (simp add: list_add_def)

lemma is_list_add_tail: "is_list m h xs \<Longrightarrow> nodes_ok (new # h # xs) \<Longrightarrow> is_list (list_add_tail new h m) h (xs @ [new])"
  using add_between[of m h xs "[]" new] is_list_ends[of m h xs] by (simp add: list_add_tail_def)

lemma nodes_rotate: "nodes_ok (h # xs @ x # ys) \<Longrightarrow> nodes_ok (x # h # xs @ ys)"
  by (auto simp: nodes_ok_def)

lemma is_list_del:
  assumes "is_list m h (xs @ x # ys)"
  shows "is_list (list_del x m) h (xs @ ys)"
proof -
  have ok: "nodes_ok (x # h # xs @ ys)" using is_list_nodes[OF assms] by (rule nodes_rotate)
  have "x \<noteq> u" "x = u \<or> apart x 16 u 16" if "u \<in> set (h # xs @ ys)" for u using ok that by (auto simp: nodes_ok_def)
  then show ?thesis unfolding list_del_def by (intro is_list_cong[OF del_entry[OF assms]]) (auto simp: fields)
qed

lemma list_entries:
  assumes "is_list m h xs"
  shows "list_empty m h \<longleftrightarrow> xs = []" "list_first_entry_or_null off m h = (case xs of [] \<Rightarrow> 0 | x # _ \<Rightarrow> x - off)"
proof -
  have h: "h \<notin> set xs" "list_next m h = hd (xs @ [h])" using is_list_nodes[OF assms] is_list_ends[OF assms] by (simp_all add: nodes_ok_def)
  show "list_empty m h \<longleftrightarrow> xs = []" using h by (cases xs) (auto simp: list_empty_def)
  show "list_first_entry_or_null off m h = (case xs of [] \<Rightarrow> 0 | x # _ \<Rightarrow> x - off)"
    using h by (cases xs) (auto simp: list_first_entry_or_null_def list_entry_def)
qed

lemma is_list_register:
  "is_list m h xs \<Longrightarrow> nodes_ok (h # xs @ ns) \<Longrightarrow> is_list (fold (\<lambda>n. list_add_tail n h) ns m) h (xs @ ns)"
proof (induction ns arbitrary: m xs)
  case (Cons n ns)
  have "nodes_ok (n # h # xs)" using Cons.prems(2) by (auto simp: nodes_ok_def)
  then show ?case using Cons.IH[of "list_add_tail n h m" "xs @ [n]"] Cons.prems by (simp add: is_list_add_tail)
qed simp

text \<open>C36: what the operations of include/sys/list.h do to a list in memory: adding puts a node at the front or at the end, deleting and
  moving within the list take out exactly the node they name, wherever it is, and the tests tell an empty list and its first element.\<close>

theorem list_operations:
  assumes "is_list m h xs" "nodes_ok (new # h # xs)"
  shows "is_list (list_add new h m) h (new # xs) \<and> is_list (list_add_tail new h m) h (xs @ [new]) \<and>
    (\<forall>as x bs. xs = as @ x # bs \<longrightarrow> is_list (list_del x m) h (as @ bs) \<and> is_list (list_move x h m) h (x # as @ bs) \<and>
      is_list (list_move_tail x h m) h (as @ bs @ [x])) \<and>
    (list_empty m h \<longleftrightarrow> xs = []) \<and> list_first_entry_or_null off m h = (case xs of [] \<Rightarrow> 0 | x # _ \<Rightarrow> x - off)"
proof -
  have "is_list (list_del x m) h (as @ bs) \<and> is_list (list_move x h m) h (x # as @ bs) \<and> is_list (list_move_tail x h m) h (as @ bs @ [x])"
    if "xs = as @ x # bs" for as x bs
  proof -
    have l: "is_list m h (as @ x # bs)" using assms(1) that by simp
    note ok = nodes_rotate[OF is_list_nodes[OF l]]
    show ?thesis using is_list_del[OF l] is_list_add[OF del_entry[OF l] ok] is_list_add_tail[OF del_entry[OF l] ok]
      by (simp add: list_move_def list_move_tail_def)
  qed
  then show ?thesis using is_list_add[OF assms] is_list_add_tail[OF assms] list_entries[OF assms(1)] by blast
qed

section \<open>Walking a list\<close>

text \<open>A body that leaves the list as it is sees its elements in order.\<close>

theorem for_each_entry_walks:
  assumes "is_list (fst st) h xs"
    and keep: "\<And>x st st'. x \<in> set xs \<Longrightarrow> is_list (fst st) h xs \<Longrightarrow> body (x - off) st = Some st' \<Longrightarrow> is_list (fst st') h xs"
  shows "list_for_each_entry off body h st = run_opt (map (\<lambda>x. body (x - off)) xs) st"
proof -
  have "list_for_each_loop off body h (hd (ys @ [h]) - off) st = run_opt (map (\<lambda>x. body (x - off)) ys) st"
    if "xs = zs @ ys" "is_list (fst st) h xs" for zs ys st
    using that
  proof (induction ys arbitrary: zs st)
    case Nil
    then show ?case by (simp add: list_for_each_loop.simps)
  next
    case (Cons y ys)
    have y: "y \<noteq> h" using is_list_nodes[OF Cons.prems(2)] Cons.prems(1) by (auto simp: nodes_ok_def)
    have nxt: "list_next m y = hd (ys @ [h])" if "is_list m h xs" for m
      using that path_at[of m h zs y ys h] Cons.prems(1) by (simp add: is_list_def)
    show ?case
      using y Cons.IH[of "zs @ [y]"] Cons.prems keep[of y st] nxt
      by (auto simp: list_for_each_loop.simps[of off body h "y - off"] list_next_entry_def list_entry_def split: Option.bind_split)
  qed
  from this[of "[]" xs st] show ?thesis
    using assms(1) is_list_ends(1)[OF assms(1)] by (simp add: list_for_each_entry_def list_first_entry_def list_entry_def)
qed

section \<open>The consoles of lib/printk.c\<close>

text \<open>A \<open>struct console\<close> has its write function at 0, possibly \<open>NULL\<close>, and its node at 8; \<open>drv\<close> gives the function of a structure.\<close>

definition register_console_node :: "u64 \<Rightarrow> u64 \<Rightarrow> mem \<Rightarrow> mem" where
  "register_console_node newcon console_drivers m = list_add_tail (newcon + 8) console_drivers m"

definition for_each_console :: "(u64 \<Rightarrow> con_write option) \<Rightarrow> u8 list \<Rightarrow> u64 \<Rightarrow> con_state \<Rightarrow> con_state option" where
  "for_each_console drv buf console_drivers st =
     list_for_each_entry 8 (\<lambda>con st. case drv con of None \<Rightarrow> Some st | Some write \<Rightarrow> write buf st) console_drivers st"

lemma video_only_fields:
  assumes "video_only m m'" "apart vga_vram_base 0x20000 u 16"
  shows "list_next m' u = list_next m u" "list_prev m' u = list_prev m u"
proof -
  have b: "m' (u + of_nat i) = m (u + of_nat i)" if "i < 16" for i
    using assms apart_offset[OF assms(2) that] by (simp add: video_only_def)
  show "list_next m' u = list_next m u" unfolding read64_def by (rule arg_cong[OF read_bytes_cong]) (simp add: b)
  have "m' (u + 8 + of_nat i) = m (u + 8 + of_nat i)" if "i < 8" for i using b[of "8 + i"] that by (simp add: add.assoc)
  then show "list_prev m' u = list_prev m u" unfolding read64_def by (intro arg_cong[OF read_bytes_cong]) simp
qed

lemma run_consoles:
  "run_opt (map (\<lambda>c st. case drv c of None \<Rightarrow> Some st | Some w \<Rightarrow> w bs st) cs) st = write_consoles (List.map_filter drv cs) bs st"
proof (induction cs arbitrary: st)
  case (Cons c cs)
  then have "run_opt (map (\<lambda>c st. case drv c of None \<Rightarrow> Some st | Some w \<Rightarrow> w bs st) cs) = write_consoles (List.map_filter drv cs) bs"
    by blast
  then show ?case by (auto simp: map_filter_simps split: option.split)
qed (simp add: map_filter_simps)


definition sample_driver :: "device \<Rightarrow> u8 list \<Rightarrow> u64 \<Rightarrow> con_write option" where
  "sample_driver d p c = (if c = 0x1000 then Some (porte9_write (Some p)) else if c = 0x1018 then Some (vgacon_write d) else None)"


theorem list_operations_witness:
  "is_list (list_add 0x1000 0x2000 (INIT_LIST_HEAD 0x2000 (\<lambda>_. 0))) 0x2000 [0x1000]"
  using list_operations[OF is_list_init[where h = "0x2000" and m = "\<lambda>_. 0"], where new = "0x1000"] by (simp add: nodes_ok_def apart_def)

end
