(* ===== verification/Spinlock.thy ===== *)
theory Spinlock
  imports Console
begin

text \<open>
  The spin lock of include/sys/spinlock.h and the lock of the log, \<open>console_lock\<close> of lib/printk.c. The lock is its flag, true when taken.
  Waiting need not end: with one processor nobody releases the flag during the wait, so that each
  read of the loop sees what the first one saw. \<open>Console.vprintk\<close> is \<open>vprintk\<close> between taking and releasing the lock.
\<close>

section \<open>include/sys/spinlock.h\<close>

type_synonym spinlock = bool

definition SPINLOCK_INIT :: spinlock where "SPINLOCK_INIT = False"

definition spinlock_init :: "spinlock \<Rightarrow> spinlock" where "spinlock_init lock = False"

text \<open>The result and the lock afterwards.\<close>

definition spin_trylock :: "spinlock \<Rightarrow> bool \<times> spinlock" where
  "spin_trylock lock = (\<not> lock, True)"

partial_function (option) spin_lock :: "spinlock \<Rightarrow> spinlock option" where
  "spin_lock lock = (let (acquired, lock) = spin_trylock lock in if acquired then Some lock else spin_lock lock)"

definition spin_unlock :: "spinlock \<Rightarrow> spinlock" where "spin_unlock lock = False"

lemma spin_lock_free: "spin_lock False = Some True"
  by (simp add: spin_lock.simps[of False] spin_trylock_def)

lemma spin_lock_taken: "spin_lock True = None"
proof -
  have "l \<longrightarrow> False" if "spin_lock l = Some y" for l y
  proof (rule spin_lock.raw_induct[OF _ that, of "\<lambda>l y. l \<longrightarrow> False"], goal_cases)
    case (1 f l y)
    then show ?case by (auto simp: spin_trylock_def split: if_splits)
  qed
  then show ?thesis by (cases "spin_lock True") auto
qed

section \<open>The lock of the log\<close>

definition vprintk_locked ::
  "device \<Rightarrow> u64 \<Rightarrow> con_write list \<Rightarrow> u64 \<Rightarrow> int \<Rightarrow> u8 list \<Rightarrow> u64 list \<Rightarrow> spinlock \<times> con_state \<Rightarrow> (u32 \<times> spinlock \<times> con_state) option" where
  "vprintk_locked d tsc_khz console_drivers buf level fmt args st =
     (let (console_lock, st) = st
      in Option.bind (spin_lock console_lock) (\<lambda>console_lock.
           map_option (\<lambda>(len, st). (len, spin_unlock console_lock, st)) (vprintk d tsc_khz console_drivers buf level fmt args st)))"

text \<open>
  With the lock free, as it is between any two messages, printing is \<open>vprintk\<close> and leaves the lock free. With the lock taken, as when
  a console faults while it writes and the handler panics, printing never returns: the message of the panic is lost.
\<close>

theorem log_lock:
  "vprintk_locked d tsc_khz cons buf level fmt args (SPINLOCK_INIT, st) =
     map_option (\<lambda>(len, st). (len, SPINLOCK_INIT, st)) (vprintk d tsc_khz cons buf level fmt args st)"
  "vprintk_locked d tsc_khz cons buf level fmt args (True, st) = None"
  by (simp_all add: vprintk_locked_def SPINLOCK_INIT_def spin_lock_free spin_lock_taken spin_unlock_def)

end
