(* ===== verification/Panic.thy ===== *)
theory Panic
  imports Traps
begin

unbundle bit_operations_syntax

text \<open>
  Stopping: the dump of registers and call frames (kernel/dumpstack.c), \<open>panic\<close> and \<open>die\<close> (lib/panic.c) and
  the handlers of exceptions and APIC interrupts that end there (kernel/idt.c). Printing is the log of
  \<open>Console\<close>, whose lock is free; \<open>lg\<close> holds what it needs. \<open>die\<close> never returns: its value is the state in which the
  processor halts. A chain of frames may be cyclic, so that the walk returns an option.
\<close>

section \<open>Printing\<close>

record log_env =
  log_device :: device
  log_khz :: u64
  log_cons :: "con_write list"
  log_buf :: u64

definition LOGLEVEL_ERR :: int where "LOGLEVEL_ERR = 3"
definition LOGLEVEL_WARNING :: int where "LOGLEVEL_WARNING = 4"

definition pr :: "log_env \<Rightarrow> int \<Rightarrow> u8 list \<Rightarrow> u64 list \<Rightarrow> con_state \<Rightarrow> con_state option" where
  "pr lg level fmt args st =
     map_option snd (vprintk (log_device lg) (log_khz lg) (log_cons lg) (log_buf lg) level fmt args st)"

definition cstr :: "string \<Rightarrow> u8 list" where "cstr str = map of_char str"
definition ln :: "string \<Rightarrow> u8 list" where "ln str = cstr str @ [0x0a]"

section \<open>kernel/dumpstack.c\<close>

partial_function (option) show_stack_loop :: "log_env \<Rightarrow> u64 \<Rightarrow> con_state \<Rightarrow> con_state option" where
  "show_stack_loop lg bp st =
     (if bp = 0 then Some st
      else let adr = read64 (fst st) (bp + 8)
           in Option.bind (pr lg LOGLEVEL_DEFAULT (ln ''%pB'') [adr] st) (\<lambda>st. show_stack_loop lg (read64 (fst st) bp) st))"

text \<open>\<open>bp\<close> is the frame pointer to start from: of the registers, or of the caller for a null pointer.\<close>

definition show_stack :: "log_env \<Rightarrow> u64 \<Rightarrow> con_state \<Rightarrow> con_state option" where
  "show_stack lg bp st = Option.bind (pr lg LOGLEVEL_DEFAULT (ln ''Call Trace:'') [] st) (show_stack_loop lg bp)"

record pt_regs =
  r15 :: u64
  r14 :: u64
  r13 :: u64
  r12 :: u64
  rbp :: u64
  rbx :: u64
  r11 :: u64
  r10 :: u64
  r9 :: u64
  r8 :: u64
  rax :: u64
  rcx :: u64
  rdx :: u64
  rsi :: u64
  rdi :: u64
  orig_rax :: u64
  rip :: u64
  cs :: u64
  rflags :: u64
  rsp :: u64
  ss :: u64

text \<open>The selectors the processor holds when it prints; 32-bit values in slots of the arguments.\<close>

record selectors =
  sel_ds :: u32
  sel_cs :: u32
  sel_es :: u32
  sel_fs :: u32
  sel_gs :: u32

definition show_regs :: "log_env \<Rightarrow> machine \<Rightarrow> selectors \<Rightarrow> pt_regs \<Rightarrow> con_state \<Rightarrow> con_state option" where
  "show_regs lg h sel r = run_opt
     [pr lg LOGLEVEL_DEFAULT (ln ''RIP: %04lx:%pS'') [cs r AND 0xffff, rip r],
      pr lg LOGLEVEL_DEFAULT (cstr ''RSP: %04lx:%016lx RFLAGS: %08lx'') [ss r, rsp r, rflags r],
      \<lambda>st. if orig_rax r \<noteq> - 1 then pr lg LOGLEVEL_CONT (ln '' ORIG_RAX: %016lx'') [orig_rax r] st
           else pr lg LOGLEVEL_CONT (ln '''') [] st,
      pr lg LOGLEVEL_DEFAULT (ln ''RAX: %016lx RBX: %016lx RCX: %016lx'') [rax r, rbx r, rcx r],
      pr lg LOGLEVEL_DEFAULT (ln ''RDX: %016lx RSI: %016lx RDI: %016lx'') [rdx r, rsi r, rdi r],
      pr lg LOGLEVEL_DEFAULT (ln ''RBP: %016lx R08: %016lx R09: %016lx'') [rbp r, r8 r, r9 r],
      pr lg LOGLEVEL_DEFAULT (ln ''R10: %016lx R11: %016lx R12: %016lx'') [r10 r, r11 r, r12 r],
      pr lg LOGLEVEL_DEFAULT (ln ''R13: %016lx R14: %016lx R15: %016lx'') [r13 r, r14 r, r15 r],
      pr lg LOGLEVEL_DEFAULT (ln ''FS:  %016lx(%04x) GS:%016lx(%04x) knlGS:%016lx'')
        [rdmsrl MSR_FS_BASE h, ucast (sel_fs sel), rdmsrl MSR_GS_BASE h, ucast (sel_gs sel), rdmsrl MSR_KERNEL_GS_BASE h],
      pr lg LOGLEVEL_DEFAULT (ln ''CS:  %04x DS: %04x ES: %04x CR0: %016lx'')
        [ucast (sel_cs sel), ucast (sel_ds sel), ucast (sel_es sel), hw_cr0 h],
      pr lg LOGLEVEL_DEFAULT (ln ''CR2: %016lx CR3: %016lx CR4: %016lx'') [hw_cr2 h, hw_cr3 h, hw_cr4 h],
      show_stack lg (rbp r)]"

text \<open>\<open>frame\<close> is the frame address of \<open>dump_stack\<close>'s own caller chain.\<close>

definition dump_stack :: "log_env \<Rightarrow> u64 \<Rightarrow> con_state \<Rightarrow> con_state option" where
  "dump_stack lg frame = show_stack lg frame"

section \<open>lib/panic.c\<close>

definition die :: "con_state \<Rightarrow> con_state" where
  "die st =
     (let (m, s) = st;
          s = outb 0 0x501 s;
          s = outsb 0x8900 (cstr ''Shutdown'') s
      in (m, s))"

definition panic :: "log_env \<Rightarrow> u8 list \<Rightarrow> u64 list \<Rightarrow> u64 \<Rightarrow> con_state \<Rightarrow> con_state option" where
  "panic lg fmt args frame st =
     map_option die (Option.bind (pr lg LOGLEVEL_EMERG fmt args st) (dump_stack lg frame))"

section \<open>Exceptions and APIC interrupts: kernel/idt.c\<close>

text \<open>\<open>str\<close> is the address of the name of the exception, \<open>lit\<close> that of a string literal.\<close>

definition do_trap :: "log_env \<Rightarrow> machine \<Rightarrow> selectors \<Rightarrow> pt_regs \<Rightarrow> u64 \<Rightarrow> u64 \<Rightarrow> u64 \<Rightarrow> con_state \<Rightarrow> con_state option" where
  "do_trap lg h sel r error_code str trapnr st =
     map_option die (run_opt
       [pr lg LOGLEVEL_ERR (ln ''unknown vector: %ld (%s), error code: %lx'') [trapnr, str, error_code],
        show_regs lg h sel r] st)"

definition do_errors :: "(string \<times> u64 \<times> string) list" where
  "do_errors =
     [(''divide_error'', 0, ''divide error''),
      (''overflow'', 4, ''overflow''),
      (''bounds'', 5, ''bounds''),
      (''invalid_op'', 6, ''invalid opcode''),
      (''device_not_available'', 7, ''device not available''),
      (''double_fault'', 8, ''double fault''),
      (''coprocessor_segment_overrun'', 9, ''coprocessor segment overrun''),
      (''invalid_TSS'', 10, ''invalid TSS''),
      (''segment_not_present'', 11, ''segment not present''),
      (''stack_segment'', 12, ''stack segment''),
      (''general_protection'', 13, ''general protection fault''),
      (''page_fault'', 14, ''page fault''),
      (''coprocessor_error'', 16, ''coprocessor error''),
      (''alignment_check'', 17, ''alignment check''),
      (''simd_coprocessor_error'', 19, ''SIMD coprocessor error'')]"

definition do_error :: "(string \<Rightarrow> u64) \<Rightarrow> log_env \<Rightarrow> machine \<Rightarrow> selectors \<Rightarrow> string \<Rightarrow> pt_regs \<Rightarrow> u64 \<Rightarrow> con_state \<Rightarrow> con_state option" where
  "do_error lit lg h sel name r error_code st =
     (case map_of do_errors name of
        None \<Rightarrow> Some st
      | Some (trapnr, str) \<Rightarrow> do_trap lg h sel r error_code (lit str) trapnr st)"

definition smp_apic_timer_interrupt :: "apic_ops \<Rightarrow> apic_state \<Rightarrow> apic_state" where
  "smp_apic_timer_interrupt ops a = apic_eoi ops a"

definition smp_spurious_interrupt :: "apic_state \<Rightarrow> stop + apic_state" where
  "smp_spurious_interrupt a = and_then (BUG_ON True) (\<lambda>_. Inr a)"

definition error_interrupt_reason :: "string list" where
  "error_interrupt_reason =
     [''Send CS error'', ''Receive CS error'', ''Send accept error'', ''Receive accept error'',
      ''Redirectable IPI'', ''Send illegal vector'', ''Received illegal vector'', ''Illegal register address'']"

function error_loop :: "(string \<Rightarrow> u64) \<Rightarrow> log_env \<Rightarrow> u32 \<Rightarrow> nat \<Rightarrow> con_state \<Rightarrow> con_state option" where
  "error_loop lit lg v i st =
     (if v \<noteq> 0 then
        (case (if v AND 1 \<noteq> 0 then pr lg LOGLEVEL_CONT (cstr '' : %s'') [lit (error_interrupt_reason ! i)] st else Some st) of
           None \<Rightarrow> None
         | Some st \<Rightarrow> error_loop lit lg (drop_bit 1 v) (i + 1) st)
      else Some st)"
  by pat_completeness auto
termination
proof (relation "measure (\<lambda>(lit, lg, v, i, st). unat v)")
  fix v :: u32 assume "v \<noteq> 0"
  then have "0 < unat v" by (simp add: unat_gt_0)
  then have "unat (drop_bit 1 v) < unat v" using unat_shift_right[of 1 v] by simp
  then show "((lit, lg, drop_bit 1 v, i + 1, st'), lit, lg, v, i, st) \<in> measure (\<lambda>(lit, lg, v, i, st). unat v)" for lit lg i st st' by simp
qed simp

declare error_loop.simps [simp del]

definition smp_error_interrupt :: "apic_ops \<Rightarrow> (string \<Rightarrow> u64) \<Rightarrow> log_env \<Rightarrow> nat \<Rightarrow> apic_state \<times> io \<Rightarrow> (apic_state \<times> io) option" where
  "smp_error_interrupt ops lit lg cpu st =
     (let (a, io) = st;
          a = apic_write ops APIC_ESR 0 a;
          v = apic_read ops APIC_ESR a;
          a = apic_eoi ops a
      in map_option (\<lambda>(m, io). (a\<lparr>hardware := (hardware a)\<lparr>memory := m\<rparr>\<rparr>, io))
        (run_opt
          [pr lg LOGLEVEL_INFO (cstr ''APIC error on CPU%d: %02x'') [of_nat cpu, ucast v],
           error_loop lit lg (v AND 0xff) 0,
           pr lg LOGLEVEL_CONT (ln '''') []] (memory (hardware a), io)))"

section \<open>What the dump prints\<close>

text \<open>
  The reference: one line per return address. \<open>call_chain lg m bp rs\<close>: from \<open>bp\<close> the frames in memory hold the return addresses
  \<open>rs\<close> and end in a null pointer, and none of them lies in the log's buffer or the video
  memory, which printing changes; \<open>quiet\<close> says what it leaves alone.
\<close>

fun print_trace :: "log_env \<Rightarrow> u64 list \<Rightarrow> con_state \<Rightarrow> con_state option" where
  "print_trace lg [] st = Some st"
| "print_trace lg (r # rs) st = Option.bind (pr lg LOGLEVEL_DEFAULT (ln ''%pB'') [r] st) (print_trace lg rs)"

fun call_chain :: "log_env \<Rightarrow> mem \<Rightarrow> u64 \<Rightarrow> u64 list \<Rightarrow> bool" where
  "call_chain lg m bp [] \<longleftrightarrow> bp = 0"
| "call_chain lg m bp (r # rs) \<longleftrightarrow> bp \<noteq> 0 \<and> apart (log_buf lg) 1024 bp 16 \<and> apart vga_vram_base 0x20000 bp 16 \<and>
     read64 m (bp + 8) = r \<and> call_chain lg m (read64 m bp) rs"

definition quiet :: "log_env \<Rightarrow> mem \<Rightarrow> mem \<Rightarrow> bool" where
  "quiet lg m m' \<longleftrightarrow> (\<forall>x. 1024 \<le> unat (x - log_buf lg) \<and> 0x20000 \<le> unat (x - vga_vram_base) \<longrightarrow> m' x = m x)"

lemma quiet_refl [simp]: "quiet lg m m"
  by (simp add: quiet_def)

lemma quiet_trans: "quiet lg m m' \<Longrightarrow> quiet lg m' m'' \<Longrightarrow> quiet lg m m''"
  by (simp add: quiet_def)

lemma quiet_frame:
  assumes "quiet lg m m'" "apart (log_buf lg) 1024 bp 16" "apart vga_vram_base 0x20000 bp 16"
  shows "read64 m' bp = read64 m bp" "read64 m' (bp + 8) = read64 m (bp + 8)"
proof -
  have b: "m' (bp + of_nat i) = m (bp + of_nat i)" if "i < 16" for i
    using assms(1) apart_offset[OF assms(2) that] apart_offset[OF assms(3) that] by (simp add: quiet_def)
  have "read_bytes m' bp 8 = read_bytes m bp 8" by (rule read_bytes_cong) (simp add: b)
  moreover have "read_bytes m' (bp + 8) 8 = read_bytes m (bp + 8) 8"
    by (rule read_bytes_cong) (use b[of "8 + _"] in \<open>simp add: add.assoc\<close>)
  ultimately show "read64 m' bp = read64 m bp" "read64 m' (bp + 8) = read64 m (bp + 8)" by (simp_all add: read64_def)
qed

lemma quiet_chain: "quiet lg m m' \<Longrightarrow> call_chain lg m bp rs \<Longrightarrow> call_chain lg m' bp rs"
  by (induction rs arbitrary: bp) (auto simp: quiet_frame)

lemma outsb_out [simp]: "io_out (outsb p bs s) = io_out s @ map (Pair p) bs"
  by (induction p bs s rule: outsb.induct) simp_all

lemma die_out:
  "fst (die (m, s)) = m" "io_out (snd (die (m, s))) = io_out s @ (0x501, 0) # map (Pair 0x8900) (cstr ''Shutdown'')"
  by (simp_all add: die_def)

text \<open>
  The two formats of the dump. Without a table of symbols \<open>%pB\<close> prints the address in hexadecimal, padded to
  64 bits; a zero address prints as \<open>(null)\<close>.
\<close>

lemma title_items: "format_items m (ln ''Call Trace:'') [] zero_spec = [Raw (ln ''Call Trace:'')]"
  by code_simp

definition null_spec :: printf_spec where
  "null_spec = \<lparr>spec_type = FORMAT_TYPE_PTR, field_width = 16, flags = 0, base = 10, precision = - 1\<rparr>"

definition address_spec :: printf_spec where
  "address_spec = \<lparr>spec_type = FORMAT_TYPE_PTR, field_width = 18, flags = SPECIAL OR SMALL OR ZEROPAD, base = 16, precision = - 1\<rparr>"

definition trace_text :: "u64 \<Rightarrow> u8 list" where
  "trace_text r =
     (if r = 0 then replicate 10 0x20 @ cstr ''(null)''
      else let ds = digit_chars True (digits_of 16 (unat r)) in [0x30, 0x78] @ replicate (16 - length ds) 0x30 @ ds)"

lemma fetch_literal: "0 \<notin> set xs \<Longrightarrow> fetch_text m (Literal xs) i lim = take lim (drop i xs)"
proof (induction lim arbitrary: i)
  case (Suc lim)
  then show ?case
  proof (cases "i < length xs")
    case True
    then have "xs ! i \<noteq> 0" using Suc.prems nth_mem by metis
    then show ?thesis using Suc True by (subst fetch_text.simps) (simp add: fetch_def flip: Cons_nth_drop_Suc)
  qed (subst fetch_text.simps, simp add: fetch_def)
qed (simp add: fetch_text.simps)

lemma null_bytes: "string_bytes m (Literal null_text) null_spec = null_text"
proof -
  have "unat (scast (precision null_spec) :: u64) = 2 ^ 64 - 1" by (simp add: null_spec_def unsigned_minus_1_eq_mask mask_eq_exp_minus_1)
  moreover have "length null_text = 6" "0 \<notin> set null_text" by code_simp+
  ultimately show ?thesis by (simp add: string_bytes_def fetch_literal)
qed

lemma trace_items:
  "format_items m (ln ''%pB'') [r] zero_spec = [if r = 0 then Str null_text null_spec else Num r address_spec, Raw [0x0a]]"
proof -
  let ?sp = "\<lparr>spec_type = FORMAT_TYPE_PTR, field_width = - 1, flags = 0, base = 10, precision = - 1\<rparr> :: printf_spec"
  have f: "ln ''%pB'' = [0x25, 0x70, 0x42, 0x0a]" by code_simp
  have d: "format_decode [0x25, 0x70, 0x42, 0x0a] zero_spec = (2, ?sp)" by code_simp
  have r: "token_rest [0x42, 0x0a] [r] ?sp = ([0x0a], [], ?sp)" by code_simp
  have e: "format_items m [0x0a] [] ?sp = [Raw [0x0a]]" by code_simp
  have "pointer_items m [0x42, 0x0a] r ?sp = [if r = 0 then Str null_text null_spec else Num r address_spec]"
    using null_bytes[of m] by (simp add: pointer_items_def peek_def null_spec_def address_spec_def)
  then show ?thesis unfolding f
    by (subst format_items.simps) (simp add: d r e token_items_def peek_def va_arg_def)
qed

lemma trace_line: "format_text m (ln ''%pB'') [r] = trace_text r @ [0x0a]"
proof -
  have f: "\<not> flag SIGN address_spec" "flag SPECIAL address_spec" "\<not> flag LEFT address_spec" "flag ZEROPAD address_spec" "flag SMALL address_spec"
    "\<not> flag LEFT null_spec" by code_simp+
  have n: "number_text r address_spec = (let ds = digit_chars True (digits_of 16 (unat r)) in [0x30, 0x78] @ replicate (16 - length ds) 0x30 @ ds)"
    using f by (simp add: number_text_def sign_text_def prefix_text_def digits_text_def Let_def) (simp add: address_spec_def)
  have "render (Str null_text null_spec) = replicate 10 0x20 @ cstr ''(null)''"
    using f by (simp add: null_spec_def null_text_def cstr_def)
  then show ?thesis using n by (simp add: format_text_def trace_items trace_text_def)
qed

lemma length_trace: "length (format_text m (ln ''%pB'') [r]) < 2 ^ 31" "length (format_text m (ln ''Call Trace:'') []) < 2 ^ 31"
proof -
  have "length (digits_of 16 (unat r)) \<le> 22" using number_digits_bound[of 16 r] by simp
  then show "length (format_text m (ln ''%pB'') [r]) < 2 ^ 31" by (simp add: trace_line trace_text_def Let_def digit_chars_def cstr_def) linarith
  show "length (format_text m (ln ''Call Trace:'') []) < 2 ^ 31" unfolding format_text_def title_items by (simp add: ln_def cstr_def)
qed

lemma trace_stable: "stable buf sz m (ln ''%pB'') [r]" "stable buf sz m (ln ''Call Trace:'') []"
  by (simp_all add: stable_def trace_items title_items)

section \<open>The walk returns\<close>

definition log_ok :: "log_env \<Rightarrow> bool" where
  "log_ok lg \<longleftrightarrow> consoles (log_cons lg) \<and> unat (log_buf lg) + 2 ^ 32 < 2 ^ 64"

lemma pr_returns:
  assumes "log_ok lg" "level \<le> 6" "stable (log_buf lg) 1024 m fmt args" "length (format_text m fmt args) < 2 ^ 31"
  shows "\<exists>m' s'. pr lg level fmt args (m, s) = Some (m', s') \<and> quiet lg m m'"
proof -
  let ?line = "take 1023 ((if level = LOGLEVEL_CONT then [] else time_text (fst (uptime (log_device lg) (log_khz lg) s))) @ format_text m fmt args)"
  obtain m1 s1 where v: "\<forall>x. 1024 \<le> unat (x - log_buf lg) \<longrightarrow> m1 x = m x"
    "vprintk (log_device lg) (log_khz lg) (log_cons lg) (log_buf lg) level fmt args (m, s) =
       map_option (\<lambda>st. (of_nat (length ?line), st)) (write_consoles (log_cons lg) ?line (m1, s1))"
  proof -
    have l: "\<not> 6 < level" "unat (log_buf lg) + 2 ^ 32 < 2 ^ 64" using assms(1,2) by (simp_all add: log_ok_def)
    show thesis using vprintk_line[OF assms(3,4) l(2), where d = "log_device lg" and tsc_khz = "log_khz lg" and s = s and level = level and cons = "log_cons lg"] that
      unfolding if_not_P[OF l(1)] by blast
  qed
  obtain m2 s2 where "write_consoles (log_cons lg) ?line (m1, s1) = Some (m2, s2)" "video_only m1 m2"
    using consoles.all_write assms(1) unfolding log_ok_def by blast
  then show ?thesis using v by (auto simp: pr_def quiet_def video_only_def)
qed

lemma stack_loop:
  assumes "log_ok lg" "call_chain lg m bp rs"
  shows "show_stack_loop lg bp (m, s) = print_trace lg rs (m, s) \<and> (\<exists>m' s'. print_trace lg rs (m, s) = Some (m', s') \<and> quiet lg m m')"
  using assms(2)
proof (induction rs arbitrary: bp m s)
  case Nil
  then show ?case by (simp add: show_stack_loop.simps)
next
  case (Cons r rs)
  obtain m1 s1 where p: "pr lg LOGLEVEL_DEFAULT (ln ''%pB'') [r] (m, s) = Some (m1, s1)" "quiet lg m m1"
    using pr_returns[OF assms(1) _ trace_stable(1)[where r = r] length_trace(1)[where r = r], where level = LOGLEVEL_DEFAULT and m = m and s = s] LOGLEVEL_DEFAULT_def LOGLEVEL_INFO_def by auto
  have f: "read64 m1 bp = read64 m bp" using quiet_frame(1)[OF p(2)] Cons.prems by simp
  have "call_chain lg m1 (read64 m1 bp) rs" using quiet_chain[OF p(2)] Cons.prems f by simp
  then have i: "show_stack_loop lg (read64 m1 bp) (m1, s1) = print_trace lg rs (m1, s1)"
    "\<exists>m' s'. print_trace lg rs (m1, s1) = Some (m', s') \<and> quiet lg m1 m'" using Cons.IH by blast+
  have "show_stack_loop lg bp (m, s) = print_trace lg (r # rs) (m, s)"
    using Cons.prems p(1) i(1) by (subst show_stack_loop.simps) simp
  then show ?case using i(2) p quiet_trans by fastforce
qed

lemma show_stack_walks:
  assumes "log_ok lg" "call_chain lg m bp rs"
  shows "show_stack lg bp (m, s) = Option.bind (pr lg LOGLEVEL_DEFAULT (ln ''Call Trace:'') [] (m, s)) (print_trace lg rs) \<and>
    (\<exists>m' s'. show_stack lg bp (m, s) = Some (m', s') \<and> quiet lg m m')"
proof -
  obtain m1 s1 where p: "pr lg LOGLEVEL_DEFAULT (ln ''Call Trace:'') [] (m, s) = Some (m1, s1)" "quiet lg m m1"
    using pr_returns[OF assms(1) _ trace_stable(2) length_trace(2), where level = LOGLEVEL_DEFAULT and m = m and s = s] LOGLEVEL_DEFAULT_def LOGLEVEL_INFO_def by auto
  show ?thesis using stack_loop[OF assms(1) quiet_chain[OF p(2) assms(2)], of s1] p quiet_trans by (fastforce simp: show_stack_def)
qed

lemma main_log_ok:
  "log_cons lg = vgacon_init d (porte9_init color []) \<Longrightarrow> unat (log_buf lg) + 2 ^ 32 < 2 ^ 64 \<Longrightarrow> log_ok lg"
  using main_consoles.consoles_axioms by (simp add: log_ok_def)

section \<open>The reasons of an APIC error\<close>

definition print_reasons :: "(string \<Rightarrow> u64) \<Rightarrow> log_env \<Rightarrow> nat list \<Rightarrow> con_state \<Rightarrow> con_state option" where
  "print_reasons lit lg ks = run_opt (map (\<lambda>i. pr lg LOGLEVEL_CONT (cstr '' : %s'') [lit (error_interrupt_reason ! i)]) ks)"

lemma error_loop_bits:
  assumes "unat v < 2 ^ n"
  shows "error_loop lit lg v i st = print_reasons lit lg (filter (\<lambda>k. bit v (k - i)) [i..<i + n]) st"
  using assms
proof (induction n arbitrary: v i st)
  case 0
  then have "v = 0" by (simp add: unat_eq_zero)
  then show ?case by (simp add: error_loop.simps print_reasons_def)
next
  case (Suc n)
  have l: "unat (drop_bit 1 v) < 2 ^ n" using Suc.prems unat_shift_right[of 1 v] by simp
  have sh: "filter (\<lambda>k. bit (drop_bit 1 v) (k - Suc i)) [Suc i..<Suc i + n] = filter (\<lambda>k. bit v (k - i)) [Suc i..<Suc i + n]"
    by (rule filter_cong) (auto simp: bit_simps Suc_diff_Suc)
  define ys where "ys = filter (\<lambda>k. bit v (k - i)) [Suc i..<Suc i + n]"
  have ih: "error_loop lit lg (drop_bit 1 v) (i + 1) st = print_reasons lit lg ys st" for st
    using Suc.IH[OF l, of "Suc i" st] unfolding sh ys_def Suc_eq_plus1[symmetric] .
  have up: "filter (\<lambda>k. bit v (k - i)) [i..<i + Suc n] = (if bit v 0 then i # ys else ys)"
    unfolding ys_def by (simp add: upt_conv_Cons del: upt_Suc)
  have odd: "v AND 1 \<noteq> 0 \<longleftrightarrow> bit v 0" by (simp add: and_one_eq mod_2_eq_odd bit_0)
  show ?case
  proof (cases "v = 0")
    case True
    then show ?thesis by (simp add: error_loop.simps print_reasons_def)
  next
    case False
    have "error_loop lit lg v i st =
        (case (if bit v 0 then pr lg LOGLEVEL_CONT (cstr '' : %s'') [lit (error_interrupt_reason ! i)] st else Some st) of
           None \<Rightarrow> None | Some st \<Rightarrow> print_reasons lit lg ys st)"
      using False ih by (subst error_loop.simps) (auto simp: odd split: option.split)
    then show ?thesis unfolding up by (simp add: print_reasons_def split: option.split)
  qed
qed

section \<open>Properties\<close>


text \<open>Two frames at 0x2000 and 0x3000.\<close>

definition chain_memory :: mem where
  "chain_memory = write64 (write64 (write64 (\<lambda>_. 0) 0x2000 0x3000) 0x2008 0x111) 0x3008 0x222"

definition sample_log :: log_env where
  "sample_log = \<lparr>log_device = pit_device, log_khz = 0, log_cons = vgacon_init pit_device (porte9_init [] []), log_buf = 0x10000\<rparr>"


text \<open>The reasons of an APIC error. After the status register is read, the interrupt ended and the line begun, the handler of \<open>smp_error_interrupt\<close>
  prints the reason of every set bit of the low byte, lowest bit first, each once, and ends the line.\<close>

theorem error_reasons:
  "smp_error_interrupt ops lit lg cpu (a, s) =
    (let a = apic_write ops APIC_ESR 0 a; v = apic_read ops APIC_ESR a; a = apic_eoi ops a
     in map_option (\<lambda>(m, s). (a\<lparr>hardware := (hardware a)\<lparr>memory := m\<rparr>\<rparr>, s))
       (run_opt
         [pr lg LOGLEVEL_INFO (cstr ''APIC error on CPU%d: %02x'') [of_nat cpu, ucast v],
          print_reasons lit lg (filter (bit v) [0..<8]),
          pr lg LOGLEVEL_CONT (ln '''') []] (memory (hardware a), s)))"
proof -
  have "unat (v AND 0xff) < 2 ^ 8" for v :: u32 using unat_and_mask[of v 8] by (simp add: mask_eq_exp_minus_1)
  moreover have "filter (\<lambda>k. bit (v AND 0xff) (k - 0)) [0..<0 + 8] = filter (bit v) [0..<8]" for v :: u32
  proof (rule filter_cong)
    fix k :: nat assume "k \<in> set [0..<8]"
    then have "bit (v AND mask 8) k = bit v k" by (auto simp: bit_simps dest: bit_imp_le_length)
    then show "bit (v AND 0xff) (k - 0) = bit v k" by (simp add: mask_eq_exp_minus_1)
  qed simp
  ultimately have "error_loop lit lg (v AND 0xff) 0 = print_reasons lit lg (filter (bit v) [0..<8])" for v
    using error_loop_bits[of "v AND 0xff" 8 lit lg 0] by (auto simp: fun_eq_iff)
  then show ?thesis by (simp add: smp_error_interrupt_def Let_def)
qed

end
