(* ===== verification/Reports.thy ===== *)
theory Reports
  imports Panic E820 Vmx_Exit
begin

unbundle bit_operations_syntax

text \<open>
  What the program reports besides errors: the memory map (kernel/e820.c), the headers of ACPI tables (kernel/acpica/tbprint.c), the
  entries of the MADT (kernel/acpi.c) and the dump of the VMCS before a panic (vmm/vmx.c). A report is a sequence of log
  messages; \<open>lit\<close> gives the address of a string literal. Structures are read from memory at the offsets of their packed fields.
\<close>

section \<open>kernel/e820.c\<close>

definition e820_print_type :: "log_env \<Rightarrow> u32 \<Rightarrow> con_state \<Rightarrow> con_state option" where
  "e820_print_type lg type =
     (if type = 1 then pr lg LOGLEVEL_CONT (cstr ''usable'') []
      else if type = 2 then pr lg LOGLEVEL_CONT (cstr ''reserved'') []
      else if type = 3 then pr lg LOGLEVEL_CONT (cstr ''ACPI data'') []
      else if type = 4 then pr lg LOGLEVEL_CONT (cstr ''ACPI NVS'') []
      else if type = 5 then pr lg LOGLEVEL_CONT (cstr ''unusable'') []
      else if type = 7 then pr lg LOGLEVEL_CONT (cstr ''persistent'') []
      else pr lg LOGLEVEL_CONT (cstr ''type %u'') [ucast type])"

definition e820_print_table :: "log_env \<Rightarrow> e820_table \<Rightarrow> u64 \<Rightarrow> con_state \<Rightarrow> con_state option" where
  "e820_print_table lg t who = run_opt (concat (map (\<lambda>e.
     [pr lg LOGLEVEL_INFO (cstr ''%s: [mem %#018lx-%#018lx] '') [who, e_addr e, e_addr e + e_size e - 1],
      e820_print_type lg (e_type e),
      pr lg LOGLEVEL_CONT (ln '''') []]) (take (nr_entries t) (entries t))))"

section \<open>kernel/acpica/tbprint.c\<close>

definition ACPI_HIDWORD :: "u64 \<Rightarrow> u32" where "ACPI_HIDWORD i = ucast (drop_bit 32 i)"
definition ACPI_LODWORD :: "u64 \<Rightarrow> u32" where "ACPI_LODWORD i = ucast i"

text \<open>\<open>local\<close> is the address of \<open>local_header\<close> on the stack.\<close>

definition acpi_tb_print_table_header :: "log_env \<Rightarrow> u64 \<Rightarrow> u64 \<Rightarrow> u64 \<Rightarrow> con_state \<Rightarrow> con_state option" where
  "acpi_tb_print_table_header lg local address header st =
     (let (m, io) = st
      in if ACPI_COMPARE_NAME m header ACPI_SIG_FACS then
           pr lg LOGLEVEL_INFO (ln ''acpi: %-4.4s 0x%8.8x%8.8x %06x'')
             [header, ucast (ACPI_HIDWORD address), ucast (ACPI_LODWORD address), ucast (read32 m (header + 4))] (m, io)
         else if ACPI_VALIDATE_RSDP_SIG m header then
           let m = memcpy m (local + 10) (header + 9) 6;
               m = acpi_tb_fix_string m (local + 10) 6
           in pr lg LOGLEVEL_INFO (ln ''acpi: RSDP 0x%8.8x%8.8x %06x (v%.2d %-6.6s)'')
                [ucast (ACPI_HIDWORD address), ucast (ACPI_LODWORD address),
                 if m (header + 15) > 0 then ucast (read32 m (header + 20)) else 20, ucast (m (header + 15)), local + 10] (m, io)
         else
           let m = acpi_tb_cleanup_table_header m local header
           in pr lg LOGLEVEL_INFO (ln ''acpi: %-4.4s 0x%8.8x%8.8x %06x (v%.2d %-6.6s %-8.8s %08x %-4.4s %08x)'')
                [local, ucast (ACPI_HIDWORD address), ucast (ACPI_LODWORD address), ucast (read32 m (local + 4)),
                 ucast (m (local + 8)), local + 10, local + 16, ucast (read32 m (local + 24)), local + 28,
                 ucast (read32 m (local + 32))] (m, io))"

section \<open>kernel/acpi.c\<close>

text \<open>\<open>pr_info\<close> puts \<open>acpi: \<close> before each format of this file.\<close>

definition acpi_fmt :: "string \<Rightarrow> u8 list" where "acpi_fmt str = ln (''acpi: '' @ str)"

definition mps_inti_flags_polarity :: "string list" where
  "mps_inti_flags_polarity = [''dfl'', ''high'', ''res'', ''low'']"

definition mps_inti_flags_trigger :: "string list" where
  "mps_inti_flags_trigger = [''dfl'', ''edge'', ''res'', ''level'']"

definition polarity_name :: "(string \<Rightarrow> u64) \<Rightarrow> u16 \<Rightarrow> u64" where
  "polarity_name lit fl = lit (mps_inti_flags_polarity ! unat (fl AND 3))"

definition trigger_name :: "(string \<Rightarrow> u64) \<Rightarrow> u16 \<Rightarrow> u64" where
  "trigger_name lit fl = lit (mps_inti_flags_trigger ! unat (drop_bit 2 (fl AND 0xc)))"

definition enabled_name :: "(string \<Rightarrow> u64) \<Rightarrow> u32 \<Rightarrow> u64" where
  "enabled_name lit fl = lit (if fl AND 1 \<noteq> 0 then ''enabled'' else ''disabled'')"

definition acpi_table_print_madt_entry :: "(string \<Rightarrow> u64) \<Rightarrow> log_env \<Rightarrow> u64 \<Rightarrow> con_state \<Rightarrow> con_state option" where
  "acpi_table_print_madt_entry lit lg p st =
     (let m = fst st; type = m p;
          byte = \<lambda>i. ucast (m (p + i)) :: u64;
          half = \<lambda>i. read16 m (p + i);
          word = \<lambda>i. ucast (read32 m (p + i)) :: u64;
          pol = \<lambda>i. polarity_name lit (half i);
          trg = \<lambda>i. trigger_name lit (half i);
          info = \<lambda>fmt args. pr lg LOGLEVEL_INFO (acpi_fmt fmt) args
      in if type = 0 then
           info ''LAPIC (acpi_id[0x%02x] lapic_id[0x%02x] %s)'' [byte 2, byte 3, enabled_name lit (read32 m (p + 4))] st
         else if type = 9 then
           info ''X2APIC (apic_id[0x%02x] uid[0x%02x] %s)'' [word 4, word 12, enabled_name lit (read32 m (p + 8))] st
         else if type = 1 then
           info ''IOAPIC (id[0x%02x] address[0x%08x] gsi_base[%d])'' [byte 2, word 4, word 8] st
         else if type = 2 then
           Option.bind (info ''INT_SRC_OVR (bus %d bus_irq %d global_irq %d %s %s)'' [byte 2, byte 3, word 4, pol 8, trg 8] st)
             (\<lambda>st. let fl = read16 (fst st) (p + 8) AND NOT (3 OR 0xc)
                   in if fl \<noteq> 0 then info ''INT_SRC_OVR unexpected reserved flags: 0x%x'' [ucast fl] st else Some st)
         else if type = 3 then
           info ''NMI_SRC (%s %s global_irq %d)'' [pol 2, trg 2, word 4] st
         else if type = 4 then
           info ''LAPIC_NMI (acpi_id[0x%02x] %s %s lint[0x%x])'' [byte 2, pol 3, trg 3, byte 5] st
         else if type = 10 then
           info ''X2APIC_NMI (uid[0x%02x] %s %s lint[0x%x])'' [word 4, pol 2, trg 2, byte 8] st
         else if type = 5 then
           info ''LAPIC_ADDR_OVR (address[%p])'' [read64 m (p + 4)] st
         else if type = 6 then
           info ''IOSAPIC (id[0x%x] address[%p] gsi_base[%d])'' [byte 2, read64 m (p + 8), word 4] st
         else if type = 7 then
           info ''LSAPIC (acpi_id[0x%02x] lsapic_id[0x%02x] lsapic_eid[0x%02x] %s)''
             [byte 2, byte 3, byte 4, enabled_name lit (read32 m (p + 8))] st
         else if type = 8 then
           info ''PLAT_INT_SRC (%s %s type[0x%x] id[0x%04x] eid[0x%x] iosapic_vector[0x%x] global_irq[0x%x]''
             [pol 2, trg 2, byte 4, byte 5, byte 6, byte 7, word 8] st
         else if type = 11 then
           info ''GICC (acpi_id[0x%04x] address[%lx] MPIDR[0x%lx] %s)''
             [word 8, read64 m (p + 32), read64 m (p + 68), enabled_name lit (read32 m (p + 12))] st
         else if type = 12 then
           info ''GIC Distributor (gic_id[0x%04x] address[%lx] gsi_base[%d])'' [word 4, read64 m (p + 8), word 16] st
         else pr lg LOGLEVEL_WARNING (acpi_fmt ''Found unsupported MADT entry (type = 0x%x)'') [ucast type] st)"

section \<open>vmm/vmx.c: the dump of the VMCS\<close>

abbreviation (input) CPU_BASED_TPR_SHADOW :: u32 where "CPU_BASED_TPR_SHADOW \<equiv> 0x00200000"
abbreviation (input) CR3_TARGET_VALUE0 :: u32 where "CR3_TARGET_VALUE0 \<equiv> 0x6008"
abbreviation (input) GUEST_BNDCFGS :: u32 where "GUEST_BNDCFGS \<equiv> 0x2812"
abbreviation (input) GUEST_DR7 :: u32 where "GUEST_DR7 \<equiv> 0x681a"
abbreviation (input) GUEST_IA32_PAT :: u32 where "GUEST_IA32_PAT \<equiv> 0x2804"
abbreviation (input) GUEST_IA32_PERF_GLOBAL_CTRL :: u32 where "GUEST_IA32_PERF_GLOBAL_CTRL \<equiv> 0x2808"
abbreviation (input) GUEST_INTR_STATUS :: u32 where "GUEST_INTR_STATUS \<equiv> 0x810"
abbreviation (input) GUEST_PDPTR0 :: u32 where "GUEST_PDPTR0 \<equiv> 0x280a"
abbreviation (input) GUEST_PDPTR1 :: u32 where "GUEST_PDPTR1 \<equiv> 0x280c"
abbreviation (input) GUEST_PDPTR2 :: u32 where "GUEST_PDPTR2 \<equiv> 0x280e"
abbreviation (input) GUEST_PDPTR3 :: u32 where "GUEST_PDPTR3 \<equiv> 0x2810"
abbreviation (input) GUEST_RSP :: u32 where "GUEST_RSP \<equiv> 0x681c"
abbreviation (input) HOST_IA32_PERF_GLOBAL_CTRL :: u32 where "HOST_IA32_PERF_GLOBAL_CTRL \<equiv> 0x2c04"
abbreviation (input) HOST_IA32_SYSENTER_ESP :: u32 where "HOST_IA32_SYSENTER_ESP \<equiv> 0x6c10"
abbreviation (input) IDT_VECTORING_ERROR_CODE :: u32 where "IDT_VECTORING_ERROR_CODE \<equiv> 0x440a"
abbreviation (input) IDT_VECTORING_INFO_FIELD :: u32 where "IDT_VECTORING_INFO_FIELD \<equiv> 0x4408"
abbreviation (input) PIN_BASED_POSTED_INTR :: u32 where "PIN_BASED_POSTED_INTR \<equiv> 0x80"
abbreviation (input) PLE_GAP :: u32 where "PLE_GAP \<equiv> 0x4020"
abbreviation (input) PLE_WINDOW :: u32 where "PLE_WINDOW \<equiv> 0x4022"
abbreviation (input) POSTED_INTR_NV :: u32 where "POSTED_INTR_NV \<equiv> 0x2"
abbreviation (input) SECONDARY_EXEC_PAUSE_LOOP_EXITING :: u32 where "SECONDARY_EXEC_PAUSE_LOOP_EXITING \<equiv> 0x400"
abbreviation (input) SECONDARY_EXEC_TSC_SCALING :: u32 where "SECONDARY_EXEC_TSC_SCALING \<equiv> 0x02000000"
abbreviation (input) SECONDARY_EXEC_VIRTUAL_INTR_DELIVERY :: u32 where "SECONDARY_EXEC_VIRTUAL_INTR_DELIVERY \<equiv> 0x200"
abbreviation (input) TPR_THRESHOLD :: u32 where "TPR_THRESHOLD \<equiv> 0x401c"
abbreviation (input) TSC_MULTIPLIER :: u32 where "TSC_MULTIPLIER \<equiv> 0x2032"
abbreviation (input) TSC_OFFSET :: u32 where "TSC_OFFSET \<equiv> 0x2010"
abbreviation (input) VM_ENTRY_EXCEPTION_ERROR_CODE :: u32 where "VM_ENTRY_EXCEPTION_ERROR_CODE \<equiv> 0x4018"
abbreviation (input) VM_ENTRY_INSTRUCTION_LEN :: u32 where "VM_ENTRY_INSTRUCTION_LEN \<equiv> 0x401a"
abbreviation (input) VM_ENTRY_LOAD_IA32_PERF_GLOBAL_CTRL :: u32 where "VM_ENTRY_LOAD_IA32_PERF_GLOBAL_CTRL \<equiv> 0x2000"
abbreviation (input) VM_EXIT_INTR_ERROR_CODE :: u32 where "VM_EXIT_INTR_ERROR_CODE \<equiv> 0x4406"
abbreviation (input) VM_EXIT_LOAD_IA32_PERF_GLOBAL_CTRL :: u32 where "VM_EXIT_LOAD_IA32_PERF_GLOBAL_CTRL \<equiv> 0x1000"
abbreviation (input) X86_CR4_PAE :: u64 where "X86_CR4_PAE \<equiv> 0x20"

text \<open>The controls that are set, by number, and the five words of the configuration that \<open>setup_vmcs_config\<close> prints at its end.\<close>

definition print_vmx_controls :: "log_env \<Rightarrow> u64 \<Rightarrow> u32 \<Rightarrow> con_state \<Rightarrow> con_state option" where
  "print_vmx_controls lg prefix ctl = run_opt
     ([pr lg LOGLEVEL_INFO (ln ''vmx: %s'') [prefix], pr lg LOGLEVEL_INFO (cstr ''    '') []] @
      map (\<lambda>i. pr lg LOGLEVEL_CONT (cstr '' %d'') [of_nat i]) (filter (\<lambda>i. ctl AND BIT_32 i \<noteq> 0) [0..<32]) @
      [pr lg LOGLEVEL_CONT (ln '''') []])"

definition print_vmcs_config :: "(string \<Rightarrow> u64) \<Rightarrow> log_env \<Rightarrow> vmcs_config \<Rightarrow> con_state \<Rightarrow> con_state option" where
  "print_vmcs_config lit lg c = run_opt
     [print_vmx_controls lg (lit ''pin-based VM-execution controls'') (pin_based_exec_ctrl c),
      print_vmx_controls lg (lit ''primary processor-based VM-execution controls'') (cpu_based_exec_ctrl c),
      print_vmx_controls lg (lit ''secondary processor-based VM-execution controls'') (cpu_based_2nd_exec_ctrl c),
      print_vmx_controls lg (lit ''VM-exit controls'') (vmexit_ctrl c),
      print_vmx_controls lg (lit ''VM-entry controls'') (vmentry_ctrl c)]"

text \<open>A report: formats with their arguments, all of level \<open>LOGLEVEL_ERR\<close>.\<close>

type_synonym report = "(u8 list \<times> u64 list) list"

definition emit_report :: "log_env \<Rightarrow> report \<Rightarrow> con_state \<Rightarrow> con_state option" where
  "emit_report lg ms = run_opt (map (\<lambda>(fmt, args). pr lg LOGLEVEL_ERR fmt args) ms)"

definition vmx_dump_sel :: "machine \<Rightarrow> u64 \<Rightarrow> u32 \<Rightarrow> report" where
  "vmx_dump_sel s name sel =
     [(ln ''%s sel=0x%04lx, attr=0x%05lx, limit=0x%08lx, base=0x%016lx'',
       [name, vmcs_read sel s, vmcs_read (sel + GUEST_ES_AR_BYTES - GUEST_ES_SELECTOR) s,
        vmcs_read (sel + GUEST_ES_LIMIT - GUEST_ES_SELECTOR) s, vmcs_read (sel + GUEST_ES_BASE - GUEST_ES_SELECTOR) s])]"

definition vmx_dump_dtsel :: "machine \<Rightarrow> u64 \<Rightarrow> u32 \<Rightarrow> report" where
  "vmx_dump_dtsel s name limit =
     [(ln ''%s                           limit=0x%08lx, base=0x%016lx'',
       [name, vmcs_read limit s, vmcs_read (limit + GUEST_GDTR_BASE - GUEST_GDTR_LIMIT) s])]"

definition vmx_msr_name :: "string list" where
  "vmx_msr_name = [''MSR_KERNEL_GS_BASE'', ''MSR_SYSCALL_MASK'', ''MSR_LSTAR'', ''MSR_STAR'']"

text \<open>The loop over the CR3 targets and the odd one behind it; \<open>i\<close> and \<open>n\<close> are \<open>int\<close>.\<close>

function cr3_targets :: "machine \<Rightarrow> int \<Rightarrow> int \<Rightarrow> report" where
  "cr3_targets s n i =
     (if i + 1 < n then
        (ln ''CR3 target%u=%016lx target%u=%016lx'',
         [of_int i, vmcs_read (CR3_TARGET_VALUE0 + of_int i * 2) s, of_int (i + 1), vmcs_read (CR3_TARGET_VALUE0 + of_int i * 2 + 2) s])
        # cr3_targets s n (i + 4)
      else if i < n then [(ln ''CR3 target%u=%016lx'', [of_int i, vmcs_read (CR3_TARGET_VALUE0 + of_int i * 2) s])]
      else [])"
  by pat_completeness auto
termination by (relation "measure (\<lambda>(s, n, i). nat (n - i))") auto

declare cr3_targets.simps [simp del]

definition dump_guest :: "(string \<Rightarrow> u64) \<Rightarrow> machine \<Rightarrow> report" where
  "dump_guest lit s =
     (let vmentry_ctl = vmcs_read32 VM_ENTRY_CONTROLS s;
          vmexit_ctl = vmcs_read32 VM_EXIT_CONTROLS s;
          secondary_exec_control = vmcs_read32 SECONDARY_VM_EXEC_CONTROL s;
          cr4 = vmcs_readl GUEST_CR4 s;
          efer = vmcs_read64 GUEST_IA32_EFER s
      in [(ln ''*** Guest State ***'', []),
          (ln ''CR0: actual=0x%016lx, shadow=0x%016lx, gh_mask=%016lx'',
           [vmcs_readl GUEST_CR0 s, vmcs_readl CR0_READ_SHADOW s, vmcs_readl CR0_GUEST_HOST_MASK s]),
          (ln ''CR4: actual=0x%016lx, shadow=0x%016lx, gh_mask=%016lx'',
           [cr4, vmcs_readl CR4_READ_SHADOW s, vmcs_readl CR4_GUEST_HOST_MASK s]),
          (ln ''CR3 = 0x%016lx'', [vmcs_readl GUEST_CR3 s])] @
         (if secondary_exec_control AND SECONDARY_EXEC_ENABLE_EPT \<noteq> 0 \<and> cr4 AND X86_CR4_PAE \<noteq> 0 \<and> efer AND EFER_LMA = 0 then
            [(ln ''PDPTR0 = 0x%016lx  PDPTR1 = 0x%016lx'', [vmcs_read64 GUEST_PDPTR0 s, vmcs_read64 GUEST_PDPTR1 s]),
             (ln ''PDPTR2 = 0x%016lx  PDPTR3 = 0x%016lx'', [vmcs_read64 GUEST_PDPTR2 s, vmcs_read64 GUEST_PDPTR3 s])]
          else []) @
         [(ln ''RSP = 0x%016lx  RIP = 0x%016lx'', [vmcs_readl GUEST_RSP s, vmcs_readl GUEST_RIP s]),
          (ln ''RFLAGS=0x%08lx         DR7 = 0x%016lx'', [vmcs_readl GUEST_RFLAGS s, vmcs_readl GUEST_DR7 s]),
          (ln ''Sysenter RSP=%016lx CS:RIP=%04x:%016lx'',
           [vmcs_readl GUEST_SYSENTER_ESP s, ucast (vmcs_read32 GUEST_SYSENTER_CS s), vmcs_readl GUEST_SYSENTER_EIP s])] @
         vmx_dump_sel s (lit ''CS:  '') GUEST_CS_SELECTOR @
         vmx_dump_sel s (lit ''DS:  '') GUEST_DS_SELECTOR @
         vmx_dump_sel s (lit ''SS:  '') GUEST_SS_SELECTOR @
         vmx_dump_sel s (lit ''ES:  '') GUEST_ES_SELECTOR @
         vmx_dump_sel s (lit ''FS:  '') GUEST_FS_SELECTOR @
         vmx_dump_sel s (lit ''GS:  '') GUEST_GS_SELECTOR @
         vmx_dump_dtsel s (lit ''GDTR:'') GUEST_GDTR_LIMIT @
         vmx_dump_sel s (lit ''LDTR:'') GUEST_LDTR_SELECTOR @
         vmx_dump_dtsel s (lit ''IDTR:'') GUEST_IDTR_LIMIT @
         vmx_dump_sel s (lit ''TR:  '') GUEST_TR_SELECTOR @
         (if vmexit_ctl AND (VM_EXIT_SAVE_IA32_PAT OR VM_EXIT_SAVE_IA32_EFER) \<noteq> 0 \<or>
             vmentry_ctl AND (VM_ENTRY_LOAD_IA32_PAT OR VM_ENTRY_LOAD_IA32_EFER) \<noteq> 0 then
            [(ln ''EFER =     0x%016lx  PAT = 0x%016lx'', [efer, vmcs_read64 GUEST_IA32_PAT s])] else []) @
         [(ln ''DebugCtl = 0x%016lx  DebugExceptions = 0x%016lx'',
           [vmcs_read64 GUEST_IA32_DEBUGCTL s, vmcs_readl GUEST_PENDING_DBG_EXCEPTIONS s])] @
         (if vmentry_ctl AND VM_ENTRY_LOAD_IA32_PERF_GLOBAL_CTRL \<noteq> 0 then
            [(ln ''PerfGlobCtl = 0x%016lx'', [vmcs_read64 GUEST_IA32_PERF_GLOBAL_CTRL s])] else []) @
         (if vmentry_ctl AND VM_ENTRY_LOAD_BNDCFGS \<noteq> 0 then
            [(ln ''BndCfgS = 0x%016lx'', [vmcs_read64 GUEST_BNDCFGS s])] else []) @
         [(ln ''Interruptibility = %08x  ActivityState = %08x'',
           [ucast (vmcs_read32 GUEST_INTERRUPTIBILITY_INFO s), ucast (vmcs_read32 GUEST_ACTIVITY_STATE s)])] @
         (if secondary_exec_control AND SECONDARY_EXEC_VIRTUAL_INTR_DELIVERY \<noteq> 0 then
            [(ln ''InterruptStatus = %04x'', [ucast (vmcs_read16 GUEST_INTR_STATUS s)])] else []) @
         map (\<lambda>i. (ln ''%s = 0x%016lx'', [lit (vmx_msr_name ! i), msr_value (autoload_guest s ! i)])) [0..<length vmx_msr_index])"

definition dump_host :: "machine \<Rightarrow> report" where
  "dump_host s =
     (let vmexit_ctl = vmcs_read32 VM_EXIT_CONTROLS s
      in [(ln ''*** Host State ***'', []),
          (ln ''RIP = 0x%016lx  RSP = 0x%016lx'', [vmcs_readl HOST_RIP s, vmcs_readl HOST_RSP s]),
          (ln ''CS=%04x SS=%04x DS=%04x ES=%04x FS=%04x GS=%04x TR=%04x'',
           [ucast (vmcs_read16 HOST_CS_SELECTOR s), ucast (vmcs_read16 HOST_SS_SELECTOR s), ucast (vmcs_read16 HOST_DS_SELECTOR s),
            ucast (vmcs_read16 HOST_ES_SELECTOR s), ucast (vmcs_read16 HOST_FS_SELECTOR s), ucast (vmcs_read16 HOST_GS_SELECTOR s),
            ucast (vmcs_read16 HOST_TR_SELECTOR s)]),
          (ln ''FSBase=%016lx GSBase=%016lx TRBase=%016lx'',
           [vmcs_readl HOST_FS_BASE s, vmcs_readl HOST_GS_BASE s, vmcs_readl HOST_TR_BASE s]),
          (ln ''GDTBase=%016lx IDTBase=%016lx'', [vmcs_readl HOST_GDTR_BASE s, vmcs_readl HOST_IDTR_BASE s]),
          (ln ''CR0=%016lx CR3=%016lx CR4=%016lx'', [vmcs_readl HOST_CR0 s, vmcs_readl HOST_CR3 s, vmcs_readl HOST_CR4 s]),
          (ln ''Sysenter RSP=%016lx CS:RIP=%04x:%016lx'',
           [vmcs_readl HOST_IA32_SYSENTER_ESP s, ucast (vmcs_read32 HOST_IA32_SYSENTER_CS s), vmcs_readl HOST_IA32_SYSENTER_EIP s])] @
         (if vmexit_ctl AND (VM_EXIT_LOAD_IA32_PAT OR VM_EXIT_LOAD_IA32_EFER) \<noteq> 0 then
            [(ln ''EFER = 0x%016lx  PAT = 0x%016lx'', [vmcs_read64 HOST_IA32_EFER s, vmcs_read64 HOST_IA32_PAT s])] else []) @
         (if vmexit_ctl AND VM_EXIT_LOAD_IA32_PERF_GLOBAL_CTRL \<noteq> 0 then
            [(ln ''PerfGlobCtl = 0x%016lx'', [vmcs_read64 HOST_IA32_PERF_GLOBAL_CTRL s])] else []))"

definition dump_control :: "machine \<Rightarrow> report" where
  "dump_control s =
     (let vmentry_ctl = vmcs_read32 VM_ENTRY_CONTROLS s;
          vmexit_ctl = vmcs_read32 VM_EXIT_CONTROLS s;
          cpu_based_exec_ctrl = vmcs_read32 CPU_BASED_VM_EXEC_CONTROL s;
          pin_based_exec_ctrl = vmcs_read32 PIN_BASED_VM_EXEC_CONTROL s;
          secondary_exec_control = vmcs_read32 SECONDARY_VM_EXEC_CONTROL s;
          n = sint (vmcs_read32 CR3_TARGET_COUNT s)
      in [(ln ''*** Control State ***'', []),
          (ln ''PinBased=%08x CPUBased=%08x SecondaryExec=%08x'',
           [ucast pin_based_exec_ctrl, ucast cpu_based_exec_ctrl, ucast secondary_exec_control]),
          (ln ''EntryControls=%08x ExitControls=%08x'', [ucast vmentry_ctl, ucast vmexit_ctl]),
          (ln ''ExceptionBitmap=%08x PFECmask=%08x PFECmatch=%08x'',
           [ucast (vmcs_read32 EXCEPTION_BITMAP s), ucast (vmcs_read32 PAGE_FAULT_ERROR_CODE_MASK s),
            ucast (vmcs_read32 PAGE_FAULT_ERROR_CODE_MATCH s)]),
          (ln ''VMEntry: intr_info=%08x errcode=%08x ilen=%08x'',
           [ucast (vmcs_read32 VM_ENTRY_INTR_INFO_FIELD s), ucast (vmcs_read32 VM_ENTRY_EXCEPTION_ERROR_CODE s),
            ucast (vmcs_read32 VM_ENTRY_INSTRUCTION_LEN s)]),
          (ln ''VMExit: intr_info=%08x errcode=%08x ilen=%08x'',
           [ucast (vmcs_read32 VM_EXIT_INTR_INFO s), ucast (vmcs_read32 VM_EXIT_INTR_ERROR_CODE s),
            ucast (vmcs_read32 VM_EXIT_INSTRUCTION_LEN s)]),
          (ln ''        reason=%08x qualification=%016lx'',
           [ucast (vmcs_read32 VM_EXIT_REASON s), vmcs_readl EXIT_QUALIFICATION s]),
          (ln ''IDTVectoring: info=%08x errcode=%08x'',
           [ucast (vmcs_read32 IDT_VECTORING_INFO_FIELD s), ucast (vmcs_read32 IDT_VECTORING_ERROR_CODE s)]),
          (ln ''TSC Offset = 0x%016lx'', [vmcs_read64 TSC_OFFSET s])] @
         (if secondary_exec_control AND SECONDARY_EXEC_TSC_SCALING \<noteq> 0 then
            [(ln ''TSC Multiplier = 0x%016lx'', [vmcs_read64 TSC_MULTIPLIER s])] else []) @
         (if cpu_based_exec_ctrl AND CPU_BASED_TPR_SHADOW \<noteq> 0 then
            [(ln ''TPR Threshold = 0x%02x'', [ucast (vmcs_read32 TPR_THRESHOLD s)])] else []) @
         (if pin_based_exec_ctrl AND PIN_BASED_POSTED_INTR \<noteq> 0 then
            [(ln ''PostedIntrVec = 0x%02x'', [ucast (vmcs_read16 POSTED_INTR_NV s)])] else []) @
         (if secondary_exec_control AND SECONDARY_EXEC_ENABLE_EPT \<noteq> 0 then
            [(ln ''EPT pointer = 0x%016lx'', [vmcs_read64 EPT_POINTER s])] else []) @
         cr3_targets s n 0 @
         (if secondary_exec_control AND SECONDARY_EXEC_PAUSE_LOOP_EXITING \<noteq> 0 then
            [(ln ''PLE Gap=%08x Window=%08x'', [ucast (vmcs_read32 PLE_GAP s), ucast (vmcs_read32 PLE_WINDOW s)])] else []) @
         (if secondary_exec_control AND SECONDARY_EXEC_ENABLE_VPID \<noteq> 0 then
            [(ln ''Virtual processor ID = 0x%04x'', [ucast (vmcs_read16 VIRTUAL_PROCESSOR_ID s)])] else []))"

definition dump_vmcs :: "(string \<Rightarrow> u64) \<Rightarrow> log_env \<Rightarrow> machine \<Rightarrow> con_state \<Rightarrow> con_state option" where
  "dump_vmcs lit lg s = emit_report lg (dump_guest lit s @ dump_host s @ dump_control s)"

section \<open>Properties of the reports\<close>

text \<open>A reported string is cut at its end and made printable, in place; nothing else changes.\<close>

definition fixed :: "u8 \<Rightarrow> u8" where "fixed c = (if isprint c then c else 0x3f)"

theorem fix_string_prints:
  assumes "len < 2 ^ 64"
  shows "acpi_tb_fix_string m s len = write_bytes m s (map fixed (takeWhile (\<lambda>c. c \<noteq> 0) (read_bytes m s len)))"
  using assms
proof (induction len arbitrary: m s)
  case (Suc len)
  let ?t = "\<lambda>m. takeWhile (\<lambda>c. c \<noteq> 0) (read_bytes m (s + 1) len)"
  have u: "(if \<not> isprint (m s) then m(s := 0x3f) else m) = m(s := fixed (m s))" by (auto simp: fixed_def)
  have r: "read_bytes (m(s := c)) (s + 1) len = read_bytes m (s + 1) len" for c
  proof (rule read_bytes_cong)
    fix i assume "i < len"
    then have "s + 1 + of_nat i \<noteq> s" using Suc.prems of_nat_neq_0[of "Suc i", where 'a = 64] by (simp add: add.assoc)
    then show "(m(s := c)) (s + 1 + of_nat i) = m (s + 1 + of_nat i)" by simp
  qed
  have l: "length (map fixed (?t m)) < 2 ^ 64" using Suc.prems length_takeWhile_le[of "\<lambda>c. c \<noteq> 0" "read_bytes m (s + 1) len"] by simp
  show ?case using Suc.IH[of "m(s := fixed (m s))" "s + 1"] Suc.prems r write_bytes_Cons[OF l, of m s "fixed (m s)"]
    by (auto simp: read_bytes_Suc u simp del: fun_upd_apply)
qed simp

text \<open>The loop over the CR3 targets steps over two of every four: of four targets only the first two are shown.\<close>

lemma cr3_targets_skip:
  "cr3_targets s 4 0 =
     [(ln ''CR3 target%u=%016lx target%u=%016lx'', [0, vmcs_read CR3_TARGET_VALUE0 s, 1, vmcs_read (CR3_TARGET_VALUE0 + 2) s])]"
  by (simp add: cr3_targets.simps[of s 4 0] cr3_targets.simps[of s 4 4] del: vmcs_read_def)

end
