(* ===== verification/Spec2Isabelle.thy ===== *)
theory Spec2Isabelle
  imports Find_Bit E820 Kvm_Loop Firmware Start List_Head Spinlock Reports
begin

text \<open>
  \<^bold>\<open>Verification of lvisor\<close>, a small hypervisor for x86-64 processors with Intel VMX (paths below are relative to src/).

  \<^bold>\<open>The program.\<close> A multiboot loader starts the VMM with guest kernel and initrd as modules. \<open>main\<close> (vmm/main.c) registers two
  consoles, identifies the processor (kernel/cpu.c), calibrates the clock (kernel/tsc.c), loads the descriptor tables
  (kernel/idt.c, kernel/traps.c), takes over the boot loader's information (vmm/multiboot.c) into the memory map
  (kernel/e820.c) and into \<open>guest_params\<close>, reads the ACPI tables (kernel/acpi.c, kernel/acpica/), sets up the local APIC
  (kernel/apic.c with the drivers xapic.c and x2apic.c), prepares the guest (\<open>kvm_init\<close> of vmm/kvm.c) and starts the one
  virtual CPU (\<open>kvm_bsp_run\<close>). From then on \<open>kvm_loop\<close> alternates between running the guest (\<open>vmx_vcpu_run\<close> of vmm/vmx.c)
  and handling its exits (\<open>vmx_handle_exit\<close>). Guest memory is the machine's own below 4 GB, mapped on demand by EPT violations, with
  the image of the VMM left out. Inside the guest a firmware (firmware/) runs first: it loads the kernel and describes the
  machine to it from \<open>guest_params\<close>, which the VMM copied to the head of the firmware. The libraries are lib/string.c,
  lib/ctype.c, lib/hexdump.c, lib/vsprintf.c, lib/sort.c, lib/find_bit.c, lib/printk.c, lib/panic.c and the inline
  functions of include/.

  \<^bold>\<open>The theories\<close>, in the order of their imports; definitions have the names of the C functions.
  \<^item> \<open>Lvisor_Prelude\<close>: C types as words, \<open>stop\<close> (panic, \<open>BUG_ON\<close>) and \<open>and_then\<close>, facts on words, bits and lists.
  \<^item> \<open>Find_Bit\<close> (lib/find_bit.c, asm/bitops.h, sys/bitmap.h, sys/bitops.h): an array of \<open>unsigned long\<close> is a list of words.
    Every search equals the bit by bit scan.
  \<^item> \<open>Memory\<close> (lib/string.c, the \<open>mem\<close> routines): memory is a function from addresses to bytes; little-endian access and what a write
    leaves alone, on which everything that touches memory rests.
  \<^item> \<open>Sort\<close> (lib/sort.c): the heap sort over memory, its swaps, an abstract heap sort on lists and the proof that the one
    implements the other.
  \<^item> \<open>E820\<close> (kernel/e820.c): the table is a record of entries. Sanitizing keeps the type of every address (\<open>type_at\<close>) and
    makes the table sorted and disjoint; retyping, coverage, end of RAM, import from multiboot.
  \<^item> \<open>Vmx_Machine\<close>, \<open>Vmx_Setup\<close>, \<open>Vmx_Exit\<close> (vmm/vmx.c, vmm/kvm.c): the record \<open>machine\<close> is \<open>struct vcpu_vmx\<close> with the VMCS, the MSRs, control
    registers and memory; control negotiation, the MSR bitmap, the initial VMCS, CR0 and long mode; the world switch, every
    exit handler, the dispatcher, CPUID.
  \<^item> \<open>Ept\<close> (vmm/kvm.c, \<open>gpa2hpa\<close> and \<open>gva2hva\<close> of vmm/vmx.c): the page tables in memory, the processor's walk \<open>ept_translate\<close>, the invariant \<open>ept_ok\<close>
    of the tables and what each operation does to the translation.
  \<^item> \<open>Kvm_Loop\<close> (vmm/kvm.c): the loop as an inductive relation over the operations of \<open>struct kvm_x86_ops\<close>. Its invariant \<open>vmm_ready\<close>
    holds in every reachable state, whatever the guest does.
  \<^item> \<open>C_String\<close>, \<open>Number_Format\<close>, \<open>Vsprintf\<close> (lib/string.c, lib/ctype.c, lib/hexdump.c, lib/vsprintf.c): strings in memory, numbers and the
    format interpreter. The text of a format is a function of its arguments, \<open>vsnprintf\<close> writes it cut to the buffer.
  \<^item> \<open>Boot\<close> (vmm/multiboot.c, \<open>kvm_init\<close>): what is read from the boot loader, masking the image out of the map, the copy
    of the firmware and of \<open>guest_params\<close>.
  \<^item> \<open>Firmware\<close> (firmware/): the multiboot header, ELF files of both classes, the information block for the kernel.
  \<^item> \<open>Acpi\<close> (kernel/acpi.c, kernel/acpica/), \<open>Apic\<close> (kernel/apic.c, xapic.c, x2apic.c): tables read in place, the list of processors,
    the two drivers under one contract, the initial state of the APIC.
  \<^item> \<open>Cpu\<close> (kernel/cpu.c), \<open>Timing\<close> (kernel/tsc.c, kernel/i8259.c, port I/O): the outside world is a parameter \<open>device\<close> that answers the
    \<open>n\<close>-th access; \<open>io\<close> records what was written.
  \<^item> \<open>Console\<close> (kernel/vgacon.c, uart8250.c, porte9.c, lib/printk.c), \<open>List_Head\<close> (include/sys/list.h), \<open>Spinlock\<close> (include/sys/spinlock.h):
    writing to a console is a function; the list of consoles in memory, followed through its pointers, is the list of these functions;
    the lock of the log is free between messages, so that it is left out elsewhere.
  \<^item> \<open>Traps\<close> (kernel/idt.c, kernel/traps.c, asm/desc.h), \<open>Panic\<close> (lib/panic.c, kernel/dumpstack.c, the handlers of kernel/idt.c): the tables
    bit by bit, \<open>trap_init\<close>, and the report before the machine stops.
  \<^item> \<open>Reports\<close>: the longer printing routines (memory map, table headers, MADT entries, VMX controls, the dump of the VMCS).
  \<^item> \<open>Start\<close> (vmm/main.c): the composition of the above by \<open>main\<close>, what its steps leave alone (\<open>kept\<close>), and a machine on which it runs to
    its end (\<open>main_run\<close>).
  \<^item> \<open>Spec2Isabelle\<close>, this file: the properties of the whole. From \<open>main\<close> to any state of the run loop the guest cannot reach the
    VMM and gets its memory; without the prerequisites it is never started.

  \<^bold>\<open>Interfaces.\<close> Locales state what a client relies on, interpretations discharge it for the model of the provider:
  \<open>bit_search\<close> (set and clear bits), \<open>comparator\<close> and \<open>sort_memory\<close> (the change points of kernel/e820.c), \<open>kvm_x86_ops\<close> (the
  functions of vmm/vmx.c behind the loop of vmm/kvm.c), \<open>elf_format\<close> (both classes of ELF files), \<open>apic_driver\<close> (both drivers) and
  \<open>consoles\<close> (those that \<open>main\<close> registers).

  \<^bold>\<open>How effects are modelled.\<close> State is passed explicitly. A function that may panic returns \<open>stop + 'a\<close>. Integers have the width they have
  in C; lengths and loop counters that the code keeps within bounds are natural numbers where this is shown or evident. A loop that may
  run forever is a \<open>partial_function\<close> on options, \<open>None\<close> meaning that it does not return: scans for the end of a string, \<open>udelay\<close> and the
  wait of the serial port (the clock or the port may stand still), the walk over subtables of length 0, the walk over call
  frames, walks over linked lists, sorting elements of size 0. Theorems about these say when they return. Loops that the code bounds carry
  its bounds: 50000 readings when the clock is calibrated against the timer, 2330 in the quick calibration, 1000 when
  waiting for the interrupt command register. No definition takes fuel that the code does not have.

  \<^bold>\<open>Parameters\<close>, of which only what the theorems name is assumed: what the processor does (record \<open>cpu\<close>: CPUID, which VMCS writes succeed,
  addresses of its tables); the devices; the guest between entry and exit, a relation that may change everything the
  processor lets a guest change; the image of the firmware and the link-time layout (\<open>layout\<close>, \<open>symbol\<close>, \<open>off\<close>, \<open>lit\<close> for the
  addresses of symbols, per-CPU data and string literals); the configured number of processors.

  \<^bold>\<open>What is shown.\<close> The leading properties are about isolation: no reachable state lets the guest reach the image of the VMM, memory that the
  map gives to the guest is served, controls and intercepted registers keep their values. Then come the operations
  they rest on, each with its behaviour on all branches and its errors: page tables, VMCS, world switch, exits, memory
  map, boot information, firmware, APIC, ACPI, descriptor tables, clock, consoles, panic, formatted output, strings, bit searches, sorting, lists.

  \<^bold>\<open>Not modelled\<close>: the entry points in assembly (vmm/head.S, vmm/firmware.S, firmware/head.S, kernel/entry.S, lib/faststring.S), which switch modes
  and save registers around the C code; storage and linking (per-CPU sections, stacks, linker scripts) and generated tables of
  names (kernel/capflags.c); short notices (\<open>pr_info\<close>) that
  functions print on their way, which have no influence on the state that is modelled; structures and constants of headers that nothing uses; the
  programs for testing guests under tests/.
\<close>

section \<open>From the boot loader to the running guest\<close>

lemma violation_serves:
  assumes "vmm_ready L s" "outside_image L (unat a)" "unat a < 2 ^ 32"
  shows "\<exists>s'. handle_ept_violation L a s = Inr s' \<and> ept_translate (memory s') (vmcs s' EPT_POINTER) a = Some a"
proof -
  have L: "layout_ok L" and m: "ept_ok L (pml4_0_512g_initialized s) (memory s)" and p: "vmcs s EPT_POINTER = ept_pml4 L OR 6 OR push_bit 3 3"
    using assms(1) by (simp_all add: vmm_ready_def vm_ok_def)
  obtain s' where h: "handle_ept_violation L a s = Inr s'"
    using assms(2,3) by (auto simp: handle_ept_violation_def outside_image_def panic_if_def SZ_4G_def Let_def word_le_nat_alt word_less_nat_alt)
  note H = handle_ept_violation_ok[OF L m h]
  have ok: "ept_ok L True (memory s')" using H(1,2) by simp
  have k: "page_2m a < 2048" using H(5) by (simp add: page_2m_def div_less_iff_less_mult)
  then have "read64 (memory s') (slot (ept_pd_0_4g L) (page_2m a)) \<noteq> 0"
    using H(3) leaf_entry(4)[OF k] by (simp add: page_2m_def)
  moreover have "vmcs s' EPT_POINTER = vmcs s EPT_POINTER" using H(6) by auto
  ultimately have "ept_translate (memory s') (vmcs s' EPT_POINTER) a = Some a"
    using assms(3) p ept_translate_exact[OF L ok vmx_eptp(1)[OF L], of a] by (simp add: below_4g_def)
  then show ?thesis using h by blast
qed

text \<open>C2: the whole way. Let the VMM boot: it reads the boot loader's map (\<open>multiboot_init\<close>), prepares
  guest memory (\<open>kvm_init\<close>), starts the virtual CPU (\<open>kvm_bsp_run\<close>) and loops. In every state the
  loop reaches, whatever the guest did, an address below 4 GB that the map given to the guest
  calls RAM is served when the guest touches it: the violation handler returns and the address
  then translates to itself; and what the map does not hide is never in the VMM's image.\<close>

theorem guest_memory_served:
  assumes "valid_state e0" "multiboot_init L gp magic mbi m0 e0 = Some (Inr (m1, e1))"
    and "image_ok c L gp (unat (fw_end - fw_start)) s0" "apart gp (unat gp_size) firmware_va (unat gp_size)"
    and kvm: "kvm_init gp fw_start fw_end caps (table e1) s0 = Inr s1"
    and "kvm_bsp_start c L s1 = Inr s2" "kvm_loop (vmx_run c) (vmx_exit c L) s2 s"
    and ram: "E820_TYPE_RAM \<in># types_at (read_table (memory s1) firmware_va) a" "unat a < 2 ^ 32"
  shows "outside_image L (unat a) \<and>
    (\<exists>s'. handle_ept_violation L a s = Inr s' \<and> ept_translate (memory s') (vmcs s' EPT_POINTER) a = Some a)"
proof -
  have L: "layout_ok L" using assms(3) by (simp add: image_ok_def)
  have le: "img_start L \<le> img_end L" using L by (auto simp: layout_ok_def word_le_nat_alt)
  note mask = multiboot_init_masks[OF assms(1) le assms(2)]
  have "vmm_ready L s2" by (rule bsp_start_ready[OF kvm_init_boot_ok[OF assms(3) mask(1) kvm] assms(6)])
  then have r: "vmm_ready L s" by (rule vmx.loop_ready[OF assms(7)])
  have "E820_TYPE_RAM \<in># types_at (used (table e1)) a"
    using ram(1) kvm_init_table[OF kvm mask(1) assms(4)] by simp
  then have out: "outside_image L (unat a)" using mask(2)[of a] by (force simp: outside_image_def word_le_nat_alt word_less_nat_alt not_le)
  show ?thesis using out violation_serves[OF r out ram(2)] by blast
qed

lemma sample_image_ok: "image_ok open_cpu small_layout 0x10100000 (unat (0x10200008 - 0x10200000 :: u64)) sample_machine"
proof -
  have "ept_ok small_layout False (memory sample_machine)"
    by (rule empty_tables) (auto simp: sample_machine_def firmware_memory_def)
  then show ?thesis using small_layout_ok
    by (simp add: image_ok_def tables_def sample_machine_def capable_machine_def zero_machine_def NR_AUTOLOAD_MSRS_def apart_def
        small_layout_def open_cpu_def firmware_va gp_size_def)
qed

lemma sample_starts:
  assumes "kvm_init 0x10100000 0x10200000 0x10200008 [0, 0, BIT_64 5] t sample_machine = Inr v" "valid_table t"
  shows "\<exists>s. kvm_bsp_start open_cpu small_layout v = Inr s"
proof -
  obtain h m where h: "vmx_hardware_setup sample_machine = Inr h" and v: "v = h\<lparr>memory := m\<rparr>"
    and m: "copy_guest_params 0x10100000 0x10200000 0x10200008 t (memory h) = Inr m"
    using assms(1) by (auto simp: kvm_init_def and_then_eq_Inr)
  note f = hardware_setup_frame[OF h]
  have "m 0x10200045 = memory h 0x10200045" by (rule copy_guest_params_other[OF m assms(2)]) (simp_all add: firmware_va gp_size_def)
  then have "memory v 0x10200045 = 0x80" by (simp add: v f sample_machine_def firmware_memory_def)
  then have "host_ok open_cpu v" by (simp add: host_ok_def open_cpu_def GDT_ENTRY_TSS_def bit_numeral_rec)
  then show ?thesis by (rule open_cpu_starts) (simp add: v f sample_machine_def capable_machine_def zero_machine_def)
qed

theorem guest_memory_served_witness:
  "\<exists>s s'. handle_ept_violation small_layout 0x200000 s = Inr s' \<and> ept_translate (memory s') (vmcs s' EPT_POINTER) 0x200000 = Some 0x200000"
proof -
  obtain m1 s1 v where init: "multiboot_init small_layout 0x10100000 0x2BADB002 0x9000 boot_memory boot_state = Some (Inr (m1, s1))"
    and kvm: "kvm_init 0x10100000 0x10200000 0x10200008 [0, 0, BIT_64 5] (table s1) sample_machine = Inr v"
    and ram: "E820_TYPE_RAM \<in># types_at (used (table s1)) 0x200000" and t: "valid_table (table s1)" by (rule sample_boot)
  obtain s where s: "kvm_bsp_start open_cpu small_layout v = Inr s" using sample_starts[OF kvm t] by blast
  have "E820_TYPE_RAM \<in># types_at (read_table (memory v) firmware_va) 0x200000" using ram kvm_init_table[OF kvm t sample_apart] by simp
  from guest_memory_served[OF boot_table_valid(1) init sample_image_ok sample_apart kvm s loop_start this] show ?thesis by auto
qed

section \<open>Starting from main\<close>

text \<open>C1: isolation from \<open>main\<close> on. Let the machine come from the boot loader with the image as it was linked, the page tables apart from the
  processor's entry area and from the registers of the local APIC. When \<open>main\<close> reaches the virtual CPU, in every
  state of the loop, whatever the guest did, the processor translates guest addresses only to themselves, below 4 GB and
  outside the image of the VMM, the image is as it was apart from the page tables, and every address below 4 GB
  outside the image is served when the guest touches it.\<close>

theorem main_isolates:
  assumes "valid_state e" "idt_empty t" "image_ok c L gp (unat (fw_end - fw_start)) (platform t)"
    and "\<And>T n. (T, n) \<in> tables L \<Longrightarrow> apart (get_cpu_entry_area symbol off 0) 4200 T (8 * n)"
    and "\<And>t' io' a e1 T n. early_init c d symbol off (t, io) = Some (Inr (t', io')) \<Longrightarrow>
      platform_init c L gp NR_CPUS magic mbi e (platform t') = Some (Inr (a, e1)) \<Longrightarrow> (T, n) \<in> tables L \<Longrightarrow> apart (acpi_lapic_addr a) 1024 T (8 * n)"
    and "vmm_main c d symbol off L gp fw_start fw_end NR_CPUS magic mbi e (t, io) = Some (Inr s0)"
    and loop: "kvm_loop (vmx_run c) (vmx_exit c L) s0 s"
  shows "(\<forall>gpa hpa. ept_translate (memory s) (vmcs s EPT_POINTER) gpa = Some hpa \<longrightarrow>
      hpa = gpa \<and> unat gpa < 2 ^ 32 \<and> outside_image L (unat gpa)) \<and> image_kept L s0 s \<and>
    (\<forall>a. unat a < 2 ^ 32 \<longrightarrow> outside_image L (unat a) \<longrightarrow>
      (\<exists>s'. handle_ept_violation L a s = Inr s' \<and> ept_translate (memory s') (vmcs s' EPT_POINTER) a = Some a))"
proof -
  obtain s1 where "boot_ok c L s1" "kvm_bsp_start c L s1 = Inr s0" by (rule main_ready[OF assms(1-6)])
  then have r0: "vmm_ready L s0" by (rule bsp_start_ready)
  have r: "vmm_ready L s" by (rule vmx.loop_ready[OF loop r0])
  then have L: "layout_ok L" and m: "ept_ok L (pml4_0_512g_initialized s) (memory s)"
    and p: "vmcs s EPT_POINTER = ept_pml4 L OR 6 OR push_bit 3 3" by (simp_all add: vmm_ready_def vm_ok_def)
  show ?thesis using ept_ok_isolates[OF L m vmx_eptp(1)[OF L]] vmx.loop_stable[OF loop r0] violation_serves[OF r] unfolding p by blast
qed

theorem main_isolates_witness:
  "\<exists>s0 s'. vmm_main main_cpu still_device main_symbol (\<lambda>_. 0) small_layout 0x10100000 0x10200000 0x10200008 1 0x2BADB002 0x9000 boot_state
      (main_traps, \<lparr>io_out = [], io_time = 0\<rparr>) = Some (Inr s0) \<and>
    handle_ept_violation small_layout 0x200000 s0 = Inr s' \<and> ept_translate (memory s') (vmcs s' EPT_POINTER) 0x200000 = Some 0x200000"
proof -
  let ?io = "\<lparr>io_out = [], io_time = 0\<rparr>"
  obtain s0 where run: "vmm_main main_cpu still_device main_symbol (\<lambda>_. 0) small_layout 0x10100000 0x10200000 0x10200008 1 0x2BADB002 0x9000 boot_state
      (main_traps, ?io) = Some (Inr s0)" by (rule main_run)
  have e: "idt_empty main_traps" using fresh_empty by (simp add: main_traps_def idt_empty_def)
  have im: "image_ok main_cpu small_layout 0x10100000 (unat (0x10200008 - 0x10200000 :: u64)) (platform main_traps)" using main_image by simp
  have area: "apart (get_cpu_entry_area main_symbol (\<lambda>_. 0) 0) 4200 T (8 * n)" if "(T, n) \<in> tables small_layout" for T n
    using that by (auto simp: tables_def small_layout_def get_cpu_entry_area_def main_symbol_def apart_def)
  have lapic: "apart (acpi_lapic_addr a) 1024 T (8 * n)"
    if r: "early_init main_cpu still_device main_symbol (\<lambda>_. 0) (main_traps, ?io) = Some (Inr (t', io'))"
      "platform_init main_cpu small_layout 0x10100000 1 0x2BADB002 0x9000 boot_state (platform t') = Some (Inr (a, e1))"
      and T: "(T, n) \<in> tables small_layout" for t' io' a e1 T n
  proof -
    have "acpi_lapic_addr a = 0xfee00000" by (rule main_platform[OF r(1)]) (use r(2) in simp)
    then show ?thesis using T by (auto simp: tables_def small_layout_def apart_def)
  qed
  have low: "unat (0x200000 :: u64) < 2 ^ 32" "outside_image small_layout (unat (0x200000 :: u64))"
    by (simp_all add: outside_image_def small_layout_def)
  have "\<exists>s'. handle_ept_violation small_layout 0x200000 s0 = Inr s' \<and> ept_translate (memory s') (vmcs s' EPT_POINTER) 0x200000 = Some 0x200000"
    by (rule main_isolates[OF boot_table_valid(1) e im _ _ run loop_start, THEN conjunct2, THEN conjunct2, rule_format])
       (erule area, erule (2) lapic, (rule low)+)
  then show ?thesis using run by blast
qed

text \<open>C22: what \<open>main\<close> insists on. The guest is never started on a machine whose boot loader did not give the multiboot magic, or whose
  processor, asked by CPUID, does not have leaf 1, VMX or a local APIC, or whose local APIC is
  disabled.\<close>

theorem main_refuses:
  fixes c :: cpu
  defines "leaf1 \<equiv> cpuid c 1 0"
  assumes "idt_empty t"
    and "magic \<noteq> 0x2BADB002 \<or> sint (reg_eax (cpuid c 0 0)) < 1 \<or> \<not> bit (reg_ecx leaf1) 5 \<or> \<not> bit (reg_edx leaf1) 9 \<or>
      \<not> bit (msrs (platform t) MSR_IA32_APICBASE) 11"
  shows "\<nexists>s. vmm_main c d symbol off L gp fw_start fw_end NR_CPUS magic mbi e (t, io) = Some (Inr s)"
proof
  assume "\<exists>s. vmm_main c d symbol off L gp fw_start fw_end NR_CPUS magic mbi e (t, io) = Some (Inr s)"
  then obtain t' io' a e1 where early: "early_init c d symbol off (t, io) = Some (Inr (t', io'))"
    and plat: "platform_init c L gp NR_CPUS magic mbi e (platform t') = Some (Inr (a, e1))"
    and "\<exists>s1. kvm_init gp fw_start fw_end (capability_words (x86_capability (cpu_init (cpuid c) cpu_info))) (table e1) (hardware a) = Inr s1"
    by (auto simp: vmm_main_def and_then_eq_Inr split: option.splits sum.splits)
  then obtain s1 where kvm: "kvm_init gp fw_start fw_end (capability_words (x86_capability (cpu_init (cpuid c) cpu_info))) (table e1) (hardware a) = Inr s1"
    by blast
  obtain m initial_tables where multi: "multiboot_init L gp magic mbi (memory (platform t')) e = Some (Inr (m, e1))"
    and ap: "apic_init NR_CPUS (capability_words (x86_capability (cpu_init (cpuid c) cpu_info))) 0 initial_tables (boot_apic NR_CPUS ((platform t')\<lparr>memory := m\<rparr>)) = Some (Inr a)"
    using plat by (auto simp: platform_init_def and_then_eq_Inr Let_def split: option.splits sum.splits)
  obtain v where v: "verify_apic (capability_words (x86_capability (cpu_init (cpuid c) cpu_info))) (boot_apic NR_CPUS ((platform t')\<lparr>memory := m\<rparr>)) = Inr v"
    using ap by (auto simp: apic_init_def split: sum.splits)
  have "bit (msrs (platform t) MSR_IA32_APICBASE) 11"
    using verify_apic_requires(2)[OF v] early_init_msrs[OF assms(2) early] by (simp add: boot_apic_def)
  moreover have "magic = 0x2BADB002" using multi by (auto simp: multiboot_init_def MULTIBOOT_BOOTLOADER_MAGIC_def split: if_splits)
  moreover have "bit (capability_spec (cpuid c) ! 0) 9"
    using verify_apic_requires(1)[OF v] capability_bit[of X86_FEATURE_APIC] by (simp add: X86_FEATURE_APIC_def)
  moreover have "bit (capability_spec (cpuid c) ! 4) 5"
    using kvm capability_bit[of X86_FEATURE_VMX]
    by (auto simp: kvm_init_def and_then_eq_Inr vmx_cpu_has_kvm_support_def X86_FEATURE_VMX_def)
  ultimately show False
    using assms(3) unfolding leaf1_def by (auto simp: capability_spec_def Let_def word_if_def split: if_splits)
qed

theorem main_refuses_witness:
  "\<nexists>s. vmm_main open_cpu pit_device (\<lambda>_. 0) (\<lambda>_. 0) small_layout 0x10100000 0x10200000 0x10200008 1 0x2BADB002 0x9000 boot_state
     (fresh_traps, \<lparr>io_out = [], io_time = 0\<rparr>) = Some (Inr s)"
  by (rule main_refuses[OF fresh_empty]) (simp add: open_cpu_def reg_simps)

end
